(* ===== verification/Prelude.thy ===== *)
theory Prelude
  imports Main "HOL-Library.Char_ord" "HOL-Library.List_Lexorder" "HOL-Library.Word"
begin

text \<open>
  What every component of the development shares.

  \<^item> Go errors as values of one datatype, with the chain that \<open>%w\<close> builds and the
    \<open>errors.Is\<close> and \<open>errors.As\<close> walks along it.
  \<^item> Effectful Go functions as state transformers that return either an error or a value
    and always return the new state (a Go function that returns an error keeps the writes
    it made before it). The state is left polymorphic, so the Kubernetes API server and the
    rest of the outside world are an abstract type that only parameters of the model touch.
  \<^item> A weakest-precondition function for those programs, with one simp equation per
    combinator in the collection \<open>wp_simps\<close> and one invariant rule per loop.
  \<^item> The Go string functions the components call, over the bytes of a string.
  \<^item> List and map lemmas.
\<close>

named_theorems wp_simps "equations of the weakest precondition"
named_theorems go_strings "equations of the Go string functions"

section \<open>Errors\<close>

datatype kube_error = NotFound | AlreadyExists | Conflict | InvalidObject | OtherKubeError string

datatype go_error =
    ErrText string                        \<comment> \<open>\<open>errors.New\<close>, or \<open>fmt.Errorf\<close> without \<open>%w\<close>\<close>
  | ErrWrap string go_error               \<comment> \<open>\<open>fmt.Errorf("...: %w", err)\<close>\<close>
  | ErrSentinel string                    \<comment> \<open>a package-level error value, by name\<close>
  | ErrKube kube_error                    \<comment> \<open>an error of the Kubernetes client, by class\<close>
  | ErrFault string string "go_error option" \<comment> \<open>\<open>fault.Error\<close>: code, message, cause\<close>
  | GoPanic string                        \<comment> \<open>a run-time panic: it is not an error return\<close>

text \<open>\<open>errors.Is(err, sentinel)\<close>: some error of the chain is that sentinel.\<close>

fun errors_is :: "go_error \<Rightarrow> string \<Rightarrow> bool" where
  "errors_is (ErrSentinel n) s \<longleftrightarrow> n = s"
| "errors_is (ErrWrap _ e) s \<longleftrightarrow> errors_is e s"
| "errors_is (ErrFault _ _ (Some e)) s \<longleftrightarrow> errors_is e s"
| "errors_is _ s \<longleftrightarrow> False"

text \<open>\<open>errors.As(err, &domain)\<close> for \<open>*fault.Error\<close>: the code of the first fault of the chain.\<close>

fun fault_code :: "go_error \<Rightarrow> string option" where
  "fault_code (ErrFault c _ _) = Some c"
| "fault_code (ErrWrap _ e) = fault_code e"
| "fault_code _ = None"

text \<open>The class of a Kubernetes API error; the class predicates look through wrapping.\<close>

fun kube_class :: "go_error \<Rightarrow> kube_error option" where
  "kube_class (ErrKube k) = Some k"
| "kube_class (ErrWrap _ e) = kube_class e"
| "kube_class (ErrFault _ _ (Some e)) = kube_class e"
| "kube_class _ = None"

abbreviation is_not_found :: "go_error \<Rightarrow> bool" where
  "is_not_found e \<equiv> kube_class e = Some NotFound"

abbreviation is_already_exists :: "go_error \<Rightarrow> bool" where
  "is_already_exists e \<equiv> kube_class e = Some AlreadyExists"

abbreviation is_conflict :: "go_error \<Rightarrow> bool" where
  "is_conflict e \<equiv> kube_class e = Some Conflict"

abbreviation is_invalid :: "go_error \<Rightarrow> bool" where
  "is_invalid e \<equiv> kube_class e = Some InvalidObject"

fun is_panic :: "go_error \<Rightarrow> bool" where
  "is_panic (GoPanic _) = True"
| "is_panic _ = False"

text \<open>\<open>err.Error()\<close> of the errors whose text the code builds itself.\<close>

fun error_text :: "go_error \<Rightarrow> string" where
  "error_text (ErrText s) = s"
| "error_text (ErrWrap m e) = m @ '': '' @ error_text e"
| "error_text (ErrFault c m cause) =
     (if m = [] then c else m) @ (case cause of None \<Rightarrow> [] | Some e \<Rightarrow> '': '' @ error_text e)"
| "error_text _ = []"

section \<open>Programs\<close>

type_synonym ('s, 'a) prog = "'s \<Rightarrow> (go_error + 'a) \<times> 's"

definition ok :: "'a \<Rightarrow> ('s, 'a) prog" where
  "ok a = (\<lambda>s. (Inr a, s))"

definition fail :: "go_error \<Rightarrow> ('s, 'a) prog" where
  "fail e = (\<lambda>s. (Inl e, s))"

text \<open>\<open>seq m f\<close>: run \<open>m\<close>; an error returns at once (\<open>if err != nil { return err }\<close>).\<close>

definition seq :: "('s, 'a) prog \<Rightarrow> ('a \<Rightarrow> ('s, 'b) prog) \<Rightarrow> ('s, 'b) prog" where
  "seq m f = (\<lambda>s. case m s of (Inl e, s') \<Rightarrow> (Inl e, s') | (Inr a, s') \<Rightarrow> f a s')"

text \<open>\<open>on_err m h\<close>: an error return of \<open>m\<close> is mapped by \<open>h\<close>; a panic is not caught.\<close>

definition on_err :: "('s, 'a) prog \<Rightarrow> (go_error \<Rightarrow> ('s, 'a) prog) \<Rightarrow> ('s, 'a) prog" where
  "on_err m h = (\<lambda>s. case m s of
     (Inl e, s') \<Rightarrow> (if is_panic e then (Inl e, s') else h e s')
   | (Inr a, s') \<Rightarrow> (Inr a, s'))"

text \<open>\<open>attempt m\<close>: the pair \<open>a, err := m\<close> as a value, for code that inspects the error.\<close>

definition attempt :: "('s, 'a) prog \<Rightarrow> ('s, go_error + 'a) prog" where
  "attempt m = (\<lambda>s. case m s of
     (Inl e, s') \<Rightarrow> (if is_panic e then (Inl e, s') else (Inr (Inl e), s'))
   | (Inr a, s') \<Rightarrow> (Inr (Inr a), s'))"

definition reading :: "('s \<Rightarrow> 'a) \<Rightarrow> ('s, 'a) prog" where
  "reading g = (\<lambda>s. (Inr (g s), s))"

definition modify :: "('s \<Rightarrow> 's) \<Rightarrow> ('s, unit) prog" where
  "modify g = (\<lambda>s. (Inr (), g s))"

text \<open>A program on the second or the first component of the state.\<close>

definition on_snd :: "('w, 'a) prog \<Rightarrow> ('o \<times> 'w, 'a) prog" where
  "on_snd m = (\<lambda>(x, w). case m w of (r, w') \<Rightarrow> (r, (x, w')))"

text \<open>Running a program that also has an object in memory; the object it leaves is returned.\<close>

definition on_obj :: "'o \<Rightarrow> ('o \<times> 'w, 'a) prog \<Rightarrow> ('w, 'a \<times> 'o) prog" where
  "on_obj x m = (\<lambda>w. case m (x, w) of
     (Inl e, (x', w')) \<Rightarrow> (Inl e, w') | (Inr a, (x', w')) \<Rightarrow> (Inr (a, x'), w'))"

text \<open>A \<open>for\<close> loop over a slice that threads an accumulator; an error leaves the loop.\<close>

fun fold_prog :: "('b \<Rightarrow> 'a \<Rightarrow> ('s, 'b) prog) \<Rightarrow> 'b \<Rightarrow> 'a list \<Rightarrow> ('s, 'b) prog" where
  "fold_prog f b [] = ok b"
| "fold_prog f b (x # xs) = seq (f b x) (\<lambda>b'. fold_prog f b' xs)"

text \<open>A pure result as a program; \<open>fmt.Errorf(msg + ": %w", err)\<close>; \<open>client.IgnoreNotFound\<close>.\<close>

definition give :: "go_error + 'a \<Rightarrow> ('s, 'a) prog" where
  "give r = (case r of Inl e \<Rightarrow> fail e | Inr a \<Rightarrow> ok a)"

definition wrap :: "string \<Rightarrow> ('s, 'a) prog \<Rightarrow> ('s, 'a) prog" where
  "wrap msg m = on_err m (\<lambda>e. fail (ErrWrap msg e))"

definition ignore_not_found :: "('s, unit) prog \<Rightarrow> ('s, unit) prog" where
  "ignore_not_found m = on_err m (\<lambda>e. if is_not_found e then ok () else fail e)"

section \<open>Weakest preconditions\<close>

text \<open>
  \<open>wp m Q E s\<close>: from \<open>s\<close>, a normal return of \<open>m\<close> satisfies \<open>Q\<close> and an error return
  satisfies \<open>E\<close>.
\<close>

definition wp :: "('s, 'a) prog \<Rightarrow> ('a \<Rightarrow> 's \<Rightarrow> bool) \<Rightarrow> (go_error \<Rightarrow> 's \<Rightarrow> bool) \<Rightarrow> 's \<Rightarrow> bool" where
  "wp m Q E s \<longleftrightarrow> (case m s of (Inl e, s') \<Rightarrow> E e s' | (Inr a, s') \<Rightarrow> Q a s')"

lemma wp_ok [wp_simps]: "wp (ok a) Q E s \<longleftrightarrow> Q a s"
  by (simp add: wp_def ok_def)

lemma wp_fail [wp_simps]: "wp (fail e) Q E s \<longleftrightarrow> E e s"
  by (simp add: wp_def fail_def)

lemma wp_seq [wp_simps]: "wp (seq m f) Q E s \<longleftrightarrow> wp m (\<lambda>a. wp (f a) Q E) E s"
  by (simp add: wp_def seq_def split: prod.splits sum.splits)

lemma wp_on_err [wp_simps]:
  "wp (on_err m h) Q E s \<longleftrightarrow> wp m Q (\<lambda>e s'. if is_panic e then E e s' else wp (h e) Q E s') s"
  by (simp add: wp_def on_err_def split: prod.splits sum.splits)

lemma wp_attempt [wp_simps]:
  "wp (attempt m) Q E s \<longleftrightarrow>
     wp m (\<lambda>a. Q (Inr a)) (\<lambda>e s'. if is_panic e then E e s' else Q (Inl e) s') s"
  by (simp add: wp_def attempt_def split: prod.splits sum.splits)

lemma wp_reading [wp_simps]: "wp (reading g) Q E s \<longleftrightarrow> Q (g s) s"
  by (simp add: wp_def reading_def)

lemma wp_seq_reading: "wp (seq (reading g) f) Q E s \<longleftrightarrow> wp (f (g s)) Q E s"
  by (simp add: wp_seq wp_reading)

lemma wp_modify [wp_simps]: "wp (modify g) Q E s \<longleftrightarrow> Q () (g s)"
  by (simp add: wp_def modify_def)

lemma wp_on_snd [wp_simps]:
  "wp (on_snd m) Q E (x, w) \<longleftrightarrow> wp m (\<lambda>a w'. Q a (x, w')) (\<lambda>e w'. E e (x, w')) w"
  by (simp add: wp_def on_snd_def split: prod.splits sum.splits)

lemma wp_on_obj [wp_simps]:
  "wp (on_obj x m) Q E w \<longleftrightarrow> wp m (\<lambda>a s. Q (a, fst s) (snd s)) (\<lambda>e s. E e (snd s)) (x, w)"
  by (simp add: wp_def on_obj_def split: prod.splits sum.splits)

lemma wp_if [wp_simps]:
  "wp (if b then m else n) Q E s \<longleftrightarrow> (if b then wp m Q E s else wp n Q E s)"
  by simp

lemma wp_option [wp_simps]:
  "wp (case x of None \<Rightarrow> m | Some y \<Rightarrow> n y) Q E s \<longleftrightarrow>
     (case x of None \<Rightarrow> wp m Q E s | Some y \<Rightarrow> wp (n y) Q E s)"
  by (simp split: option.splits)

lemma wp_sum [wp_simps]:
  "wp (case x of Inl e \<Rightarrow> m e | Inr y \<Rightarrow> n y) Q E s \<longleftrightarrow>
     (case x of Inl e \<Rightarrow> wp (m e) Q E s | Inr y \<Rightarrow> wp (n y) Q E s)"
  by (simp split: sum.splits)

lemma wp_prod [wp_simps]:
  "wp (case x of (a, b) \<Rightarrow> m a b) Q E s \<longleftrightarrow> (case x of (a, b) \<Rightarrow> wp (m a b) Q E s)"
  by (simp split: prod.splits)

lemma wp_let [wp_simps]: "wp (Let x m) Q E s \<longleftrightarrow> (let y = x in wp (m y) Q E s)"
  by simp

lemma wp_run_eq: "m s = m' s' \<Longrightarrow> wp m Q E s \<longleftrightarrow> wp m' Q E s'"
  by (simp add: wp_def)

lemma wp_give [wp_simps]: "wp (give r) Q E s \<longleftrightarrow> (case r of Inl e \<Rightarrow> E e s | Inr a \<Rightarrow> Q a s)"
  by (simp add: give_def wp_simps split: sum.split)

lemma wp_wrap [wp_simps]:
  "wp (wrap msg m) Q E s \<longleftrightarrow> wp m Q (\<lambda>e. if is_panic e then E e else E (ErrWrap msg e)) s"
  by (simp add: wp_def wrap_def on_err_def fail_def split: prod.splits sum.splits)

lemma wp_ignore_not_found [wp_simps]:
  "wp (ignore_not_found m) Q E s \<longleftrightarrow>
     wp m Q (\<lambda>e s. if \<not> is_panic e \<and> is_not_found e then Q () s else E e s) s"
  by (simp add: wp_def ignore_not_found_def on_err_def fail_def ok_def split: prod.splits sum.splits)

text \<open>Consequence, conjunction, and the loop rule with an invariant on the accumulator.\<close>

lemma wp_mono:
  assumes "wp m Q E s"
    and "\<And>a s'. Q a s' \<Longrightarrow> Q' a s'" and "\<And>e s'. E e s' \<Longrightarrow> E' e s'"
  shows "wp m Q' E' s"
  using assms by (simp add: wp_def split: prod.splits sum.splits)

lemma wp_conj:
  "wp m Q E s \<Longrightarrow> wp m Q' E' s \<Longrightarrow> wp m (\<lambda>a s. Q a s \<and> Q' a s) (\<lambda>e s. E e s \<and> E' e s) s"
  by (simp add: wp_def split: prod.splits sum.splits)

lemma wp_fold:
  assumes "I b s"
    and "\<And>b x s. x \<in> set xs \<Longrightarrow> I b s \<Longrightarrow> wp (f b x) I E s"
  shows "wp (fold_prog f b xs) I E s"
  using assms
proof (induction xs arbitrary: b s)
  case Nil
  then show ?case by (simp add: wp_ok)
next
  case (Cons x xs)
  then have first: "wp (f b x) I E s" by simp
  have "wp (f b x) (\<lambda>b'. wp (fold_prog f b' xs) I E) E s"
  proof (rule wp_mono [OF first])
    fix b' s'
    assume "I b' s'"
    then show "wp (fold_prog f b' xs) I E s'"
      by (rule Cons.IH) (simp add: Cons.prems(2))
  qed
  then show ?case by (simp add: wp_seq)
qed

text \<open>
  \<open>keeps I m Q E\<close>: \<open>m\<close> keeps the invariant \<open>I\<close> of the state, a normal return satisfies
  \<open>Q\<close> and an error satisfies \<open>E\<close>. Its rules follow the structure of a program.
\<close>

definition keeps :: "('s \<Rightarrow> bool) \<Rightarrow> ('s, 'a) prog \<Rightarrow> ('a \<Rightarrow> bool) \<Rightarrow> (go_error \<Rightarrow> bool) \<Rightarrow> bool" where
  "keeps I m Q E \<longleftrightarrow> (\<forall>s. I s \<longrightarrow> wp m (\<lambda>a s. I s \<and> Q a) (\<lambda>e s. I s \<and> E e) s)"

named_theorems keeps_intro "rules of keeps for the combinators and the operations"

lemma keepsI: "(\<And>s. I s \<Longrightarrow> wp m (\<lambda>a s. I s \<and> Q a) (\<lambda>e s. I s \<and> E e) s) \<Longrightarrow> keeps I m Q E"
  by (simp add: keeps_def)

lemma keepsD: "keeps I m Q E \<Longrightarrow> I s \<Longrightarrow> wp m (\<lambda>a s. I s \<and> Q a) (\<lambda>e s. I s \<and> E e) s"
  by (simp add: keeps_def)

lemma keeps_weaken:
  "keeps I m Q E \<Longrightarrow> (\<And>a. Q a \<Longrightarrow> Q' a) \<Longrightarrow> (\<And>e. E e \<Longrightarrow> E' e) \<Longrightarrow> keeps I m Q' E'"
  unfolding keeps_def by (blast intro: wp_mono)

lemma keeps_ok [keeps_intro]: "Q a \<Longrightarrow> keeps I (ok a) Q E"
  by (simp add: keeps_def wp_simps)

lemma keeps_fail [keeps_intro]: "E e \<Longrightarrow> keeps I (fail e) Q E"
  by (simp add: keeps_def wp_simps)

lemma keeps_seq:
  "keeps I m P E \<Longrightarrow> (\<And>a. P a \<Longrightarrow> keeps I (f a) Q E) \<Longrightarrow> keeps I (seq m f) Q E"
  unfolding keeps_def wp_seq by (blast intro: wp_mono)

lemma keeps_reading [keeps_intro]: "keeps I (reading g) (\<lambda>_. True) E"
  by (simp add: keeps_def wp_reading)

lemma keeps_seq_any:
  "keeps I m (\<lambda>_. True) E \<Longrightarrow> (\<And>a. keeps I (f a) Q E) \<Longrightarrow> keeps I (seq m f) Q E"
  by (rule keeps_seq) auto

lemma keeps_on_err:
  assumes "keeps I m Q F" and "\<And>e. F e \<Longrightarrow> is_panic e \<Longrightarrow> E e"
    and "\<And>e. F e \<Longrightarrow> \<not> is_panic e \<Longrightarrow> keeps I (h e) Q E"
  shows "keeps I (on_err m h) Q E"
proof (rule keepsI)
  fix s
  assume "I s"
  show "wp (on_err m h) (\<lambda>a s. I s \<and> Q a) (\<lambda>e s. I s \<and> E e) s"
    unfolding wp_on_err
    by (rule wp_mono [OF keepsD [OF assms(1) \<open>I s\<close>]]) (auto dest: assms(2,3) keepsD)
qed

lemma keeps_attempt:
  assumes "keeps I m P F" and "\<And>e. F e \<Longrightarrow> is_panic e \<Longrightarrow> E e"
    and "\<And>e. F e \<Longrightarrow> \<not> is_panic e \<Longrightarrow> Q (Inl e)" and "\<And>a. P a \<Longrightarrow> Q (Inr a)"
  shows "keeps I (attempt m) Q E"
proof (rule keepsI)
  fix s
  assume "I s"
  show "wp (attempt m) (\<lambda>a s. I s \<and> Q a) (\<lambda>e s. I s \<and> E e) s"
    unfolding wp_attempt
    by (rule wp_mono [OF keepsD [OF assms(1) \<open>I s\<close>]]) (auto dest: assms(2-4))
qed

lemma keeps_give: "(\<And>e. r = Inl e \<Longrightarrow> E e) \<Longrightarrow> (\<And>a. r = Inr a \<Longrightarrow> Q a) \<Longrightarrow> keeps I (give r) Q E"
  by (cases r) (simp_all add: keeps_def wp_simps)

lemma keeps_wrap:
  assumes "keeps I m Q F" and "\<And>e. F e \<Longrightarrow> is_panic e \<Longrightarrow> E e" and "\<And>e. F e \<Longrightarrow> \<not> is_panic e \<Longrightarrow> E (ErrWrap msg e)"
  shows "keeps I (wrap msg m) Q E"
  unfolding wrap_def by (rule keeps_on_err [OF assms(1,2)]) (auto intro: keeps_fail assms(3))

abbreviation no_panic :: "go_error \<Rightarrow> bool" where
  "no_panic e \<equiv> \<not> is_panic e"

lemma keeps_wrap_np: "keeps I m Q no_panic \<Longrightarrow> keeps I (wrap msg m) Q no_panic"
  by (rule keeps_wrap [where F = no_panic]) simp_all

lemma keeps_attempt_np:
  "keeps I m Q no_panic \<Longrightarrow>
     keeps I (attempt m) (\<lambda>r. case r of Inl e \<Rightarrow> no_panic e | Inr a \<Rightarrow> Q a) no_panic"
  by (rule keeps_attempt [where F = no_panic and P = Q]) simp_all

lemma keeps_attempt_any:
  "keeps I m (\<lambda>_. True) no_panic \<Longrightarrow> keeps I (attempt m) (\<lambda>r. \<forall>e. r = Inl e \<longrightarrow> no_panic e) no_panic"
  by (rule keeps_attempt [where F = no_panic]) simp_all

lemma keeps_ignore_not_found:
  assumes "keeps I m Q E" and "Q ()"
  shows "keeps I (ignore_not_found m) Q E"
  unfolding ignore_not_found_def by (rule keeps_on_err [OF assms(1)]) (auto intro: keeps_fail keeps_ok assms(2))

lemma keeps_if [keeps_intro]:
  "(b \<Longrightarrow> keeps I m Q E) \<Longrightarrow> (\<not> b \<Longrightarrow> keeps I n Q E) \<Longrightarrow> keeps I (if b then m else n) Q E"
  by simp

lemma keeps_option [keeps_intro]:
  "(x = None \<Longrightarrow> keeps I m Q E) \<Longrightarrow> (\<And>y. x = Some y \<Longrightarrow> keeps I (n y) Q E) \<Longrightarrow>
     keeps I (case x of None \<Rightarrow> m | Some y \<Rightarrow> n y) Q E"
  by (simp split: option.split)

lemma keeps_sum [keeps_intro]:
  "(\<And>e. x = Inl e \<Longrightarrow> keeps I (m e) Q E) \<Longrightarrow> (\<And>y. x = Inr y \<Longrightarrow> keeps I (n y) Q E) \<Longrightarrow>
     keeps I (case x of Inl e \<Rightarrow> m e | Inr y \<Rightarrow> n y) Q E"
  by (simp split: sum.split)

lemma keeps_prod [keeps_intro]:
  "(\<And>a b. x = (a, b) \<Longrightarrow> keeps I (m a b) Q E) \<Longrightarrow> keeps I (case x of (a, b) \<Rightarrow> m a b) Q E"
  by (simp split: prod.split)

lemma keeps_fold:
  assumes "J b" and "\<And>b x. x \<in> set xs \<Longrightarrow> J b \<Longrightarrow> keeps I (f b x) J E"
  shows "keeps I (fold_prog f b xs) J E"
  using assms
proof (induction xs arbitrary: b)
  case Nil
  then show ?case by (simp add: keeps_ok)
next
  case (Cons x xs)
  then show ?case by (auto intro!: keeps_seq [of I _ J])
qed

lemma keeps_run:
  "keeps I m Q E \<Longrightarrow> I s \<Longrightarrow> I (snd (m s)) \<and> (case fst (m s) of Inl e \<Rightarrow> E e | Inr a \<Rightarrow> Q a)"
  by (cases "m s") (auto simp: keeps_def wp_def split: sum.split)

text \<open>The shape in which properties are stated: the result of a run.\<close>

lemma wpD:
  assumes "wp m Q E s"
  shows "m s = (Inr a, s') \<Longrightarrow> Q a s'" and "m s = (Inl e, s') \<Longrightarrow> E e s'"
  using assms by (simp_all add: wp_def)

lemma wpI:
  assumes "\<And>a s'. m s = (Inr a, s') \<Longrightarrow> Q a s'" and "\<And>e s'. m s = (Inl e, s') \<Longrightarrow> E e s'"
  shows "wp m Q E s"
  using assms by (auto simp: wp_def split: prod.splits sum.splits)

text \<open>Evaluation of programs, for concrete runs.\<close>

lemma run_Inr: "\<not> isl (fst r) \<Longrightarrow> \<exists>a s. r = (Inr a, s)"
  by (cases r; cases "fst r") auto

lemma run_Inl: "isl (fst r) \<Longrightarrow> \<exists>e s. r = (Inl e, s)"
  by (cases r; cases "fst r") auto

lemmas run_defs = on_obj_def give_def wrap_def ignore_not_found_def ok_def fail_def seq_def on_err_def attempt_def reading_def modify_def on_snd_def

section \<open>Go strings\<close>

abbreviation sp :: "string" where
  "sp \<equiv> '' ''"

text \<open>\<open>strings.Split(s, sep)\<close> for a one-byte separator: never the empty list.\<close>

fun go_split :: "char \<Rightarrow> string \<Rightarrow> string list" where
  "go_split c [] = [[]]"
| "go_split c (x # xs) =
     (if x = c then [] # go_split c xs
      else (case go_split c xs of [] \<Rightarrow> [[x]] | p # ps \<Rightarrow> (x # p) # ps))"

text \<open>\<open>strings.Join(parts, sep)\<close>.\<close>

fun go_join :: "string \<Rightarrow> string list \<Rightarrow> string" where
  "go_join sep [] = []"
| "go_join sep [p] = p"
| "go_join sep (p # q # ps) = p @ sep @ go_join sep (q # ps)"

text \<open>\<open>strings.TrimSpace\<close>: the UTF-8 encodings of the code points \<open>unicode.IsSpace\<close> holds of.\<close>

definition space_encodings :: "string list" where
  "space_encodings =
     map (map char_of)
       ([[9], [10], [11], [12], [13], [32], [0xC2, 0x85], [0xC2, 0xA0], [0xE1, 0x9A, 0x80],
         [0xE2, 0x80, 0xA8], [0xE2, 0x80, 0xA9], [0xE2, 0x80, 0xAF], [0xE2, 0x81, 0x9F],
         [0xE3, 0x80, 0x80]]
        @ map (\<lambda>i. [0xE2, 0x80, 0x80 + i]) [0 ..< 11 :: nat])"

definition strip_one :: "string list \<Rightarrow> string \<Rightarrow> string option" where
  "strip_one encs s =
     (case find (\<lambda>e. e \<noteq> [] \<and> take (length e) s = e) encs of
        None \<Rightarrow> None | Some e \<Rightarrow> Some (drop (length e) s))"

lemma strip_one_shorter: "strip_one encs s = Some t \<Longrightarrow> length t < length s"
  by (auto simp: strip_one_def find_Some_iff split: option.splits)
     (metis diff_less length_greater_0_conv length_take min_0L take_eq_Nil)

function strip_left :: "string list \<Rightarrow> string \<Rightarrow> string" where
  "strip_left encs s = (case strip_one encs s of None \<Rightarrow> s | Some t \<Rightarrow> strip_left encs t)"
  by pat_completeness auto
termination
  by (relation "measure (\<lambda>(encs, s). length s)") (auto dest: strip_one_shorter)

declare strip_left.simps [simp del]

definition trim_space :: "string \<Rightarrow> string" where
  "trim_space s =
     rev (strip_left (map rev space_encodings) (rev (strip_left space_encodings s)))"

text \<open>A string whose first and last bytes are printing ASCII is its own trim.\<close>

definition ascii_graph :: "char \<Rightarrow> bool" where
  "ascii_graph c \<longleftrightarrow> (33 :: nat) \<le> of_char c \<and> (of_char c :: nat) < 127"

lemma space_encodings_edges:
  "\<forall>e \<in> set space_encodings. e = [] \<or> \<not> ascii_graph (hd e) \<and> \<not> ascii_graph (last e)"
  by code_simp

lemma strip_left_graph:
  assumes "\<forall>e \<in> set encs. e = [] \<or> \<not> ascii_graph (hd e)" and "s \<noteq> [] \<Longrightarrow> ascii_graph (hd s)"
  shows "strip_left encs s = s"
proof -
  have "\<not> (e \<noteq> [] \<and> take (length e) s = e)" if "e \<in> set encs" for e
  proof
    assume e: "e \<noteq> [] \<and> take (length e) s = e"
    then have "s \<noteq> []" by auto
    moreover from e have "hd e = hd s" by (metis hd_take length_greater_0_conv)
    ultimately show False using assms that e by auto
  qed
  then have "find (\<lambda>e. e \<noteq> [] \<and> take (length e) s = e) encs = None"
    by (auto simp: find_None_iff)
  then have "strip_one encs s = None" by (simp add: strip_one_def)
  then show ?thesis by (simp add: strip_left.simps)
qed

lemma trim_space_graph:
  assumes "s \<noteq> [] \<Longrightarrow> ascii_graph (hd s) \<and> ascii_graph (last s)"
  shows "trim_space s = s"
proof -
  have "strip_left space_encodings s = s"
    by (rule strip_left_graph) (use space_encodings_edges assms in auto)
  moreover have "strip_left (map rev space_encodings) (rev s) = rev s"
    by (rule strip_left_graph) (use space_encodings_edges assms in \<open>auto simp: hd_rev\<close>)
  ultimately show ?thesis by (simp add: trim_space_def)
qed

text \<open>\<open>strconv.Itoa\<close> and \<open>%d\<close>.\<close>

fun nat_digits :: "nat \<Rightarrow> string" where
  "nat_digits n =
     (if n < 10 then [char_of (48 + n)] else nat_digits (n div 10) @ [char_of (48 + n mod 10)])"

declare nat_digits.simps [simp del]

definition itoa :: "int \<Rightarrow> string" where
  "itoa i = (if i < 0 then CHR ''-'' # nat_digits (nat (- i)) else nat_digits (nat i))"

text \<open>Decimal numbers are read back.\<close>

definition digits_value :: "string \<Rightarrow> nat" where
  "digits_value s = foldl (\<lambda>a c. 10 * a + (of_char c - 48)) 0 s"

lemma nat_digits_value: "digits_value (nat_digits n) = n"
proof (induction n rule: nat_digits.induct)
  case (1 n)
  then show ?case
    by (subst nat_digits.simps) (auto simp: digits_value_def)
qed

lemma nat_digits_chars: "c \<in> set (nat_digits n) \<Longrightarrow> (48 :: nat) \<le> of_char c"
proof (induction n rule: nat_digits.induct)
  case (1 n)
  have "nat_digits n = (if n < 10 then [char_of (48 + n)] else nat_digits (n div 10) @ [char_of (48 + n mod 10)])"
    by (rule nat_digits.simps)
  with 1 show ?case by (auto split: if_splits)
qed

lemma nat_digits_first: "\<exists>c s. nat_digits n = c # s \<and> (48 :: nat) \<le> of_char c"
proof (induction n rule: nat_digits.induct)
  case (1 n)
  then show ?case by (subst nat_digits.simps) auto
qed

text \<open>
  The verb \<open>%q\<close>. Only its use inside error texts matters here: a quote or a backslash is
  escaped and every other byte is kept.
\<close>

definition quoted :: "string \<Rightarrow> string" where
  "quoted s = CHR 0x22 # concat (map (\<lambda>c. if c = CHR 0x22 \<or> c = CHR 0x5C then [CHR 0x5C, c] else [c]) s)
                @ [CHR 0x22]"

text \<open>Go's \<open>int32\<close>: a 32-bit word, read with \<open>sint\<close>; the conversion \<open>int32(x)\<close> wraps.\<close>

type_synonym int32 = "32 word"

abbreviation to_int32 :: "int \<Rightarrow> int32" where
  "to_int32 \<equiv> word_of_int"

lemma sint_to_int32: "- (2 ^ 31) \<le> x \<Longrightarrow> x < 2 ^ 31 \<Longrightarrow> sint (to_int32 x) = x"
  by (simp add: int_word_sint)

lemma sint_int32_range: "- (2 ^ 31) \<le> sint (i :: int32)" "sint (i :: int32) < 2 ^ 31"
  using sint_ge [of i] sint_lt [of i] by simp_all

lemma go_split_not_Nil [simp]: "go_split c s \<noteq> []"
  by (induction s) (auto split: list.splits)

lemma go_split_no_sep: "c \<notin> set s \<Longrightarrow> go_split c s = [s]"
  by (induction s) auto

lemma go_split_append:
  "c \<notin> set s \<Longrightarrow> go_split c (s @ c # t) = s # go_split c t"
  by (induction s) auto

lemma go_join_split: "go_join [c] (go_split c s) = s"
proof (induction s)
  case Nil
  then show ?case by simp
next
  case (Cons x s)
  obtain p ps where s: "go_split c s = p # ps"
    by (cases "go_split c s") auto
  with Cons.IH show ?case by (cases ps) auto
qed

section \<open>Go maps\<close>

text \<open>Reading a \<open>map[string]string\<close>: a missing key reads as the empty string.\<close>

definition map_str :: "('k \<rightharpoonup> string) \<Rightarrow> 'k \<Rightarrow> string" where
  "map_str m k = (case m k of None \<Rightarrow> [] | Some v \<Rightarrow> v)"

lemma map_str_update [simp]: "map_str (m(k \<mapsto> v)) k' = (if k' = k then v else map_str m k')"
  by (simp add: map_str_def)

lemma map_str_empty [simp]: "map_str Map.empty k = []"
  by (simp add: map_str_def)

section \<open>Lists\<close>

lemma distinct_map_nth_eq:
  "distinct (map f xs) \<Longrightarrow> i < length xs \<Longrightarrow> j < length xs \<Longrightarrow> f (xs ! i) = f (xs ! j) \<Longrightarrow> i = j"
  by (metis distinct_conv_nth length_map nth_map)

lemma find_SomeD: "find P xs = Some x \<Longrightarrow> x \<in> set xs \<and> P x"
  by (induction xs) (auto split: if_splits)

lemma find_exists: "x \<in> set xs \<Longrightarrow> P x \<Longrightarrow> \<exists>y. find P xs = Some y"
  by (induction xs) auto

text \<open>Consecutive blocks of sizes \<open>ws\<close> cover \<open>[0, sum ws)\<close> without overlap.\<close>

lemma block_of_position:
  fixes ws :: "int list"
  assumes "\<forall>w \<in> set ws. 0 \<le> w" and "0 \<le> r" and "r < sum_list ws"
  shows "\<exists>!i. i < length ws \<and> sum_list (take i ws) \<le> r \<and> r < sum_list (take i ws) + ws ! i"
  using assms
proof (induction ws arbitrary: r)
  case Nil
  then show ?case by simp
next
  case (Cons w ws)
  have nonneg: "0 \<le> sum_list (take i ws)" for i
    using Cons.prems(1) by (auto intro!: sum_list_nonneg dest: in_set_takeD)
  show ?case
  proof (cases "r < w")
    case True
    show ?thesis
    proof (intro ex1I [of _ 0])
      fix i
      assume i: "i < length (w # ws) \<and> sum_list (take i (w # ws)) \<le> r \<and>
        r < sum_list (take i (w # ws)) + (w # ws) ! i"
      show "i = 0" using i True nonneg [of "i - 1"] by (cases i) auto
    qed (use True Cons.prems in auto)
  next
    case False
    with Cons.prems have "0 \<le> r - w" "r - w < sum_list ws" "\<forall>x \<in> set ws. 0 \<le> x" by auto
    from Cons.IH [OF this(3,1,2)] obtain i where
      i: "i < length ws" "sum_list (take i ws) \<le> r - w" "r - w < sum_list (take i ws) + ws ! i"
      and u: "\<And>k. k < length ws \<Longrightarrow> sum_list (take k ws) \<le> r - w \<Longrightarrow>
                r - w < sum_list (take k ws) + ws ! k \<Longrightarrow> k = i" by blast
    show ?thesis
    proof (intro ex1I [of _ "Suc i"])
      fix k
      assume k: "k < length (w # ws) \<and> sum_list (take k (w # ws)) \<le> r \<and>
        r < sum_list (take k (w # ws)) + (w # ws) ! k"
      with False obtain m where "k = Suc m" by (cases k) auto
      with k u [of m] show "k = Suc i" by auto
    qed (use i in auto)
  qed
qed

lemma count_list_pos_iff [simp]: "0 < count_list xs x \<longleftrightarrow> x \<in> set xs"
  by (induction xs) auto

lemma filter_empty_iff: "filter P xs = [] \<longleftrightarrow> (\<forall>x \<in> set xs. \<not> P x)"
  by (induction xs) auto

end
