(* ===== verification/Kahn.thy ===== *)
theory Kahn
  imports Prelude
begin

text \<open>
  The work-list loop that \<open>utils.TopologicalSort\<close> and the coordinator's \<open>orderDesired\<close>
  share: take the front of the ready queue, emit it, decrement the in-degree of its
  dependants and enqueue those that reach zero. They differ only in how a name joins the
  queue: at the end, or sorted in. The locale \<open>ready_queue\<close> states what the loop needs of
  that operation, and both disciplines are interpretations of it.

  The loop is a \<open>partial_function\<close> into \<open>option\<close>: \<open>None\<close> would be a loop that never
  returns, and \<open>kahn_total\<close> shows that it always returns, with what it then holds.
\<close>

section \<open>The loop\<close>

text \<open>One pass over the dependants of an emitted name.\<close>

fun release :: "('a list \<Rightarrow> 'a \<Rightarrow> 'a list) \<Rightarrow> 'a list \<Rightarrow> 'a list \<Rightarrow> ('a \<Rightarrow> int) \<Rightarrow> 'a list \<times> ('a \<Rightarrow> int)" where
  "release enq [] q d = (q, d)"
| "release enq (c # cs) q d =
     (let d' = d(c := d c - 1);
          q' = (if d' c = 0 then enq q c else q)
      in release enq cs q' d')"

partial_function (option) kahn_loop ::
    "('a list \<Rightarrow> 'a \<Rightarrow> 'a list) \<Rightarrow> ('a \<Rightarrow> 'a list) \<Rightarrow> 'a list \<Rightarrow> ('a \<Rightarrow> int) \<Rightarrow> 'a list
      \<Rightarrow> ('a list \<times> ('a \<Rightarrow> int)) option" where
  "kahn_loop enq children q d acc =
     (case q of
        [] \<Rightarrow> Some (acc, d)
      | n # q' \<Rightarrow>
          (case release enq (children n) q' d of
             (q'', d') \<Rightarrow> kahn_loop enq children q'' d' (acc @ [n])))"

declare kahn_loop.simps [code]

lemma kahn_loop_run:
  "kahn_loop enq children [] d acc = Some (acc, d)"
  "kahn_loop enq children (n # q) d acc =
     (case release enq (children n) q d of (q', d') \<Rightarrow> kahn_loop enq children q' d' (acc @ [n]))"
  by (simp_all add: kahn_loop.simps)

definition fifo :: "'a list \<Rightarrow> 'a \<Rightarrow> 'a list" where
  "fifo q x = q @ [x]"

definition sorted_in :: "('a :: linorder) list \<Rightarrow> 'a \<Rightarrow> 'a list" where
  "sorted_in q x = sort (q @ [x])"

section \<open>What the loop establishes\<close>

text \<open>A set in which every member waits for a member: a cycle, or what a cycle blocks.\<close>

definition blocked :: "('a \<Rightarrow> 'a list) \<Rightarrow> 'a set \<Rightarrow> bool" where
  "blocked children S \<longleftrightarrow> S \<noteq> {} \<and> (\<forall>v \<in> S. \<exists>u \<in> S. v \<in> set (children u))"

text \<open>Everything in the list comes after all it depends on.\<close>

definition after_deps :: "('a \<Rightarrow> 'a list) \<Rightarrow> 'a set \<Rightarrow> 'a list \<Rightarrow> bool" where
  "after_deps children N acc \<longleftrightarrow>
     (\<forall>xs v ys. acc = xs @ v # ys \<longrightarrow> (\<forall>u \<in> N. v \<in> set (children u) \<longrightarrow> u \<in> set xs))"

definition kahn_inv ::
    "('a \<Rightarrow> 'a list) \<Rightarrow> 'a set \<Rightarrow> 'a list \<Rightarrow> ('a \<Rightarrow> int) \<Rightarrow> 'a list \<Rightarrow> bool" where
  "kahn_inv children N q d acc \<longleftrightarrow>
     distinct (acc @ q) \<and> set (acc @ q) \<subseteq> N \<and>
     (\<forall>v \<in> N. d v = (\<Sum>u \<in> N - set acc. int (count_list (children u) v))) \<and>
     (\<forall>v \<in> N. v \<in> set (acc @ q) \<longleftrightarrow> d v = 0) \<and>
     after_deps children N acc"

lemma after_deps_Nil [simp]: "after_deps children N []"
  by (simp add: after_deps_def)

lemma after_deps_snoc:
  assumes "after_deps children N acc" and "\<forall>u \<in> N. n \<in> set (children u) \<longrightarrow> u \<in> set acc"
  shows "after_deps children N (acc @ [n])"
  unfolding after_deps_def
proof (intro allI impI)
  fix xs v ys
  assume eq: "acc @ [n] = xs @ v # ys"
  show "\<forall>u \<in> N. v \<in> set (children u) \<longrightarrow> u \<in> set xs"
  proof (cases ys rule: rev_cases)
    case Nil
    with eq assms(2) show ?thesis by simp
  next
    case (snoc ys' y)
    with eq have "acc = xs @ v # ys'" by simp
    with assms(1) show ?thesis by (simp add: after_deps_def)
  qed
qed

lemma kahn_inv_cong:
  assumes "\<forall>u \<in> N. children u = children' u"
  shows "kahn_inv children N q d acc \<longleftrightarrow> kahn_inv children' N q d acc"
proof -
  have "(\<Sum>u \<in> N - set acc. int (count_list (children u) v)) =
        (\<Sum>u \<in> N - set acc. int (count_list (children' u) v))" for v
    using assms by (intro sum.cong) auto
  then show ?thesis using assms by (simp add: kahn_inv_def after_deps_def)
qed

text \<open>A complete order leaves nothing blocked: look at the first blocked name of it.\<close>

lemma after_deps_unblocked:
  assumes "after_deps children N acc" and "set acc = N" and "S \<subseteq> N"
  shows "\<not> blocked children S"
proof
  assume b: "blocked children S"
  then obtain s where "s \<in> S" by (auto simp: blocked_def)
  with assms have "\<exists>x \<in> set acc. x \<in> S" by auto
  then obtain xs v ys where split: "acc = xs @ v # ys" and v: "v \<in> S" and xs: "\<forall>x \<in> set xs. x \<notin> S"
    using split_list_first_prop [of acc "\<lambda>x. x \<in> S"] by blast
  from b v obtain u where u: "u \<in> S" "v \<in> set (children u)" by (auto simp: blocked_def)
  with assms split have "u \<in> set xs" by (auto simp: after_deps_def)
  with xs u show False by blast
qed

lemma kahn_inv_deps_done:
  assumes inv: "kahn_inv children N q d acc" and "finite N" and v: "v \<in> set q"
    and u: "u \<in> N" "v \<in> set (children u)"
  shows "u \<in> set acc"
proof (rule ccontr)
  assume "u \<notin> set acc"
  from inv v have "v \<in> N" "d v = 0" by (auto simp: kahn_inv_def)
  with inv have "(\<Sum>u \<in> N - set acc. int (count_list (children u) v)) = 0"
    by (simp add: kahn_inv_def)
  with \<open>finite N\<close> have "\<forall>u \<in> N - set acc. int (count_list (children u) v) = 0"
    by (subst (asm) sum_nonneg_eq_0_iff) auto
  with u \<open>u \<notin> set acc\<close> show False by (simp add: count_list_0_iff)
qed

lemma kahn_inv_rest_blocked:
  assumes inv: "kahn_inv children N [] d acc" and "finite N" and rest: "set acc \<noteq> N"
  shows "blocked children (N - set acc)"
  unfolding blocked_def
proof (intro conjI ballI)
  from inv rest show "N - set acc \<noteq> {}" by (auto simp: kahn_inv_def)
next
  fix v
  assume v: "v \<in> N - set acc"
  with inv have "d v \<noteq> 0" by (auto simp: kahn_inv_def)
  with inv v have "(\<Sum>u \<in> N - set acc. int (count_list (children u) v)) \<noteq> 0"
    by (simp add: kahn_inv_def)
  then obtain u where "u \<in> N - set acc" "int (count_list (children u) v) \<noteq> 0"
    by (meson sum.neutral)
  then show "\<exists>u \<in> N - set acc. v \<in> set (children u)"
    by auto
qed

section \<open>The queue discipline\<close>

locale ready_queue =
  fixes enq :: "'a list \<Rightarrow> 'a \<Rightarrow> 'a list"
  assumes set_enq: "set (enq q x) = insert x (set q)"
    and distinct_enq: "distinct q \<Longrightarrow> x \<notin> set q \<Longrightarrow> distinct (enq q x)"
begin

lemma release_spec:
  assumes "release enq cs q d = (q', d')" and "\<forall>v \<in> set cs. int (count_list cs v) \<le> d v"
    and "distinct q" and "set q \<inter> set cs = {}"
  shows "(\<forall>v. d' v = d v - int (count_list cs v)) \<and> distinct q' \<and>
         set q' = set q \<union> {v \<in> set cs. d v = int (count_list cs v)}"
  using assms
proof (induction cs arbitrary: q d)
  case Nil
  then show ?case by simp
next
  case (Cons c cs)
  let ?d = "d(c := d c - 1)" and ?q = "if d c - 1 = 0 then enq q c else q"
  have run: "release enq cs ?q ?d = (q', d')" using Cons.prems(1) by (simp add: Let_def)
  have le: "\<forall>v \<in> set cs. int (count_list cs v) \<le> ?d v"
    using Cons.prems(2) by auto
  have "int (count_list (c # cs) c) \<le> d c" using Cons.prems(2) by simp
  then have once: "d c - 1 = 0 \<Longrightarrow> c \<notin> set cs"
    by (simp add: count_list_0_iff [symmetric])
  have "distinct ?q" "set ?q \<inter> set cs = {}"
    using Cons.prems(3,4) once by (auto simp: set_enq intro: distinct_enq)
  from Cons.IH [OF run le this]
  have ih: "\<forall>v. d' v = ?d v - int (count_list cs v)" "distinct q'"
      "set q' = set ?q \<union> {v \<in> set cs. ?d v = int (count_list cs v)}"
    by blast+
  have "set q' = set q \<union> {v \<in> set (c # cs). d v = int (count_list (c # cs) v)}"
  proof (cases "d c - 1 = 0")
    case True
    then have "d c = int (count_list (c # cs) c)" using once by (simp add: count_notin)
    with True once ih(3) show ?thesis by (auto simp: set_enq)
  next
    case False
    with Cons.prems(2) have "c \<in> set cs \<or> d c \<noteq> int (count_list (c # cs) c)"
      by (auto simp: count_notin)
    with False ih(3) show ?thesis by auto
  qed
  with ih show ?case by auto
qed

lemma kahn_step:
  assumes inv: "kahn_inv children N (n # q) d acc" and fin: "finite N"
    and closed: "\<forall>u \<in> N. set (children u) \<subseteq> N"
    and rel: "release enq (children n) q d = (q', d')"
  shows "kahn_inv children N q' d' (acc @ [n])"
proof -
  have n: "n \<in> N" "n \<notin> set acc" "n \<notin> set q" using inv by (auto simp: kahn_inv_def)
  have rest: "N - set acc = insert n (N - set (acc @ [n]))" using n by auto
  have sum: "d v = int (count_list (children n) v) +
                   (\<Sum>u \<in> N - set (acc @ [n]). int (count_list (children u) v))" if "v \<in> N" for v
  proof -
    have "d v = (\<Sum>u \<in> insert n (N - set (acc @ [n])). int (count_list (children u) v))"
      using inv that by (simp only: kahn_inv_def rest)
    with fin show ?thesis by (simp add: sum.insert)
  qed
  have le: "\<forall>v \<in> set (children n). int (count_list (children n) v) \<le> d v"
  proof
    fix v
    assume "v \<in> set (children n)"
    with closed n have "v \<in> N" by auto
    moreover have "0 \<le> (\<Sum>u \<in> N - set (acc @ [n]). int (count_list (children u) v))"
      by (rule sum_nonneg) simp
    ultimately show "int (count_list (children n) v) \<le> d v" using sum by simp
  qed
  have pos: "d v \<noteq> 0" if "v \<in> set (children n)" for v
  proof -
    from le that have "int (count_list (children n) v) \<le> d v" by blast
    moreover have "0 < count_list (children n) v" using that by simp
    ultimately show ?thesis by linarith
  qed
  from inv have ready: "\<forall>v \<in> N. v \<in> set (acc @ n # q) \<longleftrightarrow> d v = 0"
    and sub: "set (acc @ n # q) \<subseteq> N"
    unfolding kahn_inv_def by blast+
  then have pend: "set (acc @ n # q) \<inter> set (children n) = {}" using pos by blast
  then have "set (n # q) \<inter> set (children n) = {}" by auto
  then have "set q \<inter> set (children n) = {}" "distinct q" using inv by (auto simp: kahn_inv_def)
  from release_spec [OF rel le this(2,1)]
  have d': "\<forall>v. d' v = d v - int (count_list (children n) v)" and dist: "distinct q'"
    and q': "set q' = set q \<union> {v \<in> set (children n). d v = int (count_list (children n) v)}"
    by blast+
  have new: "set (acc @ [n]) \<inter> set q' = {}"
  proof -
    have "set (acc @ [n]) \<inter> set q = {}" using inv by (auto simp: kahn_inv_def)
    with pend q' show ?thesis by auto
  qed
  have zero: "v \<in> set ((acc @ [n]) @ q') \<longleftrightarrow> d' v = 0" if v: "v \<in> N" for v
  proof (cases "v \<in> set (children n)")
    case True
    with pend have "v \<notin> set (acc @ n # q)" by blast
    with True d' q' show ?thesis by auto
  next
    case False
    then have "d' v = d v" using d' by (simp add: count_notin)
    with False ready v q' show ?thesis by auto
  qed
  have "after_deps children N (acc @ [n])"
    using inv kahn_inv_deps_done [OF inv fin, of n] by (intro after_deps_snoc) (auto simp: kahn_inv_def)
  moreover have "set q' \<subseteq> N" using q' inv closed n by (auto simp: kahn_inv_def)
  moreover have "distinct (acc @ [n])" using inv by (auto simp: kahn_inv_def)
  moreover have "set acc \<subseteq> N" using inv by (auto simp: kahn_inv_def)
  ultimately show ?thesis
    unfolding kahn_inv_def using dist new zero sum d' n by auto
qed

text \<open>Total correctness: the loop returns, in a state of the invariant with an empty queue.\<close>

lemma kahn_total:
  assumes "kahn_inv children N q d acc" and "finite N" and "\<forall>u \<in> N. set (children u) \<subseteq> N"
  shows "\<exists>acc' d'. kahn_loop enq children q d acc = Some (acc', d') \<and> kahn_inv children N [] d' acc'"
  using assms
proof (induction "card (N - set acc)" arbitrary: q d acc rule: less_induct)
  case less
  show ?case
  proof (cases q)
    case Nil
    with less.prems show ?thesis by (simp add: kahn_loop.simps)
  next
    case (Cons n q')
    obtain q'' d' where rel: "release enq (children n) q' d = (q'', d')" by fastforce
    have "n \<in> N - set acc" using less.prems(1) Cons by (auto simp: kahn_inv_def)
    then have "card (N - set (acc @ [n])) < card (N - set acc)"
      using less.prems(2) by (intro psubset_card_mono) auto
    moreover have "kahn_inv children N q'' d' (acc @ [n])"
      using kahn_step [OF _ less.prems(2,3) rel] less.prems(1) Cons by simp
    ultimately show ?thesis
      using less.hyps [OF _ _ less.prems(2,3)] rel Cons by (simp add: kahn_loop.simps)
  qed
qed

text \<open>
  The result in terms of the graph alone: an order of distinct names with dependencies
  first, complete exactly when nothing is blocked.
\<close>

lemma kahn_result:
  assumes "kahn_inv children N q d []" and "finite N" and "\<forall>u \<in> N. set (children u) \<subseteq> N"
  obtains acc d' where "kahn_loop enq children q d [] = Some (acc, d')"
    and "distinct acc" and "set acc \<subseteq> N" and "after_deps children N acc"
    and "set acc = N \<longleftrightarrow> (\<nexists>S. S \<subseteq> N \<and> blocked children S)"
    and "\<forall>v \<in> N. v \<in> set acc \<longleftrightarrow> d' v = 0" and "\<forall>v \<in> N. 0 \<le> d' v"
proof -
  from kahn_total [OF assms] obtain acc d'
    where run: "kahn_loop enq children q d [] = Some (acc, d')"
      and inv: "kahn_inv children N [] d' acc" by blast
  have "set acc = N \<longleftrightarrow> (\<nexists>S. S \<subseteq> N \<and> blocked children S)"
  proof
    assume "set acc = N"
    then show "\<nexists>S. S \<subseteq> N \<and> blocked children S"
      using after_deps_unblocked inv unfolding kahn_inv_def by metis
  next
    assume "\<nexists>S. S \<subseteq> N \<and> blocked children S"
    then show "set acc = N"
      using kahn_inv_rest_blocked [OF inv \<open>finite N\<close>] by (metis Diff_subset)
  qed
  moreover have "\<forall>v \<in> N. 0 \<le> d' v"
    using inv by (auto simp: kahn_inv_def intro: sum_nonneg)
  moreover from inv have "distinct acc" "set acc \<subseteq> N" "after_deps children N acc"
    "\<forall>v \<in> N. v \<in> set acc \<longleftrightarrow> d' v = 0"
    by (auto simp: kahn_inv_def)
  ultimately show ?thesis using run by (intro that)
qed

end

interpretation fifo: ready_queue fifo
  by unfold_locales (auto simp: fifo_def)

interpretation sorted_in: ready_queue sorted_in
  by unfold_locales (auto simp: sorted_in_def)

section \<open>Graphs given by named nodes with dependency lists\<close>

text \<open>
  The dependants of \<open>u\<close>, as both functions build them: one entry per occurrence of \<open>u\<close> in
  a dependency list, in the order of the nodes.
\<close>

definition dependants_of :: "('c \<Rightarrow> 'a) \<Rightarrow> ('c \<Rightarrow> 'a list) \<Rightarrow> 'c list \<Rightarrow> 'a \<Rightarrow> 'a list" where
  "dependants_of name deps cs u = concat (map (\<lambda>c. replicate (count_list (deps c) u) (name c)) cs)"

lemma dependants_of_simps [simp]:
  "dependants_of name deps [] u = []"
  "dependants_of name deps (cs @ [c]) u =
     dependants_of name deps cs u @ replicate (count_list (deps c) u) (name c)"
  by (simp_all add: dependants_of_def)

lemma set_dependants_of:
  "v \<in> set (dependants_of name deps cs u) \<longleftrightarrow> (\<exists>c \<in> set cs. name c = v \<and> u \<in> set (deps c))"
  by (auto simp: dependants_of_def)

lemma count_dependants_of:
  assumes "distinct (map name cs)" and "c \<in> set cs"
  shows "count_list (dependants_of name deps cs u) (name c) = count_list (deps c) u"
  using assms
proof (induction cs rule: rev_induct)
  case Nil
  then show ?case by simp
next
  case (snoc x cs)
  have rep: "count_list (replicate k a) b = (if a = b then k else 0)" for k and a b :: 'a
    by (induction k) auto
  have other: "name x \<notin> set (dependants_of name deps cs u)"
    using snoc.prems(1) by (auto simp: set_dependants_of) (metis imageI)
  show ?case
  proof (cases "c = x")
    case True
    with other have "name c \<notin> set (dependants_of name deps cs u)" by simp
    with True show ?thesis by (simp add: rep count_notin)
  next
    case False
    with snoc show ?thesis by (auto simp: rep)
  qed
qed

lemma sum_count_list:
  "finite N \<Longrightarrow> (\<Sum>u \<in> N. count_list xs u) = length (filter (\<lambda>x. x \<in> N) xs)"
proof (induction xs)
  case (Cons x xs)
  have "(\<Sum>u \<in> N. count_list (x # xs) u) = (\<Sum>u \<in> N. (if x = u then 1 else 0) + count_list xs u)"
    by (rule sum.cong) auto
  with Cons show ?case by (simp add: sum.distrib)
qed simp

lemma blocked_dependants:
  "blocked (dependants_of name deps cs) S \<longleftrightarrow>
     S \<noteq> {} \<and> (\<forall>v \<in> S. \<exists>c \<in> set cs. name c = v \<and> (\<exists>u \<in> S. u \<in> set (deps c)))"
  by (auto simp: blocked_def set_dependants_of) blast+

text \<open>The state both functions start the loop in satisfies the invariant.\<close>

lemma kahn_inv_init:
  assumes dist: "distinct (map name cs)"
    and d: "\<forall>c \<in> set cs. d (name c) = int (length (filter (\<lambda>u. u \<in> name ` set cs) (deps c)))"
    and q: "distinct q" "set q = {v \<in> name ` set cs. d v = 0}"
  shows "kahn_inv (dependants_of name deps cs) (name ` set cs) q d []"
proof -
  have "d (name c) = (\<Sum>u \<in> name ` set cs. int (count_list (dependants_of name deps cs u) (name c)))"
    if "c \<in> set cs" for c
    using that d sum_count_list [of "name ` set cs" "deps c"]
    by (simp add: count_dependants_of [OF dist that] flip: of_nat_sum)
  with q show ?thesis by (auto simp: kahn_inv_def)
qed

lemma dependants_closed: "set (dependants_of name deps cs u) \<subseteq> name ` set cs"
  by (auto simp: set_dependants_of)

lemma after_deps_dependants:
  assumes "after_deps (dependants_of name deps cs) (name ` set cs) acc"
    and "acc = xs @ name c # ys" and "c \<in> set cs" and "u \<in> set (deps c)" and "u \<in> name ` set cs"
  shows "u \<in> set xs"
  using assms unfolding after_deps_def set_dependants_of by blast

text \<open>Circularly blocked names and circularly dependent components are the same thing.\<close>

lemma blocked_components:
  assumes dist: "distinct (map name cs)"
  shows "(\<exists>S. S \<subseteq> name ` set cs \<and> blocked (dependants_of name deps cs) S) \<longleftrightarrow>
     (\<exists>S \<subseteq> set cs. S \<noteq> {} \<and> (\<forall>c \<in> S. \<exists>b \<in> S. name b \<in> set (deps c)))"
proof
  assume "\<exists>S. S \<subseteq> name ` set cs \<and> blocked (dependants_of name deps cs) S"
  then obtain S where S: "S \<subseteq> name ` set cs" "S \<noteq> {}"
      "\<forall>v \<in> S. \<exists>c \<in> set cs. name c = v \<and> (\<exists>u \<in> S. u \<in> set (deps c))"
    by (auto simp: blocked_dependants)
  let ?S = "{c \<in> set cs. name c \<in> S}"
  have "\<exists>b \<in> ?S. name b \<in> set (deps c)" if c: "c \<in> ?S" for c
  proof -
    from c S(3) obtain c' u where c': "c' \<in> set cs" "name c' = name c" "u \<in> S" "u \<in> set (deps c')" by blast
    then have "c' = c" using c dist by (auto simp: distinct_map dest: inj_onD)
    moreover from c'(3) S(1) obtain b where "b \<in> set cs" "name b = u" by auto
    ultimately show ?thesis using c' by blast
  qed
  moreover have "?S \<noteq> {}" using S(1,2) by auto
  ultimately show "\<exists>S \<subseteq> set cs. S \<noteq> {} \<and> (\<forall>c \<in> S. \<exists>b \<in> S. name b \<in> set (deps c))"
    by (intro exI [of _ ?S]) auto
next
  assume "\<exists>S \<subseteq> set cs. S \<noteq> {} \<and> (\<forall>c \<in> S. \<exists>b \<in> S. name b \<in> set (deps c))"
  then obtain S where S: "S \<subseteq> set cs" "S \<noteq> {}" "\<forall>c \<in> S. \<exists>b \<in> S. name b \<in> set (deps c)" by blast
  then have "blocked (dependants_of name deps cs) (name ` S)"
    unfolding blocked_dependants by (auto simp: subset_iff)
  with S(1) show "\<exists>S. S \<subseteq> name ` set cs \<and> blocked (dependants_of name deps cs) S"
    by (intro exI [of _ "name ` S"]) auto
qed

text \<open>An order of all names, read back as nodes.\<close>

lemma named_order:
  assumes "distinct (map name cs)" and pick: "\<forall>c \<in> set cs. pick (name c) = c"
    and "distinct order" and "set order = name ` set cs"
  shows "map name (map pick order) = order" and "distinct (map pick order)" and "set (map pick order) = set cs"
proof -
  have "name (pick n) = n" if "n \<in> set order" for n using that assms(4) pick by auto
  then show names: "map name (map pick order) = order" by (simp add: map_idI)
  then show "distinct (map pick order)" using assms(3) by (metis distinct_map)
  have "pick ` name ` set cs = set cs" using pick by (force simp: image_iff)
  then show "set (map pick order) = set cs" using assms(4) by simp
qed

lemma named_order_after:
  assumes "distinct (map name cs)" and "\<forall>c \<in> set cs. pick (name c) = c"
    and "distinct order" and "set order = name ` set cs"
    and after: "after_deps (dependants_of name deps cs) (name ` set cs) order"
    and split: "map pick order = xs @ c # ys" and u: "u \<in> set (deps c)" "u \<in> name ` set cs"
  shows "u \<in> name ` set xs"
proof -
  note order = named_order [OF assms(1-4)]
  have eq: "order = map name xs @ name c # map name ys"
    using order(1) split by (metis list.simps(9) map_append)
  have c: "c \<in> set cs" using split order(3) by (metis in_set_conv_decomp)
  from after_deps_dependants [OF after eq c u] show ?thesis by simp
qed

end
