(* ===== verification/Toposort.thy ===== *)
theory Toposort
  imports Kahn
begin

text \<open>
  \<open>utils.TopologicalSort\<close> (\<open>pkg/utils/topo.go\<close>), the order in which \<open>rlarkadm\<close> deploys
  components. The interface \<open>Topo\<close> is a pair of functions: the name and the dependencies
  of a component. A name looked up in \<open>compMap\<close> is the last component with it.
\<close>

section \<open>The function\<close>

definition topo_comp_map :: "('c \<Rightarrow> string) \<Rightarrow> 'c list \<Rightarrow> string \<rightharpoonup> 'c" where
  "topo_comp_map GetName comps = map_of (rev (map (\<lambda>c. (GetName c, c)) comps))"

text \<open>The two nested loops that fill \<open>inDegree\<close> and \<open>dependents\<close>.\<close>

definition topo_edge ::
    "(string \<rightharpoonup> 'c) \<Rightarrow> string \<Rightarrow> (string \<Rightarrow> int) \<times> (string \<Rightarrow> string list) \<Rightarrow> string
      \<Rightarrow> (string \<Rightarrow> int) \<times> (string \<Rightarrow> string list)" where
  "topo_edge comp_map name = (\<lambda>(deg, dependents) dep.
     (if comp_map dep \<noteq> None then (deg, dependents(dep := dependents dep @ [name]))
      else (deg(name := deg name - 1), dependents)))"

definition topo_graph ::
    "('c \<Rightarrow> string) \<Rightarrow> ('c \<Rightarrow> string list) \<Rightarrow> 'c list \<Rightarrow> (string \<Rightarrow> int) \<times> (string \<Rightarrow> string list)" where
  "topo_graph GetName GetDependencies comps =
     foldl (\<lambda>(deg, dependents) c.
         foldl (topo_edge (topo_comp_map GetName comps) (GetName c))
           (deg(GetName c := int (length (GetDependencies c))), dependents) (GetDependencies c))
       (\<lambda>_. 0, \<lambda>_. []) comps"

definition topo_queue :: "('c \<Rightarrow> string) \<Rightarrow> (string \<Rightarrow> int) \<Rightarrow> 'c list \<Rightarrow> string list" where
  "topo_queue GetName deg comps = map GetName (filter (\<lambda>c. deg (GetName c) = 0) comps)"

text \<open>
  The outer \<open>None\<close> would be a loop that does not return. Emitting a name that no
  component has would be a nil dereference.
\<close>

definition TopologicalSort ::
    "('c \<Rightarrow> string) \<Rightarrow> ('c \<Rightarrow> string list) \<Rightarrow> 'c list \<Rightarrow> (go_error + 'c list) option" where
  "TopologicalSort GetName GetDependencies comps =
     (case topo_graph GetName GetDependencies comps of (deg, dependents) \<Rightarrow>
        (case kahn_loop fifo dependents (topo_queue GetName deg comps) deg [] of
           None \<Rightarrow> None
         | Some (order, deg') \<Rightarrow>
             (case those (map (topo_comp_map GetName comps) order) of
                None \<Rightarrow> Some (Inl (GoPanic ''nil pointer dereference''))
              | Some result \<Rightarrow>
                  (if length result \<noteq> length comps then
                     Some (Inl (ErrText (''cyclic dependency detected among: '' @
                       go_join '', '' (map GetName (filter (\<lambda>c. 0 < deg' (GetName c)) comps)))))
                   else Some (Inr result)))))"

section \<open>Lemmas\<close>

lemma topo_edges:
  "foldl (topo_edge m name) (deg, dependents) ds =
     (deg(name := deg name - int (length (filter (\<lambda>d. m d = None) ds))),
      \<lambda>u. dependents u @ (if m u = None then [] else replicate (count_list ds u) name))"
proof (induction ds arbitrary: deg dependents)
  case Nil
  then show ?case by (simp add: fun_eq_iff)
next
  case (Cons x ds)
  then show ?case
    by (auto simp: topo_edge_def fun_eq_iff replicate_app_Cons_same [symmetric])
qed

lemma topo_comp_map_None: "topo_comp_map GetName comps n = None \<longleftrightarrow> n \<notin> GetName ` set comps"
  by (auto simp: topo_comp_map_def map_of_eq_None_iff image_image)

lemma topo_comp_map_Some:
  assumes "distinct (map GetName comps)" and "c \<in> set comps"
  shows "topo_comp_map GetName comps (GetName c) = Some c"
proof -
  have "distinct (map fst (rev (map (\<lambda>c. (GetName c, c)) comps)))"
    using assms(1) by (simp add: comp_def rev_map [symmetric])
  with assms(2) show ?thesis by (auto simp: topo_comp_map_def intro!: map_of_is_SomeI)
qed

lemma topo_graph_closed:
  assumes "distinct (map GetName comps)"
  shows "topo_graph GetName deps comps =
     (\<lambda>n. (case topo_comp_map GetName comps n of None \<Rightarrow> 0
           | Some c \<Rightarrow> int (length (filter (\<lambda>u. u \<in> GetName ` set comps) (deps c)))),
      \<lambda>u. (if u \<in> GetName ` set comps then dependants_of GetName deps comps u else []))"
proof -
  let ?m = "topo_comp_map GetName comps"
  let ?N = "GetName ` set comps"
  let ?f = "\<lambda>(deg, dependents) c.
         foldl (topo_edge ?m (GetName c)) (deg(GetName c := int (length (deps c))), dependents) (deps c)"
  have split: "length ds = length (filter (\<lambda>u. u \<in> ?N) ds) + length (filter (\<lambda>u. u \<notin> ?N) ds)" for ds
    by (induction ds) auto
  have "foldl ?f (\<lambda>_. 0, \<lambda>_. []) cs =
     (\<lambda>n. (if n \<in> GetName ` set cs then int (length (filter (\<lambda>u. u \<in> ?N) (deps (the (?m n))))) else 0),
      \<lambda>u. (if u \<in> ?N then dependants_of GetName deps cs u else []))"
    if "set cs \<subseteq> set comps" for cs
    using that
  proof (induction cs rule: rev_induct)
    case Nil
    then show ?case by (simp add: fun_eq_iff)
  next
    case (snoc c cs)
    have c: "?m (GetName c) = Some c" using snoc.prems assms by (simp add: topo_comp_map_Some)
    have len: "int (length (deps c)) - int (length (filter (\<lambda>d. d \<notin> ?N) (deps c))) =
               int (length (filter (\<lambda>u. u \<in> ?N) (deps c)))"
      using split [of "deps c"] by linarith
    from snoc show ?case
      by (auto simp: topo_edges fun_eq_iff c len topo_comp_map_None)
  qed
  note closed_form = this
  have dom: "?m n = Some c \<Longrightarrow> n \<in> ?N" for n c
    by (metis option.distinct(1) topo_comp_map_None)
  from closed_form [of comps] show ?thesis
    by (auto simp: topo_graph_def fun_eq_iff topo_comp_map_None split: option.split dest: dom)
qed

lemma those_map_Some: "(\<And>x. x \<in> set xs \<Longrightarrow> f x = Some (g x)) \<Longrightarrow> those (map f xs) = Some (map g xs)"
  by (induction xs) auto

text \<open>The run of the loop, in terms of the dependants of each name.\<close>

lemma topo_kahn:
  assumes "distinct (map GetName comps)"
  obtains order deg' deg dependents where "topo_graph GetName deps comps = (deg, dependents)"
    and "kahn_loop fifo dependents (topo_queue GetName deg comps) deg [] = Some (order, deg')"
    and "distinct order" and "set order \<subseteq> GetName ` set comps"
    and "after_deps (dependants_of GetName deps comps) (GetName ` set comps) order"
    and "set order = GetName ` set comps \<longleftrightarrow>
       \<not> (\<exists>S. S \<subseteq> GetName ` set comps \<and> blocked (dependants_of GetName deps comps) S)"
proof -
  let ?N = "GetName ` set comps" and ?m = "topo_comp_map GetName comps"
  let ?ch = "dependants_of GetName deps comps"
  obtain deg dependents where g: "topo_graph GetName deps comps = (deg, dependents)" by fastforce
  have deg: "\<forall>c \<in> set comps. deg (GetName c) = int (length (filter (\<lambda>u. u \<in> ?N) (deps c)))"
    and ch: "\<forall>u \<in> ?N. dependents u = ?ch u"
    using g unfolding topo_graph_closed [OF assms] by (auto simp: topo_comp_map_Some [OF assms])
  have q: "distinct (topo_queue GetName deg comps)"
    "set (topo_queue GetName deg comps) = {v \<in> ?N. deg v = 0}"
    using assms by (auto simp: topo_queue_def distinct_map inj_on_def)
  have "kahn_inv ?ch ?N (topo_queue GetName deg comps) deg []"
    by (rule kahn_inv_init [OF assms deg q])
  then have inv: "kahn_inv dependents ?N (topo_queue GetName deg comps) deg []"
    using kahn_inv_cong [OF ch] by simp
  have closed: "\<forall>u \<in> ?N. set (dependents u) \<subseteq> ?N"
    using ch dependants_closed by fastforce
  have fin: "finite ?N" by simp
  obtain order deg'
    where run: "kahn_loop fifo dependents (topo_queue GetName deg comps) deg [] = Some (order, deg')"
      and ord: "distinct order" "set order \<subseteq> ?N" "after_deps dependents ?N order"
      and complete: "set order = ?N \<longleftrightarrow> (\<nexists>S. S \<subseteq> ?N \<and> blocked dependents S)"
    by (rule fifo.kahn_result [OF inv fin closed])
  have "after_deps ?ch ?N order" using ord(3) ch by (auto simp: after_deps_def)
  moreover have "blocked dependents S = blocked ?ch S" if "S \<subseteq> ?N" for S
  proof -
    have "dependents u = ?ch u" if "u \<in> S" for u using that \<open>S \<subseteq> ?N\<close> ch by blast
    then show ?thesis unfolding blocked_def by (intro conj_cong ball_cong bex_cong refl) simp
  qed
  ultimately show thesis using that [OF g run ord(1,2)] complete by metis
qed

section \<open>Properties\<close>

text \<open>
  C35. For components with distinct names, \<open>TopologicalSort\<close> always returns. It succeeds
  exactly when no non-empty set of components is circularly blocked (each member depends on
  a member), and then its result is a permutation of the input in which every component
  comes after all of its dependencies that are in the input. Otherwise it returns an error.
\<close>
theorem topological_sort_correct:
  assumes "distinct (map GetName comps)"
  shows "case TopologicalSort GetName deps comps of
      None \<Rightarrow> False
    | Some (Inr result) \<Rightarrow>
        distinct result \<and> set result = set comps \<and>
        (\<forall>xs c ys. result = xs @ c # ys \<longrightarrow>
           (\<forall>u \<in> set (deps c). u \<in> GetName ` set comps \<longrightarrow> u \<in> GetName ` set xs)) \<and>
        \<not> (\<exists>S \<subseteq> set comps. S \<noteq> {} \<and> (\<forall>c \<in> S. \<exists>b \<in> S. GetName b \<in> set (deps c)))
    | Some (Inl e) \<Rightarrow>
        \<not> is_panic e \<and>
        (\<exists>S \<subseteq> set comps. S \<noteq> {} \<and> (\<forall>c \<in> S. \<exists>b \<in> S. GetName b \<in> set (deps c)))"
proof -
  let ?N = "GetName ` set comps" and ?m = "topo_comp_map GetName comps"
  let ?ch = "dependants_of GetName deps comps"
  let ?circular = "\<exists>S \<subseteq> set comps. S \<noteq> {} \<and> (\<forall>c \<in> S. \<exists>b \<in> S. GetName b \<in> set (deps c))"
  let ?pick = "\<lambda>n. the (?m n)"
  obtain order deg' deg dependents where g: "topo_graph GetName deps comps = (deg, dependents)"
    and run: "kahn_loop fifo dependents (topo_queue GetName deg comps) deg [] = Some (order, deg')"
    and ord: "distinct order" "set order \<subseteq> ?N" "after_deps ?ch ?N order"
    and complete: "set order = ?N \<longleftrightarrow> \<not> (\<exists>S. S \<subseteq> ?N \<and> blocked ?ch S)"
    by (rule topo_kahn [OF assms])
  note cycles = complete [unfolded blocked_components [OF assms]]
  have pick: "\<forall>c \<in> set comps. ?pick (GetName c) = c" by (simp add: topo_comp_map_Some [OF assms])
  have those: "those (map ?m order) = Some (map ?pick order)"
    using ord(2) by (intro those_map_Some) (auto simp: topo_comp_map_Some [OF assms])
  have full: "length order = length comps \<longleftrightarrow> set order = ?N"
    using ord(1,2) assms by (metis card_subset_eq distinct_card finite_imageI List.finite_set length_map set_map)
  show ?thesis
  proof (cases "set order = ?N")
    case True
    note sorted = named_order [OF assms pick ord(1) True]
    note after = named_order_after [OF assms pick ord(1) True ord(3)]
    have "TopologicalSort GetName deps comps = Some (Inr (map ?pick order))"
      using True full by (simp add: TopologicalSort_def g run those)
    with sorted(2,3) after True cycles show ?thesis by simp
  next
    case False
    obtain msg where "TopologicalSort GetName deps comps = Some (Inl (ErrText msg))"
      using False full by (simp add: TopologicalSort_def g run those)
    with False cycles show ?thesis by simp
  qed
qed

definition demo_components :: "(string \<times> string list) list" where
  "demo_components = [(''gateway'', [''server'', ''db'']), (''server'', [''db'']), (''db'', [''host''])]"

theorem topological_sort_correct_witness:
  "TopologicalSort fst snd demo_components =
     Some (Inr [(''db'', [''host'']), (''server'', [''db'']), (''gateway'', [''server'', ''db''])]) \<and>
   set demo_components = {(''db'', [''host'']), (''server'', [''db'']), (''gateway'', [''server'', ''db''])}"
proof -
  have d: "distinct (map fst demo_components)" by (simp add: demo_components_def)
  have run: "TopologicalSort fst snd demo_components =
     Some (Inr [(''db'', [''host'']), (''server'', [''db'']), (''gateway'', [''server'', ''db''])])"
    by code_simp
  from topological_sort_correct [OF d, of snd] run show ?thesis by auto
qed

end
