(* ===== verification/Api_Types.thy ===== *)
theory Api_Types
  imports Prelude
begin

text \<open>
  The resources of \<open>api/rlark.io/v1alpha1\<close> that the controllers read and write: object
  metadata, conditions, Task, Job and Workflow. Phases are open strings in Go, so they are
  strings here, with the constants of the API as abbreviations. A slice or a map that the
  code tests for nil, or compares with \<open>reflect.DeepEqual\<close> (which tells a nil slice from
  an empty one), is an option: \<open>None\<close> is nil. JSON extension parameters are kept as the
  syntax tree of the document.
\<close>

section \<open>Nil-able slices and maps\<close>

type_synonym 'a go_slice = "'a list option"
type_synonym go_map = "(string \<rightharpoonup> string) option"

definition elems :: "'a go_slice \<Rightarrow> 'a list" where
  "elems xs = (case xs of None \<Rightarrow> [] | Some ys \<Rightarrow> ys)"

definition mget :: "go_map \<Rightarrow> string \<Rightarrow> string option" where
  "mget m k = (case m of None \<Rightarrow> None | Some f \<Rightarrow> f k)"

text \<open>\<open>m[k]\<close>: reading a nil map is allowed and gives the zero value.\<close>

definition mread :: "go_map \<Rightarrow> string \<Rightarrow> string" where
  "mread m k = map_str (mget m) k"

text \<open>\<open>for k, v := range m { result[k] = v }\<close> into a fresh map.\<close>

definition entries :: "go_map \<Rightarrow> string \<rightharpoonup> string" where
  "entries m = (case m of None \<Rightarrow> Map.empty | Some f \<Rightarrow> f)"

lemma elems_simps [simp]: "elems None = []" "elems (Some xs) = xs"
  by (simp_all add: elems_def)

lemma mget_simps [simp]: "mget None k = None" "mget (Some f) k = f k"
  by (simp_all add: mget_def)

lemma entries_simps [simp]: "entries None = Map.empty" "entries (Some f) = f"
  by (simp_all add: entries_def)

lemma mget_entries: "mget m = entries m"
  by (cases m) (simp_all add: fun_eq_iff)

lemma mread_simps [simp]: "mread None k = []" "mread (Some f) k = map_str f k"
  by (simp_all add: mread_def map_str_def)

section \<open>JSON extension parameters\<close>

datatype json = JNull | JBool bool | JInt int | JReal string | JStr string
  | JArr "json list" | JObj "(string \<times> json) list"

text \<open>\<open>apiextensionsv1.JSON.Raw\<close>: blank, not one JSON document, or the document.\<close>

datatype raw_json = RawBlank | RawMalformed | RawDoc json

section \<open>Metadata\<close>

type_synonym time = int \<comment> \<open>nanoseconds since Go's zero time\<close>

record owner_ref =
  or_api_version :: string
  or_kind :: string
  or_name :: string
  or_uid :: string

text \<open>
  \<open>om_controller\<close> is the controlling owner reference, what \<open>metav1.GetControllerOf\<close>
  returns for the object.
\<close>

record object_meta =
  om_name :: string
  om_namespace :: string
  om_uid :: string
  om_resource_version :: string
  om_generation :: int
  om_labels :: go_map
  om_annotations :: go_map
  om_finalizers :: "string go_slice"
  om_controller :: "owner_ref option"
  om_deletion :: "time option"

text \<open>What identifies an object in the API server: namespace, name and UID.\<close>

definition identity_of :: "object_meta \<Rightarrow> string \<times> string \<times> string" where
  "identity_of m = (om_namespace m, om_name m, om_uid m)"

lemma identity_of_frame [simp]:
  "identity_of (m\<lparr>om_labels := l\<rparr>) = identity_of m" "identity_of (m\<lparr>om_annotations := a\<rparr>) = identity_of m"
  "identity_of (m\<lparr>om_controller := c\<rparr>) = identity_of m" "identity_of (m\<lparr>om_finalizers := f\<rparr>) = identity_of m"
  by (simp_all add: identity_of_def)

text \<open>\<open>(*metav1.Time).IsZero\<close>: nil or the zero time.\<close>

definition time_is_zero :: "time option \<Rightarrow> bool" where
  "time_is_zero t = (case t of None \<Rightarrow> True | Some x \<Rightarrow> x = 0)"

definition contains_finalizer :: "object_meta \<Rightarrow> string \<Rightarrow> bool" where
  "contains_finalizer m f \<longleftrightarrow> f \<in> set (elems (om_finalizers m))"

text \<open>The documented edits of \<open>controllerutil.AddFinalizer\<close> and \<open>RemoveFinalizer\<close>.\<close>

definition add_finalizer :: "object_meta \<Rightarrow> string \<Rightarrow> object_meta" where
  "add_finalizer m f =
     (if contains_finalizer m f then m else m\<lparr>om_finalizers := Some (elems (om_finalizers m) @ [f])\<rparr>)"

definition remove_finalizer :: "object_meta \<Rightarrow> string \<Rightarrow> object_meta" where
  "remove_finalizer m f = m\<lparr>om_finalizers := Some (filter (\<lambda>x. x \<noteq> f) (elems (om_finalizers m)))\<rparr>"

abbreviation annotation :: "object_meta \<Rightarrow> string \<Rightarrow> string" where
  "annotation m k \<equiv> mread (om_annotations m) k"

record condition =
  cn_type :: string
  cn_status :: string
  cn_reason :: string
  cn_message :: string
  cn_observed_generation :: int
  cn_transition :: time

abbreviation ConditionTypeValidated :: string where "ConditionTypeValidated \<equiv> ''Validated''"
abbreviation ConditionTypeProgressing :: string where "ConditionTypeProgressing \<equiv> ''Progressing''"
abbreviation ConditionTypeReady :: string where "ConditionTypeReady \<equiv> ''Ready''"

abbreviation GroupVersion :: string where
  "GroupVersion \<equiv> ''rlinf.io/v1alpha1''"

section \<open>Tasks\<close>

record job_tag =
  tag_key :: string
  tag_values :: "string go_slice"

record pod_template =
  pt_container_names :: "string list" \<comment> \<open>\<open>spec.containers[*].name\<close>\<close>
  pt_opaque :: string                 \<comment> \<open>everything the controllers only copy\<close>

record workload_carrier =
  wc_type :: string
  wc_version :: string
  wc_parameters :: raw_json

record task_environment =
  te_type :: string
  te_version :: string
  te_parameters :: raw_json

record workload_spec =
  wl_kind :: string
  wl_version :: string
  wl_parameters :: raw_json
  wl_carrier :: workload_carrier
  wl_template :: "pod_template option"

text \<open>
  \<open>sp_node_selector\<close> is a map given by its entries in key order, so that equal maps are equal
  lists and a nil map is \<open>None\<close>.
\<close>

record task_spec =
  sp_role :: string
  sp_downstream_name :: string
  sp_suspended :: bool
  sp_node_selector :: "(string \<times> string) go_slice"
  sp_runtime_kind :: string
  sp_runtime_name :: string
  sp_workload :: workload_spec
  sp_environments :: "task_environment go_slice"
  sp_tags :: "job_tag go_slice"

abbreviation PhasePending :: string where "PhasePending \<equiv> ''Pending''"
abbreviation PhaseRunning :: string where "PhaseRunning \<equiv> ''Running''"
abbreviation PhaseSucceeded :: string where "PhaseSucceeded \<equiv> ''Succeeded''"
abbreviation PhaseFailed :: string where "PhaseFailed \<equiv> ''Failed''"
abbreviation PhaseStopping :: string where "PhaseStopping \<equiv> ''Stopping''"
abbreviation PhaseStopped :: string where "PhaseStopped \<equiv> ''Stopped''"

record task_status =
  tk_phase :: string
  tk_observed_generation :: int
  tk_observed_nodes :: "string go_slice"
  tk_conditions :: "condition list"
  tk_message :: string
  tk_pull_progress :: "string go_slice"
  tk_events :: "string go_slice"

record task =
  t_meta :: object_meta
  t_spec :: task_spec
  t_status :: task_status

section \<open>Jobs\<close>

record job_task_template =
  jt_name :: string
  jt_head :: bool
  jt_spec :: task_spec

record job_spec =
  jb_domain :: string
  jb_suspended :: bool
  jb_task_slice :: "job_task_template go_slice"
  jb_ssh_public_key :: string
  jb_tag_slice :: "job_tag go_slice"

abbreviation jb_tasks :: "job_spec \<Rightarrow> job_task_template list" where
  "jb_tasks s \<equiv> elems (jb_task_slice s)"

abbreviation jb_tags :: "job_spec \<Rightarrow> job_tag list" where
  "jb_tags s \<equiv> elems (jb_tag_slice s)"

record job_task_status =
  jts_name :: string
  jts_phase :: string
  jts_message :: string

record job_status =
  js_phase :: string
  js_observed_generation :: int
  js_tasks :: "job_task_status go_slice"
  js_conditions :: "condition list"
  js_start_time :: "time option"
  js_end_time :: "time option"

record job =
  j_meta :: object_meta
  j_spec :: job_spec
  j_status :: job_status

section \<open>Nodes and clusters\<close>

text \<open>The fields of Node and Cluster that placement reads.\<close>

record node =
  n_meta :: object_meta
  n_unschedulable :: bool
  n_phase :: string

record cluster =
  c_meta :: object_meta
  c_agent_namespace :: string
  c_cordoned :: bool
  c_draining :: bool
  c_delisted :: bool
  c_phase :: string

abbreviation NodeOnline :: string where "NodeOnline \<equiv> ''Online''"
abbreviation ClusterOnline :: string where "ClusterOnline \<equiv> ''Online''"
abbreviation ClusterDowngraded :: string where "ClusterDowngraded \<equiv> ''Downgraded''"

section \<open>Workflows\<close>

record workflow_job_template =
  wt_name :: string
  wt_dependencies :: "string list"
  wt_spec :: job_spec

record workflow_spec =
  ws_job_templates :: "workflow_job_template list"
  ws_suspended :: bool

record workflow_job_status =
  wjs_name :: string
  wjs_phase :: string
  wjs_message :: string

record workflow_status =
  ww_phase :: string
  ww_observed_generation :: int
  ww_jobs :: "workflow_job_status go_slice"
  ww_conditions :: "condition list"
  ww_start_time :: "time option"
  ww_end_time :: "time option"

record workflow =
  w_meta :: object_meta
  w_spec :: workflow_spec
  w_status :: workflow_status

end
