(* ===== verification/Ownership.thy ===== *)
theory Ownership
  imports Api_Types
begin

text \<open>
  Which child object belongs to which parent (\<open>pkg/utils/children.go\<close>, \<open>naming.go\<close>) and
  the tenant identity a child inherits (\<open>pkg/tenant/tenant.go\<close>). The Job and the Workflow
  controllers decide what they may adopt, update and delete with these functions only.
\<close>

named_theorems ownership_defs "definitions of the ownership functions"

section \<open>Identity of a parent\<close>

text \<open>The parent arguments the Go functions take one by one.\<close>

record parent_id =
  p_uid :: string
  p_api_version :: string
  p_kind :: string
  p_label :: string
  p_name :: string

abbreviation ParentUIDAnnotation :: string where
  "ParentUIDAnnotation \<equiv> ''rlark.io/parent-uid''"

abbreviation ChildTemplateAnnotation :: string where
  "ChildTemplateAnnotation \<equiv> ''rlark.io/child-template''"

definition ChildName :: "string \<Rightarrow> string \<Rightarrow> string" where
  "ChildName parent child = parent @ ''-'' @ child"

definition owner_matches :: "parent_id \<Rightarrow> owner_ref option \<Rightarrow> bool" where [ownership_defs]:
  "owner_matches p owner \<longleftrightarrow>
     (case owner of None \<Rightarrow> False
      | Some r \<Rightarrow> or_uid r = p_uid p \<and> or_api_version r = p_api_version p \<and>
                  or_kind r = p_kind p \<and> or_name r = p_name p)"

section \<open>Classification\<close>

text \<open>The value is \<open>(owned, legacy)\<close>; the error is the conflict.\<close>

definition ClassifyChild :: "object_meta \<Rightarrow> parent_id \<Rightarrow> string \<Rightarrow> go_error + bool \<times> bool" where
  "ClassifyChild m p template =
     (let uid = mget (om_annotations m) ParentUIDAnnotation;
          tmpl = mget (om_annotations m) ChildTemplateAnnotation;
          owner = om_controller m
      in if owner_matches p owner \<and> uid = None \<and> tmpl = None then Inr (True, True)
         else if uid \<noteq> None \<or> tmpl \<noteq> None \<or> owner \<noteq> None then
           (if uid \<noteq> Some (p_uid p) \<or> tmpl \<noteq> Some template \<or> \<not> owner_matches p owner
            then Inl (ErrText (''child '' @ om_name m @ '' has conflicting ownership metadata''))
            else Inr (True, False))
         else if mread (om_labels m) (p_label p) = p_name p then Inr (True, True)
         else Inl (ErrText (''child '' @ om_name m @ '' already exists and is not owned by '' @ p_name p)))"

definition ClassifyRemovedChild :: "object_meta \<Rightarrow> parent_id \<Rightarrow> string list \<Rightarrow> bool \<times> bool" where
  "ClassifyRemovedChild m p old_templates =
     (let uid = mget (om_annotations m) ParentUIDAnnotation;
          tmpl = mget (om_annotations m) ChildTemplateAnnotation;
          owner = om_controller m;
          matches = owner_matches p owner
      in if (owner \<noteq> None \<and> \<not> matches) \<or> (uid \<noteq> None \<and> uid \<noteq> Some (p_uid p)) then (False, False)
         else if matches \<or> uid \<noteq> None then (True, uid = None \<or> tmpl = None)
         else if tmpl \<noteq> None then (False, False)
         else if mread (om_labels m) (p_label p) \<noteq> p_name p then (False, False)
         else if \<exists>c \<in> set old_templates. ChildName (p_name p) c = om_name m then (True, True)
         else (False, False))"

definition MergeAnnotations :: "go_map \<Rightarrow> (string \<rightharpoonup> string) \<Rightarrow> go_map" where
  "MergeAnnotations existing owned =
     Some (\<lambda>k. case owned k of
       None \<Rightarrow> entries existing k
     | Some v \<Rightarrow> (if v = [] then None else Some v))"

section \<open>Tenant identity\<close>

abbreviation DefaultID :: string where "DefaultID \<equiv> ''default''"
abbreviation DefaultNamespace :: string where "DefaultNamespace \<equiv> ''rlark-system''"
abbreviation IDLabel :: string where "IDLabel \<equiv> ''rlark.io/tenant-id''"
abbreviation CreatedByAnnotation :: string where "CreatedByAnnotation \<equiv> ''rlark.io/created-by''"

definition IDOf :: "object_meta option \<Rightarrow> string" where
  "IDOf obj = (case obj of None \<Rightarrow> DefaultID
     | Some m \<Rightarrow> (if mread (om_labels m) IDLabel \<noteq> [] then mread (om_labels m) IDLabel else DefaultID))"

definition SetIdentity :: "object_meta \<Rightarrow> string \<Rightarrow> string \<Rightarrow> object_meta" where
  "SetIdentity m tenant created_by =
     (let tenant = (if tenant = [] then DefaultID else tenant);
          m = m\<lparr>om_labels := Some ((entries (om_labels m))(IDLabel \<mapsto> tenant))\<rparr>
      in if created_by = [] then m
         else m\<lparr>om_annotations :=
                  Some ((entries (om_annotations m))(CreatedByAnnotation \<mapsto> created_by))\<rparr>)"

definition Inherit :: "object_meta option \<Rightarrow> object_meta \<Rightarrow> object_meta" where
  "Inherit parent child =
     SetIdentity child (IDOf parent)
       (case parent of None \<Rightarrow> [] | Some m \<Rightarrow> annotation m CreatedByAnnotation)"

record tenant =
  tn_id :: string
  tn_name :: string
  tn_default_namespace :: string
  tn_cluster_namespaces :: "string \<rightharpoonup> string"

definition defaultTenant :: tenant where
  "defaultTenant = \<lparr>tn_id = DefaultID, tn_name = ''Default'',
     tn_default_namespace = DefaultNamespace, tn_cluster_namespaces = Map.empty\<rparr>"

definition provider_Get :: "string \<Rightarrow> go_error + tenant" where
  "provider_Get tid =
     (let tid = (if tid = [] then DefaultID else tid)
      in if tid \<noteq> DefaultID then Inl (ErrText (''tenant '' @ quoted tid @ '' not found''))
         else Inr defaultTenant)"

definition ResolveNamespace :: "string \<Rightarrow> string \<Rightarrow> go_error + string" where
  "ResolveNamespace tid cluster =
     (case provider_Get tid of Inl e \<Rightarrow> Inl e
      | Inr t \<Rightarrow>
          (let ns = map_str (tn_cluster_namespaces t) cluster
           in if ns \<noteq> [] then Inr ns
              else if tn_default_namespace t \<noteq> [] then Inr (tn_default_namespace t)
              else Inr DefaultNamespace))"

section \<open>Lemmas\<close>

text \<open>Ownership that the object itself states, by an annotation or by a controller reference.\<close>

definition explicit_owner :: "object_meta \<Rightarrow> bool" where
  "explicit_owner m \<longleftrightarrow>
     mget (om_annotations m) ParentUIDAnnotation \<noteq> None \<or> om_controller m \<noteq> None"

lemma ClassifyChild_owned: "ClassifyChild m p t = Inr (ow, leg) \<Longrightarrow> ow"
  by (auto simp: ClassifyChild_def Let_def split: if_splits)

lemma ClassifyChild_current_iff:
  "ClassifyChild m p t = Inr (True, False) \<longleftrightarrow>
     mget (om_annotations m) ParentUIDAnnotation = Some (p_uid p) \<and>
     mget (om_annotations m) ChildTemplateAnnotation = Some t \<and>
     owner_matches p (om_controller m)"
  by (auto simp: ClassifyChild_def Let_def owner_matches_def split: if_splits option.splits)

lemma ClassifyChild_legacy_iff:
  "ClassifyChild m p t = Inr (True, True) \<longleftrightarrow>
     mget (om_annotations m) ParentUIDAnnotation = None \<and>
     mget (om_annotations m) ChildTemplateAnnotation = None \<and>
     (owner_matches p (om_controller m) \<or>
      om_controller m = None \<and> mread (om_labels m) (p_label p) = p_name p)"
  by (auto simp: ClassifyChild_def Let_def owner_matches_def split: if_splits option.splits)

lemma ClassifyChild_not_panic: "ClassifyChild m p t = Inl e \<Longrightarrow> \<not> is_panic e"
  by (auto simp: ClassifyChild_def Let_def split: if_splits)

lemma owner_matches_uid: "owner_matches p o1 \<Longrightarrow> owner_matches q o1 \<Longrightarrow> p_uid p = p_uid q"
  by (auto simp: owner_matches_def split: option.splits)

lemma mget_MergeAnnotations:
  "mget (MergeAnnotations a b) k =
     (case b k of None \<Rightarrow> mget a k | Some v \<Rightarrow> (if v = [] then None else Some v))"
  by (simp add: MergeAnnotations_def mget_entries split: option.split)

lemma removed_owned_explicit:
  "explicit_owner m \<Longrightarrow> fst (ClassifyRemovedChild m p old) \<longleftrightarrow>
     (om_controller m = None \<or> owner_matches p (om_controller m)) \<and>
     mget (om_annotations m) ParentUIDAnnotation \<in> {None, Some (p_uid p)}"
  by (auto simp: ClassifyRemovedChild_def Let_def explicit_owner_def owner_matches_def
      split: if_splits option.splits)

lemma SetIdentity_frame:
  "om_name (SetIdentity m t c) = om_name m" "om_namespace (SetIdentity m t c) = om_namespace m"
  "om_controller (SetIdentity m t c) = om_controller m"
  "om_uid (SetIdentity m t c) = om_uid m"
  by (simp_all add: SetIdentity_def Let_def)

lemma IDOf_not_empty: "IDOf x \<noteq> []"
  by (simp add: IDOf_def split: option.splits)

section \<open>Properties\<close>

text \<open>
  C33. At most one parent owns an object that states its owner: when two parents both get
  \<open>owned\<close> from \<open>ClassifyChild\<close> for an object with a parent UID annotation or a controller
  reference, they are the same parent UID. Without either, the object is a label-only
  legacy child, and then both parents have the name its label gives.
\<close>
theorem classify_child_single_owner:
  assumes "ClassifyChild m p t = Inr (ow, leg)" and "ClassifyChild m q t' = Inr (ow', leg')"
  shows "ow \<and> ow' \<and>
     (if explicit_owner m then p_uid p = p_uid q
      else leg \<and> leg' \<and> mread (om_labels m) (p_label p) = p_name p \<and>
           mread (om_labels m) (p_label q) = p_name q)"
  using assms
  by (auto simp: ClassifyChild_def Let_def explicit_owner_def owner_matches_def
      split: if_splits option.splits)

definition demo_parent :: "string \<Rightarrow> parent_id" where
  "demo_parent uid = \<lparr>p_uid = uid, p_api_version = GroupVersion, p_kind = ''Job'',
     p_label = ''rlinf.io/job'', p_name = ''train''\<rparr>"

definition demo_meta :: object_meta where
  "demo_meta = \<lparr>om_name = ''train-worker'', om_namespace = ''default'', om_uid = ''t1'',
     om_resource_version = ''7'', om_generation = 1,
     om_labels = Some [''rlinf.io/job'' \<mapsto> ''train''],
     om_annotations = Some [''rlark.io/parent-uid'' \<mapsto> ''u1'', ''rlark.io/child-template'' \<mapsto> ''worker''],
     om_finalizers = None,
     om_controller = Some \<lparr>or_api_version = GroupVersion, or_kind = ''Job'', or_name = ''train'', or_uid = ''u1''\<rparr>,
     om_deletion = None\<rparr>"

theorem classify_child_single_owner_witness:
  "ClassifyChild demo_meta (demo_parent ''u1'') ''worker'' = Inr (True, False) \<and>
   explicit_owner demo_meta \<and> p_uid (demo_parent ''u1'') = p_uid (demo_parent ''u1'')"
proof -
  have c: "ClassifyChild demo_meta (demo_parent ''u1'') ''worker'' = Inr (True, False)"
    by (simp add: ClassifyChild_def demo_meta_def demo_parent_def owner_matches_def)
  show ?thesis
    using classify_child_single_owner [OF c c] c by (simp add: explicit_owner_def demo_meta_def)
qed

text \<open>
  Adoption converges: once a legacy child carries the two annotations that
  \<open>ensureTaskOwnership\<close> and \<open>ensureJobOwnership\<close> merge in, and the parent's controller
  reference, \<open>ClassifyChild\<close> reports it as explicitly owned, so the next reconciliation
  does not adopt it again. This needs a non-empty UID and template name, because
  \<open>MergeAnnotations\<close> treats an empty value as a deletion.
\<close>
theorem adoption_converges:
  assumes "p_uid p \<noteq> []" and "t \<noteq> []"
  shows "ClassifyChild (m\<lparr>om_annotations := MergeAnnotations (om_annotations m)
             [ParentUIDAnnotation \<mapsto> p_uid p, ChildTemplateAnnotation \<mapsto> t],
           om_controller := Some \<lparr>or_api_version = p_api_version p, or_kind = p_kind p,
                                  or_name = p_name p, or_uid = p_uid p\<rparr>\<rparr>) p t
         = Inr (True, False)"
  using assms by (simp add: ClassifyChild_current_iff mget_MergeAnnotations owner_matches_def)

theorem adoption_converges_witness:
  "ClassifyChild (demo_meta\<lparr>om_annotations := MergeAnnotations None
             [ParentUIDAnnotation \<mapsto> ''u1'', ChildTemplateAnnotation \<mapsto> ''worker''],
           om_controller := Some \<lparr>or_api_version = GroupVersion, or_kind = ''Job'',
                                  or_name = ''train'', or_uid = ''u1''\<rparr>\<rparr>)
     (demo_parent ''u1'') ''worker'' = Inr (True, False)"
  using adoption_converges [of "demo_parent ''u1''" "''worker''" "demo_meta\<lparr>om_annotations := None\<rparr>"]
  by (simp add: demo_parent_def)

text \<open>
  Pruning never takes what another owner holds: \<open>ClassifyRemovedChild\<close> claims an
  object that states its owner only when the controller reference, if any, is exactly this
  parent and the parent UID annotation, if any, is this parent's UID; and it claims any
  child that \<open>ClassifyChild\<close> owned for a template still in the old snapshot, so removing
  the template from the spec never leaks the child.
\<close>
theorem removed_child_claims:
  "(explicit_owner m \<longrightarrow> fst (ClassifyRemovedChild m p old) \<longrightarrow>
      (om_controller m = None \<or> owner_matches p (om_controller m)) \<and>
      mget (om_annotations m) ParentUIDAnnotation \<in> {None, Some (p_uid p)}) \<and>
   (ClassifyChild m p t = Inr (True, leg) \<longrightarrow> t \<in> set old \<longrightarrow> om_name m = ChildName (p_name p) t \<longrightarrow>
      fst (ClassifyRemovedChild m p old))"
  by (auto simp: removed_owned_explicit)
     (auto simp: ClassifyChild_def ClassifyRemovedChild_def Let_def owner_matches_def
       split: if_splits option.splits)

theorem removed_child_claims_witness:
  "fst (ClassifyRemovedChild demo_meta (demo_parent ''u1'') [''worker'']) \<and>
   owner_matches (demo_parent ''u1'') (om_controller demo_meta)"
proof -
  have c: "ClassifyChild demo_meta (demo_parent ''u1'') ''worker'' = Inr (True, False)"
    and e: "explicit_owner demo_meta" and n: "om_name demo_meta = ChildName (p_name (demo_parent ''u1'')) ''worker''"
    by (simp_all add: ClassifyChild_def explicit_owner_def demo_meta_def demo_parent_def
        owner_matches_def ChildName_def)
  show ?thesis
    using removed_child_claims [of demo_meta "demo_parent ''u1''" "[''worker'']" "''worker''" False] c e n
    by (auto simp: demo_meta_def)
qed

end
