(* ===== verification/Params.thy ===== *)
theory Params
  imports Api_Types
begin

text \<open>
  The versioned parameter contracts of a Task (\<open>task/api/types.go\<close>) and their strict
  decoding (\<open>task/api/decode.go\<close>), over JSON syntax trees. \<open>encoding/json\<close> matches a key
  exactly first and then ignoring ASCII case, leaves a non-pointer field alone on
  \<open>null\<close>, refuses a value of another kind, a number outside \<open>int32\<close> and, with
  \<open>DisallowUnknownFields\<close>, a key that no field has.
\<close>

named_theorems param_defs "the decoders and encoders of the parameter contracts"

section \<open>Decoding a struct\<close>

type_synonym 'r field = "string \<times> (json \<Rightarrow> 'r \<Rightarrow> 'r option)"

definition ascii_lower :: "string \<Rightarrow> string" where
  "ascii_lower s = map (\<lambda>c. if 65 \<le> (of_char c :: nat) \<and> (of_char c :: nat) \<le> 90
                           then char_of ((of_char c :: nat) + 32) else c) s"

definition find_field :: "'r field list \<Rightarrow> string \<Rightarrow> (json \<Rightarrow> 'r \<Rightarrow> 'r option) option" where
  "find_field fs k = (case map_of fs k of Some f \<Rightarrow> Some f
     | None \<Rightarrow> map_option snd (find (\<lambda>(n, _). ascii_lower n = ascii_lower k) fs))"

fun decode_fields :: "'r field list \<Rightarrow> (string \<times> json) list \<Rightarrow> 'r \<Rightarrow> 'r option" where
  "decode_fields fs [] r = Some r"
| "decode_fields fs ((k, v) # kvs) r =
     (case find_field fs k of None \<Rightarrow> None
      | Some f \<Rightarrow> (case f v r of None \<Rightarrow> None | Some r' \<Rightarrow> decode_fields fs kvs r'))"

fun decode_struct :: "'r field list \<Rightarrow> json \<Rightarrow> 'r \<Rightarrow> 'r option" where
  "decode_struct fs JNull r = Some r"
| "decode_struct fs (JObj kvs) r = decode_fields fs kvs r"
| "decode_struct fs _ r = None"

text \<open>The field types of the contracts.\<close>

fun string_field :: "(string \<Rightarrow> 'r \<Rightarrow> 'r) \<Rightarrow> json \<Rightarrow> 'r \<Rightarrow> 'r option" where
  "string_field set_f (JStr s) r = Some (set_f s r)"
| "string_field set_f JNull r = Some r"
| "string_field set_f _ r = None"

definition int32_of :: "int \<Rightarrow> int32 option" where
  "int32_of i = (if - (2 ^ 31) \<le> i \<and> i < 2 ^ 31 then Some (word_of_int i) else None)"

fun int32_field :: "(int32 \<Rightarrow> 'r \<Rightarrow> 'r) \<Rightarrow> json \<Rightarrow> 'r \<Rightarrow> 'r option" where
  "int32_field set_f (JInt i) r = map_option (\<lambda>w. set_f w r) (int32_of i)"
| "int32_field set_f JNull r = Some r"
| "int32_field set_f _ r = None"

fun int32_ptr_field :: "(int32 option \<Rightarrow> 'r \<Rightarrow> 'r) \<Rightarrow> json \<Rightarrow> 'r \<Rightarrow> 'r option" where
  "int32_ptr_field set_f (JInt i) r = map_option (\<lambda>w. set_f (Some w) r) (int32_of i)"
| "int32_ptr_field set_f JNull r = Some (set_f None r)"
| "int32_ptr_field set_f _ r = None"

definition struct_ptr_field ::
    "'p field list \<Rightarrow> 'p \<Rightarrow> ('r \<Rightarrow> 'p option) \<Rightarrow> ('p option \<Rightarrow> 'r \<Rightarrow> 'r) \<Rightarrow> json \<Rightarrow> 'r \<Rightarrow> 'r option" where
  "struct_ptr_field fs zero get_f set_f j r =
     (if j = JNull then Some (set_f None r)
      else map_option (\<lambda>p. set_f (Some p) r)
             (decode_struct fs j (case get_f r of None \<Rightarrow> zero | Some p \<Rightarrow> p)))"

text \<open>\<open>DecodeParametersStrict\<close>: blank and trailing input are errors too.\<close>

definition DecodeParametersStrict :: "'r field list \<Rightarrow> 'r \<Rightarrow> raw_json \<Rightarrow> go_error + 'r" where
  "DecodeParametersStrict fs zero raw =
     (case raw of
        RawBlank \<Rightarrow> Inl (ErrText ''decode task extension parameters: parameters are required'')
      | RawMalformed \<Rightarrow> Inl (ErrText ''decode task extension parameters'')
      | RawDoc j \<Rightarrow>
          (case decode_struct fs j zero of
             None \<Rightarrow> Inl (ErrText ''decode task extension parameters'')
           | Some r \<Rightarrow> Inr r))"

section \<open>The contracts\<close>

record inline_script =
  is_inline :: string

record ray_parameters =
  rp_role :: string
  rp_head_task_name :: string
  rp_total_nodes :: int32
  rp_node_rank_start :: int32
  rp_prepare :: "inline_script option"
  rp_run :: "inline_script option"

record replicated_parameters =
  rc_replicas :: "int32 option"

record ssh_parameters =
  sp_authorized_keys :: "string list"
  sp_port :: int32

record network_parameters =
  np_domain :: string

abbreviation WorkloadTypeRay :: string where "WorkloadTypeRay \<equiv> ''rlinf.io/ray''"
abbreviation WorkloadVersionRayV1 :: string where "WorkloadVersionRayV1 \<equiv> ''v1''"
abbreviation CarrierTypeKubernetesDeployment :: string where
  "CarrierTypeKubernetesDeployment \<equiv> ''rlinf.io/kubernetes-deployment''"
abbreviation CarrierTypeKubernetesStatefulSet :: string where
  "CarrierTypeKubernetesStatefulSet \<equiv> ''rlinf.io/kubernetes-statefulset''"
abbreviation EnvironmentTypeSSH :: string where "EnvironmentTypeSSH \<equiv> ''rlinf.io/ssh''"
abbreviation EnvironmentVersionSSHV1 :: string where "EnvironmentVersionSSHV1 \<equiv> ''v1''"
abbreviation EnvironmentTypeNetwork :: string where "EnvironmentTypeNetwork \<equiv> ''rlinf.io/network''"
abbreviation EnvironmentVersionNetworkV1 :: string where "EnvironmentVersionNetworkV1 \<equiv> ''v1''"
abbreviation RayRoleHead :: string where "RayRoleHead \<equiv> ''head''"
abbreviation RayRoleWorker :: string where "RayRoleWorker \<equiv> ''worker''"

definition zero_script :: inline_script where [param_defs]:
  "zero_script = \<lparr>is_inline = []\<rparr>"

definition zero_ray :: ray_parameters where [param_defs]:
  "zero_ray = \<lparr>rp_role = [], rp_head_task_name = [], rp_total_nodes = 0, rp_node_rank_start = 0,
     rp_prepare = None, rp_run = None\<rparr>"

definition script_fields :: "inline_script field list" where [param_defs]:
  "script_fields = [(''inline'', string_field (\<lambda>s r. r\<lparr>is_inline := s\<rparr>))]"

definition ray_fields :: "ray_parameters field list" where [param_defs]:
  "ray_fields =
     [(''role'', string_field (\<lambda>s r. r\<lparr>rp_role := s\<rparr>)),
      (''headTaskName'', string_field (\<lambda>s r. r\<lparr>rp_head_task_name := s\<rparr>)),
      (''totalNodes'', int32_field (\<lambda>i r. r\<lparr>rp_total_nodes := i\<rparr>)),
      (''nodeRankStart'', int32_field (\<lambda>i r. r\<lparr>rp_node_rank_start := i\<rparr>)),
      (''prepare'', struct_ptr_field script_fields zero_script rp_prepare (\<lambda>p r. r\<lparr>rp_prepare := p\<rparr>)),
      (''run'', struct_ptr_field script_fields zero_script rp_run (\<lambda>p r. r\<lparr>rp_run := p\<rparr>))]"

definition replicated_fields :: "replicated_parameters field list" where [param_defs]:
  "replicated_fields = [(''replicas'', int32_ptr_field (\<lambda>i r. r\<lparr>rc_replicas := i\<rparr>))]"

definition DecodeRay :: "raw_json \<Rightarrow> go_error + ray_parameters" where
  "DecodeRay = DecodeParametersStrict ray_fields zero_ray"

definition DecodeReplicated :: "raw_json \<Rightarrow> go_error + replicated_parameters" where
  "DecodeReplicated = DecodeParametersStrict replicated_fields \<lparr>rc_replicas = None\<rparr>"

text \<open>\<open>json.Marshal\<close> of the contracts, with the \<open>omitempty\<close> tags of their fields.\<close>

definition marshal_script :: "inline_script \<Rightarrow> json" where [param_defs]:
  "marshal_script s = JObj [(''inline'', JStr (is_inline s))]"

definition marshal_ray :: "ray_parameters \<Rightarrow> json" where [param_defs]:
  "marshal_ray p = JObj
     ([(''role'', JStr (rp_role p))]
      @ (if rp_head_task_name p = [] then [] else [(''headTaskName'', JStr (rp_head_task_name p))])
      @ (if rp_total_nodes p = 0 then [] else [(''totalNodes'', JInt (sint (rp_total_nodes p)))])
      @ (if rp_node_rank_start p = 0 then [] else [(''nodeRankStart'', JInt (sint (rp_node_rank_start p)))])
      @ (case rp_prepare p of None \<Rightarrow> [] | Some s \<Rightarrow> [(''prepare'', marshal_script s)])
      @ (case rp_run p of None \<Rightarrow> [] | Some s \<Rightarrow> [(''run'', marshal_script s)]))"

definition marshal_ssh :: "ssh_parameters \<Rightarrow> json" where [param_defs]:
  "marshal_ssh p = JObj
     ((if sp_authorized_keys p = [] then [] else [(''authorizedKeys'', JArr (map JStr (sp_authorized_keys p)))])
      @ (if sp_port p = 0 then [] else [(''port'', JInt (sint (sp_port p)))]))"

definition marshal_network :: "network_parameters \<Rightarrow> json" where [param_defs]:
  "marshal_network p = JObj [(''domain'', JStr (np_domain p))]"

section \<open>Lemmas\<close>

lemma int32_of_sint [simp]: "int32_of (sint (i :: int32)) = Some i"
  using sint_int32_range [of i] by (simp add: int32_of_def)

lemma find_field_exact: "map_of fs k = Some f \<Longrightarrow> find_field fs k = Some f"
  by (simp add: find_field_def)

lemma ray_field_names:
  "find_field ray_fields ''role'' = Some (string_field (\<lambda>s r. r\<lparr>rp_role := s\<rparr>))"
  "find_field ray_fields ''headTaskName'' = Some (string_field (\<lambda>s r. r\<lparr>rp_head_task_name := s\<rparr>))"
  "find_field ray_fields ''totalNodes'' = Some (int32_field (\<lambda>i r. r\<lparr>rp_total_nodes := i\<rparr>))"
  "find_field ray_fields ''nodeRankStart'' = Some (int32_field (\<lambda>i r. r\<lparr>rp_node_rank_start := i\<rparr>))"
  "find_field ray_fields ''prepare'' =
     Some (struct_ptr_field script_fields zero_script rp_prepare (\<lambda>p r. r\<lparr>rp_prepare := p\<rparr>))"
  "find_field ray_fields ''run'' =
     Some (struct_ptr_field script_fields zero_script rp_run (\<lambda>p r. r\<lparr>rp_run := p\<rparr>))"
  by (simp_all add: find_field_def ray_fields_def)

lemma decode_script: "decode_struct script_fields (marshal_script s) z = Some s"
  by (simp add: param_defs find_field_def)

lemma DecodeRay_marshal: "DecodeRay (RawDoc (marshal_ray p)) = Inr p"
proof -
  have "decode_struct ray_fields (marshal_ray p) zero_ray = Some p"
    by (cases p)
       (auto simp: marshal_ray_def zero_ray_def ray_field_names struct_ptr_field_def decode_script
         marshal_script_def [THEN arg_cong [where f = "\<lambda>j. j = JNull"]] split: option.splits)
  then show ?thesis by (simp add: DecodeRay_def DecodeParametersStrict_def)
qed

section \<open>Properties\<close>

text \<open>
  Round trip of the Ray contract: what \<open>setRayExecution\<close> marshals into
  \<open>workload.parameters\<close> decodes strictly, on the agent's side, to exactly the parameters
  that were written, with every \<open>omitempty\<close> field that was left out at its zero value.
\<close>
theorem ray_parameters_roundtrip: "DecodeRay (RawDoc (marshal_ray p)) = Inr p"
  by (rule DecodeRay_marshal)

end
