(* ===== verification/Phases.thy ===== *)
theory Phases
  imports Api_Types
begin

text \<open>
  The summary of child phases (\<open>pkg/utils/phase.go\<close>) and the update of one status entry
  (\<open>pkg/utils/status.go\<close>). The Go interface \<open>StatusEntry\<close> is a locale; its two providers,
  \<open>JobTaskStatus\<close> and \<open>WorkflowJobStatus\<close>, are its interpretations.
\<close>

section \<open>Phase summary\<close>

record phase_summary =
  AllSucceeded :: bool
  AllStopped :: bool
  AnyFailed :: bool
  AnyRunning :: bool
  HasItems :: bool

text \<open>One iteration of the loop; the cases of the \<open>switch\<close> in the order of the code.\<close>

definition summarize_one ::
    "string \<Rightarrow> string \<Rightarrow> string \<Rightarrow> string \<Rightarrow> phase_summary \<Rightarrow> string \<Rightarrow> phase_summary" where
  "summarize_one succeeded failed running stopped s p =
     (let s = s\<lparr>HasItems := True\<rparr>
      in if p = succeeded then s\<lparr>AllStopped := False\<rparr>
         else if p = failed then s\<lparr>AnyFailed := True, AllSucceeded := False, AllStopped := False\<rparr>
         else if p = running then s\<lparr>AnyRunning := True, AllSucceeded := False, AllStopped := False\<rparr>
         else if p = stopped then s\<lparr>AllSucceeded := False\<rparr>
         else s\<lparr>AllSucceeded := False, AllStopped := False\<rparr>)"

definition SummarizePhases ::
    "string list \<Rightarrow> string \<Rightarrow> string \<Rightarrow> string \<Rightarrow> string \<Rightarrow> phase_summary" where
  "SummarizePhases phases succeeded failed running stopped =
     foldl (summarize_one succeeded failed running stopped)
       \<lparr>AllSucceeded = True, AllStopped = True, AnyFailed = False, AnyRunning = False, HasItems = False\<rparr>
       phases"

lemma SummarizePhases_snoc:
  "SummarizePhases (ps @ [p]) a b c d = summarize_one a b c d (SummarizePhases ps a b c d) p"
  by (simp add: SummarizePhases_def)

lemma SummarizePhases_general:
  assumes "distinct [succeeded, failed, running, stopped]"
  shows "SummarizePhases ps succeeded failed running stopped =
     \<lparr>AllSucceeded = (\<forall>p \<in> set ps. p = succeeded), AllStopped = (\<forall>p \<in> set ps. p = stopped),
      AnyFailed = (\<exists>p \<in> set ps. p = failed), AnyRunning = (\<exists>p \<in> set ps. p = running),
      HasItems = (ps \<noteq> [])\<rparr>"
proof (induction ps rule: rev_induct)
  case Nil
  then show ?case by (simp add: SummarizePhases_def)
next
  case (snoc p ps)
  with assms show ?case by (auto simp: SummarizePhases_snoc summarize_one_def Let_def)
qed

lemma SummarizePhases_quantified:
  assumes "distinct [succeeded, failed, running, stopped]"
  shows "SummarizePhases ps succeeded failed running stopped =
     \<lparr>AllSucceeded = (\<forall>p \<in> set ps. p = succeeded), AllStopped = (\<forall>p \<in> set ps. p = stopped),
      AnyFailed = (failed \<in> set ps), AnyRunning = (running \<in> set ps), HasItems = (ps \<noteq> [])\<rparr>"
  using SummarizePhases_general [OF assms, of ps] by auto

section \<open>Status entries\<close>

definition SyncStatusEntry ::
    "('e \<Rightarrow> string) \<Rightarrow> (string \<Rightarrow> 'e \<Rightarrow> 'e) \<Rightarrow> (string \<Rightarrow> 'e \<Rightarrow> 'e) \<Rightarrow> 'e \<Rightarrow> string \<Rightarrow> string \<Rightarrow> bool \<times> 'e" where
  "SyncStatusEntry get_phase set_phase set_message entry new_phase new_message =
     (if new_phase = [] \<or> new_phase = get_phase entry then (False, entry)
      else (True, set_message new_message (set_phase new_phase entry)))"

text \<open>The methods of the two implementations (\<open>job_types.go\<close>, \<open>workflow_types.go\<close>).\<close>

definition jts_SetPhase :: "string \<Rightarrow> job_task_status \<Rightarrow> job_task_status" where
  "jts_SetPhase p s = s\<lparr>jts_phase := p\<rparr>"

definition jts_SetMessage :: "string \<Rightarrow> job_task_status \<Rightarrow> job_task_status" where
  "jts_SetMessage msg s = s\<lparr>jts_message := msg\<rparr>"

definition wjs_SetPhase :: "string \<Rightarrow> workflow_job_status \<Rightarrow> workflow_job_status" where
  "wjs_SetPhase p s = s\<lparr>wjs_phase := p\<rparr>"

definition wjs_SetMessage :: "string \<Rightarrow> workflow_job_status \<Rightarrow> workflow_job_status" where
  "wjs_SetMessage msg s = s\<lparr>wjs_message := msg\<rparr>"

text \<open>
  What \<open>SyncStatusEntry\<close> needs of an entry: \<open>ident\<close> is the part of it that neither setter
  may touch, the name by which the status list is indexed.
\<close>

locale status_entry =
  fixes get_phase :: "'e \<Rightarrow> string"
    and set_phase :: "string \<Rightarrow> 'e \<Rightarrow> 'e"
    and set_message :: "string \<Rightarrow> 'e \<Rightarrow> 'e"
    and ident :: "'e \<Rightarrow> string"
  assumes get_set_phase: "get_phase (set_phase p e) = p"
    and get_set_message: "get_phase (set_message msg e) = get_phase e"
    and ident_set_phase: "ident (set_phase p e) = ident e"
    and ident_set_message: "ident (set_message msg e) = ident e"
begin

lemma sync_keeps_ident:
  "SyncStatusEntry get_phase set_phase set_message e p msg = (b, e') \<Longrightarrow> ident e' = ident e"
  by (auto simp: SyncStatusEntry_def ident_set_phase ident_set_message split: if_splits)

lemma sync_unchanged:
  "SyncStatusEntry get_phase set_phase set_message e p msg = (False, e') \<Longrightarrow> e' = e"
  by (auto simp: SyncStatusEntry_def split: if_splits)

lemma sync_phase:
  "SyncStatusEntry get_phase set_phase set_message e p msg = (b, e') \<Longrightarrow>
     get_phase e' = (if p = [] then get_phase e else p)"
  by (auto simp: SyncStatusEntry_def get_set_phase get_set_message split: if_splits)

lemma sync_changed_iff:
  "SyncStatusEntry get_phase set_phase set_message e p msg = (b, e') \<Longrightarrow>
     b \<longleftrightarrow> get_phase e' \<noteq> get_phase e"
  by (auto simp: SyncStatusEntry_def get_set_phase get_set_message split: if_splits)

lemma sync_idempotent:
  "SyncStatusEntry get_phase set_phase set_message e p msg = (b, e') \<Longrightarrow>
     SyncStatusEntry get_phase set_phase set_message e' p msg' = (False, e')"
  by (drule sync_phase) (simp add: SyncStatusEntry_def)

end

interpretation jts: status_entry jts_phase jts_SetPhase jts_SetMessage jts_name
  by unfold_locales (simp_all add: jts_SetPhase_def jts_SetMessage_def)

interpretation wjs: status_entry wjs_phase wjs_SetPhase wjs_SetMessage wjs_name
  by unfold_locales (simp_all add: wjs_SetPhase_def wjs_SetMessage_def)

section \<open>Properties\<close>

text \<open>
  \<open>SummarizePhases\<close> computes the five quantified statements its field names promise:
  \<open>AllSucceeded\<close> and \<open>AllStopped\<close> are universal (so both hold of no phases),
  \<open>AnyFailed\<close> and \<open>AnyRunning\<close> existential, for any four distinct phase names.
\<close>
theorem summarize_phases_spec:
  assumes "distinct [succeeded, failed, running, stopped]"
  shows "SummarizePhases ps succeeded failed running stopped =
     \<lparr>AllSucceeded = (\<forall>p \<in> set ps. p = succeeded), AllStopped = (\<forall>p \<in> set ps. p = stopped),
      AnyFailed = (\<exists>p \<in> set ps. p = failed), AnyRunning = (\<exists>p \<in> set ps. p = running),
      HasItems = (ps \<noteq> [])\<rparr>"
  using assms by (rule SummarizePhases_general)

theorem summarize_phases_spec_witness:
  "SummarizePhases [''Running'', ''Failed''] ''Succeeded'' ''Failed'' ''Running'' ''Stopped'' =
     \<lparr>AllSucceeded = False, AllStopped = False, AnyFailed = True, AnyRunning = True, HasItems = True\<rparr>"
  using summarize_phases_spec [of "''Succeeded''" "''Failed''" "''Running''" "''Stopped''" "[''Running'', ''Failed'']"]
  by simp

end
