(* ===== verification/Status_Index.thy ===== *)
theory Status_Index
  imports Phases
begin

text \<open>
  The list of status entries of a parent, indexed by the name of the child: the map of
  pointers into the list (a later entry with the same name replaces an earlier one), and the
  list brought in line with the templates of the spec. \<open>buildTaskStatusMap\<close> with
  \<open>syncTaskStatusSnapshot\<close> of the Job controller and \<open>buildJobStatusMap\<close> with
  \<open>syncJobStatusSnapshot\<close> of the Workflow controller are these functions at their entry type.
\<close>

definition index_last :: "('e \<Rightarrow> string) \<Rightarrow> 'e list \<Rightarrow> string \<rightharpoonup> nat" where
  "index_last ident es = foldl (\<lambda>m i. m(ident (es ! i) \<mapsto> i)) Map.empty [0 ..< length es]"

definition next_entries :: "('e \<Rightarrow> string) \<Rightarrow> (string \<Rightarrow> 'e) \<Rightarrow> 'e list \<Rightarrow> string list \<Rightarrow> 'e list" where
  "next_entries ident blank es names =
     map (\<lambda>n. case index_last ident es n of None \<Rightarrow> blank n | Some i \<Rightarrow> es ! i) names"

text \<open>The entry a name has afterwards: its last entry before, or a blank one.\<close>

definition kept_entry :: "('e \<Rightarrow> string) \<Rightarrow> (string \<Rightarrow> 'e) \<Rightarrow> 'e list \<Rightarrow> string \<Rightarrow> 'e" where
  "kept_entry ident blank es n = (case find (\<lambda>e. ident e = n) (rev es) of None \<Rightarrow> blank n | Some e \<Rightarrow> e)"

lemma foldl_index_map:
  "foldl (\<lambda>m i. m(f i \<mapsto> i)) m is k =
     (case find (\<lambda>i. f i = k) (rev is) of None \<Rightarrow> m k | Some i \<Rightarrow> Some i)"
  by (induction "is" arbitrary: m rule: rev_induct) auto

lemma index_last_Some:
  assumes "index_last ident es n = Some i"
  shows "i < length es" and "ident (es ! i) = n"
proof -
  from assms have "find (\<lambda>i. ident (es ! i) = n) (rev [0 ..< length es]) = Some i"
    by (simp add: index_last_def foldl_index_map split: option.splits)
  from find_SomeD [OF this] show "i < length es" and "ident (es ! i) = n" by auto
qed

lemma index_last_None_iff: "index_last ident es n = None \<longleftrightarrow> n \<notin> ident ` set es"
proof -
  have "index_last ident es n = None \<longleftrightarrow> find (\<lambda>i. ident (es ! i) = n) (rev [0 ..< length es]) = None"
    by (simp add: index_last_def foldl_index_map split: option.split)
  also have "\<dots> \<longleftrightarrow> n \<notin> ident ` set es"
    by (fastforce simp: find_None_iff in_set_conv_nth)
  finally show ?thesis .
qed

lemma index_last_exists: "n \<in> ident ` set es \<Longrightarrow> \<exists>i. index_last ident es n = Some i"
  using index_last_None_iff [of ident es n] by (auto simp del: not_None_eq)

lemma find_map: "find P (map f xs) = map_option f (find (P \<circ> f) xs)"
  by (induction xs) auto

lemma index_last_entry:
  "(case index_last ident es n of None \<Rightarrow> blank n | Some i \<Rightarrow> es ! i) = kept_entry ident blank es n"
proof -
  have rev_nth: "map ((!) es) (rev [0 ..< length es]) = rev es"
    by (simp add: rev_map [symmetric] map_nth)
  from find_map [of "\<lambda>e. ident e = n" "(!) es" "rev [0 ..< length es]"] show ?thesis
    unfolding rev_nth index_last_def foldl_index_map kept_entry_def
    by (auto simp: comp_def split: option.split)
qed

lemma next_entries_kept: "next_entries ident blank es ns = map (kept_entry ident blank es) ns"
  by (simp add: next_entries_def index_last_entry)

lemma kept_entry_ident: "(\<And>n. ident (blank n) = n) \<Longrightarrow> ident (kept_entry ident blank es n) = n"
  by (auto simp: kept_entry_def split: option.split dest: find_SomeD)

lemma next_entries_idents: "(\<And>n. ident (blank n) = n) \<Longrightarrow> map ident (next_entries ident blank es ns) = ns"
  by (simp add: next_entries_kept kept_entry_ident comp_def)

lemma next_entries_again:
  assumes blank: "\<And>n. ident (blank n) = n"
  shows "next_entries ident blank (next_entries ident blank es ns) ns = next_entries ident blank es ns"
proof -
  let ?k = "kept_entry ident blank es" and ?new = "map (kept_entry ident blank es) ns"
  have "kept_entry ident blank ?new n = ?k n" if "n \<in> set ns" for n
  proof -
    have "?k n \<in> set (rev ?new)" using that by auto
    from find_exists [OF this, of "\<lambda>e. ident e = n"] kept_entry_ident [of ident blank, OF blank]
    obtain e where e: "find (\<lambda>e. ident e = n) (rev ?new) = Some e" by auto
    from find_SomeD [OF this] obtain m where m: "e = ?k m" "ident e = n" by auto
    then have "m = n" using kept_entry_ident [of ident blank, OF blank] by simp
    with e m(1) show ?thesis by (simp add: kept_entry_def [of ident blank ?new])
  qed
  then show ?thesis by (simp add: next_entries_kept)
qed

end
