(* ===== verification/Job_Build.thy ===== *)
theory Job_Build
  imports Ownership Params Status_Index "HOL-Library.Product_Lexorder"
begin

text \<open>
  What the Job controller computes without touching the API server
  (\<open>controllermanager/job/build.go\<close>): the Task a template stands for, the ranks of its
  pods, the check of the templates, the status snapshot, and the choice of a namespace
  among listed Nodes and Clusters. A document of parameters is compared as a syntax tree
  where the code compares its bytes.
\<close>

named_theorems job_build "definitions of the builders of a Task"

abbreviation jobLabel :: string where "jobLabel \<equiv> ''rlinf.io/job''"
abbreviation RestartedAtAnnotation :: string where "RestartedAtAnnotation \<equiv> ''rlark.io/restarted-at''"
abbreviation ClusterStoppedAnnotation :: string where "ClusterStoppedAnnotation \<equiv> ''rlark.io/stopped''"
abbreviation RayRoleAnnotation :: string where "RayRoleAnnotation \<equiv> ''rlark.io/ray-role''"
abbreviation RayHeadTaskNameAnnotation :: string where "RayHeadTaskNameAnnotation \<equiv> ''rlark.io/ray-head-task-name''"
abbreviation RayTotalNodesAnnotation :: string where "RayTotalNodesAnnotation \<equiv> ''rlark.io/ray-total-nodes''"
abbreviation RayNodeRankStartAnnotation :: string where "RayNodeRankStartAnnotation \<equiv> ''rlark.io/ray-node-rank-start''"

section \<open>Replicas and ranks\<close>

definition taskReplicas :: "job_task_template \<Rightarrow> int32" where
  "taskReplicas t =
     (let c = wl_carrier (sp_workload (jt_spec t))
      in if wc_type c \<noteq> CarrierTypeKubernetesDeployment \<and> wc_type c \<noteq> CarrierTypeKubernetesStatefulSet
         then 1
         else (case DecodeReplicated (wc_parameters c) of
                 Inl e \<Rightarrow> 1
               | Inr p \<Rightarrow> (case rc_replicas p of None \<Rightarrow> 1 | Some r \<Rightarrow> r)))"

definition totalNodeCount :: "job_task_template list \<Rightarrow> int" where
  "totalNodeCount ts = foldl (\<lambda>total t. total + sint (taskReplicas t)) 0 ts"

fun rank_from :: "int \<Rightarrow> job_task_template list \<Rightarrow> string \<Rightarrow> int" where
  "rank_from rank [] n = rank"
| "rank_from rank (t # ts) n =
     (if jt_name t = n then rank else rank_from (rank + sint (taskReplicas t)) ts n)"

definition rankStartForTask :: "job \<Rightarrow> string \<Rightarrow> int" where
  "rankStartForTask j n = rank_from 0 (jb_tasks (j_spec j)) n"

definition findHeadTaskName :: "job \<Rightarrow> string" where
  "findHeadTaskName j =
     (case find jt_head (jb_tasks (j_spec j)) of None \<Rightarrow> []
      | Some t \<Rightarrow> ChildName (om_name (j_meta j)) (jt_name t))"

section \<open>The environments of a Task\<close>

definition is_network_environment :: "task_environment \<Rightarrow> bool" where
  "is_network_environment e \<longleftrightarrow>
     te_type e = EnvironmentTypeNetwork \<and> te_version e = EnvironmentVersionNetworkV1"

definition setNetworkEnvironment :: "task_spec \<Rightarrow> string \<Rightarrow> task_spec" where
  "setNetworkEnvironment s domain =
     (let filtered = filter (\<lambda>e. \<not> is_network_environment e) (elems (sp_environments s))
      in if domain = [] then s\<lparr>sp_environments := Some filtered\<rparr>
         else s\<lparr>sp_environments := Some (filtered @
                [\<lparr>te_type = EnvironmentTypeNetwork, te_version = EnvironmentVersionNetworkV1,
                  te_parameters = RawDoc (marshal_network \<lparr>np_domain = domain\<rparr>)\<rparr>])\<rparr>)"

fun replace_environment :: "task_environment \<Rightarrow> task_environment list \<Rightarrow> task_environment list" where
  "replace_environment e [] = [e]"
| "replace_environment e (x # xs) =
     (if te_type x = te_type e \<and> te_version x = te_version e then e # xs
      else x # replace_environment e xs)"

definition ssh_environment :: "string \<Rightarrow> task_environment" where
  "ssh_environment key =
     \<lparr>te_type = EnvironmentTypeSSH, te_version = EnvironmentVersionSSHV1,
      te_parameters = RawDoc (marshal_ssh \<lparr>sp_authorized_keys = [key], sp_port = 2222\<rparr>)\<rparr>"

definition setSSHEnvironment :: "task_spec \<Rightarrow> string \<Rightarrow> task_spec" where
  "setSSHEnvironment s key =
     s\<lparr>sp_environments := Some (replace_environment (ssh_environment key) (elems (sp_environments s)))\<rparr>"

section \<open>The Ray workload of a Task\<close>

definition setRayExecution :: "task_spec \<Rightarrow> job \<Rightarrow> job_task_template \<Rightarrow> task_spec" where
  "setRayExecution s j t =
     (let w = sp_workload s
      in if wl_kind w \<noteq> [] \<and> wl_kind w \<noteq> WorkloadTypeRay then s
         else if wl_version w \<noteq> [] \<and> wl_version w \<noteq> WorkloadVersionRayV1 then s
         else
           (case (if wl_parameters w = RawBlank then Inr zero_ray else DecodeRay (wl_parameters w)) of
              Inl e \<Rightarrow> s
            | Inr p \<Rightarrow>
                (let p = p\<lparr>rp_role := RayRoleWorker, rp_head_task_name := findHeadTaskName j,
                           rp_total_nodes := to_int32 (totalNodeCount (jb_tasks (j_spec j))),
                           rp_node_rank_start := to_int32 (rankStartForTask j (jt_name t))\<rparr>;
                     p = (if jt_head t then p\<lparr>rp_role := RayRoleHead, rp_head_task_name := []\<rparr> else p)
                 in s\<lparr>sp_workload := w\<lparr>wl_kind := WorkloadTypeRay, wl_version := WorkloadVersionRayV1,
                                       wl_parameters := RawDoc (marshal_ray p)\<rparr>\<rparr>)))"

definition buildRayAnnotations :: "job \<Rightarrow> job_task_template \<Rightarrow> (string \<rightharpoonup> string)" where
  "buildRayAnnotations j t =
     (let a = [RayTotalNodesAnnotation \<mapsto> itoa (totalNodeCount (jb_tasks (j_spec j))),
               RayNodeRankStartAnnotation \<mapsto> itoa (rankStartForTask j (jt_name t))];
          restarted = annotation (j_meta j) RestartedAtAnnotation;
          a = (if restarted \<noteq> [] then a(RestartedAtAnnotation \<mapsto> restarted) else a);
          a = (if jt_head t then a(RayRoleAnnotation \<mapsto> RayRoleHead) else a(RayRoleAnnotation \<mapsto> RayRoleWorker));
          head = findHeadTaskName j
      in if head \<noteq> [] then a(RayHeadTaskNameAnnotation \<mapsto> head) else a)"

section \<open>The Task of a template\<close>

text \<open>\<open>append([]string(nil), values...)\<close> is nil when there is nothing to append.\<close>

definition copy_values :: "string go_slice \<Rightarrow> string go_slice" where
  "copy_values vs = (if elems vs = [] then None else Some (elems vs))"

definition buildTask :: "job \<Rightarrow> job_task_template \<Rightarrow> string \<Rightarrow> string \<Rightarrow> task" where
  "buildTask j t taskName namespace =
     (let s = setNetworkEnvironment (jt_spec t) (jb_domain (j_spec j));
          s = setSSHEnvironment s (jb_ssh_public_key (j_spec j));
          s = setRayExecution s j t;
          s = s\<lparr>sp_tags := Some (map (\<lambda>g. \<lparr>tag_key = tag_key g, tag_values = copy_values (tag_values g)\<rparr>)
                                   (jb_tags (j_spec j)))\<rparr>;
          s = s\<lparr>sp_suspended := jb_suspended (j_spec j)\<rparr>;
          m = \<lparr>om_name = taskName, om_namespace = namespace, om_uid = [], om_resource_version = [],
               om_generation = 0, om_labels = Some [jobLabel \<mapsto> om_name (j_meta j)],
               om_annotations = MergeAnnotations (Some (buildRayAnnotations j t))
                 [ParentUIDAnnotation \<mapsto> om_uid (j_meta j), ChildTemplateAnnotation \<mapsto> jt_name t],
               om_finalizers = None, om_controller = None, om_deletion = None\<rparr>
      in \<lparr>t_meta = Inherit (Some (j_meta j)) m, t_spec = s,
          t_status = \<lparr>tk_phase = [], tk_observed_generation = 0, tk_observed_nodes = None,
             tk_conditions = [], tk_message = [], tk_pull_progress = None, tk_events = None\<rparr>\<rparr>)"

text \<open>\<open>taskEqual\<close> compares only the spec and the restart annotation.\<close>

definition taskEqual :: "task \<Rightarrow> job \<Rightarrow> job_task_template \<Rightarrow> bool" where
  "taskEqual existing j t =
     (let desired = buildTask j t (om_name (t_meta existing)) (om_namespace (t_meta existing));
          spec = (if annotation (t_meta existing) ClusterStoppedAnnotation = ''true''
                  then (t_spec desired)\<lparr>sp_suspended := True\<rparr> else t_spec desired)
      in t_spec existing = spec \<and>
         annotation (t_meta existing) RestartedAtAnnotation = annotation (t_meta desired) RestartedAtAnnotation)"

section \<open>The check of the templates\<close>

definition template_path :: "nat \<Rightarrow> string" where
  "template_path i = ''spec.tasks['' @ itoa (int i) @ '']''"

definition main_containers :: "pod_template \<Rightarrow> nat" where
  "main_containers p = foldl (\<lambda>n c. if c = ''main'' then n + 1 else n) 0 (pt_container_names p)"

text \<open>One iteration, in the order of the code; \<open>names\<close> are the trimmed names seen so far.\<close>

definition validate_template :: "string list \<Rightarrow> nat \<Rightarrow> job_task_template \<Rightarrow> go_error + string" where
  "validate_template names i t =
     (let path = template_path i;
          name = trim_space (jt_name t);
          s = jt_spec t; w = sp_workload s
      in if name = [] then Inl (ErrText (path @ ''.name must not be empty''))
         else if name \<in> set names then Inl (ErrText (path @ ''.name '' @ quoted name @ '' is duplicated''))
         else if trim_space (sp_runtime_kind s) = [] then Inl (ErrText (path @ ''.runtime.kind must not be empty''))
         else if trim_space (wl_kind w) = [] then Inl (ErrText (path @ ''.workload.kind must not be empty''))
         else if trim_space (wl_version w) = [] then Inl (ErrText (path @ ''.workload.version must not be empty''))
         else if trim_space (wc_type (wl_carrier w)) = [] then
           Inl (ErrText (path @ ''.workload.carrier.type must not be empty''))
         else if trim_space (wc_version (wl_carrier w)) = [] then
           Inl (ErrText (path @ ''.workload.carrier.version must not be empty''))
         else
           (case wl_template w of
              None \<Rightarrow> Inl (ErrText (path @ ''.workload.template is required by the current Job Ray/Kubernetes implementation''))
            | Some p \<Rightarrow>
                (if main_containers p \<noteq> 1 then
                   Inl (ErrText (path @ ''.workload.template.spec.containers must contain exactly one container named '' @
                     quoted ''main'' @ '', got '' @ itoa (int (main_containers p))))
                 else Inr name)))"

fun validate_from :: "string list \<Rightarrow> nat \<Rightarrow> job_task_template list \<Rightarrow> go_error + unit" where
  "validate_from names i [] = Inr ()"
| "validate_from names i (t # ts) =
     (case validate_template names i t of Inl e \<Rightarrow> Inl e
      | Inr name \<Rightarrow> validate_from (name # names) (i + 1) ts)"

definition validateTaskTemplates :: "job \<Rightarrow> go_error + unit" where
  "validateTaskTemplates j = validate_from [] 0 (jb_tasks (j_spec j))"

section \<open>The status snapshot\<close>

text \<open>
  \<open>buildTaskStatusMap\<close> maps a name to a pointer into \<open>status.tasks\<close>: here to the index.
  A later entry with the same name replaces an earlier one.
\<close>

definition buildTaskStatusMap :: "job \<Rightarrow> string \<rightharpoonup> nat" where
  "buildTaskStatusMap j = index_last jts_name (elems (js_tasks (j_status j)))"

definition set_status_tasks :: "job_task_status list \<Rightarrow> job \<Rightarrow> job" where
  "set_status_tasks ts j = j\<lparr>j_status := (j_status j)\<lparr>js_tasks := Some ts\<rparr>\<rparr>"

definition blank_task_status :: "string \<Rightarrow> job_task_status" where
  "blank_task_status n = \<lparr>jts_name = n, jts_phase = [], jts_message = []\<rparr>"

definition next_task_statuses :: "job \<Rightarrow> job_task_status list" where
  "next_task_statuses j =
     next_entries jts_name blank_task_status (elems (js_tasks (j_status j))) (map jt_name (jb_tasks (j_spec j)))"

definition syncTaskStatusSnapshot :: "job \<Rightarrow> bool \<times> job" where
  "syncTaskStatusSnapshot j =
     (let next = next_task_statuses j
      in if js_tasks (j_status j) = Some next then (False, j) else (True, set_status_tasks next j))"

section \<open>The choice of a namespace\<close>

definition simple_selector :: "(string \<times> string) go_slice \<Rightarrow> (string \<times> string) list" where
  "simple_selector sel = map (\<lambda>(k, v). (k, hd (go_split CHR '','' v))) (elems sel)"

definition cluster_usable :: "cluster \<Rightarrow> bool" where
  "cluster_usable c \<longleftrightarrow>
     \<not> (\<not> time_is_zero (om_deletion (c_meta c)) \<or> c_cordoned c \<or> c_draining c \<or> c_delisted c \<or>
        (c_phase c \<noteq> ClusterOnline \<and> c_phase c \<noteq> ClusterDowngraded))"

definition node_eligible :: "cluster list \<Rightarrow> node \<Rightarrow> bool" where
  "node_eligible clusters n \<longleftrightarrow>
     \<not> (n_unschedulable n \<or> n_phase n \<noteq> NodeOnline) \<and>
     (case filter (\<lambda>c. c_agent_namespace c = om_namespace (n_meta n)) clusters of
        [c] \<Rightarrow> cluster_usable c | _ \<Rightarrow> False)"

definition node_key :: "node \<Rightarrow> string \<times> string" where
  "node_key n = (om_namespace (n_meta n), om_name (n_meta n))"

text \<open>Only the namespace of the first Node in the sorted order is used.\<close>

definition choose_namespace :: "string \<Rightarrow> node list \<Rightarrow> cluster list \<Rightarrow> go_error + string" where
  "choose_namespace template nodes clusters =
     (case sort_key node_key (filter (node_eligible clusters) nodes) of
        [] \<Rightarrow> Inl (ErrText (''no schedulable Nodes in an Online or Downgraded Cluster match selector for Task template ''
                 @ quoted template))
      | n # _ \<Rightarrow> Inr (om_namespace (n_meta n)))"

section \<open>Lemmas\<close>

lemma totalNodeCount_sum: "totalNodeCount ts = sum_list (map (\<lambda>t. sint (taskReplicas t)) ts)"
proof -
  have "foldl (\<lambda>total t. total + sint (taskReplicas t)) a ts =
          a + sum_list (map (\<lambda>t. sint (taskReplicas t)) ts)" for a
    by (induction ts arbitrary: a) auto
  then show ?thesis by (simp add: totalNodeCount_def)
qed

lemma rank_from_nth:
  assumes "distinct (map jt_name ts)" and "i < length ts"
  shows "rank_from r ts (jt_name (ts ! i)) =
     r + sum_list (take i (map (\<lambda>t. sint (taskReplicas t)) ts))"
  using assms
proof (induction ts arbitrary: r i)
  case Nil
  then show ?case by simp
next
  case (Cons t ts)
  then show ?case by (cases i) auto
qed

definition is_ssh_environment :: "task_environment \<Rightarrow> bool" where
  "is_ssh_environment e \<longleftrightarrow> te_type e = EnvironmentTypeSSH \<and> te_version e = EnvironmentVersionSSHV1"

lemma is_ssh_ssh [simp]: "is_ssh_environment (ssh_environment k)"
  by (simp add: is_ssh_environment_def ssh_environment_def)

definition network_environment :: "string \<Rightarrow> task_environment" where
  "network_environment d = \<lparr>te_type = EnvironmentTypeNetwork, te_version = EnvironmentVersionNetworkV1,
     te_parameters = RawDoc (marshal_network \<lparr>np_domain = d\<rparr>)\<rparr>"

lemma network_environment_kind [simp]:
  "is_network_environment (network_environment d)" "\<not> is_ssh_environment (network_environment d)"
  by (simp_all add: network_environment_def is_network_environment_def is_ssh_environment_def)

lemma ssh_not_network: "is_ssh_environment e \<Longrightarrow> \<not> is_network_environment e"
  by (auto simp: is_ssh_environment_def is_network_environment_def)

lemma replace_environment_ssh:
  "find is_ssh_environment (replace_environment (ssh_environment k) es) = Some (ssh_environment k)"
  by (induction es) (auto simp: is_ssh_environment_def ssh_environment_def)

lemma replace_environment_filter:
  assumes "\<And>e. P e \<Longrightarrow> \<not> is_ssh_environment e"
  shows "filter P (replace_environment (ssh_environment k) es) = filter P es"
proof -
  have "\<not> P (ssh_environment k)" using assms is_ssh_ssh by blast
  then show ?thesis
    using assms by (induction es) (auto simp: is_ssh_environment_def ssh_environment_def)
qed

lemma setRayExecution_frame [simp]:
  "sp_environments (setRayExecution s j t) = sp_environments s"
  by (simp add: setRayExecution_def Let_def split: sum.split)

lemma buildTask_environments:
  "sp_environments (t_spec (buildTask j t n ns)) =
     sp_environments (setSSHEnvironment (setNetworkEnvironment (jt_spec t) (jb_domain (j_spec j)))
       (jb_ssh_public_key (j_spec j)))"
  by (simp add: buildTask_def Let_def)

lemma setSSH_frame [simp]: "sp_workload (setSSHEnvironment s k) = sp_workload s"
  by (simp add: setSSHEnvironment_def)

lemma setNetwork_frame [simp]: "sp_workload (setNetworkEnvironment s d) = sp_workload s"
  by (simp add: setNetworkEnvironment_def Let_def)

lemma buildTask_workload:
  "sp_workload (t_spec (buildTask j t n ns)) = sp_workload (setRayExecution (jt_spec t) j t)"
  by (simp add: buildTask_def setRayExecution_def Let_def split: sum.split)

lemma buildTask_names:
  "om_name (t_meta (buildTask j t n ns)) = n" "om_namespace (t_meta (buildTask j t n ns)) = ns"
  by (simp_all add: buildTask_def Let_def Inherit_def SetIdentity_frame)

lemma buildTask_spec_indep: "t_spec (buildTask j t n ns) = t_spec (buildTask j t n' ns')"
  by (simp add: buildTask_def Let_def)

lemma mget_update [simp]:
  "mget (om_annotations (SetIdentity m t c)) k =
     (if c \<noteq> [] \<and> k = CreatedByAnnotation then Some c else mget (om_annotations m) k)"
  by (simp add: SetIdentity_def Let_def mget_entries)

lemma buildRayAnnotations_None:
  "k \<notin> {RayTotalNodesAnnotation, RayNodeRankStartAnnotation, RestartedAtAnnotation, RayRoleAnnotation,
         RayHeadTaskNameAnnotation} \<Longrightarrow> buildRayAnnotations j t k = None"
  by (simp add: buildRayAnnotations_def Let_def)

lemma buildRayAnnotations_restarted:
  "buildRayAnnotations j t RestartedAtAnnotation =
     (if annotation (j_meta j) RestartedAtAnnotation = [] then None
      else Some (annotation (j_meta j) RestartedAtAnnotation))"
  by (simp add: buildRayAnnotations_def Let_def)

lemma buildTask_annotation:
  "mget (om_annotations (t_meta (buildTask j t n ns))) k =
     (if annotation (j_meta j) CreatedByAnnotation \<noteq> [] \<and> k = CreatedByAnnotation
      then Some (annotation (j_meta j) CreatedByAnnotation)
      else mget (MergeAnnotations (Some (buildRayAnnotations j t))
             [ParentUIDAnnotation \<mapsto> om_uid (j_meta j), ChildTemplateAnnotation \<mapsto> jt_name t]) k)"
  by (simp add: buildTask_def Let_def Inherit_def)

definition template_ok :: "job_task_template \<Rightarrow> bool" where
  "template_ok t \<longleftrightarrow>
     (let s = jt_spec t; w = sp_workload s
      in trim_space (jt_name t) \<noteq> [] \<and> trim_space (sp_runtime_kind s) \<noteq> [] \<and>
         trim_space (wl_kind w) \<noteq> [] \<and> trim_space (wl_version w) \<noteq> [] \<and>
         trim_space (wc_type (wl_carrier w)) \<noteq> [] \<and> trim_space (wc_version (wl_carrier w)) \<noteq> [] \<and>
         (case wl_template w of None \<Rightarrow> False
          | Some p \<Rightarrow> count_list (pt_container_names p) ''main'' = 1))"

lemma main_containers_count: "main_containers p = count_list (pt_container_names p) ''main''"
proof -
  have "foldl (\<lambda>n c. if c = ''main'' then n + 1 else n) a xs = a + count_list xs ''main''"
    for a :: nat and xs
    by (induction xs arbitrary: a) auto
  then show ?thesis by (simp add: main_containers_def)
qed

lemma validate_template_Inr:
  "validate_template names i t = Inr name \<longleftrightarrow>
     template_ok t \<and> name = trim_space (jt_name t) \<and> name \<notin> set names"
  by (auto simp: validate_template_def template_ok_def Let_def main_containers_count
      split: if_splits option.splits)

lemma validate_from_Inr:
  "validate_from names i ts = Inr () \<longleftrightarrow>
     (\<forall>t \<in> set ts. template_ok t) \<and> distinct (map (\<lambda>t. trim_space (jt_name t)) ts) \<and>
     (\<forall>t \<in> set ts. trim_space (jt_name t) \<notin> set names)"
proof (induction ts arbitrary: names i)
  case Nil
  then show ?case by simp
next
  case (Cons t ts)
  show ?case
  proof (cases "validate_template names i t")
    case (Inl e)
    then have "\<not> (template_ok t \<and> trim_space (jt_name t) \<notin> set names)"
      using validate_template_Inr [of names i t] by auto
    with Inl show ?thesis by auto
  next
    case (Inr name)
    then show ?thesis using Cons.IH validate_template_Inr [of names i t name]
      by (auto simp: image_iff) metis+
  qed
qed

lemma validate_from_no_panic: "validate_from names i ts = Inl e \<Longrightarrow> \<not> is_panic e"
  by (induction ts arbitrary: names i)
     (auto simp: validate_template_def Let_def split: if_splits option.splits sum.splits)

lemma blank_task_status_name [simp]: "jts_name (blank_task_status n) = n"
  by (simp add: blank_task_status_def)

lemma next_task_statuses_names:
  "map jts_name (next_task_statuses j) = map jt_name (jb_tasks (j_spec j))"
  by (simp add: next_task_statuses_def next_entries_idents)

lemma snapshot_tasks:
  "syncTaskStatusSnapshot j = (b, j') \<Longrightarrow> js_tasks (j_status j') = Some (next_task_statuses j)"
  by (auto simp: syncTaskStatusSnapshot_def Let_def set_status_tasks_def split: if_splits)

lemma snapshot_frame:
  "syncTaskStatusSnapshot j = (b, j') \<Longrightarrow>
     j' = j\<lparr>j_status := (j_status j)\<lparr>js_tasks := js_tasks (j_status j')\<rparr>\<rparr>"
  by (auto simp: syncTaskStatusSnapshot_def Let_def set_status_tasks_def split: if_splits)

lemma snapshot_unchanged: "syncTaskStatusSnapshot j = (False, j') \<Longrightarrow> j' = j"
  by (auto simp: syncTaskStatusSnapshot_def Let_def split: if_splits)

lemma next_task_statuses_again:
  assumes "js_tasks (j_status j') = Some (next_task_statuses j)" and "j_spec j' = j_spec j"
  shows "next_task_statuses j' = next_task_statuses j"
  using assms next_entries_again [of jts_name blank_task_status] by (simp add: next_task_statuses_def)

section \<open>Properties\<close>

text \<open>The parent a Job is to its Tasks, and the controller reference it sets.\<close>

definition job_parent :: "job \<Rightarrow> parent_id" where
  "job_parent j = \<lparr>p_uid = om_uid (j_meta j), p_api_version = GroupVersion, p_kind = ''Job'',
     p_label = jobLabel, p_name = om_name (j_meta j)\<rparr>"

definition job_ref :: "job \<Rightarrow> owner_ref" where
  "job_ref j = \<lparr>or_api_version = GroupVersion, or_kind = ''Job'', or_name = om_name (j_meta j),
     or_uid = om_uid (j_meta j)\<rparr>"

definition demo_template :: "string \<Rightarrow> bool \<Rightarrow> int \<Rightarrow> job_task_template" where
  "demo_template n head replicas =
     \<lparr>jt_name = n, jt_head = head,
      jt_spec = \<lparr>sp_role = ''trainer'', sp_downstream_name = [], sp_suspended = False,
        sp_node_selector = None, sp_runtime_kind = ''Kubernetes'', sp_runtime_name = [],
        sp_workload = \<lparr>wl_kind = WorkloadTypeRay, wl_version = ''v1'', wl_parameters = RawBlank,
          wl_carrier = \<lparr>wc_type = CarrierTypeKubernetesDeployment, wc_version = ''v1'',
                         wc_parameters = RawDoc (JObj [(''replicas'', JInt replicas)])\<rparr>,
          wl_template = Some \<lparr>pt_container_names = [''main''], pt_opaque = []\<rparr>\<rparr>,
        sp_environments = None, sp_tags = None\<rparr>\<rparr>"

definition demo_job :: job where
  "demo_job =
     \<lparr>j_meta = demo_meta\<lparr>om_name := ''train'', om_uid := ''u1'', om_annotations := None, om_labels := None,
                         om_controller := None\<rparr>,
      j_spec = \<lparr>jb_domain = ''lab'', jb_suspended = False,
                jb_task_slice = Some [demo_template ''head'' True 1, demo_template ''worker'' False 3],
                jb_ssh_public_key = ''key'', jb_tag_slice = None\<rparr>,
      j_status = \<lparr>js_phase = [], js_observed_generation = 0, js_tasks = None, js_conditions = [],
                  js_start_time = None, js_end_time = None\<rparr>\<rparr>"

lemma demo_replicas:
  "map (\<lambda>t. sint (taskReplicas t)) (jb_tasks (j_spec demo_job)) = [1, 3]"
  by code_simp

text \<open>
  The pods of a Job get ranks without gap or overlap: with distinct template names and no
  negative replica count, every rank below \<open>totalNodeCount\<close> belongs to exactly one
  template, the one whose interval of \<open>taskReplicas\<close> ranks from \<open>rankStartForTask\<close> on
  contains it.
\<close>
theorem ranks_partition:
  assumes "distinct (map jt_name (jb_tasks (j_spec j)))"
    and "\<forall>t \<in> set (jb_tasks (j_spec j)). 0 \<le> sint (taskReplicas t)"
    and "0 \<le> r" and "r < totalNodeCount (jb_tasks (j_spec j))"
  shows "\<exists>!i. i < length (jb_tasks (j_spec j)) \<and>
     rankStartForTask j (jt_name (jb_tasks (j_spec j) ! i)) \<le> r \<and>
     r < rankStartForTask j (jt_name (jb_tasks (j_spec j) ! i)) + sint (taskReplicas (jb_tasks (j_spec j) ! i))"
proof -
  let ?ts = "jb_tasks (j_spec j)"
  let ?ws = "map (\<lambda>t. sint (taskReplicas t)) ?ts"
  have rank: "rankStartForTask j (jt_name (?ts ! i)) = sum_list (take i ?ws)" if "i < length ?ts" for i
    using rank_from_nth [OF assms(1) that, of 0] by (simp add: rankStartForTask_def)
  have "\<exists>!i. i < length ?ws \<and> sum_list (take i ?ws) \<le> r \<and> r < sum_list (take i ?ws) + ?ws ! i"
    using assms(2-4) by (intro block_of_position) (auto simp: totalNodeCount_sum)
  moreover have "(i < length ?ws \<and> sum_list (take i ?ws) \<le> r \<and> r < sum_list (take i ?ws) + ?ws ! i) \<longleftrightarrow>
     (i < length ?ts \<and> rankStartForTask j (jt_name (?ts ! i)) \<le> r \<and>
      r < rankStartForTask j (jt_name (?ts ! i)) + sint (taskReplicas (?ts ! i)))" for i
    by (cases "i < length ?ts") (simp_all add: rank)
  ultimately show ?thesis by simp
qed

theorem ranks_partition_witness:
  "\<exists>!i. i < length (jb_tasks (j_spec demo_job)) \<and>
     rankStartForTask demo_job (jt_name (jb_tasks (j_spec demo_job) ! i)) \<le> 2 \<and>
     2 < rankStartForTask demo_job (jt_name (jb_tasks (j_spec demo_job) ! i)) +
         sint (taskReplicas (jb_tasks (j_spec demo_job) ! i))"
proof (rule ranks_partition)
  show "distinct (map jt_name (jb_tasks (j_spec demo_job)))" by code_simp
  have "\<forall>w \<in> set (map (\<lambda>t. sint (taskReplicas t)) (jb_tasks (j_spec demo_job))). 0 \<le> w"
    unfolding demo_replicas by simp
  then show "\<forall>t \<in> set (jb_tasks (j_spec demo_job)). 0 \<le> sint (taskReplicas t)" by simp
  show "(2::int) < totalNodeCount (jb_tasks (j_spec demo_job))"
    unfolding totalNodeCount_sum demo_replicas by simp
qed simp

text \<open>
  \<open>validateTaskTemplates\<close> accepts exactly the Jobs whose templates all have a non-blank
  name, runtime kind, workload kind and version, carrier type and version and a pod template
  with one container named \<open>main\<close>, with no two names equal after trimming; then the child
  names the controller derives are pairwise distinct. It never panics.
\<close>
theorem validate_task_templates_spec:
  "(validateTaskTemplates j = Inr () \<longleftrightarrow>
      (\<forall>t \<in> set (jb_tasks (j_spec j)). template_ok t) \<and>
      distinct (map (\<lambda>t. trim_space (jt_name t)) (jb_tasks (j_spec j)))) \<and>
   (validateTaskTemplates j = Inr () \<longrightarrow>
      distinct (map (\<lambda>t. ChildName (om_name (j_meta j)) (jt_name t)) (jb_tasks (j_spec j)))) \<and>
   (\<forall>e. validateTaskTemplates j = Inl e \<longrightarrow> \<not> is_panic e)"
proof -
  let ?ts = "jb_tasks (j_spec j)"
  have "distinct (map (\<lambda>t. ChildName (om_name (j_meta j)) (jt_name t)) ?ts)"
    if "distinct (map (\<lambda>t. trim_space (jt_name t)) ?ts)"
    using that by (auto simp: distinct_map inj_on_def ChildName_def)
  then show ?thesis
    using validate_from_Inr [of "[]" 0 ?ts] validate_from_no_panic [of "[]" 0 ?ts]
    by (auto simp: validateTaskTemplates_def)
qed

theorem validate_task_templates_spec_witness:
  "validateTaskTemplates demo_job = Inr () \<and>
   distinct (map (\<lambda>t. ChildName ''train'' (jt_name t)) (jb_tasks (j_spec demo_job)))"
proof -
  have trim: "trim_space n = n" if "n \<in> {''head'', ''worker'', ''Kubernetes'', WorkloadTypeRay, ''v1'', CarrierTypeKubernetesDeployment}" for n
    using that by (intro trim_space_graph) (auto simp: ascii_graph_def)
  have "\<forall>t \<in> set (jb_tasks (j_spec demo_job)). template_ok t"
    "distinct (map (\<lambda>t. trim_space (jt_name t)) (jb_tasks (j_spec demo_job)))"
    by (simp_all add: demo_job_def demo_template_def template_ok_def trim)
  then have v: "validateTaskTemplates demo_job = Inr ()"
    using validate_task_templates_spec [of demo_job] by simp
  have n: "om_name (j_meta demo_job) = ''train''" by code_simp
  show ?thesis using validate_task_templates_spec [of demo_job] v n by simp
qed

text \<open>
  The environments of a built Task: exactly one network environment, with the Job's
  domain, when the Job has a domain and none when it has not, whatever the template had; the
  first SSH environment is the one with the Job's public key on port 2222; and every other
  environment of the template is kept, in order.
\<close>
theorem build_task_environment_spec:
  "filter is_network_environment (elems (sp_environments (t_spec (buildTask j t n ns)))) =
     (if jb_domain (j_spec j) = [] then []
      else [network_environment (jb_domain (j_spec j))]) \<and>
   find is_ssh_environment (elems (sp_environments (t_spec (buildTask j t n ns)))) =
     Some (ssh_environment (jb_ssh_public_key (j_spec j))) \<and>
   filter (\<lambda>e. \<not> is_network_environment e \<and> \<not> is_ssh_environment e)
       (elems (sp_environments (t_spec (buildTask j t n ns)))) =
     filter (\<lambda>e. \<not> is_network_environment e \<and> \<not> is_ssh_environment e) (elems (sp_environments (jt_spec t)))"
proof -
  have "filter is_network_environment (replace_environment (ssh_environment k) es) = filter is_network_environment es"
    for k es
    by (rule replace_environment_filter) (use ssh_not_network in blast)
  moreover have "filter (\<lambda>e. \<not> is_network_environment e \<and> \<not> is_ssh_environment e)
      (replace_environment (ssh_environment k) es) =
    filter (\<lambda>e. \<not> is_network_environment e \<and> \<not> is_ssh_environment e) es" for k es
    by (rule replace_environment_filter) simp
  ultimately show ?thesis
    by (simp add: buildTask_environments setSSHEnvironment_def setNetworkEnvironment_def Let_def
        replace_environment_ssh network_environment_def [symmetric])
qed

text \<open>
  The Ray parameters of a built Task: when the template asks for the Ray workload (or for
  no kind) in version v1 (or none) with parameters that decode, the built Task's parameters
  decode to the same scripts with the role, the head Task name, the node total and the first
  rank of the template; a head gets no head Task name. Any other workload is left alone.
\<close>
theorem build_task_ray_parameters:
  "let w = sp_workload (jt_spec t); w' = sp_workload (t_spec (buildTask j t n ns));
       decoded = (if wl_parameters w = RawBlank then Inr zero_ray else DecodeRay (wl_parameters w))
   in if wl_kind w \<in> {[], WorkloadTypeRay} \<and> wl_version w \<in> {[], WorkloadVersionRayV1} \<and> \<not> isl decoded
      then wl_kind w' = WorkloadTypeRay \<and> wl_version w' = WorkloadVersionRayV1 \<and>
        DecodeRay (wl_parameters w') =
          Inr \<lparr>rp_role = (if jt_head t then RayRoleHead else RayRoleWorker),
               rp_head_task_name = (if jt_head t then [] else findHeadTaskName j),
               rp_total_nodes = to_int32 (totalNodeCount (jb_tasks (j_spec j))),
               rp_node_rank_start = to_int32 (rankStartForTask j (jt_name t)),
               rp_prepare = rp_prepare (projr decoded), rp_run = rp_run (projr decoded)\<rparr> \<and>
        wl_carrier w' = wl_carrier w \<and> wl_template w' = wl_template w
      else w' = w"
proof -
  define decoded where "decoded = (if wl_parameters (sp_workload (jt_spec t)) = RawBlank then Inr zero_ray
    else DecodeRay (wl_parameters (sp_workload (jt_spec t))))"
  have rt: "DecodeRay (RawDoc (marshal_ray p)) = Inr p" for p by (rule DecodeRay_marshal)
  show ?thesis
    unfolding buildTask_workload Let_def setRayExecution_def decoded_def [symmetric]
    by (cases decoded) (auto simp: rt)
qed

text \<open>
  A created Task is born owned: with the Job's controller reference set, as
  \<open>SetControllerReference\<close> does, \<open>ClassifyChild\<close> reports it as explicitly owned by the Job
  for its template (the Job has a UID and the template a name); it carries the Job's label,
  its tenant and its suspension, and it is in the namespace it was built for.
\<close>
theorem build_task_owned:
  assumes "om_uid (j_meta j) \<noteq> []" and "jt_name t \<noteq> []"
  shows "ClassifyChild ((t_meta (buildTask j t n ns))\<lparr>om_controller := Some (job_ref j)\<rparr>) (job_parent j) (jt_name t)
           = Inr (True, False) \<and>
     mread (om_labels (t_meta (buildTask j t n ns))) jobLabel = om_name (j_meta j) \<and>
     IDOf (Some (t_meta (buildTask j t n ns))) = IDOf (Some (j_meta j)) \<and>
     sp_suspended (t_spec (buildTask j t n ns)) = jb_suspended (j_spec j) \<and>
     om_name (t_meta (buildTask j t n ns)) = n \<and> om_namespace (t_meta (buildTask j t n ns)) = ns"
proof -
  have id: "IDOf (Some (j_meta j)) \<noteq> []" by (rule IDOf_not_empty)
  have labels: "om_labels (t_meta (buildTask j t n ns)) =
      Some ([jobLabel \<mapsto> om_name (j_meta j)](IDLabel \<mapsto> IDOf (Some (j_meta j))))"
    using id by (simp add: buildTask_def Let_def Inherit_def SetIdentity_def)
  have "ClassifyChild ((t_meta (buildTask j t n ns))\<lparr>om_controller := Some (job_ref j)\<rparr>) (job_parent j) (jt_name t)
     = Inr (True, False)"
    using assms
    by (simp add: ClassifyChild_current_iff buildTask_annotation mget_MergeAnnotations job_parent_def
        job_ref_def owner_matches_def)
  moreover have "IDOf (Some (t_meta (buildTask j t n ns))) = IDOf (Some (j_meta j))"
    unfolding IDOf_def [of "Some (t_meta (buildTask j t n ns))"] option.case labels
    by (simp add: id)
  moreover have "sp_suspended (t_spec (buildTask j t n ns)) = jb_suspended (j_spec j)"
    by (simp add: buildTask_def Let_def)
  moreover have "mread (om_labels (t_meta (buildTask j t n ns))) jobLabel = om_name (j_meta j)"
    unfolding labels by simp
  ultimately show ?thesis using buildTask_names by blast
qed

theorem build_task_owned_witness:
  "ClassifyChild ((t_meta (buildTask demo_job (demo_template ''worker'' False 3) ''train-worker'' ''default''))
      \<lparr>om_controller := Some (job_ref demo_job)\<rparr>) (job_parent demo_job) ''worker'' = Inr (True, False)"
  using build_task_owned [of demo_job "demo_template ''worker'' False 3" "''train-worker''" "''default''"]
  by (simp add: demo_job_def demo_template_def)

text \<open>
  The status snapshot: after \<open>syncTaskStatusSnapshot\<close> the status lists exactly the
  templates of the spec, in order; an entry that was there keeps its phase and message (the
  last of several with the name), a new one is blank; the flag is false only when nothing was
  written; nothing else of the Job changes; and a second call changes nothing.
\<close>
theorem status_snapshot_spec:
  "case syncTaskStatusSnapshot j of (changed, j') \<Rightarrow>
     map jts_name (elems (js_tasks (j_status j'))) = map jt_name (jb_tasks (j_spec j)) \<and>
     (\<forall>e \<in> set (elems (js_tasks (j_status j'))). e = kept_entry jts_name blank_task_status (elems (js_tasks (j_status j))) (jts_name e)) \<and>
     (changed \<longleftrightarrow> js_tasks (j_status j') \<noteq> js_tasks (j_status j)) \<and>
     j' = j\<lparr>j_status := (j_status j)\<lparr>js_tasks := js_tasks (j_status j')\<rparr>\<rparr> \<and>
     syncTaskStatusSnapshot j' = (False, j')"
proof -
  obtain changed j' where r: "syncTaskStatusSnapshot j = (changed, j')" by (cases "syncTaskStatusSnapshot j")
  note tasks = snapshot_tasks [OF r] and frame = snapshot_frame [OF r]
  have spec: "j_spec j' = j_spec j" by (subst frame) simp
  have "syncTaskStatusSnapshot j' = (False, j')"
    using next_task_statuses_again [OF tasks spec] tasks by (simp add: syncTaskStatusSnapshot_def)
  moreover have "changed \<longleftrightarrow> js_tasks (j_status j') \<noteq> js_tasks (j_status j)"
    using r by (auto simp: syncTaskStatusSnapshot_def Let_def set_status_tasks_def split: if_splits)
  moreover have "\<forall>e \<in> set (next_task_statuses j). e = kept_entry jts_name blank_task_status (elems (js_tasks (j_status j))) (jts_name e)"
    by (auto simp: next_task_statuses_def next_entries_kept kept_entry_ident)
  ultimately show ?thesis using tasks frame next_task_statuses_names [of j] by (simp add: r)
qed

theorem status_snapshot_spec_witness:
  "map jts_name (elems (js_tasks (j_status (snd (syncTaskStatusSnapshot demo_job))))) = [''head'', ''worker'']"
proof -
  have "map jt_name (jb_tasks (j_spec demo_job)) = [''head'', ''worker'']" by code_simp
  then show ?thesis using status_snapshot_spec [of demo_job] by (simp split: prod.splits)
qed

text \<open>
  An update of a Task converges: with the restart annotation already the Job's, the Task
  that \<open>reconcileTaskInNamespace\<close> writes back (the desired spec, suspended when its cluster
  stopped it, and the merged annotations) is equal to the desired one, so the next
  reconciliation of an unchanged Job does not write it again.
\<close>
theorem update_task_converges:
  assumes "annotation (t_meta e) RestartedAtAnnotation = annotation (j_meta j) RestartedAtAnnotation"
  shows "let d = buildTask j t (om_name (t_meta e)) (om_namespace (t_meta e))
    in taskEqual (e\<lparr>t_spec := (if annotation (t_meta e) ClusterStoppedAnnotation = ''true''
                               then (t_spec d)\<lparr>sp_suspended := True\<rparr> else t_spec d),
                     t_meta := (t_meta e)\<lparr>om_annotations :=
                       MergeAnnotations (om_annotations (t_meta e)) (entries (om_annotations (t_meta d)))\<rparr>\<rparr>) j t"
proof -
  have mread: "mread (MergeAnnotations a (entries b)) k =
      (case mget b k of None \<Rightarrow> mread a k | Some v \<Rightarrow> v)" for a b k
    by (cases a; cases b) (auto simp: MergeAnnotations_def map_str_def split: option.split)
  have d: "mget (om_annotations (t_meta (buildTask j t n ns))) ClusterStoppedAnnotation = None"
    "mget (om_annotations (t_meta (buildTask j t n ns))) RestartedAtAnnotation =
       (if annotation (j_meta j) RestartedAtAnnotation = [] then None
        else Some (annotation (j_meta j) RestartedAtAnnotation))" for n ns
    by (simp_all add: buildTask_annotation mget_MergeAnnotations buildRayAnnotations_None
        buildRayAnnotations_restarted)
  have "annotation (t_meta (buildTask j t n ns)) RestartedAtAnnotation = annotation (j_meta j) RestartedAtAnnotation"
    for n ns
    by (simp add: mread_def map_str_def d)
  then show ?thesis using assms by (simp add: taskEqual_def Let_def mread d buildTask_spec_indep)
qed

definition demo_task :: task where
  "demo_task = buildTask demo_job (demo_template ''worker'' False 3) ''train-worker'' ''default''"

theorem update_task_converges_witness:
  "taskEqual (demo_task\<lparr>t_meta := (t_meta demo_task)\<lparr>om_annotations :=
      MergeAnnotations (om_annotations (t_meta demo_task)) (entries (om_annotations (t_meta demo_task)))\<rparr>\<rparr>)
     demo_job (demo_template ''worker'' False 3)"
proof -
  have a: "annotation (t_meta demo_task) RestartedAtAnnotation = annotation (j_meta demo_job) RestartedAtAnnotation"
    "annotation (t_meta demo_task) ClusterStoppedAnnotation = []"
    by code_simp+
  have n: "om_name (t_meta demo_task) = ''train-worker''" "om_namespace (t_meta demo_task) = ''default''"
    by (simp_all add: demo_task_def buildTask_names)
  show ?thesis
    using update_task_converges [OF a(1), of "demo_template ''worker'' False 3"]
    by (simp add: Let_def n a(2) demo_task_def [symmetric])
qed

text \<open>
  The comparison never succeeds for a Task whose tag list is nil: \<open>buildTask\<close> always
  makes a list, which \<open>reflect.DeepEqual\<close> tells from nil. The API server returns nil for the
  tags of a Job without tags, because the field is \<open>omitempty\<close>, so such a Task is updated
  in every reconciliation.
\<close>
theorem untagged_task_never_equal:
  assumes "sp_tags (t_spec e) = None"
  shows "\<not> taskEqual e j t"
  using assms by (auto simp: taskEqual_def buildTask_def Let_def)

theorem untagged_task_never_equal_witness:
  "let d = buildTask demo_job (demo_template ''worker'' False 3) ''train-worker'' ''default''
   in sp_tags (t_spec d) = Some [] \<and>
      \<not> taskEqual (d\<lparr>t_spec := (t_spec d)\<lparr>sp_tags := None\<rparr>\<rparr>) demo_job (demo_template ''worker'' False 3)"
proof -
  have "sp_tags (t_spec (buildTask demo_job (demo_template ''worker'' False 3) ''train-worker'' ''default'')) = Some []"
    by (simp add: buildTask_def Let_def demo_job_def)
  then show ?thesis by (simp add: Let_def untagged_task_never_equal)
qed

end
