(* ===== verification/Fsm.thy ===== *)
theory Fsm
  imports Prelude
begin

text \<open>
  The event tables of the Job and Workflow state machines are data of the repository; the
  engine that runs them is the library \<open>looplab/fsm\<close>, which is not, so it is the record
  \<open>fsm_lib\<close>, a parameter of the controllers. \<open>fsm_documented\<close> is what its documentation
  promises of the two calls they make, \<open>Can\<close> and \<open>Event\<close>: an event can occur when the
  table has an entry for it with the current state among its sources, and firing it moves
  to that entry's destination, calling \<open>enter_<STATE>\<close> and then \<open>enter_state\<close>.
\<close>

section \<open>Tables and the engine\<close>

record event_desc =
  ev_name :: string
  ev_src :: "string list"
  ev_dst :: string

text \<open>The fields of \<open>fsm.Event\<close> that the callbacks read.\<close>

record fsm_args =
  fe_event :: string
  fe_src :: string
  fe_dst :: string

type_synonym 's callbacks = "string \<rightharpoonup> (fsm_args \<Rightarrow> 's \<Rightarrow> 's)"

record 's fsm_lib =
  fsm_Can :: "event_desc list \<Rightarrow> string \<Rightarrow> string \<Rightarrow> bool"
  fsm_Event :: "event_desc list \<Rightarrow> 's callbacks \<Rightarrow> string \<Rightarrow> string \<Rightarrow> ('s, string) prog"

definition run_callback :: "'s callbacks \<Rightarrow> string \<Rightarrow> fsm_args \<Rightarrow> 's \<Rightarrow> 's" where
  "run_callback cbs k e s = (case cbs k of None \<Rightarrow> s | Some f \<Rightarrow> f e s)"

definition enter :: "'s callbacks \<Rightarrow> string \<Rightarrow> string \<Rightarrow> string \<Rightarrow> 's \<Rightarrow> 's" where
  "enter cbs ev src dst s =
     (let e = \<lparr>fe_event = ev, fe_src = src, fe_dst = dst\<rparr>
      in run_callback cbs ''enter_state'' e (run_callback cbs (''enter_'' @ dst) e s))"

definition table_can :: "event_desc list \<Rightarrow> string \<Rightarrow> string \<Rightarrow> bool" where
  "table_can evs cur ev \<longleftrightarrow> (\<exists>d \<in> set evs. ev_name d = ev \<and> cur \<in> set (ev_src d))"

definition deterministic :: "event_desc list \<Rightarrow> bool" where
  "deterministic evs \<longleftrightarrow>
     (\<forall>d \<in> set evs. \<forall>d' \<in> set evs. ev_name d = ev_name d' \<longrightarrow>
        (\<exists>x \<in> set (ev_src d). x \<in> set (ev_src d')) \<longrightarrow> ev_dst d = ev_dst d')"

definition only_enter :: "'s callbacks \<Rightarrow> bool" where
  "only_enter cbs \<longleftrightarrow> (\<forall>k. cbs k \<noteq> None \<longrightarrow> (\<exists>x. k = ''enter_'' @ x))"

definition fsm_documented :: "'s fsm_lib \<Rightarrow> bool" where
  "fsm_documented F \<longleftrightarrow>
     (\<forall>evs cur ev. fsm_Can F evs cur ev \<longleftrightarrow> table_can evs cur ev) \<and>
     (\<forall>evs cbs cur d s.
        deterministic evs \<longrightarrow> only_enter cbs \<longrightarrow> d \<in> set evs \<longrightarrow> cur \<in> set (ev_src d) \<longrightarrow>
        ev_dst d \<noteq> cur \<longrightarrow>
        fsm_Event F evs cbs cur (ev_name d) s =
          (Inr (ev_dst d), enter cbs (ev_name d) cur (ev_dst d) s))"

text \<open>An engine that behaves as documented: the table looked up directly.\<close>

definition table_fsm :: "'s fsm_lib" where
  "table_fsm = \<lparr>fsm_Can = table_can,
     fsm_Event = (\<lambda>evs cbs cur ev s.
       case find (\<lambda>d. ev_name d = ev \<and> cur \<in> set (ev_src d)) evs of
         None \<Rightarrow> (Inl (ErrText ''event inappropriate in current state''), s)
       | Some d \<Rightarrow> (Inr (ev_dst d), enter cbs ev cur (ev_dst d) s))\<rparr>"

lemma table_fsm_documented: "fsm_documented (table_fsm :: 's fsm_lib)"
proof -
  have can: "fsm_Can (table_fsm :: 's fsm_lib) = table_can" by (simp add: table_fsm_def)
  have fire: "fsm_Event table_fsm evs cbs cur (ev_name d) s =
          (Inr (ev_dst d), enter cbs (ev_name d) cur (ev_dst d) s)"
    if det: "deterministic evs" and d: "d \<in> set evs" "cur \<in> set (ev_src d)"
    for evs and cbs :: "'s callbacks" and cur d s
  proof -
    obtain d' where f: "find (\<lambda>x. ev_name x = ev_name d \<and> cur \<in> set (ev_src x)) evs = Some d'"
      using find_exists [of d evs "\<lambda>x. ev_name x = ev_name d \<and> cur \<in> set (ev_src x)"] d by auto
    from find_SomeD [OF f]
    have "d' \<in> set evs" "ev_name d' = ev_name d" "cur \<in> set (ev_src d')" by simp_all
    with det d have "ev_dst d' = ev_dst d" unfolding deterministic_def by blast
    with f show ?thesis by (simp add: table_fsm_def)
  qed
  show ?thesis
    unfolding fsm_documented_def can
    by (intro conjI allI impI refl) (rule fire)
qed

section \<open>What a table promises\<close>

text \<open>
  The contract of an event table over the phases of a resource: events are deterministic,
  move to another phase, start from the empty phase of a new object or from a phase, and
  lead to a phase. Then firing an event that \<open>Can\<close> occur succeeds and runs the callbacks.
\<close>

locale event_table =
  fixes evs :: "event_desc list" and phases :: "string list"
  assumes det: "deterministic evs"
    and moves: "d \<in> set evs \<Longrightarrow> ev_dst d \<notin> set (ev_src d)"
    and into: "d \<in> set evs \<Longrightarrow> ev_dst d \<in> set phases"
    and from_phases: "d \<in> set evs \<Longrightarrow> set (ev_src d) \<subseteq> insert [] (set phases)"
begin

lemma fire:
  assumes "fsm_documented F" and "only_enter cbs" and "fsm_Can F evs cur ev"
  obtains dst where "fsm_Event F evs cbs cur ev s = (Inr dst, enter cbs ev cur dst s)"
    and "dst \<in> set phases" and "dst \<noteq> cur"
    and "\<exists>d \<in> set evs. ev_name d = ev \<and> cur \<in> set (ev_src d) \<and> ev_dst d = dst"
proof -
  from assms(1,3) obtain d where d: "d \<in> set evs" "ev_name d = ev" "cur \<in> set (ev_src d)"
    unfolding fsm_documented_def table_can_def by blast
  with moves have "ev_dst d \<noteq> cur" by auto
  with assms(1,2) det d have "fsm_Event F evs cbs cur ev s = (Inr (ev_dst d), enter cbs ev cur (ev_dst d) s)"
    unfolding fsm_documented_def by blast
  with d into \<open>ev_dst d \<noteq> cur\<close> show ?thesis by (intro that [of "ev_dst d"]) auto
qed

lemma wp_fire:
  assumes "fsm_documented F" and "only_enter cbs" and "fsm_Can F evs cur ev"
    and "\<And>dst. dst \<in> set phases \<Longrightarrow> dst \<noteq> cur \<Longrightarrow>
           \<exists>d \<in> set evs. ev_name d = ev \<and> cur \<in> set (ev_src d) \<and> ev_dst d = dst \<Longrightarrow>
           Q dst (enter cbs ev cur dst s)"
  shows "wp (fsm_Event F evs cbs cur ev) Q E s"
  by (rule fire [OF assms(1-3), of s]) (simp add: wp_def assms(4))

end

end
