(* ===== verification/Steps.thy ===== *)
theory Steps
  imports Fsm
begin

text \<open>
  How the controllers change the object they hold in memory. A state machine runs over a
  pair of the object and the world; \<open>frame\<close> is what it must leave alone (metadata and spec),
  \<open>sync\<close> an invariant of the status it must not lose, \<open>phase\<close> the phase its machine follows.
  The locale \<open>object_frame\<close> is that interface; its rules compose the steps of a Go function
  that reports \<open>(changed, err)\<close>, and the Job and the Workflow controllers interpret it.
\<close>

section \<open>A step\<close>

text \<open>
  \<open>step_ok_of frame sync I x changed (x', w')\<close>: the program that ran from \<open>x\<close> kept the world's
  invariant \<open>I\<close>, the frame and the status invariant, and reports \<open>changed = False\<close> only when
  the object is as it was. An error return keeps the world's invariant and the frame.
\<close>

definition step_ok_of ::
    "('o \<Rightarrow> 'o \<Rightarrow> bool) \<Rightarrow> ('o \<Rightarrow> bool) \<Rightarrow> ('w \<Rightarrow> bool) \<Rightarrow> 'o \<Rightarrow> bool \<Rightarrow> 'o \<times> 'w \<Rightarrow> bool" where
  "step_ok_of frame sync I x changed s \<longleftrightarrow>
     I (snd s) \<and> frame x (fst s) \<and> (sync x \<longrightarrow> sync (fst s)) \<and> (changed \<or> fst s = x)"

definition step_err_of :: "('o \<Rightarrow> 'o \<Rightarrow> bool) \<Rightarrow> ('w \<Rightarrow> bool) \<Rightarrow> 'o \<Rightarrow> go_error \<Rightarrow> 'o \<times> 'w \<Rightarrow> bool" where
  "step_err_of frame I x e s \<longleftrightarrow> I (snd s) \<and> frame x (fst s) \<and> no_panic e"

text \<open>
  \<open>if f.Can(ev) { if err := f.Event(...); err != nil { return false, err }; changed = true }\<close>:
  the flag and the machine's new state.
\<close>

definition event_if ::
    "'s fsm_lib \<Rightarrow> event_desc list \<Rightarrow> 's callbacks \<Rightarrow> string \<Rightarrow> string \<Rightarrow> bool \<Rightarrow> ('s, bool \<times> string) prog" where
  "event_if F evs cbs cur ev changed =
     (if fsm_Can F evs cur ev then
        seq (fsm_Event F evs cbs cur ev) (\<lambda>dst. ok (True, dst))
      else ok (changed, cur))"

section \<open>Composing steps\<close>

locale object_frame =
  fixes frame :: "'o \<Rightarrow> 'o \<Rightarrow> bool" and sync :: "'o \<Rightarrow> bool" and phase :: "'o \<Rightarrow> string"
  assumes frame_refl: "frame x x"
    and frame_trans: "frame x y \<Longrightarrow> frame y z \<Longrightarrow> frame x z"
begin

lemma step_ok_refl: "I w \<Longrightarrow> step_ok_of frame sync I x b (x, w)"
  by (simp add: step_ok_of_def frame_refl)

lemma step_ok_changed:
  "I w \<Longrightarrow> frame x y \<Longrightarrow> (sync x \<Longrightarrow> sync y) \<Longrightarrow> step_ok_of frame sync I x True (y, w)"
  by (simp add: step_ok_of_def)

lemma step_ok_mono: "step_ok_of frame sync I x b s \<Longrightarrow> (b \<Longrightarrow> b') \<Longrightarrow> step_ok_of frame sync I x b' s"
  by (auto simp: step_ok_of_def)

lemma step_ok_trans:
  "step_ok_of frame sync I x b (y, w) \<Longrightarrow> step_ok_of frame sync I y b' s \<Longrightarrow>
     step_ok_of frame sync I x (b \<or> b') s"
  by (auto simp: step_ok_of_def intro: frame_trans)

lemma step_err_trans:
  "step_ok_of frame sync I x b (y, w) \<Longrightarrow> step_err_of frame I y e s \<Longrightarrow> step_err_of frame I x e s"
  by (auto simp: step_ok_of_def step_err_of_def intro: frame_trans)

text \<open>
  The rule for \<open>m; f\<close> where both report a flag: the second part runs from whatever object the
  first one left, and its flag covers the first one's.
\<close>

lemma wp_steps:
  assumes first: "wp m (\<lambda>a s. step_ok_of frame sync I x (c a) s \<and> P a (fst s)) (step_err_of frame I x) (x, w)"
    and second: "\<And>a y w'. I w' \<Longrightarrow> frame x y \<Longrightarrow> (sync x \<Longrightarrow> sync y) \<Longrightarrow> P a y \<Longrightarrow>
       wp (f a) (\<lambda>b s. step_ok_of frame sync I y (d b) s \<and> (c a \<longrightarrow> d b) \<and> R b (fst s))
         (step_err_of frame I y) (y, w')"
  shows "wp (seq m f) (\<lambda>b s. step_ok_of frame sync I x (d b) s \<and> R b (fst s)) (step_err_of frame I x) (x, w)"
  unfolding wp_seq
proof (rule wp_mono [OF first])
  fix a s
  assume s: "step_ok_of frame sync I x (c a) s \<and> P a (fst s)"
  obtain y w' where Pair: "s = (y, w')" by (cases s)
  with s have ok1: "step_ok_of frame sync I x (c a) (y, w')" and "P a y" by simp_all
  then have "I w'" "frame x y" "sync x \<Longrightarrow> sync y"
    by (simp_all add: step_ok_of_def)
  from second [OF this \<open>P a y\<close>]
  show "wp (f a) (\<lambda>b s. step_ok_of frame sync I x (d b) s \<and> R b (fst s)) (step_err_of frame I x) s"
    unfolding Pair
    by (rule wp_mono) (auto intro: step_ok_mono [OF step_ok_trans [OF ok1]] step_err_trans [OF ok1])
qed simp

text \<open>A step of the world only.\<close>

lemma wp_world_step:
  assumes "keeps I m Q no_panic" and "I w"
  shows "wp (on_snd m) (\<lambda>a s. step_ok_of frame sync I x False s \<and> (fst s = x \<and> Q a))
    (step_err_of frame I x) (x, w)"
  unfolding wp_on_snd
  by (rule wp_mono [OF keepsD [OF assms]]) (auto simp: step_ok_of_def step_err_of_def frame_refl)

lemma wp_world_then:
  assumes m: "keeps I m Q no_panic" and w: "I w"
    and f: "\<And>a w'. I w' \<Longrightarrow> Q a \<Longrightarrow>
      wp (f a) (\<lambda>b s. step_ok_of frame sync I x (d b) s \<and> R b (fst s)) (step_err_of frame I x) (x, w')"
  shows "wp (seq (on_snd m) f) (\<lambda>b s. step_ok_of frame sync I x (d b) s \<and> R b (fst s)) (step_err_of frame I x) (x, w)"
proof (rule wp_steps [where c = "\<lambda>_. False" and P = "\<lambda>a y. y = x \<and> Q a"])
  show "wp (on_snd m) (\<lambda>a s. step_ok_of frame sync I x False s \<and> (fst s = x \<and> Q a)) (step_err_of frame I x) (x, w)"
    using wp_world_step [OF m w] by simp
next
  fix a y w'
  assume "I w'" "y = x \<and> Q a"
  then show "wp (f a) (\<lambda>b s. step_ok_of frame sync I y (d b) s \<and> (False \<longrightarrow> d b) \<and> R b (fst s))
      (step_err_of frame I y) (y, w')"
    using f by simp
qed

text \<open>A loop that keeps the status in sync and the phase.\<close>

lemma wp_object_fold:
  assumes w: "I w" and n: "sync x"
    and step: "\<And>b a y w'. a \<in> set as \<Longrightarrow> I w' \<Longrightarrow> frame x y \<Longrightarrow> sync y \<Longrightarrow>
      wp (f b a) (\<lambda>b' s. step_ok_of frame sync I y b' s \<and> ((b \<longrightarrow> b') \<and> phase (fst s) = phase y))
        (step_err_of frame I y) (y, w')"
  shows "wp (fold_prog f False as)
     (\<lambda>b s. step_ok_of frame sync I x b s \<and> (sync (fst s) \<and> phase (fst s) = phase x)) (step_err_of frame I x) (x, w)"
proof (rule wp_fold)
  show "step_ok_of frame sync I x False (x, w) \<and> (sync (fst (x, w)) \<and> phase (fst (x, w)) = phase x)"
    using w n by (simp add: step_ok_refl)
next
  fix b a s
  assume a: "a \<in> set as" and J: "step_ok_of frame sync I x b s \<and> (sync (fst s) \<and> phase (fst s) = phase x)"
  obtain y w' where s: "s = (y, w')" by (cases s)
  with J have ok1: "step_ok_of frame sync I x b (y, w')" and n': "sync y" "phase y = phase x" by simp_all
  then have "I w'" "frame x y" by (simp_all add: step_ok_of_def)
  from step [OF a this n'(1), of b]
  show "wp (f b a) (\<lambda>b s. step_ok_of frame sync I x b s \<and> (sync (fst s) \<and> phase (fst s) = phase x))
      (step_err_of frame I x) s"
    unfolding s
  proof (rule wp_mono)
    fix b' s'
    assume r: "step_ok_of frame sync I y b' s' \<and> ((b \<longrightarrow> b') \<and> phase (fst s') = phase y)"
    then have "step_ok_of frame sync I x b' s'" by (auto intro: step_ok_mono [OF step_ok_trans [OF ok1]])
    moreover have "sync (fst s')" using r n'(1) by (simp add: step_ok_of_def)
    ultimately show "step_ok_of frame sync I x b' s' \<and> (sync (fst s') \<and> phase (fst s') = phase x)"
      using r n'(2) by simp
  qed (rule step_err_trans [OF ok1])
qed

lemma wp_flag_ok:
  assumes "wp m (\<lambda>b s. step_ok_of frame sync I x b s \<and> phase (fst s) = phase x) (step_err_of frame I x) (x, w)"
  shows "wp (seq m (\<lambda>b. ok (b \<or> changed)))
     (\<lambda>b s. step_ok_of frame sync I x b s \<and> ((changed \<longrightarrow> b) \<and> phase (fst s) = phase x)) (step_err_of frame I x) (x, w)"
  unfolding wp_seq wp_ok by (rule wp_mono [OF assms]) (auto intro: step_ok_mono)

lemma wp_synced_then:
  assumes "wp m (\<lambda>b s. step_ok_of frame sync I x b s \<and> (sync (fst s) \<and> phase (fst s) = phase x))
      (step_err_of frame I x) (x, w)"
    and "\<And>ch y w'. I w' \<Longrightarrow> frame x y \<Longrightarrow> sync y \<Longrightarrow> phase y = phase x \<Longrightarrow>
       wp (f ch) (\<lambda>b s. step_ok_of frame sync I y (d b) s \<and> (ch \<longrightarrow> d b) \<and> R b (fst s))
         (step_err_of frame I y) (y, w')"
  shows "wp (seq m f) (\<lambda>b s. step_ok_of frame sync I x (d b) s \<and> R b (fst s)) (step_err_of frame I x) (x, w)"
  by (rule wp_steps [where c = "\<lambda>b. b", OF assms(1)]) (blast intro: assms(2))

end

text \<open>
  Firing an event from the phase of the object: when the callbacks of every phase of the table
  keep the frame and leave the object in that phase, the machine's state and the phase agree
  afterwards, whether the event could occur or not.
\<close>

locale framed_machine = object_frame frame sync phase + event_table evs phases
  for frame :: "'o \<Rightarrow> 'o \<Rightarrow> bool" and sync phase evs phases
begin

lemma wp_event_if:
  assumes doc: "fsm_documented F" and only: "only_enter cbs" and w: "I w" and cur: "cur = phase x"
    and enter: "\<And>dst. dst \<in> set phases \<Longrightarrow> \<exists>y w'. enter cbs ev cur dst (x, w) = (y, w') \<and> I w' \<and>
      frame x y \<and> (sync x \<longrightarrow> sync y) \<and> phase y = dst"
  shows "wp (event_if F evs cbs cur ev ch)
     (\<lambda>a s. step_ok_of frame sync I x (fst a) s \<and> ((ch \<longrightarrow> fst a) \<and> snd a = phase (fst s)))
     (step_err_of frame I x) (x, w)"
proof (cases "fsm_Can F evs cur ev")
  case False
  with w cur show ?thesis by (simp add: event_if_def wp_simps step_ok_refl)
next
  case True
  have "step_ok_of frame sync I x True (enter cbs ev cur dst (x, w)) \<and>
      ((ch \<longrightarrow> True) \<and> dst = phase (fst (enter cbs ev cur dst (x, w))))" if d: "dst \<in> set phases" for dst
    using enter [OF d] by (auto simp: step_ok_of_def)
  then show ?thesis
    unfolding event_if_def if_P [OF True] wp_seq wp_ok fst_conv snd_conv
    by (intro wp_fire [OF doc only True]) blast
qed

end

end
