(* ===== verification/Reconcile.thy ===== *)
theory Reconcile
  imports Api_Types
begin

text \<open>
  The generic reconciler (\<open>controllermanager/controller/base.go\<close>). A resource controller
  gives it \<open>Get\<close>, \<open>IsTerminal\<close>, \<open>ReconcileStateMachine\<close> and the status writer; the locale
  \<open>reconciler\<close> is the contract of that interface, interpreted by the Job and the Workflow
  controllers. A result is \<open>RequeueAfter\<close> in nanoseconds, 0 for none.
\<close>

abbreviation ErrRequeueAfterChildCleanup :: go_error where
  "ErrRequeueAfterChildCleanup \<equiv> ErrSentinel ''ErrRequeueAfterChildCleanup''"

abbreviation ChildCleanupRequeue :: int where "ChildCleanupRequeue \<equiv> 1000000000"

definition write_status :: "('o \<Rightarrow> ('w, 'o) prog) \<Rightarrow> bool \<Rightarrow> 'o \<Rightarrow> int \<Rightarrow> ('w, int) prog" where
  "write_status update changed obj after =
     (if changed then seq (update obj) (\<lambda>_. ok after) else ok after)"

definition ReconcileWith ::
    "(string \<Rightarrow> string \<Rightarrow> ('w, 'o) prog) \<Rightarrow> ('o \<Rightarrow> bool) \<Rightarrow> ('o \<times> 'w, bool \<times> go_error option) prog
      \<Rightarrow> ('o \<Rightarrow> ('w, 'o) prog) \<Rightarrow> string \<Rightarrow> string \<Rightarrow> ('w, int) prog" where
  "ReconcileWith get terminal rsm update ns name =
     seq (attempt (get ns name)) (\<lambda>r. case r of
       Inl e \<Rightarrow> (if is_not_found e then ok 0 else fail e)
     | Inr obj \<Rightarrow>
         (if terminal obj then ok 0
          else
            seq (on_err (on_obj obj rsm)
                   (\<lambda>e. if errors_is e ''ErrRequeueAfterChildCleanup''
                        then ok ((False, Some e), obj) else fail e))
              (\<lambda>((changed, err), obj'). case err of
                 Some e \<Rightarrow>
                   (if errors_is e ''ErrRequeueAfterChildCleanup''
                    then write_status update changed obj' ChildCleanupRequeue
                    else fail e)
               | None \<Rightarrow> write_status update changed obj' 0)))"

text \<open>
  The contract: from a good state, the state machine does not panic, returns no error beside
  a result but the request for child clean-up, and reports no change in a result only when
  the object in memory is as it was read, so leaving out the status update then loses nothing.
\<close>

locale reconciler =
  fixes rsm :: "('o \<times> 'w, bool \<times> go_error option) prog"
    and good :: "'o \<times> 'w \<Rightarrow> bool"
  assumes unchanged: "good s \<Longrightarrow> rsm s = (Inr (False, err), s') \<Longrightarrow> fst s' = fst s"
    and total: "good s \<Longrightarrow> rsm s = (Inl e, s') \<Longrightarrow> no_panic e"
    and cleanup_only: "good s \<Longrightarrow> rsm s = (Inr (changed, Some e), s') \<Longrightarrow> errors_is e ''ErrRequeueAfterChildCleanup''"
begin

text \<open>
  What \<open>ReconcileWith\<close> does with each outcome of the machine. A result writes the computed
  object exactly when it says it changed; an error without a result writes nothing, even
  when it is the request for child clean-up, which makes the run succeed.
\<close>

lemma outcome:
  assumes "get ns name w = (Inr obj, w1)" and "\<not> terminal obj" and "good (obj, w1)"
    and "rsm (obj, w1) = (r, (obj', w2))"
  shows "ReconcileWith get terminal rsm update ns name w =
    (case r of
       Inr (changed, err) \<Rightarrow>
         (let after = (if err = None then 0 else ChildCleanupRequeue)
          in if changed then (case update obj' w2 of (Inl e, w3) \<Rightarrow> (Inl e, w3) | (Inr _, w3) \<Rightarrow> (Inr after, w3))
             else (Inr after, w2))
     | Inl e \<Rightarrow> (if errors_is e ''ErrRequeueAfterChildCleanup'' then (Inr ChildCleanupRequeue, w2) else (Inl e, w2)))"
    and "r = Inr (False, err) \<Longrightarrow> obj' = obj" and "r = Inl e \<Longrightarrow> no_panic e"
proof -
  show same: "r = Inr (False, err) \<Longrightarrow> obj' = obj" for err
    using unchanged [OF assms(3), of err "(obj', w2)"] assms(4) by simp
  show np: "r = Inl e \<Longrightarrow> no_panic e" for e
    using total [OF assms(3)] assms(4) by simp
  have "r = Inr (c, Some e) \<Longrightarrow> errors_is e ''ErrRequeueAfterChildCleanup''" for c e
    using cleanup_only [OF assms(3)] assms(4) by simp
  then show "ReconcileWith get terminal rsm update ns name w =
    (case r of
       Inr (changed, err) \<Rightarrow>
         (let after = (if err = None then 0 else ChildCleanupRequeue)
          in if changed then (case update obj' w2 of (Inl e, w3) \<Rightarrow> (Inl e, w3) | (Inr _, w3) \<Rightarrow> (Inr after, w3))
             else (Inr after, w2))
     | Inl e \<Rightarrow> (if errors_is e ''ErrRequeueAfterChildCleanup'' then (Inr ChildCleanupRequeue, w2) else (Inl e, w2)))"
    using np assms(1,2,4)
    by (auto simp: ReconcileWith_def write_status_def run_defs Let_def split: sum.split prod.split option.split)
qed

lemma no_panic_run:
  assumes "\<And>e w'. get ns name w = (Inl e, w') \<Longrightarrow> no_panic e"
    and "\<And>obj w1. get ns name w = (Inr obj, w1) \<Longrightarrow> good (obj, w1)"
    and "\<And>obj changed e w1 s. rsm (obj, w1) = (Inr (changed, Some e), s) \<Longrightarrow> no_panic e"
    and "\<And>obj e w1 w2. update obj w1 = (Inl e, w2) \<Longrightarrow> no_panic e"
    and "ReconcileWith get terminal rsm update ns name w = (Inl e, w')"
  shows "no_panic e"
proof (cases "get ns name w")
  case (Pair r w1)
  show ?thesis
  proof (cases r)
    case (Inl e1)
    with Pair assms(1) assms(5) show ?thesis
      by (auto simp: ReconcileWith_def run_defs split: if_splits)
  next
    case (Inr obj)
    note g = assms(2) [OF Pair [unfolded Inr]]
    obtain r2 obj' w2 where r2: "rsm (obj, w1) = (r2, (obj', w2))" by (metis prod.exhaust)
    show ?thesis
      using assms(5) Pair Inr r2 total [OF g] assms(3) [of obj w1] assms(4)
      by (cases r2)
         (auto simp: ReconcileWith_def write_status_def run_defs split: if_splits option.splits sum.splits prod.splits)
  qed
qed

end

end
