(* ===== verification/Job_Tasks.thy ===== *)
theory Job_Tasks
  imports Job_Build Phases Steps Reconcile
begin

text \<open>
  The operations of the Job controller on the Tasks of a Job (\<open>controllermanager/job/sync.go\<close>
  and the two clean-up loops of \<open>job_controller.go\<close>). The API server, the clock, the scheme
  and the condition helper are not part of the repository: they are the fields of the record
  \<open>job_env\<close>, over an abstract world. A \<open>List\<close> through the field index \<open>taskJobField\<close> is
  \<open>je_list_tasks\<close> at the name of the Job. What the client writes back into the object that an
  \<open>Update\<close> or a \<open>Create\<close> was given is the value these return.
\<close>

record 'w job_env =
  je_fsm :: "(job \<times> 'w) fsm_lib"
  je_now :: "'w \<Rightarrow> time \<times> 'w"
  je_set_condition :: "condition list \<Rightarrow> condition \<Rightarrow> 'w \<Rightarrow> (bool \<times> condition list) \<times> 'w"
  je_set_controller_ref :: "object_meta \<Rightarrow> object_meta \<Rightarrow> go_error + object_meta"
  je_list_tasks :: "string \<Rightarrow> ('w, task list) prog"
  je_get_task :: "string \<Rightarrow> string \<Rightarrow> ('w, task) prog"
  je_create_task :: "task \<Rightarrow> ('w, task) prog"
  je_update_task :: "task \<Rightarrow> ('w, task) prog"
  je_delete_task :: "task \<Rightarrow> ('w, unit) prog"
  je_list_nodes :: "(string \<times> string) list \<Rightarrow> ('w, node list) prog"
  je_list_clusters :: "('w, cluster list) prog"
  je_get_job :: "string \<Rightarrow> string \<Rightarrow> ('w, job) prog"
  je_update_job :: "job \<Rightarrow> ('w, job) prog"
  je_update_job_status :: "job \<Rightarrow> ('w, job) prog"

abbreviation TaskAgentCleanupFinalizer :: string where
  "TaskAgentCleanupFinalizer \<equiv> ''rlark.io/agent-cleanup''"

section \<open>Discovery\<close>

text \<open>The key of a Task in the index \<open>taskJobField\<close>.\<close>

definition indexTaskByJob :: "task \<Rightarrow> string list" where
  "indexTaskByJob t =
     (let l = mread (om_labels (t_meta t)) jobLabel in if l = [] then [] else [l])"

definition task_id :: "task \<Rightarrow> string" where
  "task_id t = om_namespace (t_meta t) @ ''/'' @ om_name (t_meta t)"

definition listJobTasks :: "'w job_env \<Rightarrow> job \<Rightarrow> ('w, task list) prog" where
  "listJobTasks env j =
     wrap (''list Tasks for Job '' @ om_name (j_meta j)) (je_list_tasks env (om_name (j_meta j)))"

definition ownership_conflict :: "task \<Rightarrow> go_error \<Rightarrow> go_error" where
  "ownership_conflict t e = ErrWrap (''task '' @ task_id t @ '' ownership conflict'') e"

text \<open>The inner loop for one template: the first candidate with its annotation or its name.\<close>

definition find_template_task :: "job \<Rightarrow> task list \<Rightarrow> job_task_template \<Rightarrow> go_error + task option" where
  "find_template_task j candidates t =
     (case find (\<lambda>task. \<not> (annotation (t_meta task) ChildTemplateAnnotation \<noteq> jt_name t \<and>
                           om_name (t_meta task) \<noteq> ChildName (om_name (j_meta j)) (jt_name t))) candidates of
        None \<Rightarrow> Inr None
      | Some task \<Rightarrow>
          (case ClassifyChild (t_meta task) (job_parent j) (jt_name t) of
             Inl e \<Rightarrow> Inl (ownership_conflict task e)
           | Inr _ \<Rightarrow> Inr (Some task)))"

fun find_owned_from ::
    "job \<Rightarrow> task list \<Rightarrow> (string \<rightharpoonup> task) \<Rightarrow> job_task_template list \<Rightarrow> go_error + (string \<rightharpoonup> task)" where
  "find_owned_from j candidates m [] = Inr m"
| "find_owned_from j candidates m (t # ts) =
     (case find_template_task j candidates t of
        Inl e \<Rightarrow> Inl e
      | Inr None \<Rightarrow> find_owned_from j candidates m ts
      | Inr (Some task) \<Rightarrow> find_owned_from j candidates (m(jt_name t \<mapsto> task)) ts)"

definition findOwnedTasksByTemplate :: "'w job_env \<Rightarrow> job \<Rightarrow> ('w, string \<rightharpoonup> task) prog" where
  "findOwnedTasksByTemplate env j =
     seq (listJobTasks env j)
       (\<lambda>candidates. give (find_owned_from j candidates Map.empty (jb_tasks (j_spec j))))"

section \<open>Placement\<close>

definition resolveTaskNamespace :: "'w job_env \<Rightarrow> job_task_template \<Rightarrow> ('w, string) prog" where
  "resolveTaskNamespace env t =
     (let sel = sp_node_selector (jt_spec t)
      in if elems sel = [] then ok ''default''
         else
           seq (wrap (''list Nodes matching selector for Task template '' @ quoted (jt_name t))
                  (je_list_nodes env (simple_selector sel)))
             (\<lambda>nodes.
               if nodes = [] then fail (ErrText (''no Nodes match selector for Task template '' @ quoted (jt_name t)))
               else seq (wrap (''list Clusters for Task template '' @ quoted (jt_name t)) (je_list_clusters env))
                      (\<lambda>clusters. give (choose_namespace (jt_name t) nodes clusters))))"

definition resolveTaskNamespaces :: "'w job_env \<Rightarrow> job_task_template list \<Rightarrow> ('w, string list) prog" where
  "resolveTaskNamespaces env ts =
     fold_prog (\<lambda>nss t. seq (resolveTaskNamespace env t) (\<lambda>ns. ok (nss @ [ns]))) [] ts"

section \<open>One Task\<close>

definition taskTerminal :: "task \<Rightarrow> bool" where
  "taskTerminal t \<longleftrightarrow> tk_phase (t_status t) = PhaseSucceeded \<or> tk_phase (t_status t) = PhaseFailed"

text \<open>The value is the Task as the caller's variable holds it afterwards.\<close>

definition ensureTaskOwnership :: "'w job_env \<Rightarrow> job \<Rightarrow> string \<Rightarrow> task \<Rightarrow> ('w, task) prog" where
  "ensureTaskOwnership env j template t =
     (case ClassifyChild (t_meta t) (job_parent j) template of
        Inl e \<Rightarrow> fail (ownership_conflict t e)
      | Inr (owned, legacy) \<Rightarrow>
          if \<not> owned then fail (ownership_conflict t (ErrText ''%!w(<nil>)''))
          else if \<not> legacy then ok t
          else
            (let m = (t_meta t)\<lparr>om_labels := Some ((entries (om_labels (t_meta t)))(jobLabel \<mapsto> om_name (j_meta j))),
                                om_annotations := MergeAnnotations (om_annotations (t_meta t))
                                  [ParentUIDAnnotation \<mapsto> om_uid (j_meta j), ChildTemplateAnnotation \<mapsto> template]\<rparr>
             in seq (wrap (''adopt Task '' @ task_id t) (give (je_set_controller_ref env (j_meta j) m)))
                  (\<lambda>m. wrap (''adopt Task '' @ task_id t) (je_update_task env (t\<lparr>t_meta := m\<rparr>)))))"

text \<open>The branch of \<open>reconcileTaskInNamespace\<close> for a Task that \<open>Get\<close> returned.\<close>

definition update_existing_task ::
    "'w job_env \<Rightarrow> job \<Rightarrow> job_task_template \<Rightarrow> string \<Rightarrow> string \<Rightarrow> task \<Rightarrow> ('w, task) prog" where
  "update_existing_task env j t ns name task =
     seq (ensureTaskOwnership env j (jt_name t) task) (\<lambda>task.
       if \<not> time_is_zero (om_deletion (t_meta task)) then fail ErrRequeueAfterChildCleanup
       else if annotation (t_meta task) RestartedAtAnnotation \<noteq> annotation (j_meta j) RestartedAtAnnotation then
         seq (wrap (''delete Task '' @ ns @ ''/'' @ name @ '' for Job restart'')
                (ignore_not_found (je_delete_task env task)))
           (\<lambda>_. fail ErrRequeueAfterChildCleanup)
       else
         (let stopped = annotation (t_meta task) ClusterStoppedAnnotation = ''true'';
              resuming = sp_suspended (t_spec task) \<and> \<not> jb_suspended (j_spec j) \<and> \<not> stopped
          in if (\<not> taskTerminal task \<or> resuming) \<and> \<not> taskEqual task j t then
               (let desired = buildTask j t name ns;
                    spec = (if stopped then (t_spec desired)\<lparr>sp_suspended := True\<rparr> else t_spec desired);
                    task = task\<lparr>t_spec := spec,
                                t_meta := (t_meta task)\<lparr>om_annotations :=
                                  MergeAnnotations (om_annotations (t_meta task))
                                    (entries (om_annotations (t_meta desired)))\<rparr>\<rparr>
                in wrap (''update Task '' @ ns @ ''/'' @ name) (je_update_task env task))
             else ok task))"

text \<open>The branch for a Task that does not exist, with the create race.\<close>

definition create_new_task ::
    "'w job_env \<Rightarrow> job \<Rightarrow> job_task_template \<Rightarrow> string \<Rightarrow> string \<Rightarrow> ('w, task) prog" where
  "create_new_task env j t ns name =
     (let new = buildTask j t name ns
      in seq (wrap (''set controller reference on Task '' @ name) (give (je_set_controller_ref env (j_meta j) (t_meta new))))
           (\<lambda>m. seq (attempt (je_create_task env (new\<lparr>t_meta := m\<rparr>)))
              (\<lambda>r. case r of
                 Inr created \<Rightarrow> ok (created\<lparr>t_status := (t_status created)\<lparr>tk_phase := PhasePending\<rparr>\<rparr>)
               | Inl e \<Rightarrow>
                   (if \<not> is_already_exists e then fail (ErrWrap (''create Task '' @ ns @ ''/'' @ name) e)
                    else seq (wrap (''reload Task '' @ ns @ ''/'' @ name @ '' after create race'')
                                (je_get_task env ns name))
                           (\<lambda>task. ensureTaskOwnership env j (jt_name t) task)))))"

definition reconcileTaskInNamespace ::
    "'w job_env \<Rightarrow> job \<Rightarrow> job_task_template \<Rightarrow> string \<Rightarrow> ('w, task) prog" where
  "reconcileTaskInNamespace env j t ns =
     (let name = ChildName (om_name (j_meta j)) (jt_name t)
      in seq (attempt (je_get_task env ns name))
           (\<lambda>r. case r of
              Inr task \<Rightarrow> update_existing_task env j t ns name task
            | Inl e \<Rightarrow>
                (if \<not> is_not_found e then fail (ErrWrap (''get Task '' @ ns @ ''/'' @ name) e)
                 else create_new_task env j t ns name)))"

definition reconcileTask :: "'w job_env \<Rightarrow> job \<Rightarrow> job_task_template \<Rightarrow> ('w, task) prog" where
  "reconcileTask env j t =
     seq (resolveTaskNamespace env t) (\<lambda>ns. reconcileTaskInNamespace env j t ns)"

section \<open>All Tasks of a Job\<close>

text \<open>The map \<open>desired\<close> of \<open>pruneTasksInNamespaces\<close>: a later template replaces an earlier one.\<close>

definition desired_tasks :: "job \<Rightarrow> string list \<Rightarrow> string \<rightharpoonup> string" where
  "desired_tasks j namespaces =
     foldl (\<lambda>m (t, ns). m(ns @ ''/'' @ ChildName (om_name (j_meta j)) (jt_name t) \<mapsto> jt_name t)) Map.empty
       (zip (jb_tasks (j_spec j)) namespaces)"

definition prune_task :: "'w job_env \<Rightarrow> job \<Rightarrow> (string \<rightharpoonup> string) \<Rightarrow> string list \<Rightarrow> bool \<Rightarrow> task \<Rightarrow> ('w, bool) prog" where
  "prune_task env j desired old_templates waiting task =
     (case desired (task_id task) of
        Some template \<Rightarrow>
          (case ClassifyChild (t_meta task) (job_parent j) template of
             Inl e \<Rightarrow> fail (ownership_conflict task e)
           | Inr _ \<Rightarrow> ok waiting)
      | None \<Rightarrow>
          (if \<not> fst (ClassifyRemovedChild (t_meta task) (job_parent j) old_templates) then ok waiting
           else if tk_phase (t_status task) \<noteq> PhaseStopped then
             seq (wrap (''stop pruned Task '' @ task_id task)
                    (je_update_task env (task\<lparr>t_spec := (t_spec task)\<lparr>sp_suspended := True\<rparr>\<rparr>)))
               (\<lambda>_. ok True)
           else if time_is_zero (om_deletion (t_meta task)) then
             seq (wrap (''prune Task '' @ task_id task) (ignore_not_found (je_delete_task env task)))
               (\<lambda>_. ok True)
           else ok True))"

definition pruneTasksInNamespaces ::
    "'w job_env \<Rightarrow> job \<Rightarrow> string list \<Rightarrow> string list \<Rightarrow> ('w, bool) prog" where
  "pruneTasksInNamespaces env j namespaces old_templates =
     seq (listJobTasks env j)
       (\<lambda>tasks. fold_prog (prune_task env j (desired_tasks j namespaces) old_templates) False tasks)"

text \<open>The owner test of the two clean-up loops looks at UID, kind and API version only.\<close>

definition controlled_by_job :: "job \<Rightarrow> object_meta \<Rightarrow> bool" where
  "controlled_by_job j m \<longleftrightarrow>
     (case om_controller m of None \<Rightarrow> False
      | Some r \<Rightarrow> \<not> (or_uid r \<noteq> om_uid (j_meta j) \<or> or_kind r \<noteq> ''Job'' \<or> or_api_version r \<noteq> GroupVersion))"

definition stop_task :: "'w job_env \<Rightarrow> job \<Rightarrow> bool \<Rightarrow> task \<Rightarrow> ('w, bool) prog" where
  "stop_task env j allStopped task =
     (if \<not> controlled_by_job j (t_meta task) then ok allStopped
      else if \<not> contains_finalizer (t_meta task) TaskAgentCleanupFinalizer then
        (if time_is_zero (om_deletion (t_meta task)) then
           seq (wrap (''delete unclaimed Task '' @ task_id task) (ignore_not_found (je_delete_task env task)))
             (\<lambda>_. ok allStopped)
         else ok allStopped)
      else
        (let allStopped = (if tk_phase (t_status task) \<noteq> PhaseStopped then False else allStopped)
         in if time_is_zero (om_deletion (t_meta task)) \<and> \<not> sp_suspended (t_spec task) then
              seq (wrap (''stop Task '' @ task_id task)
                     (je_update_task env (task\<lparr>t_spec := (t_spec task)\<lparr>sp_suspended := True\<rparr>\<rparr>)))
                (\<lambda>_. ok allStopped)
            else ok allStopped))"

definition stopOwnedTasks :: "'w job_env \<Rightarrow> job \<Rightarrow> ('w, bool) prog" where
  "stopOwnedTasks env j = seq (listJobTasks env j) (\<lambda>tasks. fold_prog (stop_task env j) True tasks)"

definition delete_task :: "'w job_env \<Rightarrow> job \<Rightarrow> bool \<Rightarrow> task \<Rightarrow> ('w, bool) prog" where
  "delete_task env j pending task =
     (if \<not> controlled_by_job j (t_meta task) then ok pending
      else if time_is_zero (om_deletion (t_meta task)) then
        seq (wrap (''delete Task '' @ task_id task) (ignore_not_found (je_delete_task env task)))
          (\<lambda>_. ok True)
      else ok True)"

definition deleteOwnedTasks :: "'w job_env \<Rightarrow> job \<Rightarrow> ('w, bool) prog" where
  "deleteOwnedTasks env j = seq (listJobTasks env j) (\<lambda>tasks. fold_prog (delete_task env j) False tasks)"

section \<open>What the operations may touch\<close>

text \<open>
  The Tasks a Job may write or delete: those whose controller is this Job by UID, kind and API
  version, and those without a controller that carry this Job's UID as parent, or that carry
  no parent and this Job's label.
\<close>

definition may_touch :: "job \<Rightarrow> object_meta \<Rightarrow> bool" where
  "may_touch j m \<longleftrightarrow>
     (case om_controller m of
        Some _ \<Rightarrow> controlled_by_job j m
      | None \<Rightarrow> mget (om_annotations m) ParentUIDAnnotation = Some (om_uid (j_meta j)) \<or>
          mget (om_annotations m) ParentUIDAnnotation = None \<and>
          mread (om_labels m) jobLabel = om_name (j_meta j))"

text \<open>
  What the controller relies on: the client and the scheme return errors instead of
  panicking; \<open>SetControllerReference\<close> sets the controller to the Job and nothing else, or
  fails; an \<open>Update\<close> returns the object with the annotations and the controller that were
  sent, under an identity that \<open>G\<close> still has. \<open>G\<close> are the identities of the Tasks the Job may
  touch: every read that shows a Task the Job may touch shows it under an identity in \<open>G\<close>,
  whereas nothing is known of the identity of a Task that a read shows as foreign. \<open>I\<close> is any
  property of the world that reads keep, that creating a Task controlled by the Job keeps,
  and that writing or deleting a Task keeps only when the Job may touch it and its identity
  is in \<open>G\<close>. Stamping a foreign Task with the Job's controller reference before it is sent
  therefore does not license the write.
\<close>

definition task_client_for ::
    "'w job_env \<Rightarrow> job \<Rightarrow> (string \<times> string \<times> string \<Rightarrow> bool) \<Rightarrow> ('w \<Rightarrow> bool) \<Rightarrow> bool" where
  "task_client_for env j G I \<longleftrightarrow>
     (\<forall>m. case je_set_controller_ref env (j_meta j) m of
        Inl e \<Rightarrow> no_panic e | Inr m' \<Rightarrow> m' = m\<lparr>om_controller := Some (job_ref j)\<rparr>) \<and>
     (\<forall>n. keeps I (je_list_tasks env n)
        (\<lambda>ts. \<forall>t \<in> set ts. may_touch j (t_meta t) \<longrightarrow> G (identity_of (t_meta t))) no_panic) \<and>
     (\<forall>ns n. keeps I (je_get_task env ns n)
        (\<lambda>t. may_touch j (t_meta t) \<longrightarrow> G (identity_of (t_meta t))) no_panic) \<and>
     (\<forall>sel. keeps I (je_list_nodes env sel) (\<lambda>_. True) no_panic) \<and>
     keeps I (je_list_clusters env) (\<lambda>_. True) no_panic \<and>
     (\<forall>t. om_controller (t_meta t) = Some (job_ref j) \<longrightarrow>
        keeps I (je_create_task env t) (\<lambda>_. True) no_panic) \<and>
     (\<forall>t. may_touch j (t_meta t) \<and> G (identity_of (t_meta t)) \<longrightarrow>
        keeps I (je_update_task env t)
          (\<lambda>t'. om_annotations (t_meta t') = om_annotations (t_meta t) \<and>
                om_controller (t_meta t') = om_controller (t_meta t) \<and>
                G (identity_of (t_meta t'))) no_panic) \<and>
     (\<forall>t. may_touch j (t_meta t) \<and> G (identity_of (t_meta t)) \<longrightarrow>
        keeps I (je_delete_task env t) (\<lambda>_. True) no_panic)"

text \<open>The contract without identities, where only the object that is sent counts.\<close>

abbreviation task_client :: "'w job_env \<Rightarrow> job \<Rightarrow> ('w \<Rightarrow> bool) \<Rightarrow> bool" where
  "task_client env j I \<equiv> task_client_for env j (\<lambda>_. True) I"

lemma client_ref:
  assumes "task_client_for env j G I"
  shows "je_set_controller_ref env (j_meta j) m = Inl e \<Longrightarrow> no_panic e"
    and "je_set_controller_ref env (j_meta j) m = Inr m' \<Longrightarrow> m' = m\<lparr>om_controller := Some (job_ref j)\<rparr>"
proof -
  have "case je_set_controller_ref env (j_meta j) m of
      Inl e \<Rightarrow> no_panic e | Inr m' \<Rightarrow> m' = m\<lparr>om_controller := Some (job_ref j)\<rparr>"
    using assms unfolding task_client_for_def by blast
  then show "je_set_controller_ref env (j_meta j) m = Inl e \<Longrightarrow> no_panic e"
    and "je_set_controller_ref env (j_meta j) m = Inr m' \<Longrightarrow> m' = m\<lparr>om_controller := Some (job_ref j)\<rparr>"
    by simp_all
qed

lemma client_ops:
  assumes "task_client_for env j G I"
  shows "keeps I (je_list_tasks env n)
          (\<lambda>ts. \<forall>t \<in> set ts. may_touch j (t_meta t) \<longrightarrow> G (identity_of (t_meta t))) no_panic"
    and "keeps I (je_get_task env ns n) (\<lambda>t. may_touch j (t_meta t) \<longrightarrow> G (identity_of (t_meta t))) no_panic"
    and "keeps I (je_list_nodes env sel) (\<lambda>_. True) no_panic"
    and "keeps I (je_list_clusters env) (\<lambda>_. True) no_panic"
    and "om_controller (t_meta t) = Some (job_ref j) \<Longrightarrow> keeps I (je_create_task env t) (\<lambda>_. True) no_panic"
    and "may_touch j (t_meta t) \<Longrightarrow> G (identity_of (t_meta t)) \<Longrightarrow> keeps I (je_update_task env t)
          (\<lambda>t'. om_annotations (t_meta t') = om_annotations (t_meta t) \<and>
                om_controller (t_meta t') = om_controller (t_meta t) \<and> G (identity_of (t_meta t'))) no_panic"
    and "may_touch j (t_meta t) \<Longrightarrow> G (identity_of (t_meta t)) \<Longrightarrow>
          keeps I (je_delete_task env t) (\<lambda>_. True) no_panic"
  using assms by (simp_all add: task_client_for_def)

lemma controlled_by_ref [simp]: "controlled_by_job j (m\<lparr>om_controller := Some (job_ref j)\<rparr>)"
  by (simp add: controlled_by_job_def job_ref_def)

lemma may_touch_controlled: "controlled_by_job j m \<Longrightarrow> may_touch j m"
  by (auto simp: may_touch_def controlled_by_job_def split: option.splits)

lemma may_touch_ref [simp]: "may_touch j (m\<lparr>om_controller := Some (job_ref j)\<rparr>)"
  by (simp add: may_touch_controlled)

lemma owner_matches_controlled:
  "owner_matches (job_parent j) (om_controller m) \<Longrightarrow> controlled_by_job j m"
  by (auto simp: owner_matches_def controlled_by_job_def job_parent_def split: option.splits)

lemma may_touch_cong:
  "om_controller m' = om_controller m \<Longrightarrow> controlled_by_job j m \<Longrightarrow> may_touch j m'"
  by (auto simp: may_touch_def controlled_by_job_def split: option.splits)

lemma removed_may_touch:
  "fst (ClassifyRemovedChild m (job_parent j) old) \<Longrightarrow> may_touch j m"
  by (auto simp: ClassifyRemovedChild_def Let_def may_touch_def owner_matches_controlled
      job_parent_def owner_matches_def controlled_by_job_def split: if_splits option.splits)

text \<open>\<open>ClassifyChild\<close> accepts only what the Job may touch.\<close>

lemma classified_may_touch: "ClassifyChild m (job_parent j) template = Inr r \<Longrightarrow> may_touch j m"
  by (auto simp: ClassifyChild_def Let_def may_touch_def owner_matches_def job_parent_def
      controlled_by_job_def split: if_splits option.splits)

lemma keeps_listJobTasks:
  "task_client_for env j G I \<Longrightarrow> keeps I (listJobTasks env j)
     (\<lambda>ts. \<forall>t \<in> set ts. may_touch j (t_meta t) \<longrightarrow> G (identity_of (t_meta t))) no_panic"
  unfolding listJobTasks_def by (rule keeps_wrap_np) (rule client_ops)

lemma keeps_resolveTaskNamespace:
  assumes "task_client_for env j G I"
  shows "keeps I (resolveTaskNamespace env t) (\<lambda>_. True) no_panic"
  unfolding resolveTaskNamespace_def Let_def
  by (intro keeps_if keeps_ok keeps_fail keeps_seq_any keeps_wrap_np keeps_give client_ops [OF assms])
     (auto simp: choose_namespace_def split: list.splits)

lemma keeps_resolveTaskNamespaces:
  assumes "task_client_for env j G I"
  shows "keeps I (resolveTaskNamespaces env ts) (\<lambda>_. True) no_panic"
  unfolding resolveTaskNamespaces_def
  by (rule keeps_fold) (auto intro!: keeps_seq_any [OF keeps_resolveTaskNamespace [OF assms]] keeps_ok)

text \<open>
  After the ownership check the Task is controlled by the Job, and it is one of those the
  Job may touch because the check accepted the Task as it was read.
\<close>

lemma keeps_ensureTaskOwnership:
  assumes "task_client_for env j G I" and seen: "may_touch j (t_meta t) \<longrightarrow> G (identity_of (t_meta t))"
  shows "keeps I (ensureTaskOwnership env j template t)
     (\<lambda>t'. controlled_by_job j (t_meta t') \<and> G (identity_of (t_meta t'))) no_panic"
proof (cases "ClassifyChild (t_meta t) (job_parent j) template")
  case (Inl e)
  then show ?thesis
    by (simp add: ensureTaskOwnership_def keeps_fail ownership_conflict_def)
next
  case (Inr r)
  then obtain leg where r: "ClassifyChild (t_meta t) (job_parent j) template = Inr (True, leg)"
    using ClassifyChild_owned [of "t_meta t"] by (cases r) auto
  with seen have g: "G (identity_of (t_meta t))" by (simp add: classified_may_touch)
  show ?thesis
  proof (cases leg)
    case False
    with r have "controlled_by_job j (t_meta t)"
      by (simp add: ClassifyChild_current_iff owner_matches_controlled)
    with r False g show ?thesis by (simp add: ensureTaskOwnership_def keeps_ok)
  next
    case True
    have "controlled_by_job j m'" if "om_controller m' = Some (job_ref j)" for m'
      using that by (simp add: controlled_by_job_def job_ref_def)
    then show ?thesis
      using r True g
      by (auto simp: ensureTaskOwnership_def Let_def
          intro!: keeps_seq [where P = "\<lambda>m. om_controller m = Some (job_ref j) \<and> G (identity_of m)"] keeps_wrap_np keeps_give
            keeps_weaken [OF client_ops(6) [OF assms(1)]] may_touch_controlled
          dest: client_ref [OF assms(1)])
  qed
qed

lemma may_touch_annotations [simp]:
  "controlled_by_job j m \<Longrightarrow> may_touch j (m\<lparr>om_annotations := a\<rparr>)"
  by (rule may_touch_cong) simp_all

lemma keeps_delete_np:
  assumes "task_client_for env j G I" and "may_touch j (t_meta t)" and "G (identity_of (t_meta t))"
  shows "keeps I (wrap msg (ignore_not_found (je_delete_task env t))) (\<lambda>_. True) no_panic"
  by (intro keeps_wrap_np keeps_ignore_not_found client_ops(7) [OF assms]) simp

lemma keeps_update_np:
  assumes "task_client_for env j G I" and "may_touch j (t_meta t)" and "G (identity_of (t_meta t))"
  shows "keeps I (wrap msg (je_update_task env t)) (\<lambda>_. True) no_panic"
  by (intro keeps_wrap_np keeps_weaken [OF client_ops(6) [OF assms]]) simp_all

lemma keeps_update_existing:
  assumes "task_client_for env j G I" and "may_touch j (t_meta task) \<longrightarrow> G (identity_of (t_meta task))"
  shows "keeps I (update_existing_task env j t ns name task) (\<lambda>_. True) no_panic"
  unfolding update_existing_task_def Let_def
  by (rule keeps_seq [OF keeps_ensureTaskOwnership [OF assms]],
      intro keeps_if keeps_fail keeps_ok keeps_seq_any keeps_delete_np [OF assms(1)] keeps_update_np [OF assms(1)])
     (simp_all add: may_touch_controlled)

lemma keeps_create_new:
  assumes "task_client_for env j G I"
  shows "keeps I (create_new_task env j t ns name) (\<lambda>_. True) no_panic"
proof -
  have ref: "keeps I (wrap msg (give (je_set_controller_ref env (j_meta j) m)))
      (\<lambda>m'. om_controller m' = Some (job_ref j)) no_panic" for m msg
    by (intro keeps_wrap_np keeps_give) (auto dest: client_ref [OF assms])
  show ?thesis
    unfolding create_new_task_def Let_def
    by (rule keeps_seq [OF ref],
        rule keeps_seq [OF keeps_attempt_any [OF client_ops(5) [OF assms]]], simp,
        intro keeps_sum keeps_if keeps_fail keeps_ok keeps_seq [OF keeps_wrap_np [OF client_ops(2) [OF assms]]]
          keeps_weaken [OF keeps_ensureTaskOwnership [OF assms]])
       simp_all
qed

lemma keeps_reconcileTaskInNamespace:
  assumes "task_client_for env j G I"
  shows "keeps I (reconcileTaskInNamespace env j t ns) (\<lambda>_. True) no_panic"
  unfolding reconcileTaskInNamespace_def Let_def
  by (rule keeps_seq [OF keeps_attempt_np [OF client_ops(2) [OF assms]]],
      intro keeps_sum keeps_if keeps_fail keeps_update_existing [OF assms] keeps_create_new [OF assms])
     simp_all

lemma keeps_prune_task:
  assumes "task_client_for env j G I" and "may_touch j (t_meta task) \<longrightarrow> G (identity_of (t_meta task))"
  shows "keeps I (prune_task env j desired old waiting task) (\<lambda>_. True) no_panic"
  unfolding prune_task_def
  by (intro keeps_option keeps_sum keeps_if keeps_fail keeps_ok keeps_seq_any keeps_delete_np [OF assms(1)]
        keeps_update_np [OF assms(1)])
     (use assms(2) in \<open>auto simp: ownership_conflict_def ClassifyChild_not_panic dest: removed_may_touch\<close>)

text \<open>The loops over a listing pass each Task on with what the listing showed of it.\<close>

lemma keeps_task_loop:
  assumes "task_client_for env j G I"
    and "\<And>b t. may_touch j (t_meta t) \<longrightarrow> G (identity_of (t_meta t)) \<Longrightarrow> keeps I (f b t) (\<lambda>_. True) no_panic"
  shows "keeps I (seq (listJobTasks env j) (\<lambda>tasks. fold_prog f b tasks)) (\<lambda>_. True) no_panic"
  by (rule keeps_seq [OF keeps_listJobTasks [OF assms(1)]], rule keeps_fold) (simp_all add: assms(2))

lemma keeps_pruneTasks:
  assumes "task_client_for env j G I"
  shows "keeps I (pruneTasksInNamespaces env j nss old) (\<lambda>_. True) no_panic"
  unfolding pruneTasksInNamespaces_def by (rule keeps_task_loop [OF assms keeps_prune_task [OF assms]])

lemma keeps_stop_task:
  assumes "task_client_for env j G I" and "may_touch j (t_meta task) \<longrightarrow> G (identity_of (t_meta task))"
  shows "keeps I (stop_task env j allStopped task) (\<lambda>_. True) no_panic"
  unfolding stop_task_def Let_def
  by (intro keeps_if keeps_ok keeps_seq_any keeps_delete_np [OF assms(1)] keeps_update_np [OF assms(1)])
     (use assms(2) in \<open>simp_all add: may_touch_controlled\<close>)

lemma keeps_stopOwnedTasks:
  assumes "task_client_for env j G I"
  shows "keeps I (stopOwnedTasks env j) (\<lambda>_. True) no_panic"
  unfolding stopOwnedTasks_def by (rule keeps_task_loop [OF assms keeps_stop_task [OF assms]])

lemma keeps_delete_task:
  assumes "task_client_for env j G I" and "may_touch j (t_meta task) \<longrightarrow> G (identity_of (t_meta task))"
  shows "keeps I (delete_task env j pending task) (\<lambda>_. True) no_panic"
  unfolding delete_task_def
  by (intro keeps_if keeps_ok keeps_seq_any keeps_delete_np [OF assms(1)])
     (use assms(2) in \<open>simp_all add: may_touch_controlled\<close>)

lemma keeps_deleteOwnedTasks:
  assumes "task_client_for env j G I"
  shows "keeps I (deleteOwnedTasks env j) (\<lambda>_. True) no_panic"
  unfolding deleteOwnedTasks_def by (rule keeps_task_loop [OF assms keeps_delete_task [OF assms]])

lemma keeps_findOwnedTasks:
  assumes "task_client_for env j G I"
  shows "keeps I (findOwnedTasksByTemplate env j) (\<lambda>_. True) no_panic"
proof -
  have "find_owned_from j cs m ts = Inl e \<Longrightarrow> no_panic e" for cs m ts e
    by (induction ts arbitrary: m)
       (auto simp: find_template_task_def ownership_conflict_def split: sum.splits option.splits)
  then show ?thesis
    unfolding findOwnedTasksByTemplate_def
    by (intro keeps_seq [OF keeps_listJobTasks [OF assms]] keeps_give) auto
qed

end
