(* ===== verification/Job_Machine.thy ===== *)
theory Job_Machine
  imports Job_Tasks
begin

text \<open>
  The state machine of a Job: the event table and the callbacks of \<open>statemachine.go\<close>, the
  event a status calls for, and \<open>reconcileWithStateMachine\<close> with its two branches
  (\<open>sync.go\<close>). Programs run over the Job in memory, whose status they write, and the world.
  A Go function that returns \<open>(changed, err)\<close> with both set is a normal return here, of the
  pair; \<open>return false, err\<close> is an error.
\<close>

type_synonym 'w job_state = "job \<times> 'w"

abbreviation EventInit :: string where "EventInit \<equiv> ''init''"
abbreviation EventTasksPending :: string where "EventTasksPending \<equiv> ''tasks-pending''"
abbreviation EventTasksRunning :: string where "EventTasksRunning \<equiv> ''tasks-running''"
abbreviation EventAllTasksDone :: string where "EventAllTasksDone \<equiv> ''all-tasks-succeeded''"
abbreviation EventAnyTaskFailed :: string where "EventAnyTaskFailed \<equiv> ''any-task-failed''"
abbreviation EventJobStopped :: string where "EventJobStopped \<equiv> ''job-stopped''"

section \<open>The event table\<close>

definition jobEvents :: "event_desc list" where
  "jobEvents =
     [\<lparr>ev_name = EventInit, ev_src = [''''], ev_dst = PhasePending\<rparr>,
      \<lparr>ev_name = EventTasksRunning, ev_src = [PhasePending], ev_dst = PhaseRunning\<rparr>,
      \<lparr>ev_name = EventTasksPending, ev_src = [PhaseRunning, PhaseStopped, PhaseSucceeded, PhaseFailed],
       ev_dst = PhasePending\<rparr>,
      \<lparr>ev_name = EventAllTasksDone, ev_src = [PhasePending, PhaseRunning], ev_dst = PhaseSucceeded\<rparr>,
      \<lparr>ev_name = EventAnyTaskFailed, ev_src = [PhasePending, PhaseRunning], ev_dst = PhaseFailed\<rparr>,
      \<lparr>ev_name = EventJobStopped, ev_src = [PhasePending, PhaseRunning, PhaseSucceeded, PhaseFailed],
       ev_dst = PhaseStopped\<rparr>]"

abbreviation job_phases :: "string list" where
  "job_phases \<equiv> [PhasePending, PhaseRunning, PhaseSucceeded, PhaseFailed, PhaseStopped]"

section \<open>The callbacks\<close>

definition set_phase :: "string \<Rightarrow> job \<Rightarrow> job" where
  "set_phase p j = j\<lparr>j_status := (j_status j)\<lparr>js_phase := p\<rparr>\<rparr>"

definition set_end_time :: "time option \<Rightarrow> job \<Rightarrow> job" where
  "set_end_time t j = j\<lparr>j_status := (j_status j)\<lparr>js_end_time := t\<rparr>\<rparr>"

definition set_start_time :: "time option \<Rightarrow> job \<Rightarrow> job" where
  "set_start_time t j = j\<lparr>j_status := (j_status j)\<lparr>js_start_time := t\<rparr>\<rparr>"

definition end_now :: "'w job_env \<Rightarrow> 'w job_state \<Rightarrow> 'w job_state" where
  "end_now env = (\<lambda>(j, w). case je_now env w of (now, w') \<Rightarrow> (set_end_time (Some now) j, w'))"

definition enter_pending :: "'w job_env \<Rightarrow> fsm_args \<Rightarrow> 'w job_state \<Rightarrow> 'w job_state" where
  "enter_pending env e = (\<lambda>(j, w).
     (let (j, w) = (if fe_src e \<noteq> [] \<or> js_start_time (j_status j) = None
                    then (case je_now env w of (now, w') \<Rightarrow> (set_start_time (Some now) j, w'))
                    else (j, w));
          j = (if js_end_time (j_status j) \<noteq> None then set_end_time None j else j)
      in (snd (syncTaskStatusSnapshot j), w)))"

definition job_callbacks :: "'w job_env \<Rightarrow> 'w job_state callbacks" where
  "job_callbacks env =
     [''enter_state'' \<mapsto> (\<lambda>e (j, w). (set_phase (fe_dst e) j, w)),
      ''enter_Pending'' \<mapsto> enter_pending env,
      ''enter_Succeeded'' \<mapsto> (\<lambda>_. end_now env),
      ''enter_Failed'' \<mapsto> (\<lambda>_. end_now env),
      ''enter_Stopped'' \<mapsto> (\<lambda>_. end_now env)]"

definition job_can :: "'w job_env \<Rightarrow> string \<Rightarrow> string \<Rightarrow> bool" where
  "job_can env cur ev = fsm_Can (je_fsm env) jobEvents cur ev"

definition job_event_if ::
    "'w job_env \<Rightarrow> string \<Rightarrow> string \<Rightarrow> bool \<Rightarrow> ('w job_state, bool \<times> string) prog" where
  "job_event_if env = event_if (je_fsm env) jobEvents (job_callbacks env)"

section \<open>The event of a status\<close>

definition allTasksInPhase :: "string list \<Rightarrow> string \<Rightarrow> bool" where
  "allTasksInPhase phases phase \<longleftrightarrow> phases \<noteq> [] \<and> list_all (\<lambda>p. p = phase) phases"

definition evaluateJobEvent :: "job \<Rightarrow> string" where
  "evaluateJobEvent j =
     (let phases = map jts_phase (elems (js_tasks (j_status j)));
          s = SummarizePhases phases PhaseSucceeded PhaseFailed PhaseRunning PhaseStopped;
          phase = js_phase (j_status j)
      in if jb_suspended (j_spec j) then
           (if AllStopped s \<and> HasItems s then EventJobStopped
            else if HasItems s \<and> phase \<noteq> PhasePending then EventTasksPending
            else [])
         else if phase = PhaseStopped then EventTasksPending
         else if phase = PhaseSucceeded \<and> \<not> AllSucceeded s then EventTasksPending
         else if phase = PhaseFailed \<and> \<not> AnyFailed s then EventTasksPending
         else if AnyFailed s then EventAnyTaskFailed
         else if AllSucceeded s \<and> HasItems s then EventAllTasksDone
         else if allTasksInPhase phases PhaseRunning then EventTasksRunning
         else if HasItems s \<and> phase \<noteq> PhasePending then EventTasksPending
         else [])"

section \<open>Conditions\<close>

definition mark_condition :: "'w job_env \<Rightarrow> condition \<Rightarrow> ('w job_state, bool) prog" where
  "mark_condition env c = (\<lambda>(j, w).
     (case je_set_condition env (js_conditions (j_status j)) c w of ((ch, cs), w') \<Rightarrow>
        (Inr ch, (j\<lparr>j_status := (j_status j)\<lparr>js_conditions := cs\<rparr>\<rparr>, w'))))"

definition markJobValid :: "'w job_env \<Rightarrow> ('w job_state, bool) prog" where
  "markJobValid env = (\<lambda>(j, w). mark_condition env
     \<lparr>cn_type = ''Validated'', cn_status = ''True'', cn_reason = ''SpecValidated'', cn_message = [],
      cn_observed_generation = om_generation (j_meta j), cn_transition = 0\<rparr> (j, w))"

definition markJobInvalid :: "'w job_env \<Rightarrow> string \<Rightarrow> ('w job_state, bool) prog" where
  "markJobInvalid env message = (\<lambda>(j, w).
     (let ch1 = (js_phase (j_status j) \<noteq> PhaseFailed);
          j = (if ch1 then set_phase PhaseFailed j else j);
          ch2 = (js_end_time (j_status j) = None);
          (j, w) = (if ch2 then end_now env (j, w) else (j, w))
      in seq (mark_condition env
            \<lparr>cn_type = ''Validated'', cn_status = ''False'', cn_reason = ''InvalidRayHeadTask'',
             cn_message = message, cn_observed_generation = om_generation (j_meta j), cn_transition = 0\<rparr>)
           (\<lambda>ch3. ok (ch1 \<or> ch2 \<or> ch3)) (j, w)))"

section \<open>Status entries\<close>

text \<open>\<open>utils.SyncStatusEntry\<close> through a pointer into \<open>status.tasks\<close>; nil is \<open>None\<close>.\<close>

definition sync_entry :: "nat option \<Rightarrow> string \<Rightarrow> string \<Rightarrow> ('w job_state, bool) prog" where
  "sync_entry ptr phase message = (\<lambda>(j, w).
     (case ptr of
        None \<Rightarrow> (if phase = [] then (Inr False, (j, w)) else (Inl (GoPanic ''nil pointer dereference''), (j, w)))
      | Some i \<Rightarrow>
          (let ts = elems (js_tasks (j_status j));
               (b, e) = SyncStatusEntry jts_phase jts_SetPhase jts_SetMessage (ts ! i) phase message
           in (Inr b, (set_status_tasks (ts[i := e]) j, w)))))"

definition sync_from_task ::
    "(string \<rightharpoonup> nat) \<Rightarrow> (string \<rightharpoonup> task) \<Rightarrow> bool \<Rightarrow> job_task_template \<Rightarrow> ('w job_state, bool) prog" where
  "sync_from_task statusMap byTemplate changed t = (\<lambda>(j, w).
     (case statusMap (jt_name t) of
        None \<Rightarrow> ok changed
      | Some i \<Rightarrow>
          (if jts_phase (elems (js_tasks (j_status j)) ! i) = [] then ok changed
           else (case byTemplate (jt_name t) of
                   None \<Rightarrow> ok changed
                 | Some task \<Rightarrow>
                     seq (sync_entry (Some i) (tk_phase (t_status task)) (tk_message (t_status task)))
                       (\<lambda>b. ok (b \<or> changed))))) (j, w))"

definition syncTaskStatuses :: "'w job_env \<Rightarrow> ('w job_state, bool) prog" where
  "syncTaskStatuses env = (\<lambda>(j, w).
     seq (on_snd (findOwnedTasksByTemplate env j))
       (\<lambda>byTemplate. fold_prog (sync_from_task (buildTaskStatusMap j) byTemplate) False (jb_tasks (j_spec j)))
       (j, w))"

section \<open>Dispatch\<close>

definition dispatch_one ::
    "'w job_env \<Rightarrow> (string \<rightharpoonup> nat) \<Rightarrow> bool \<Rightarrow> job_task_template \<times> string \<Rightarrow> ('w job_state, bool) prog" where
  "dispatch_one env statusMap changed = (\<lambda>(t, ns) (j, w).
     seq (on_snd (reconcileTaskInNamespace env j t ns))
       (\<lambda>task. seq (sync_entry (statusMap (jt_name t)) (tk_phase (t_status task)) (tk_message (t_status task)))
                 (\<lambda>b. ok (b \<or> changed)))
       (j, w))"

definition dispatchTasksWithTemplates :: "'w job_env \<Rightarrow> string list \<Rightarrow> ('w job_state, bool) prog" where
  "dispatchTasksWithTemplates env oldTemplates = (\<lambda>(j, w).
     seq (on_snd (resolveTaskNamespaces env (jb_tasks (j_spec j))))
       (\<lambda>namespaces. seq (on_snd (pruneTasksInNamespaces env j namespaces oldTemplates))
         (\<lambda>waiting. if waiting then fail ErrRequeueAfterChildCleanup
           else fold_prog (dispatch_one env (buildTaskStatusMap j)) False (zip (jb_tasks (j_spec j)) namespaces)))
       (j, w))"

definition dispatchTasks :: "'w job_env \<Rightarrow> ('w job_state, bool) prog" where
  "dispatchTasks env = (\<lambda>(j, w).
     dispatchTasksWithTemplates env (map jts_name (elems (js_tasks (j_status j)))) (j, w))"

definition pruneTasks :: "'w job_env \<Rightarrow> job \<Rightarrow> ('w, bool) prog" where
  "pruneTasks env j =
     seq (resolveTaskNamespaces env (jb_tasks (j_spec j)))
       (\<lambda>namespaces. pruneTasksInNamespaces env j namespaces (map jts_name (elems (js_tasks (j_status j)))))"

section \<open>Reconciliation of the state machine\<close>

definition snapshot :: "('w job_state, bool) prog" where
  "snapshot = (\<lambda>(j, w). case syncTaskStatusSnapshot j of (ch, j') \<Rightarrow> (Inr ch, (j', w)))"

definition mark_stopped :: "job_task_status \<Rightarrow> bool \<times> job_task_status" where
  "mark_stopped s =
     (if jts_phase s = PhaseSucceeded \<or> jts_phase s = PhaseFailed \<or> jts_phase s = PhaseStopped then (False, s)
      else (True, s\<lparr>jts_phase := PhaseStopped\<rparr>))"

definition markTaskStatusesStopped :: "job \<Rightarrow> bool \<times> job" where
  "markTaskStatusesStopped j =
     (case syncTaskStatusSnapshot j of (ch, j) \<Rightarrow>
        (let marked = map mark_stopped (elems (js_tasks (j_status j)))
         in (ch \<or> list_ex fst marked, set_status_tasks (map snd marked) j)))"

text \<open>The second half of \<open>reconcileStoppedJob\<close>, from \<open>deleteOwnedTasks\<close> on.\<close>

definition finish_stopped :: "'w job_env \<Rightarrow> bool \<Rightarrow> string \<Rightarrow> ('w job_state, bool \<times> go_error option) prog" where
  "finish_stopped env changed cur =
     seq (\<lambda>(j, w). on_snd (deleteOwnedTasks env j) (j, w)) (\<lambda>waiting.
       if waiting then ok (changed, Some ErrRequeueAfterChildCleanup)
       else
         seq (\<lambda>(j, w). case markTaskStatusesStopped j of (ch, j') \<Rightarrow> (Inr ch, (j', w))) (\<lambda>marked.
         seq (job_event_if env cur EventJobStopped (changed \<or> marked)) (\<lambda>(changed, cur).
           ok (changed, None))))"

definition reconcileStoppedJob :: "'w job_env \<Rightarrow> ('w job_state, bool \<times> go_error option) prog" where
  "reconcileStoppedJob env = (\<lambda>(j, w).
     seq snapshot (\<lambda>changed.
     seq (job_event_if env (js_phase (j_status j)) EventInit changed) (\<lambda>(changed, cur).
     seq (syncTaskStatuses env) (\<lambda>syncChanged.
       finish_stopped env (changed \<or> syncChanged) cur))) (j, w))"

text \<open>The second half of \<open>reconcileWithStateMachine\<close>, from \<open>syncTaskStatuses\<close> on.\<close>

definition observe_and_dispatch :: "'w job_env \<Rightarrow> bool \<Rightarrow> string \<Rightarrow> ('w job_state, bool \<times> go_error option) prog" where
  "observe_and_dispatch env changed cur =
     seq (syncTaskStatuses env) (\<lambda>syncChanged.
     seq (dispatchTasks env) (\<lambda>dispatchChanged.
     seq (reading (\<lambda>(j, w). evaluateJobEvent j)) (\<lambda>event.
       (let changed = changed \<or> syncChanged \<or> dispatchChanged
        in if event \<noteq> [] then
             seq (job_event_if env cur event changed) (\<lambda>(changed, cur). ok (changed, None))
           else ok (changed, None)))))"

definition reconcileWithStateMachine :: "'w job_env \<Rightarrow> ('w job_state, bool \<times> go_error option) prog" where
  "reconcileWithStateMachine env = (\<lambda>(j, w).
     (if jb_suspended (j_spec j) then reconcileStoppedJob env
      else (case validateTaskTemplates j of
        Inl e \<Rightarrow> seq (markJobInvalid env (error_text e)) (\<lambda>ch. ok (ch, None))
      | Inr _ \<Rightarrow>
          seq snapshot (\<lambda>changed.
          seq (markJobValid env) (\<lambda>valid.
          seq (job_event_if env (js_phase (j_status j)) EventInit (changed \<or> valid)) (\<lambda>(changed, cur).
            observe_and_dispatch env changed cur))))) (j, w))"

definition ReconcileStateMachine :: "'w job_env \<Rightarrow> ('w job_state, bool \<times> go_error option) prog" where
  "ReconcileStateMachine env =
     seq (reconcileWithStateMachine env) (\<lambda>(changed, err).
       if err \<noteq> None then ok (changed, err)
       else (\<lambda>(j, w).
         if js_observed_generation (j_status j) \<noteq> om_generation (j_meta j) then
           (Inr (True, None),
            (j\<lparr>j_status := (j_status j)\<lparr>js_observed_generation := om_generation (j_meta j)\<rparr>\<rparr>, w))
         else (Inr (changed, None), (j, w))))"

section \<open>What a step of the machine keeps\<close>

text \<open>
  \<open>step_ok I j changed (j', w')\<close>: the program that ran from \<open>j\<close> kept the world's invariant,
  the metadata, the spec and the observed generation of the Job, did not lose the entry of a
  template, and reports \<open>changed = False\<close> only when the Job is as it was.
\<close>

definition job_frame :: "job \<Rightarrow> job \<Rightarrow> bool" where
  "job_frame j j' \<longleftrightarrow> j_meta j' = j_meta j \<and> j_spec j' = j_spec j \<and>
     js_observed_generation (j_status j') = js_observed_generation (j_status j)"

definition names_in_sync :: "job \<Rightarrow> bool" where
  "names_in_sync j \<longleftrightarrow> map jts_name (elems (js_tasks (j_status j))) = map jt_name (jb_tasks (j_spec j))"

abbreviation step_ok :: "('w \<Rightarrow> bool) \<Rightarrow> job \<Rightarrow> bool \<Rightarrow> 'w job_state \<Rightarrow> bool" where
  "step_ok \<equiv> step_ok_of job_frame names_in_sync"

abbreviation step_err :: "('w \<Rightarrow> bool) \<Rightarrow> job \<Rightarrow> go_error \<Rightarrow> 'w job_state \<Rightarrow> bool" where
  "step_err \<equiv> step_err_of job_frame"

text \<open>The phase of the Job in memory, which the machine's current state has to follow.\<close>

abbreviation phase_of :: "job \<Rightarrow> string" where
  "phase_of j \<equiv> js_phase (j_status j)"

lemma job_frame_refl [simp]: "job_frame j j"
  by (simp add: job_frame_def)

lemma job_frame_trans: "job_frame j j' \<Longrightarrow> job_frame j' j'' \<Longrightarrow> job_frame j j''"
  by (simp add: job_frame_def)

interpretation jobf: framed_machine job_frame names_in_sync "\<lambda>j. phase_of j" jobEvents job_phases
  by unfold_locales (auto simp: jobEvents_def deterministic_def intro: job_frame_trans)

lemmas step_ok_def = step_ok_of_def [where frame = job_frame and sync = names_in_sync]
lemmas step_err_def = step_err_of_def [where frame = job_frame]

lemma task_client_cong: "j_meta j' = j_meta j \<Longrightarrow> task_client_for env j' G I \<longleftrightarrow> task_client_for env j G I"
proof -
  assume m: "j_meta j' = j_meta j"
  then have c: "controlled_by_job j' = controlled_by_job j"
    by (simp add: controlled_by_job_def fun_eq_iff split: option.split)
  have "may_touch j' = may_touch j" by (simp add: may_touch_def fun_eq_iff m c split: option.split)
  moreover have "job_ref j' = job_ref j" by (simp add: job_ref_def m)
  ultimately show ?thesis unfolding task_client_for_def m by (simp only:)
qed

text \<open>What the controller relies on, with the state machine, the clock and the conditions.\<close>

definition job_env_owned ::
    "'w job_env \<Rightarrow> job \<Rightarrow> (string \<times> string \<times> string \<Rightarrow> bool) \<Rightarrow> ('w \<Rightarrow> bool) \<Rightarrow> bool" where
  "job_env_owned env j G I \<longleftrightarrow> task_client_for env j G I \<and> fsm_documented (je_fsm env) \<and>
     (\<forall>w. I w \<longrightarrow> I (snd (je_now env w))) \<and>
     (\<forall>cs c w. I w \<longrightarrow> I (snd (je_set_condition env cs c w))) \<and>
     (\<forall>cs c w cs' w'. je_set_condition env cs c w = ((False, cs'), w') \<longrightarrow> cs' = cs)"

abbreviation job_env_ok :: "'w job_env \<Rightarrow> job \<Rightarrow> ('w \<Rightarrow> bool) \<Rightarrow> bool" where
  "job_env_ok env j I \<equiv> job_env_owned env j (\<lambda>_. True) I"

lemma job_env_ok_frame: "job_env_owned env j G I \<Longrightarrow> job_frame j j' \<Longrightarrow> job_env_owned env j' G I"
  by (simp add: job_env_owned_def job_frame_def task_client_cong [of j' j])

lemma job_env_ok_client: "job_env_owned env j G I \<Longrightarrow> task_client_for env j G I"
  by (simp add: job_env_owned_def)

lemma job_env_ok_condition:
  assumes "job_env_owned env j G I" and "je_set_condition env cs c w = ((ch, cs'), w')"
  shows "I w \<Longrightarrow> I w'" and "ch \<or> cs' = cs"
proof -
  have k: "\<forall>cs c w. I w \<longrightarrow> I (snd (je_set_condition env cs c w))"
    and d: "\<And>cs c w cs' w'. je_set_condition env cs c w = ((False, cs'), w') \<Longrightarrow> cs' = cs"
    using assms(1) unfolding job_env_owned_def by blast+
  show "I w \<Longrightarrow> I w'" using k assms(2) by (metis snd_conv)
  show "ch \<or> cs' = cs" using d [of cs c w cs' w'] assms(2) by (cases ch) auto
qed

lemma status_frame [simp]:
  "job_frame j (set_phase p j') \<longleftrightarrow> job_frame j j'" "job_frame j (set_end_time t j') \<longleftrightarrow> job_frame j j'"
  "job_frame j (set_start_time t j') \<longleftrightarrow> job_frame j j'" "job_frame j (set_status_tasks ts j') \<longleftrightarrow> job_frame j j'"
  by (simp_all add: job_frame_def set_phase_def set_end_time_def set_start_time_def set_status_tasks_def)

lemma status_names [simp]:
  "names_in_sync (set_phase p j) \<longleftrightarrow> names_in_sync j"
  "names_in_sync (set_end_time t j) \<longleftrightarrow> names_in_sync j"
  "names_in_sync (set_start_time t j) \<longleftrightarrow> names_in_sync j"
  by (simp_all add: names_in_sync_def set_phase_def set_end_time_def set_start_time_def)

lemma snapshot_facts:
  assumes "syncTaskStatusSnapshot j = (ch, j')"
  shows "job_frame j j'" and "names_in_sync j'" and "js_phase (j_status j') = js_phase (j_status j)"
    and "ch \<or> j' = j"
proof -
  have f: "j_meta j' = j_meta j" "j_spec j' = j_spec j"
    "js_observed_generation (j_status j') = js_observed_generation (j_status j)"
    "js_phase (j_status j') = js_phase (j_status j)"
    using assms by (auto simp: syncTaskStatusSnapshot_def Let_def set_status_tasks_def split: if_splits)
  then show "job_frame j j'" "js_phase (j_status j') = js_phase (j_status j)"
    by (simp_all add: job_frame_def)
  show "names_in_sync j'"
    using next_task_statuses_names [of j] snapshot_tasks [OF assms] f(2) by (simp add: names_in_sync_def)
  show "ch \<or> j' = j" using snapshot_unchanged assms by (cases ch) auto
qed

lemma wp_snapshot:
  assumes "I w"
  shows "wp snapshot (\<lambda>ch s. step_ok I j ch s \<and>
    (names_in_sync (fst s) \<and> js_phase (j_status (fst s)) = js_phase (j_status j))) (step_err I j) (j, w)"
  using assms
  by (auto simp: wp_def snapshot_def step_ok_def dest: snapshot_facts split: prod.split)

lemma phase_setters [simp]:
  "phase_of (set_phase p j) = p" "phase_of (set_end_time t j) = phase_of j"
  "phase_of (set_start_time t j) = phase_of j" "phase_of (set_status_tasks ts j) = phase_of j"
  by (simp_all add: set_phase_def set_end_time_def set_start_time_def set_status_tasks_def)

lemma wp_mark_condition:
  assumes "job_env_owned env j G I" and "I w"
  shows "wp (mark_condition env c) (\<lambda>ch s. step_ok I j ch s \<and> phase_of (fst s) = phase_of j) (step_err I j) (j, w)"
proof -
  obtain ch cs w' where r: "je_set_condition env (js_conditions (j_status j)) c w = ((ch, cs), w')"
    by (metis prod.exhaust)
  moreover note job_env_ok_condition(1) [OF assms(1) r assms(2)] job_env_ok_condition(2) [OF assms(1) r]
  ultimately show ?thesis
    by (auto simp: wp_def mark_condition_def step_ok_def job_frame_def names_in_sync_def)
qed

lemma wp_markJobValid:
  assumes "job_env_owned env j G I" and "I w"
  shows "wp (markJobValid env) (\<lambda>ch s. step_ok I j ch s \<and> phase_of (fst s) = phase_of j) (step_err I j) (j, w)"
  using wp_mark_condition [OF assms] by (simp add: markJobValid_def wp_def)

lemma end_now_facts:
  assumes "job_env_owned env j G I" and "I w"
  shows "\<exists>t w'. end_now env (j, w) = (set_end_time (Some t) j, w') \<and> I w'"
proof -
  obtain t w' where r: "je_now env w = (t, w')" by (cases "je_now env w")
  with assms have "I w'" unfolding job_env_owned_def by (metis snd_conv)
  with r show ?thesis by (auto simp: end_now_def)
qed

lemma wp_markJobInvalid:
  assumes "job_env_owned env j G I" and "I w"
  shows "wp (markJobInvalid env msg) (\<lambda>ch s. step_ok I j ch s \<and> True) (step_err I j) (j, w)"
proof -
  let ?j1 = "if phase_of j \<noteq> PhaseFailed then set_phase PhaseFailed j else j"
  have env1: "job_env_owned env ?j1 G I" by (rule job_env_ok_frame [OF assms(1)]) simp
  obtain t w1 where e: "end_now env (?j1, w) = (set_end_time (Some t) ?j1, w1)" and "I w1"
    using end_now_facts [OF env1 assms(2)] by blast
  obtain j2 w2 where r: "(if js_end_time (j_status ?j1) = None then end_now env (?j1, w) else (?j1, w)) = (j2, w2)"
    by (metis prod.exhaust)
  have j2: "I w2" "job_frame j j2" "names_in_sync j \<Longrightarrow> names_in_sync j2"
    "phase_of j \<noteq> PhaseFailed \<or> js_end_time (j_status ?j1) = None \<or> j2 = j"
    using r e \<open>I w1\<close> assms(2) by (auto split: if_splits)
  have ok2: "step_ok I j (phase_of j \<noteq> PhaseFailed \<or> js_end_time (j_status ?j1) = None) (j2, w2)"
    using j2 by (auto simp: step_ok_def)
  define c where "c = \<lparr>cn_type = ''Validated'', cn_status = ''False'', cn_reason = ''InvalidRayHeadTask'',
     cn_message = msg, cn_observed_generation = om_generation (j_meta j2), cn_transition = 0\<rparr>"
  let ?m = "seq (mark_condition env c)
        (\<lambda>ch3. ok (phase_of j \<noteq> PhaseFailed \<or> js_end_time (j_status ?j1) = None \<or> ch3))"
  have run: "markJobInvalid env msg (j, w) = ?m (j2, w2)"
    using r by (simp add: markJobInvalid_def c_def)
  have env2: "job_env_owned env j2 G I" by (rule job_env_ok_frame [OF assms(1) j2(2)])
  show ?thesis
    unfolding wp_run_eq [where m = "markJobInvalid env msg" and m' = ?m and s' = "(j2, w2)", OF run] wp_seq wp_ok
    by (rule wp_mono [OF wp_mark_condition [OF env2 j2(1)]])
       (auto intro: jobf.step_ok_mono [OF jobf.step_ok_trans [OF ok2]] jobf.step_err_trans [OF ok2])
qed

text \<open>Firing an event: the callbacks keep the frame, and the phase follows the machine.\<close>

lemma enter_pending_facts:
  assumes "job_env_owned env j G I" and "I w"
  shows "\<exists>j' w'. enter_pending env e (j, w) = (j', w') \<and> I w' \<and> job_frame j j' \<and>
    (names_in_sync j \<longrightarrow> names_in_sync j')"
proof -
  obtain t w1 where now: "je_now env w = (t, w1)" by (cases "je_now env w")
  with assms have "I w1" unfolding job_env_owned_def by (metis snd_conv)
  define j1 where "j1 = (if fe_src e \<noteq> [] \<or> js_start_time (j_status j) = None then set_start_time (Some t) j else j)"
  define w' where "w' = (if fe_src e \<noteq> [] \<or> js_start_time (j_status j) = None then w1 else w)"
  define j2 where "j2 = (if js_end_time (j_status j1) \<noteq> None then set_end_time None j1 else j1)"
  obtain b j3 where s: "syncTaskStatusSnapshot j2 = (b, j3)" by (cases "syncTaskStatusSnapshot j2")
  have pair: "(if fe_src e \<noteq> [] \<or> js_start_time (j_status j) = None
      then (case je_now env w of (now, w') \<Rightarrow> (set_start_time (Some now) j, w')) else (j, w)) = (j1, w')"
    by (simp add: now j1_def w'_def)
  have "enter_pending env e (j, w) = (snd (syncTaskStatusSnapshot j2), w')"
    unfolding enter_pending_def prod.case pair Let_def j2_def by (rule refl)
  with s have "enter_pending env e (j, w) = (j3, w')" by simp
  moreover have "job_frame j j2" by (simp add: j2_def j1_def)
  then have "job_frame j j3" using snapshot_facts(1) [OF s] by (rule job_frame_trans)
  moreover have "I w'" using \<open>I w1\<close> assms(2) by (simp add: w'_def)
  ultimately show ?thesis using snapshot_facts(2) [OF s] by blast
qed

lemma enter_job:
  assumes env: "job_env_owned env j G I" and "I w" and dst: "dst \<in> set job_phases"
  shows "\<exists>j' w'. enter (job_callbacks env) ev src dst (j, w) = (set_phase dst j', w') \<and> I w' \<and>
    job_frame j j' \<and> (names_in_sync j \<longrightarrow> names_in_sync j')"
proof -
  consider "dst = PhasePending" | "dst = PhaseRunning" | "dst \<in> {PhaseSucceeded, PhaseFailed, PhaseStopped}"
    using dst unfolding list.set by blast
  then show ?thesis
  proof cases
    case 1
    obtain j' w' where "enter_pending env \<lparr>fe_event = ev, fe_src = src, fe_dst = dst\<rparr> (j, w) = (j', w')"
      "I w'" "job_frame j j'" "names_in_sync j \<longrightarrow> names_in_sync j'"
      using enter_pending_facts [OF assms(1,2)] by blast
    moreover from this(1) have "enter (job_callbacks env) ev src dst (j, w) = (set_phase dst j', w')"
      by (simp add: 1 enter_def run_callback_def job_callbacks_def Let_def)
    ultimately show ?thesis by blast
  next
    case 2
    have "enter (job_callbacks env) ev src dst (j, w) = (set_phase dst j, w)"
      by (simp add: 2 enter_def run_callback_def job_callbacks_def Let_def)
    with assms(2) show ?thesis by (metis job_frame_refl)
  next
    case 3
    obtain t w' where "end_now env (j, w) = (set_end_time (Some t) j, w')" "I w'"
      using end_now_facts [OF assms(1,2)] by blast
    moreover from this(1) have "enter (job_callbacks env) ev src dst (j, w) =
        (set_phase dst (set_end_time (Some t) j), w')"
      using 3 by (elim insertE) (simp_all add: enter_def run_callback_def job_callbacks_def Let_def)
    moreover have "job_frame j (set_end_time (Some t) j)" by simp
    ultimately show ?thesis by (metis status_names(2))
  qed
qed

lemma job_callbacks_only_enter: "only_enter (job_callbacks env)"
  by (auto simp: only_enter_def job_callbacks_def split: if_splits)

lemma wp_job_event_if:
  assumes env: "job_env_owned env j G I" and w: "I w" and cur: "cur = phase_of j"
  shows "wp (job_event_if env cur ev ch)
     (\<lambda>a s. step_ok I j (fst a) s \<and> ((ch \<longrightarrow> fst a) \<and> snd a = phase_of (fst s))) (step_err I j) (j, w)"
proof -
  have doc: "fsm_documented (je_fsm env)" using env by (simp add: job_env_owned_def)
  show ?thesis
    unfolding job_event_if_def
  proof (rule jobf.wp_event_if [where I = I and w = w and x = j, OF doc job_callbacks_only_enter w cur])
    fix dst
    assume "dst \<in> set job_phases"
    from enter_job [OF env w this, of ev cur]
    show "\<exists>y w'. enter (job_callbacks env) ev cur dst (j, w) = (y, w') \<and> I w' \<and> job_frame j y \<and>
        (names_in_sync j \<longrightarrow> names_in_sync y) \<and> phase_of y = dst"
      by fastforce
  qed
qed

text \<open>One entry of the status.\<close>

lemma wp_sync_entry:
  assumes w: "I w" and i: "i < length (elems (js_tasks (j_status j)))"
  shows "wp (sync_entry (Some i) p msg)
     (\<lambda>b s. step_ok I j b s \<and> phase_of (fst s) = phase_of j) (step_err I j) (j, w)"
proof -
  let ?ts = "elems (js_tasks (j_status j))"
  obtain b e where r: "SyncStatusEntry jts_phase jts_SetPhase jts_SetMessage (?ts ! i) p msg = (b, e)"
    by (metis prod.exhaust)
  have "map jts_name (?ts[i := e]) = map jts_name ?ts"
    using jts.sync_keeps_ident [OF r] by (metis list_update_id map_update)
  then have names: "names_in_sync (set_status_tasks (?ts[i := e]) j) \<longleftrightarrow> names_in_sync j"
    by (simp add: names_in_sync_def set_status_tasks_def)
  have "b \<or> set_status_tasks (?ts[i := e]) j = j"
  proof (cases b)
    case False
    with r have "e = ?ts ! i" using jts.sync_unchanged by metis
    moreover have "js_tasks (j_status j) = Some ?ts" using i by (cases "js_tasks (j_status j)") simp_all
    ultimately show ?thesis by (simp add: set_status_tasks_def)
  qed simp
  with r w names show ?thesis by (simp add: wp_def sync_entry_def step_ok_def)
qed

lemma status_index:
  assumes "buildTaskStatusMap j n = Some i" and "names_in_sync j" and "names_in_sync j'" and "job_frame j j'"
  shows "i < length (elems (js_tasks (j_status j')))"
proof -
  have "length (elems (js_tasks (j_status j'))) = length (elems (js_tasks (j_status j)))"
    using assms(2-4) unfolding names_in_sync_def job_frame_def by (metis length_map)
  then show ?thesis using index_last_Some(1) [OF assms(1) [unfolded buildTaskStatusMap_def]] by simp
qed

lemma status_index_exists:
  assumes "t \<in> set (jb_tasks (j_spec j))" and "names_in_sync j"
  shows "\<exists>i. buildTaskStatusMap j (jt_name t) = Some i"
proof -
  have "jt_name t \<in> set (map jts_name (elems (js_tasks (j_status j))))"
    using assms unfolding names_in_sync_def by simp
  then show ?thesis unfolding buildTaskStatusMap_def by (intro index_last_exists) simp
qed

lemma wp_sync_from_task:
  assumes "I w" and "\<And>i. m (jt_name t) = Some i \<Longrightarrow> i < length (elems (js_tasks (j_status j)))"
  shows "wp (sync_from_task m byT changed t)
     (\<lambda>b s. step_ok I j b s \<and> ((changed \<longrightarrow> b) \<and> phase_of (fst s) = phase_of j)) (step_err I j) (j, w)"
proof -
  let ?F = "case m (jt_name t) of
        None \<Rightarrow> ok changed
      | Some i \<Rightarrow>
          (if jts_phase (elems (js_tasks (j_status j)) ! i) = [] then ok changed
           else (case byT (jt_name t) of
                   None \<Rightarrow> ok changed
                 | Some task \<Rightarrow>
                     seq (sync_entry (Some i) (tk_phase (t_status task)) (tk_message (t_status task)))
                       (\<lambda>b. ok (b \<or> changed))))"
  have run: "sync_from_task m byT changed t (j, w) = ?F (j, w)" by (simp add: sync_from_task_def)
  show ?thesis
    unfolding wp_run_eq [where m = "sync_from_task m byT changed t" and m' = ?F and s' = "(j, w)", OF run]
    by (auto simp: wp_ok jobf.step_ok_refl assms intro!: jobf.wp_flag_ok [OF wp_sync_entry [where I = I and w = w]]
        split: option.split)
qed

abbreviation synced :: "('w \<Rightarrow> bool) \<Rightarrow> job \<Rightarrow> bool \<Rightarrow> 'w job_state \<Rightarrow> bool" where
  "synced I j b s \<equiv> step_ok I j b s \<and> (names_in_sync (fst s) \<and> phase_of (fst s) = phase_of j)"

lemma wp_syncTaskStatuses:
  assumes env: "job_env_owned env j G I" and w: "I w" and n: "names_in_sync j"
  shows "wp (syncTaskStatuses env) (synced I j) (step_err I j) (j, w)"
proof -
  let ?F = "seq (on_snd (findOwnedTasksByTemplate env j))
       (\<lambda>byTemplate. fold_prog (sync_from_task (buildTaskStatusMap j) byTemplate) False (jb_tasks (j_spec j)))"
  have run: "syncTaskStatuses env (j, w) = ?F (j, w)" by (simp add: syncTaskStatuses_def)
  show ?thesis
    unfolding wp_run_eq [where m = "syncTaskStatuses env" and m' = ?F and s' = "(j, w)", OF run]
    by (rule jobf.wp_world_then [OF keeps_findOwnedTasks [OF job_env_ok_client [OF env]] w],
        rule jobf.wp_object_fold [OF _ n], assumption,
        rule wp_sync_from_task, assumption, rule status_index [OF _ n])
qed

lemma wp_dispatch_one:
  assumes env: "job_env_owned env j G I" and w: "I w" and i: "m (jt_name t) = Some i"
    and len: "i < length (elems (js_tasks (j_status j)))"
  shows "wp (dispatch_one env m changed (t, ns))
     (\<lambda>b s. step_ok I j b s \<and> ((changed \<longrightarrow> b) \<and> phase_of (fst s) = phase_of j)) (step_err I j) (j, w)"
proof -
  let ?F = "seq (on_snd (reconcileTaskInNamespace env j t ns))
       (\<lambda>task. seq (sync_entry (m (jt_name t)) (tk_phase (t_status task)) (tk_message (t_status task)))
                 (\<lambda>b. ok (b \<or> changed)))"
  have run: "dispatch_one env m changed (t, ns) (j, w) = ?F (j, w)" by (simp add: dispatch_one_def)
  show ?thesis
    unfolding wp_run_eq [where m = "dispatch_one env m changed (t, ns)" and m' = ?F and s' = "(j, w)", OF run] i
    by (rule jobf.wp_world_then [OF keeps_reconcileTaskInNamespace [OF job_env_ok_client [OF env]] w],
        rule jobf.wp_flag_ok, rule wp_sync_entry [OF _ len])
qed

lemma wp_dispatchTasksWithTemplates:
  assumes env: "job_env_owned env j G I" and w: "I w" and n: "names_in_sync j"
  shows "wp (dispatchTasksWithTemplates env olds) (synced I j) (step_err I j) (j, w)"
proof -
  let ?F = "seq (on_snd (resolveTaskNamespaces env (jb_tasks (j_spec j))))
       (\<lambda>namespaces. seq (on_snd (pruneTasksInNamespaces env j namespaces olds))
         (\<lambda>waiting. if waiting then fail ErrRequeueAfterChildCleanup
           else fold_prog (dispatch_one env (buildTaskStatusMap j)) False (zip (jb_tasks (j_spec j)) namespaces)))"
  have run: "dispatchTasksWithTemplates env olds (j, w) = ?F (j, w)" by (simp add: dispatchTasksWithTemplates_def)
  note client = job_env_ok_client [OF env]
  have loop: "wp (fold_prog (dispatch_one env (buildTaskStatusMap j)) False (zip (jb_tasks (j_spec j)) nss))
      (synced I j) (step_err I j) (j, w')" if "I w'" for nss w'
  proof (rule jobf.wp_object_fold [where I = I, OF that n])
    fix b x j1 w1
    assume x: "x \<in> set (zip (jb_tasks (j_spec j)) nss)" and j1: "I w1" "job_frame j j1" "names_in_sync j1"
    obtain t ns where tn: "x = (t, ns)" "t \<in> set (jb_tasks (j_spec j))" using x by (metis set_zip_leftD surj_pair)
    with n obtain i where i: "buildTaskStatusMap j (jt_name t) = Some i" using status_index_exists by blast
    show "wp (dispatch_one env (buildTaskStatusMap j) b x)
      (\<lambda>b' s. step_ok I j1 b' s \<and> ((b \<longrightarrow> b') \<and> phase_of (fst s) = phase_of j1)) (step_err I j1) (j1, w1)"
      unfolding tn(1)
      by (rule wp_dispatch_one [where I = I and w = w1 and m = "buildTaskStatusMap j" and t = t and i = i, OF job_env_ok_frame [OF env j1(2)] j1(1) i])
         (rule status_index [OF i n j1(3,2)])
  qed
  show ?thesis
    unfolding wp_run_eq [where m = "dispatchTasksWithTemplates env olds" and m' = ?F and s' = "(j, w)", OF run]
    by (rule jobf.wp_world_then [OF keeps_resolveTaskNamespaces [OF client] w],
        rule jobf.wp_world_then [OF keeps_pruneTasks [OF client]], assumption,
        simp only: wp_if wp_fail split: if_split)
       (auto simp: step_err_def intro: loop)
qed

lemma wp_dispatchTasks:
  assumes "job_env_owned env j G I" and "I w" and "names_in_sync j"
  shows "wp (dispatchTasks env) (synced I j) (step_err I j) (j, w)"
  using wp_dispatchTasksWithTemplates [OF assms] by (simp add: dispatchTasks_def wp_def)

text \<open>The two branches and the whole.\<close>

lemma wp_job_event_steps:
  assumes env: "job_env_owned env j G I" and w: "I w" and cur: "cur = phase_of j"
    and f: "\<And>a j' w'. I w' \<Longrightarrow> job_frame j j' \<Longrightarrow> (names_in_sync j \<Longrightarrow> names_in_sync j') \<Longrightarrow>
       (ch \<longrightarrow> fst a) \<Longrightarrow> snd a = phase_of j' \<Longrightarrow>
       wp (f a) (\<lambda>b s. step_ok I j' (d b) s \<and> (fst a \<longrightarrow> d b) \<and> R b (fst s)) (step_err I j') (j', w')"
  shows "wp (seq (job_event_if env cur ev ch) f) (\<lambda>b s. step_ok I j (d b) s \<and> R b (fst s)) (step_err I j) (j, w)"
  by (rule jobf.wp_steps [where c = fst and P = "\<lambda>a j'. (ch \<longrightarrow> fst a) \<and> snd a = phase_of j'", OF wp_job_event_if [OF env w cur]])
     (blast intro: f)

lemma wp_mark_stopped:
  assumes "I w" and "names_in_sync j"
  shows "wp (\<lambda>(j, w). case markTaskStatusesStopped j of (ch, j') \<Rightarrow> (Inr ch, (j', w))) (synced I j) (step_err I j) (j, w)"
proof -
  obtain b j1 where s: "syncTaskStatusSnapshot j = (b, j1)" by (cases "syncTaskStatusSnapshot j")
  note facts = snapshot_facts [OF s]
  let ?ts = "elems (js_tasks (j_status j1))"
  have some: "js_tasks (j_status j1) = Some ?ts" using snapshot_tasks [OF s] by simp
  have "jts_name (snd (mark_stopped e)) = jts_name e" for e by (simp add: mark_stopped_def)
  then have names: "names_in_sync (set_status_tasks (map (snd \<circ> mark_stopped) ?ts) j1)"
    using facts(2) by (simp add: names_in_sync_def set_status_tasks_def comp_def)
  have marked: "fst (mark_stopped e) \<or> snd (mark_stopped e) = e" for e by (simp add: mark_stopped_def)
  have "list_ex fst (map mark_stopped ?ts) \<or> map (snd \<circ> mark_stopped) ?ts = ?ts"
  proof (cases "list_ex fst (map mark_stopped ?ts)")
    case False
    then have "\<forall>e \<in> set ?ts. snd (mark_stopped e) = e"
      using marked by (metis (no_types, lifting) image_eqI list.set_map list_ex_iff)
    then show ?thesis by (simp add: map_idI)
  qed simp
  then have "b \<or> list_ex fst (map mark_stopped ?ts) \<or> set_status_tasks (map (snd \<circ> mark_stopped) ?ts) j1 = j"
    using facts(4) some by (auto simp: set_status_tasks_def)
  then show ?thesis
    using assms(1) facts(1,3) names
    by (auto simp: wp_def markTaskStatusesStopped_def s Let_def step_ok_def)
qed

lemma wp_run_snapshot:
  assumes "I w"
    and "\<And>ch j' w'. I w' \<Longrightarrow> job_frame j j' \<Longrightarrow> names_in_sync j' \<Longrightarrow> phase_of j' = phase_of j \<Longrightarrow>
       wp (f ch) (\<lambda>b s. step_ok I j' (d b) s \<and> (ch \<longrightarrow> d b) \<and> R b (fst s)) (step_err I j') (j', w')"
  shows "wp (seq snapshot f) (\<lambda>b s. step_ok I j (d b) s \<and> R b (fst s)) (step_err I j) (j, w)"
  by (rule jobf.wp_steps [where c = "\<lambda>b. b", OF wp_snapshot [where I = I and w = w, OF assms(1)]]) (blast intro: assms(2))

abbreviation requeue_or_none :: "bool \<times> go_error option \<Rightarrow> bool" where
  "requeue_or_none b \<equiv> snd b = None \<or> snd b = Some ErrRequeueAfterChildCleanup"

lemma wp_finish_stopped:
  assumes env: "job_env_owned env j G I" and w: "I w" and n: "names_in_sync j" and cur: "cur = phase_of j"
  shows "wp (finish_stopped env ch cur)
     (\<lambda>b s. step_ok I j (fst b) s \<and> (ch \<longrightarrow> fst b) \<and> requeue_or_none b) (step_err I j) (j, w)"
proof -
  have delete: "wp (\<lambda>(j, w). on_snd (deleteOwnedTasks env j) (j, w))
      (\<lambda>b s. step_ok I j False s \<and> fst s = j) (step_err I j) (j, w)"
    using jobf.wp_world_step [OF keeps_deleteOwnedTasks [OF job_env_ok_client [OF env]] w]
    by (simp add: wp_def)
  show ?thesis
    unfolding finish_stopped_def
    by (rule jobf.wp_steps [where c = "\<lambda>_. False" and P = "\<lambda>_ j'. j' = j", OF delete])
       (auto simp: wp_if wp_ok jobf.step_ok_refl cur
         intro!: jobf.wp_synced_then [OF wp_mark_stopped] n wp_job_event_steps [OF job_env_ok_frame [OF env]])
qed

lemma wp_reconcileStoppedJob:
  assumes env: "job_env_owned env j G I" and w: "I w"
  shows "wp (reconcileStoppedJob env) (\<lambda>b s. step_ok I j (fst b) s \<and> requeue_or_none b) (step_err I j) (j, w)"
proof -
  let ?F = "seq snapshot (\<lambda>changed.
     seq (job_event_if env (js_phase (j_status j)) EventInit changed) (\<lambda>(changed, cur).
     seq (syncTaskStatuses env) (\<lambda>syncChanged.
       finish_stopped env (changed \<or> syncChanged) cur)))"
  have run: "reconcileStoppedJob env (j, w) = ?F (j, w)" by (simp add: reconcileStoppedJob_def)
  show ?thesis
    unfolding wp_run_eq [where m = "reconcileStoppedJob env" and m' = ?F and s' = "(j, w)", OF run]
    by (auto simp: job_frame_def intro!: wp_run_snapshot w wp_job_event_steps [where G = G] jobf.wp_synced_then [OF wp_syncTaskStatuses]
        job_env_ok_frame [OF env] wp_mono [OF wp_finish_stopped])
qed

lemma wp_observe_and_dispatch:
  assumes env: "job_env_owned env j G I" and w: "I w" and n: "names_in_sync j" and cur: "cur = phase_of j"
  shows "wp (observe_and_dispatch env ch cur)
     (\<lambda>b s. step_ok I j (fst b) s \<and> (ch \<longrightarrow> fst b) \<and> requeue_or_none b) (step_err I j) (j, w)"
  unfolding observe_and_dispatch_def
  by (auto simp: wp_seq_reading wp_if wp_ok Let_def jobf.step_ok_refl cur job_frame_def
      intro!: jobf.wp_synced_then [OF wp_syncTaskStatuses] env w n jobf.wp_synced_then [OF wp_dispatchTasks]
        job_env_ok_frame [OF env] wp_job_event_steps [where G = G])

lemma wp_reconcileWithStateMachine:
  assumes env: "job_env_owned env j G I" and w: "I w"
  shows "wp (reconcileWithStateMachine env) (\<lambda>b s. step_ok I j (fst b) s \<and> requeue_or_none b) (step_err I j) (j, w)"
proof -
  let ?V = "seq snapshot (\<lambda>changed.
          seq (markJobValid env) (\<lambda>valid.
          seq (job_event_if env (js_phase (j_status j)) EventInit (changed \<or> valid)) (\<lambda>(changed, cur).
            observe_and_dispatch env changed cur)))"
  let ?F = "if jb_suspended (j_spec j) then reconcileStoppedJob env
      else (case validateTaskTemplates j of
        Inl e \<Rightarrow> seq (markJobInvalid env (error_text e)) (\<lambda>ch. ok (ch, None)) | Inr _ \<Rightarrow> ?V)"
  have run: "reconcileWithStateMachine env (j, w) = ?F (j, w)" by (simp add: reconcileWithStateMachine_def)
  have invalid: "wp (seq (markJobInvalid env msg) (\<lambda>ch. ok (ch, None)))
      (\<lambda>b s. step_ok I j (fst b) s \<and> requeue_or_none b) (step_err I j) (j, w)" for msg
    unfolding wp_seq wp_ok by (rule wp_mono [OF wp_markJobInvalid [OF env w]]) simp_all
  have valid: "wp ?V (\<lambda>b s. step_ok I j (fst b) s \<and> requeue_or_none b) (step_err I j) (j, w)"
    by (auto simp: job_frame_def intro!: wp_run_snapshot w jobf.wp_steps [where c = "\<lambda>b. b", OF wp_markJobValid]
        wp_job_event_steps [where G = G] job_env_ok_frame [OF env] wp_mono [OF wp_observe_and_dispatch])
  show ?thesis
    unfolding wp_run_eq [where m = "reconcileWithStateMachine env" and m' = ?F and s' = "(j, w)", OF run]
    using invalid valid wp_reconcileStoppedJob [OF env w] by (simp split: sum.split)
qed

end
