(* ===== verification/Api_Sim.thy ===== *)
theory Api_Sim
  imports Job_Machine
begin

text \<open>
  A small API server that behaves as documented: the store, a clock and a log of the write
  requests. It is not a model of code of the repository; the parameters of the controllers
  are instantiated with it where a property is applied to a concrete run.
\<close>

datatype verb = VCreate | VUpdate | VDelete

record sim =
  sim_tasks :: "task list"
  sim_nodes :: "node list"
  sim_clusters :: "cluster list"
  sim_jobs :: "job list"
  sim_clock :: int
  sim_log :: "(verb \<times> object_meta) list"

definition same_object :: "object_meta \<Rightarrow> object_meta \<Rightarrow> bool" where
  "same_object a b \<longleftrightarrow> om_namespace a = om_namespace b \<and> om_name a = om_name b"

definition sim_now :: "sim \<Rightarrow> time \<times> sim" where
  "sim_now w = (sim_clock w + 1, w\<lparr>sim_clock := sim_clock w + 1\<rparr>)"

definition same_condition :: "condition \<Rightarrow> condition \<Rightarrow> bool" where
  "same_condition a b \<longleftrightarrow> cn_status a = cn_status b \<and> cn_reason a = cn_reason b \<and>
     cn_message a = cn_message b \<and> cn_observed_generation a = cn_observed_generation b"

definition sim_set_condition :: "condition list \<Rightarrow> condition \<Rightarrow> sim \<Rightarrow> (bool \<times> condition list) \<times> sim" where
  "sim_set_condition cs c w =
     (case find (\<lambda>x. cn_type x = cn_type c) cs of
        None \<Rightarrow> ((True, cs @ [c\<lparr>cn_transition := sim_clock w\<rparr>]), w)
      | Some old \<Rightarrow>
          (if same_condition old c then ((False, cs), w)
           else ((True, map (\<lambda>x. if cn_type x = cn_type c
                       then c\<lparr>cn_transition := (if cn_status old = cn_status c then cn_transition old else sim_clock w)\<rparr>
                       else x) cs), w)))"

definition sim_log_request :: "verb \<Rightarrow> object_meta \<Rightarrow> sim \<Rightarrow> sim" where
  "sim_log_request v m w = w\<lparr>sim_log := sim_log w @ [(v, m)]\<rparr>"

definition sim_set_ref :: "string \<Rightarrow> object_meta \<Rightarrow> object_meta \<Rightarrow> go_error + object_meta" where
  "sim_set_ref kind owner m =
     (case om_controller m of
        Some r \<Rightarrow> (if or_uid r \<noteq> om_uid owner then Inl (ErrText ''already owned by another controller'')
                   else Inr (m\<lparr>om_controller := Some \<lparr>or_api_version = GroupVersion, or_kind = kind,
                                                       or_name = om_name owner, or_uid = om_uid owner\<rparr>\<rparr>))
      | None \<Rightarrow> Inr (m\<lparr>om_controller := Some \<lparr>or_api_version = GroupVersion, or_kind = kind,
                                              or_name = om_name owner, or_uid = om_uid owner\<rparr>\<rparr>))"

definition sim_list_tasks :: "string \<Rightarrow> (sim, task list) prog" where
  "sim_list_tasks n = reading (\<lambda>w. filter (\<lambda>t. n \<in> set (indexTaskByJob t)) (sim_tasks w))"

definition sim_get_task :: "string \<Rightarrow> string \<Rightarrow> (sim, task) prog" where
  "sim_get_task ns n = (\<lambda>w.
     (case find (\<lambda>t. om_namespace (t_meta t) = ns \<and> om_name (t_meta t) = n) (sim_tasks w) of
        None \<Rightarrow> (Inl (ErrKube NotFound), w) | Some t \<Rightarrow> (Inr t, w)))"

definition sim_create_task :: "task \<Rightarrow> (sim, task) prog" where
  "sim_create_task t = (\<lambda>w.
     (let w = sim_log_request VCreate (t_meta t) w
      in if \<exists>s \<in> set (sim_tasks w). same_object (t_meta s) (t_meta t) then (Inl (ErrKube AlreadyExists), w)
         else (Inr t, w\<lparr>sim_tasks := sim_tasks w @ [t]\<rparr>)))"

definition sim_update_task :: "task \<Rightarrow> (sim, task) prog" where
  "sim_update_task t = (\<lambda>w.
     (let w = sim_log_request VUpdate (t_meta t) w
      in if \<exists>s \<in> set (sim_tasks w). same_object (t_meta s) (t_meta t)
         then (Inr t, w\<lparr>sim_tasks := map (\<lambda>s. if same_object (t_meta s) (t_meta t) then t else s) (sim_tasks w)\<rparr>)
         else (Inl (ErrKube NotFound), w)))"

definition sim_delete_task :: "task \<Rightarrow> (sim, unit) prog" where
  "sim_delete_task t = (\<lambda>w.
     (let w = sim_log_request VDelete (t_meta t) w
      in if \<exists>s \<in> set (sim_tasks w). same_object (t_meta s) (t_meta t)
         then (Inr (), w\<lparr>sim_tasks := filter (\<lambda>s. \<not> same_object (t_meta s) (t_meta t)) (sim_tasks w)\<rparr>)
         else (Inl (ErrKube NotFound), w)))"

definition sim_get_job :: "string \<Rightarrow> string \<Rightarrow> (sim, job) prog" where
  "sim_get_job ns n = (\<lambda>w.
     (case find (\<lambda>j. om_namespace (j_meta j) = ns \<and> om_name (j_meta j) = n) (sim_jobs w) of
        None \<Rightarrow> (Inl (ErrKube NotFound), w) | Some j \<Rightarrow> (Inr j, w)))"

definition sim_put_job :: "job \<Rightarrow> (sim, job) prog" where
  "sim_put_job j = (\<lambda>w.
     (if \<exists>s \<in> set (sim_jobs w). same_object (j_meta s) (j_meta j)
      then (Inr j, w\<lparr>sim_jobs := map (\<lambda>s. if same_object (j_meta s) (j_meta j) then j else s) (sim_jobs w)\<rparr>)
      else (Inl (ErrKube NotFound), w)))"

definition sim_env :: "sim job_env" where
  "sim_env = \<lparr>je_fsm = table_fsm, je_now = sim_now, je_set_condition = sim_set_condition,
     je_set_controller_ref = sim_set_ref ''Job'', je_list_tasks = sim_list_tasks, je_get_task = sim_get_task,
     je_create_task = sim_create_task, je_update_task = sim_update_task, je_delete_task = sim_delete_task,
     je_list_nodes = (\<lambda>sel. reading (\<lambda>w. filter (\<lambda>n. list_all (\<lambda>(k, v). mget (om_labels (n_meta n)) k = Some v) sel) (sim_nodes w))),
     je_list_clusters = reading sim_clusters, je_get_job = sim_get_job,
     je_update_job = sim_put_job, je_update_job_status = sim_put_job\<rparr>"

text \<open>Every write request of the log was for a Task the Job may touch.\<close>

definition log_ok :: "job \<Rightarrow> sim \<Rightarrow> bool" where
  "log_ok j w \<longleftrightarrow> (\<forall>(v, m) \<in> set (sim_log w). may_touch j m)"

lemma sim_task_client: "task_client sim_env j (log_ok j)"
proof -
  have touch: "may_touch j m" if "om_controller m = Some (job_ref j)" for m
    using that by (simp add: may_touch_def controlled_by_job_def job_ref_def)
  have "keeps (log_ok j) (sim_create_task t) (\<lambda>_. True) no_panic" if "may_touch j (t_meta t)" for t
    using that by (auto simp: keeps_def wp_def sim_create_task_def log_ok_def sim_log_request_def Let_def)
  moreover have "keeps (log_ok j) (sim_update_task t)
      (\<lambda>t'. om_annotations (t_meta t') = om_annotations (t_meta t) \<and>
            om_controller (t_meta t') = om_controller (t_meta t)) no_panic" if "may_touch j (t_meta t)" for t
    using that by (auto simp: keeps_def wp_def sim_update_task_def log_ok_def sim_log_request_def Let_def)
  moreover have "keeps (log_ok j) (sim_delete_task t) (\<lambda>_. True) no_panic" if "may_touch j (t_meta t)" for t
    using that by (auto simp: keeps_def wp_def sim_delete_task_def log_ok_def sim_log_request_def Let_def)
  moreover have "keeps (log_ok j) (sim_get_task ns n) (\<lambda>_. True) no_panic" for ns n
    by (auto simp: keeps_def wp_def sim_get_task_def split: option.split)
  moreover have "case sim_set_ref ''Job'' (j_meta j) m of
      Inl e \<Rightarrow> no_panic e | Inr m' \<Rightarrow> m' = m\<lparr>om_controller := Some (job_ref j)\<rparr>" for m
    by (simp add: sim_set_ref_def job_ref_def split: option.split)
  ultimately show ?thesis
    using touch unfolding task_client_for_def sim_env_def by (simp add: sim_list_tasks_def keeps_reading)
qed

lemma sim_env_ok: "job_env_ok sim_env j (log_ok j)"
proof -
  have "cs' = cs" if "sim_set_condition cs c w = ((False, cs'), w')" for cs c w cs' w'
    using that by (auto simp: sim_set_condition_def split: option.splits if_splits)
  moreover have "log_ok j (snd (sim_set_condition cs c w))" if "log_ok j w" for cs c w
    using that by (simp add: sim_set_condition_def split: option.split)
  ultimately show ?thesis
    using sim_task_client [of j] table_fsm_documented unfolding job_env_owned_def
    by (simp add: sim_env_def sim_now_def log_ok_def)
qed

lemma sim_task_client_any: "task_client sim_env j (\<lambda>_. True)"
proof -
  have "keeps (\<lambda>_. True) (sim_create_task t) (\<lambda>_. True) no_panic" for t
    by (auto simp: keeps_def wp_def sim_create_task_def Let_def)
  moreover have "keeps (\<lambda>_. True) (sim_update_task t)
      (\<lambda>t'. om_annotations (t_meta t') = om_annotations (t_meta t) \<and>
            om_controller (t_meta t') = om_controller (t_meta t)) no_panic" for t
    by (auto simp: keeps_def wp_def sim_update_task_def Let_def)
  moreover have "keeps (\<lambda>_. True) (sim_delete_task t) (\<lambda>_. True) no_panic" for t
    by (auto simp: keeps_def wp_def sim_delete_task_def Let_def)
  moreover have "keeps (\<lambda>_. True) (sim_get_task ns n) (\<lambda>_. True) no_panic" for ns n
    by (auto simp: keeps_def wp_def sim_get_task_def split: option.split)
  moreover have "case sim_set_ref ''Job'' (j_meta j) m of
      Inl e \<Rightarrow> no_panic e | Inr m' \<Rightarrow> m' = m\<lparr>om_controller := Some (job_ref j)\<rparr>" for m
    by (simp add: sim_set_ref_def job_ref_def split: option.split)
  ultimately show ?thesis
    unfolding task_client_for_def sim_env_def by (simp add: sim_list_tasks_def keeps_reading)
qed

text \<open>
  A Task \<open>f\<close> of somebody else: the store has it as it was and no request but a refused
  creation was sent for it.
\<close>

definition foreign_kept :: "task \<Rightarrow> sim \<Rightarrow> bool" where
  "foreign_kept f w \<longleftrightarrow> filter (\<lambda>s. same_object (t_meta s) (t_meta f)) (sim_tasks w) = [f] \<and>
     (\<forall>(v, m) \<in> set (sim_log w). v = VCreate \<or> \<not> same_object m (t_meta f))"

definition not_at :: "object_meta \<Rightarrow> string \<times> string \<times> string \<Rightarrow> bool" where
  "not_at m i \<longleftrightarrow> (case i of (ns, n, _) \<Rightarrow> ns \<noteq> om_namespace m \<or> n \<noteq> om_name m)"

lemma not_at_identity: "not_at m (identity_of m') \<longleftrightarrow> \<not> same_object m' m"
  by (auto simp: not_at_def identity_of_def same_object_def)

lemma filter_same_skip:
  "\<not> same_object (t_meta t) (t_meta f) \<Longrightarrow>
     filter (\<lambda>s. same_object (t_meta s) (t_meta f)) (map (\<lambda>s. if same_object (t_meta s) (t_meta t) then t else s) ts)
       = filter (\<lambda>s. same_object (t_meta s) (t_meta f)) ts"
  "\<not> same_object (t_meta t) (t_meta f) \<Longrightarrow>
     filter (\<lambda>s. \<not> same_object (t_meta s) (t_meta t) \<and> same_object (t_meta s) (t_meta f)) ts
       = filter (\<lambda>s. same_object (t_meta s) (t_meta f)) ts"
  by (induction ts) (auto simp: same_object_def)

lemma sim_env_foreign:
  assumes f: "\<not> may_touch j (t_meta f)"
  shows "job_env_owned sim_env j (not_at (t_meta f)) (foreign_kept f)"
proof -
  let ?I = "foreign_kept f"
  have seen: "\<not> same_object (t_meta t) (t_meta f)" if "?I w" "t \<in> set (sim_tasks w)" "may_touch j (t_meta t)" for t w
  proof
    assume "same_object (t_meta t) (t_meta f)"
    with that(2) have "t \<in> set (filter (\<lambda>s. same_object (t_meta s) (t_meta f)) (sim_tasks w))" by simp
    with that(1) have "t = f" unfolding foreign_kept_def by simp
    with f that(3) show False by simp
  qed
  have here: "\<exists>s \<in> set (sim_tasks w). same_object (t_meta s) (t_meta f)" if "?I w" for w
  proof -
    have "f \<in> set (filter (\<lambda>s. same_object (t_meta s) (t_meta f)) (sim_tasks w))"
      using that by (simp add: foreign_kept_def)
    then show ?thesis by auto
  qed
  have same: "same_object (t_meta s) (t_meta t)"
    if "same_object (t_meta s) (t_meta f)" "same_object (t_meta t) (t_meta f)" for s t
    using that by (simp add: same_object_def)
  have "keeps ?I (sim_create_task t) (\<lambda>_. True) no_panic" for t
    using here same [of _ t]
    by (fastforce simp: keeps_def wp_def sim_create_task_def foreign_kept_def sim_log_request_def Let_def)
  moreover have "keeps ?I (sim_update_task t)
      (\<lambda>t'. om_annotations (t_meta t') = om_annotations (t_meta t) \<and>
            om_controller (t_meta t') = om_controller (t_meta t) \<and> not_at (t_meta f) (identity_of (t_meta t')))
      no_panic" if "not_at (t_meta f) (identity_of (t_meta t))" for t
    using that by (auto simp: keeps_def wp_def sim_update_task_def foreign_kept_def sim_log_request_def Let_def
        not_at_identity filter_same_skip)
  moreover have "keeps ?I (sim_delete_task t) (\<lambda>_. True) no_panic"
    if "not_at (t_meta f) (identity_of (t_meta t))" for t
    using that by (auto simp: keeps_def wp_def sim_delete_task_def foreign_kept_def sim_log_request_def Let_def
        not_at_identity filter_same_skip)
  moreover have "keeps ?I (sim_get_task ns n)
      (\<lambda>t. may_touch j (t_meta t) \<longrightarrow> not_at (t_meta f) (identity_of (t_meta t))) no_panic" for ns n
    by (auto simp: keeps_def wp_def sim_get_task_def not_at_identity find_Some_iff
        split: option.split dest: seen nth_mem)
  moreover have "keeps ?I (sim_list_tasks n)
      (\<lambda>ts. \<forall>t \<in> set ts. may_touch j (t_meta t) \<longrightarrow> not_at (t_meta f) (identity_of (t_meta t))) no_panic" for n
    by (auto simp: keeps_def wp_def sim_list_tasks_def reading_def not_at_identity dest: seen)
  moreover have "case sim_set_ref ''Job'' (j_meta j) m of
      Inl e \<Rightarrow> no_panic e | Inr m' \<Rightarrow> m' = m\<lparr>om_controller := Some (job_ref j)\<rparr>" for m
    by (simp add: sim_set_ref_def job_ref_def split: option.split)
  ultimately have "task_client_for sim_env j (not_at (t_meta f)) ?I"
    unfolding task_client_for_def sim_env_def by (simp add: keeps_reading)
  moreover have "cs' = cs" if "sim_set_condition cs c w = ((False, cs'), w')" for cs c w cs' w'
    using that by (auto simp: sim_set_condition_def split: option.splits if_splits)
  moreover have "?I (snd (sim_set_condition cs c w))" if "?I w" for cs c w
    using that by (simp add: sim_set_condition_def split: option.split)
  ultimately show ?thesis
    using table_fsm_documented unfolding job_env_owned_def
    by (simp add: sim_env_def sim_now_def foreign_kept_def)
qed

definition demo_sim :: sim where
  "demo_sim = \<lparr>sim_tasks = [], sim_nodes = [], sim_clusters = [], sim_jobs = [demo_job], sim_clock = 7, sim_log = []\<rparr>"

lemma demo_log_ok: "log_ok j demo_sim"
  by (simp add: log_ok_def demo_sim_def)

end
