(* ===== verification/Job_Controller.thy ===== *)
theory Job_Controller
  imports Api_Sim
begin

text \<open>
  The Job controller as a whole (\<open>controllermanager/job/job_controller.go\<close>): the step that
  records the observed generation, the reconciliation of one request with the clean-up
  finalizer, and the properties of the controller. The results of \<open>Reconcile\<close> are
  \<open>RequeueAfter\<close> in nanoseconds.
\<close>

abbreviation JobCleanupFinalizer :: string where
  "JobCleanupFinalizer \<equiv> ''jobs.rlinf.io/task-cleanup''"

abbreviation cleanupRequeue :: int where "cleanupRequeue \<equiv> 1000000000"

section \<open>Operations\<close>

definition IsTerminal :: "job \<Rightarrow> bool" where
  "IsTerminal j = False"

definition jobTaskStatusesStopped :: "job \<Rightarrow> bool" where
  "jobTaskStatusesStopped j \<longleftrightarrow>
     length (elems (js_tasks (j_status j))) = length (jb_tasks (j_spec j)) \<and>
     list_all (\<lambda>s. jts_phase s = PhaseStopped) (elems (js_tasks (j_status j)))"

definition job_terminal :: "job \<Rightarrow> bool" where
  "job_terminal j \<longleftrightarrow> js_phase (j_status j) = PhaseSucceeded \<or> js_phase (j_status j) = PhaseFailed"

text \<open>The status of a Job whose Tasks have stopped; the flag is \<open>statusChanged\<close>.\<close>

definition stop_status :: "'w job_env \<Rightarrow> ('w job_state, bool) prog" where
  "stop_status env =
     seq (\<lambda>(j, w). (if \<not> jobTaskStatusesStopped j then syncTaskStatuses env else ok False) (j, w))
       (\<lambda>changed (j, w).
         (let terminal = job_terminal j;
              ch1 = (js_phase (j_status j) \<noteq> PhaseStopped \<and> \<not> terminal);
              j = (if ch1 then set_phase PhaseStopped j else j);
              ch2 = (js_end_time (j_status j) = None \<and> \<not> terminal)
          in (Inr (changed \<or> ch1 \<or> ch2), (if ch2 then end_now env (j, w) else (j, w)))))"

text \<open>The branch of \<open>Reconcile\<close> for a Job that is being deleted and has the finalizer.\<close>

definition reconcile_deleting :: "'w job_env \<Rightarrow> job \<Rightarrow> ('w, int) prog" where
  "reconcile_deleting env j =
     seq (stopOwnedTasks env j) (\<lambda>stopped.
       if \<not> stopped then ok cleanupRequeue
       else
         seq (on_obj j (stop_status env)) (\<lambda>(changed, j).
           if changed then
             seq (wrap ''update stopped Job status'' (je_update_job_status env j)) (\<lambda>_. ok 1)
           else
             seq (deleteOwnedTasks env j) (\<lambda>pending.
               if pending then ok cleanupRequeue
               else
                 seq (wrap ''remove Job cleanup finalizer''
                        (je_update_job env (j\<lparr>j_meta := remove_finalizer (j_meta j) JobCleanupFinalizer\<rparr>)))
                   (\<lambda>_. ok 0))))"

definition job_Reconcile :: "'w job_env \<Rightarrow> string \<Rightarrow> string \<Rightarrow> ('w, int) prog" where
  "job_Reconcile env ns name =
     seq (attempt (je_get_job env ns name)) (\<lambda>r. case r of
       Inl e \<Rightarrow> (if is_not_found e then ok 0 else fail e)
     | Inr j \<Rightarrow>
         (if time_is_zero (om_deletion (j_meta j)) then
            (if \<not> contains_finalizer (j_meta j) JobCleanupFinalizer then
               seq (wrap ''add Job cleanup finalizer''
                      (je_update_job env (j\<lparr>j_meta := add_finalizer (j_meta j) JobCleanupFinalizer\<rparr>)))
                 (\<lambda>_. ok 1)
             else ReconcileWith (je_get_job env) IsTerminal (ReconcileStateMachine env)
                    (je_update_job_status env) ns name)
          else if \<not> contains_finalizer (j_meta j) JobCleanupFinalizer then ok 0
          else reconcile_deleting env j))"

text \<open>The update predicate of the watch: which changes of a Job cause a reconciliation.\<close>

definition jobSpecChanged :: "job \<Rightarrow> job \<Rightarrow> bool" where
  "jobSpecChanged old new \<longleftrightarrow>
     om_generation (j_meta old) \<noteq> om_generation (j_meta new) \<or>
     om_annotations (j_meta old) \<noteq> om_annotations (j_meta new) \<or>
     om_finalizers (j_meta old) \<noteq> om_finalizers (j_meta new) \<or>
     om_deletion (j_meta old) \<noteq> om_deletion (j_meta new)"

section \<open>The state machine step\<close>

definition observed :: "job \<Rightarrow> int" where
  "observed j = js_observed_generation (j_status j)"

lemma ReconcileStateMachine_run:
  assumes env: "job_env_owned env j G I" and w: "I w"
  shows "wp (ReconcileStateMachine env)
     (\<lambda>(changed, err) (j', w').
        I w' \<and> j_meta j' = j_meta j \<and> j_spec j' = j_spec j \<and> (changed \<or> j' = j) \<and>
        (case err of None \<Rightarrow> observed j' = om_generation (j_meta j)
         | Some e \<Rightarrow> e = ErrRequeueAfterChildCleanup \<and> observed j' = observed j))
     (\<lambda>e (j', w'). I w' \<and> j_meta j' = j_meta j \<and> j_spec j' = j_spec j \<and> no_panic e \<and> observed j' = observed j)
     (j, w)"
  unfolding ReconcileStateMachine_def wp_seq
  by (rule wp_mono [OF wp_reconcileWithStateMachine [OF env w]])
     (auto simp: step_ok_def step_err_def job_frame_def observed_def wp_def ok_def split: prod.splits if_splits)

text \<open>A state is good for the Job machine when its environment behaves as documented there.\<close>

definition job_good :: "'w job_env \<Rightarrow> job \<times> 'w \<Rightarrow> bool" where
  "job_good env = (\<lambda>(j, w). job_env_ok env j (\<lambda>_. True))"

interpretation job_rec: reconciler "ReconcileStateMachine env" "job_good env" for env
proof
  fix s err s'
  assume g: "job_good env s" and r: "ReconcileStateMachine env s = (Inr (False, err), s')"
  obtain j w where s: "s = (j, w)" by (cases s)
  from wpD(1) [OF ReconcileStateMachine_run [of env j "\<lambda>_. True" "\<lambda>_. True" w], of "(False, err)" s'] g r s
  show "fst s' = fst s" by (auto simp: job_good_def)
next
  fix s e s'
  assume g: "job_good env s" and r: "ReconcileStateMachine env s = (Inl e, s')"
  obtain j w where s: "s = (j, w)" by (cases s)
  from wpD(2) [OF ReconcileStateMachine_run [of env j "\<lambda>_. True" "\<lambda>_. True" w], of e s'] g r s
  show "no_panic e" by (auto simp: job_good_def)
next
  fix s changed e s'
  assume g: "job_good env s" and r: "ReconcileStateMachine env s = (Inr (changed, Some e), s')"
  obtain j w where s: "s = (j, w)" by (cases s)
  from wpD(1) [OF ReconcileStateMachine_run [of env j "\<lambda>_. True" "\<lambda>_. True" w], of "(changed, Some e)" s'] g r s
  show "errors_is e ''ErrRequeueAfterChildCleanup''" by (auto simp: job_good_def)
qed

section \<open>The event a status calls for\<close>

definition task_phases :: "job \<Rightarrow> string list" where
  "task_phases j = map jts_phase (elems (js_tasks (j_status j)))"

text \<open>The phase a Job should have: the aggregate of its Tasks.\<close>

definition aggregate_phase :: "string list \<Rightarrow> string" where
  "aggregate_phase ps =
     (if PhaseFailed \<in> set ps then PhaseFailed
      else if \<forall>p \<in> set ps. p = PhaseSucceeded then PhaseSucceeded
      else if \<forall>p \<in> set ps. p = PhaseRunning then PhaseRunning
      else PhasePending)"

text \<open>The phase after \<open>evaluateJobEvent\<close> and, when \<open>Can\<close> allows it, the event.\<close>

definition next_phase :: "job \<Rightarrow> string" where
  "next_phase j =
     (case find (\<lambda>d. ev_name d = evaluateJobEvent j \<and> js_phase (j_status j) \<in> set (ev_src d)) jobEvents of
        None \<Rightarrow> js_phase (j_status j) | Some d \<Rightarrow> ev_dst d)"

definition event_for :: "string \<Rightarrow> string \<Rightarrow> string" where
  "event_for p agg =
     (if p = PhaseStopped then EventTasksPending
      else if p = PhaseSucceeded \<and> agg \<noteq> PhaseSucceeded then EventTasksPending
      else if p = PhaseFailed \<and> agg \<noteq> PhaseFailed then EventTasksPending
      else if agg = PhaseFailed then EventAnyTaskFailed
      else if agg = PhaseSucceeded then EventAllTasksDone
      else if agg = PhaseRunning then EventTasksRunning
      else if p \<noteq> PhasePending then EventTasksPending
      else [])"

definition table_next :: "string \<Rightarrow> string \<Rightarrow> string" where
  "table_next p ev =
     (case find (\<lambda>d. ev_name d = ev \<and> p \<in> set (ev_src d)) jobEvents of None \<Rightarrow> p | Some d \<Rightarrow> ev_dst d)"

lemma table_next_closed:
  "\<forall>p \<in> set job_phases. \<forall>agg \<in> set [PhaseFailed, PhaseSucceeded, PhaseRunning, PhasePending].
     table_next p (event_for p agg) =
       (if p = agg then p else if p = PhasePending \<or> p = PhaseRunning then agg else PhasePending)"
  by code_simp

lemma evaluateJobEvent_cases:
  assumes "\<not> jb_suspended (j_spec j)" and "task_phases j \<noteq> []"
  shows "evaluateJobEvent j = event_for (phase_of j) (aggregate_phase (task_phases j))"
proof -
  let ?ps = "task_phases j"
  have "SummarizePhases ?ps PhaseSucceeded PhaseFailed PhaseRunning PhaseStopped =
     \<lparr>AllSucceeded = (\<forall>p \<in> set ?ps. p = PhaseSucceeded), AllStopped = (\<forall>p \<in> set ?ps. p = PhaseStopped),
      AnyFailed = (PhaseFailed \<in> set ?ps), AnyRunning = (PhaseRunning \<in> set ?ps), HasItems = True\<rparr>"
    using SummarizePhases_quantified [of PhaseSucceeded PhaseFailed PhaseRunning PhaseStopped ?ps] assms(2) by simp
  then have sum: "SummarizePhases (map jts_phase (elems (js_tasks (j_status j)))) PhaseSucceeded PhaseFailed PhaseRunning PhaseStopped =
     \<lparr>AllSucceeded = (\<forall>p \<in> set ?ps. p = PhaseSucceeded), AllStopped = (\<forall>p \<in> set ?ps. p = PhaseStopped),
      AnyFailed = (PhaseFailed \<in> set ?ps), AnyRunning = (PhaseRunning \<in> set ?ps), HasItems = True\<rparr>"
    unfolding task_phases_def .
  have running: "allTasksInPhase (map jts_phase (elems (js_tasks (j_status j)))) PhaseRunning \<longleftrightarrow>
      (\<forall>p \<in> set ?ps. p = PhaseRunning)"
    using assms(2) by (simp add: allTasksInPhase_def list_all_iff task_phases_def)
  obtain q qs where q: "?ps = q # qs" using assms(2) by (cases ?ps) auto
  define A where "A \<longleftrightarrow> (\<forall>p \<in> set ?ps. p = PhaseSucceeded)"
  define R where "R \<longleftrightarrow> (\<forall>p \<in> set ?ps. p = PhaseRunning)"
  define F where "F \<longleftrightarrow> PhaseFailed \<in> set ?ps"
  have "F \<Longrightarrow> \<not> A" "F \<Longrightarrow> \<not> R" "A \<Longrightarrow> \<not> R"
    unfolding A_def R_def F_def q by force+
  moreover have "aggregate_phase ?ps =
      (if F then PhaseFailed else if A then PhaseSucceeded else if R then PhaseRunning else PhasePending)"
    unfolding aggregate_phase_def A_def R_def F_def ..
  ultimately show ?thesis
    unfolding evaluateJobEvent_def event_for_def Let_def sum running phase_summary.select_convs A_def [symmetric] R_def [symmetric] F_def [symmetric]
    using assms(1)
    by (cases F; cases A; cases R; simp split del: if_split cong: if_cong)
qed

text \<open>One evaluation from a known phase: straight to the aggregate, or to Pending first.\<close>

lemma aggregate_phase_cases:
  "aggregate_phase ps \<in> {PhaseFailed, PhaseSucceeded, PhaseRunning, PhasePending}"
  by (simp add: aggregate_phase_def)

lemma next_phase_closed:
  assumes "\<not> jb_suspended (j_spec j)" and "task_phases j \<noteq> []" and "phase_of j \<in> set job_phases"
  shows "next_phase j =
    (let p = phase_of j; agg = aggregate_phase (task_phases j)
     in if p = agg then p
        else if p = PhasePending \<or> p = PhaseRunning then agg
        else PhasePending)"
proof -
  have "next_phase j = table_next (phase_of j) (event_for (phase_of j) (aggregate_phase (task_phases j)))"
    by (simp only: next_phase_def table_next_def evaluateJobEvent_cases [OF assms(1,2)])
  moreover have "aggregate_phase (task_phases j) \<in> set [PhaseFailed, PhaseSucceeded, PhaseRunning, PhasePending]"
    using aggregate_phase_cases [of "task_phases j"] unfolding list.set .
  ultimately show ?thesis
    using table_next_closed [rule_format, OF assms(3)] unfolding Let_def by presburger
qed

lemma task_phases_set_phase [simp]: "task_phases (set_phase p j) = task_phases j"
  by (simp add: task_phases_def set_phase_def)

lemma set_phase_spec [simp]: "j_spec (set_phase p j) = j_spec j"
  by (simp add: set_phase_def)

section \<open>Deletion\<close>

text \<open>
  \<open>stop_status\<close> works on the Job in memory only, apart from the listing of its Tasks and the
  clock, and keeps the metadata and the spec.
\<close>

lemma stop_status_frame:
  assumes find: "keeps I (findOwnedTasksByTemplate env j) (\<lambda>_. True) (\<lambda>_. True)"
    and now: "\<And>w. I w \<Longrightarrow> I (snd (je_now env w))" and w: "I w"
  shows "wp (stop_status env) (\<lambda>_ s. I (snd s) \<and> j_meta (fst s) = j_meta j)
     (\<lambda>_ s. I (snd s)) (j, w)"
proof -
  let ?P = "\<lambda>s :: job \<times> 'a. I (snd s) \<and> j_meta (fst s) = j_meta j"
  have entry: "wp (sync_entry ptr p m) (\<lambda>_. ?P) (\<lambda>_. ?P) s" if "?P s" for ptr p m s
    using that by (cases s) (auto simp: wp_def sync_entry_def set_status_tasks_def Let_def split: option.split prod.split)
  have one: "wp (sync_from_task m byT b t) (\<lambda>_. ?P) (\<lambda>_. ?P) s" if "?P s" for m byT b t s
  proof -
    obtain j' w' where s: "s = (j', w')" by (cases s)
    have "wp (seq (sync_entry i p m) (\<lambda>b'. ok (b' \<or> b))) (\<lambda>_. ?P) (\<lambda>_. ?P) s" for i p m
      unfolding wp_seq wp_ok by (rule wp_mono [OF entry [OF that]]) simp_all
    then show ?thesis
      using that unfolding s by (simp add: wp_def sync_from_task_def ok_def split: option.split)
  qed
  have sync: "wp (syncTaskStatuses env) (\<lambda>_. ?P) (\<lambda>_. ?P) (j, w)"
  proof -
    let ?F = "seq (on_snd (findOwnedTasksByTemplate env j))
       (\<lambda>byTemplate. fold_prog (sync_from_task (buildTaskStatusMap j) byTemplate) False (jb_tasks (j_spec j)))"
    have run: "syncTaskStatuses env (j, w) = ?F (j, w)" by (simp add: syncTaskStatuses_def)
    have loop: "wp (fold_prog (sync_from_task (buildTaskStatusMap j) byT) False (jb_tasks (j_spec j)))
        (\<lambda>_. ?P) (\<lambda>_. ?P) (j, w')" if "I w'" for byT w'
      by (rule wp_fold) (use that one in simp_all)
    show ?thesis
      unfolding wp_run_eq [where m = "syncTaskStatuses env" and m' = ?F and s' = "(j, w)", OF run] wp_seq wp_on_snd
      by (rule wp_mono [OF keepsD [OF find w]]) (auto intro: loop)
  qed
  have tail: "I (snd (end_now env (j', w')))" "j_meta (fst (end_now env (j', w'))) = j_meta j'"
    if "I w'" for j' w'
    using now [OF that] by (simp_all add: end_now_def set_phase_def set_end_time_def case_prod_beta)
  have meta: "j_meta (set_phase p j') = j_meta j'" for p j' by (simp add: set_phase_def)
  show ?thesis
    unfolding stop_status_def wp_seq
  proof (rule wp_mono)
    show "wp (\<lambda>(j, w). (if \<not> jobTaskStatusesStopped j then syncTaskStatuses env else ok False) (j, w))
        (\<lambda>_. ?P) (\<lambda>_. ?P) (j, w)"
      using sync w by (simp add: wp_def ok_def)
  next
    fix a s
    assume "?P s"
    then show "wp (\<lambda>(j, w).
         (let terminal = job_terminal j; ch1 = (phase_of j \<noteq> PhaseStopped \<and> \<not> terminal);
              j = (if ch1 then set_phase PhaseStopped j else j);
              ch2 = (js_end_time (j_status j) = None \<and> \<not> terminal)
          in (Inr (a \<or> ch1 \<or> ch2), (if ch2 then end_now env (j, w) else (j, w)))))
        (\<lambda>_. ?P) (\<lambda>_ s. I (snd s)) s"
      by (cases s) (simp add: wp_def Let_def tail meta)
  qed simp
qed

lemma keeps_delete_loop:
  assumes "\<And>t. keeps I (je_delete_task env t) (\<lambda>_. True) (\<lambda>_. True)"
  shows "keeps I (fold_prog (delete_task env j) b ts)
     (\<lambda>r. b \<or> (\<exists>t \<in> set ts. controlled_by_job j (t_meta t)) \<longrightarrow> r) (\<lambda>_. True)"
proof (induction ts arbitrary: b)
  case Nil
  then show ?case by (simp add: keeps_ok)
next
  case (Cons t ts)
  have del: "keeps I (wrap msg (ignore_not_found (je_delete_task env t))) (\<lambda>_. True) (\<lambda>_. True)" for msg
    by (rule keeps_wrap [where F = "\<lambda>_. True"], rule keeps_ignore_not_found) (simp_all add: assms)
  have "keeps I (delete_task env j b t) (\<lambda>r. b \<or> controlled_by_job j (t_meta t) \<longrightarrow> r) (\<lambda>_. True)"
    unfolding delete_task_def by (intro keeps_if keeps_ok keeps_seq_any del) simp_all
  then show ?case
    unfolding fold_prog.simps
    by (rule keeps_seq) (rule keeps_weaken [OF Cons.IH], auto)
qed

lemma keeps_stop_loop:
  assumes "\<And>t. keeps I (je_delete_task env t) (\<lambda>_. True) (\<lambda>_. True)"
    and "\<And>t. keeps I (je_update_task env t) (\<lambda>_. True) (\<lambda>_. True)"
  shows "keeps I (fold_prog (stop_task env j) b ts) (\<lambda>_. True) (\<lambda>_. True)"
proof (rule keeps_fold)
  fix b t
  have del: "keeps I (wrap msg (ignore_not_found (je_delete_task env t))) (\<lambda>_. True) (\<lambda>_. True)" for msg
    by (rule keeps_wrap [where F = "\<lambda>_. True"], rule keeps_ignore_not_found) (simp_all add: assms)
  have upd: "keeps I (wrap msg (je_update_task env t')) (\<lambda>_. True) (\<lambda>_. True)" for msg t'
    by (rule keeps_wrap [where F = "\<lambda>_. True"]) (simp_all add: assms)
  show "keeps I (stop_task env j b t) (\<lambda>_. True) (\<lambda>_. True)"
    unfolding stop_task_def Let_def by (intro keeps_if keeps_ok keeps_seq_any del upd) simp_all
qed simp

section \<open>Properties\<close>

text \<open>
  C4. A Job touches only its own Tasks, judged by what it read and not by what it sends. Let
  \<open>G\<close> be the identities (namespace, name, UID) of the Tasks the Job may touch: those whose
  controller is the Job by UID, kind and API version, or that have no controller and carry
  the Job's UID, or neither and the Job's label. Every property of the world that reads keep,
  that creating a Task controlled by the Job keeps, and that updating or deleting a Task
  with an identity in \<open>G\<close> keeps, still holds after \<open>ReconcileStateMachine\<close>, whatever it
  returns; and the Job's metadata and spec are not written. A Task that reads show as foreign
  is in no such \<open>G\<close>: stamping it with the Job's controller reference first, as adoption does,
  would not make its update permitted, so the check in \<open>ensureTaskOwnership\<close> is what
  keeps it as it is.
\<close>
theorem job_touches_own_tasks:
  assumes "job_env_owned env j G I" and "I w" and "ReconcileStateMachine env (j, w) = (r, (j', w'))"
  shows "I w' \<and> j_meta j' = j_meta j \<and> j_spec j' = j_spec j"
  using wpD [OF ReconcileStateMachine_run [OF assms(1,2)]] assms(3) by (cases r) fastforce+

text \<open>
  A store with a Task that a user created without any owner under the name of the second
  template's child, and a Task from before the ownership annotations, known by its label only,
  under the name of the first. \<open>SetControllerReference\<close> would accept both.
\<close>

definition foreign_task :: task where
  "foreign_task = demo_task\<lparr>t_meta := (t_meta demo_task)\<lparr>om_uid := ''t9'', om_labels := None, om_annotations := None\<rparr>\<rparr>"

definition legacy_head :: task where
  "legacy_head = demo_task\<lparr>t_meta := (t_meta demo_task)\<lparr>om_name := ''train-head'', om_uid := ''t1'',
     om_labels := Some [''rlinf.io/job'' \<mapsto> ''train''], om_annotations := None\<rparr>\<rparr>"

definition contested_sim :: sim where
  "contested_sim = demo_sim\<lparr>sim_tasks := [legacy_head, foreign_task]\<rparr>"

lemma validated_run:
  assumes "\<not> jb_suspended (j_spec j)" and "validateTaskTemplates j = Inr ()"
  shows "reconcileWithStateMachine env (j, w) =
    seq snapshot (\<lambda>changed.
    seq (markJobValid env) (\<lambda>valid.
    seq (job_event_if env (js_phase (j_status j)) EventInit (changed \<or> valid)) (\<lambda>(changed, cur).
      observe_and_dispatch env changed cur))) (j, w)"
  using assms by (simp add: reconcileWithStateMachine_def)

theorem job_touches_own_tasks_witness:
  "case ReconcileStateMachine sim_env (demo_job, contested_sim) of
     (r, (j', w')) \<Rightarrow> foreign_kept foreign_task w' \<and> isl r \<and>
       map (\<lambda>(v, m). (v, om_name m)) (sim_log w') = [(VUpdate, ''train-head''), (VUpdate, ''train-head'')]"
proof -
  obtain r j' w' where r: "ReconcileStateMachine sim_env (demo_job, contested_sim) = (r, (j', w'))"
    by (metis prod.exhaust)
  have foreign: "\<not> may_touch demo_job (t_meta foreign_task)"
    by (simp add: may_touch_def foreign_task_def demo_task_def demo_job_def buildTask_def Let_def Inherit_def
        SetIdentity_def)
  have start: "foreign_kept foreign_task contested_sim"
    by (simp add: foreign_kept_def contested_sim_def demo_sim_def same_object_def legacy_head_def foreign_task_def
        demo_task_def buildTask_names)
  have plain: "\<not> jb_suspended (j_spec demo_job)" by code_simp
  have valid: "validateTaskTemplates demo_job = Inr ()" using validate_task_templates_spec_witness ..
  have "case reconcileWithStateMachine sim_env (demo_job, contested_sim) of
     (r, (j', w')) \<Rightarrow> isl r \<and>
       map (\<lambda>(v, m). (v, om_name m)) (sim_log w') = [(VUpdate, ''train-head''), (VUpdate, ''train-head'')]"
    unfolding validated_run [OF plain valid] by code_simp
  then have "case ReconcileStateMachine sim_env (demo_job, contested_sim) of
     (r, (j', w')) \<Rightarrow> isl r \<and>
       map (\<lambda>(v, m). (v, om_name m)) (sim_log w') = [(VUpdate, ''train-head''), (VUpdate, ''train-head'')]"
    unfolding ReconcileStateMachine_def seq_def
    by (cases "reconcileWithStateMachine sim_env (demo_job, contested_sim)") (auto split: sum.splits)
  with job_touches_own_tasks [OF sim_env_foreign [OF foreign] start r] show ?thesis by (simp add: r)
qed

text \<open>
  C26. The Job state machine never panics: with a client that returns errors instead of
  panicking, no error of \<open>ReconcileStateMachine\<close> is a run-time panic. In particular the
  pointer into \<open>status.tasks\<close> that \<open>dispatchTasks\<close> dereferences is never nil.
\<close>
theorem job_machine_never_panics:
  assumes "job_env_ok env j I" and "I w" and "ReconcileStateMachine env (j, w) = (Inl e, s)"
  shows "\<not> is_panic e"
  using wpD(2) [OF ReconcileStateMachine_run [OF assms(1,2)] assms(3)] by (auto split: prod.splits)

definition offline_env :: "sim job_env" where
  "offline_env = sim_env\<lparr>je_list_tasks := (\<lambda>_. fail (ErrText ''connection refused''))\<rparr>"

lemma offline_env_ok: "job_env_ok offline_env j (log_ok j)"
  using sim_env_ok [of j] unfolding job_env_owned_def task_client_for_def offline_env_def
  by (auto intro: keeps_fail)

theorem job_machine_never_panics_witness:
  "\<exists>e s. ReconcileStateMachine offline_env (demo_job\<lparr>j_spec := (j_spec demo_job)\<lparr>jb_suspended := True\<rparr>\<rparr>, demo_sim) = (Inl e, s) \<and>
     \<not> is_panic e"
proof -
  let ?j = "demo_job\<lparr>j_spec := (j_spec demo_job)\<lparr>jb_suspended := True\<rparr>\<rparr>"
  have "isl (fst (ReconcileStateMachine offline_env (?j, demo_sim)))" by code_simp
  then obtain e s where r: "ReconcileStateMachine offline_env (?j, demo_sim) = (Inl e, s)"
    using run_Inl by blast
  from job_machine_never_panics [OF offline_env_ok demo_log_ok r] r show ?thesis by blast
qed

text \<open>
  \<open>status.observedGeneration\<close> is honest: a run that returns without error leaves it equal
  to the generation that was reconciled; a run that returns an error, or asks for a requeue
  after child clean-up, leaves it as it was, so a consumer can tell that the status is stale.
\<close>
theorem job_observed_generation:
  assumes "job_env_ok env j I" and "I w" and "ReconcileStateMachine env (j, w) = (r, (j', w'))"
  shows "case r of
      Inr (changed, None) \<Rightarrow> observed j' = om_generation (j_meta j)
    | Inr (changed, Some e) \<Rightarrow> e = ErrRequeueAfterChildCleanup \<and> observed j' = observed j
    | Inl e \<Rightarrow> observed j' = observed j"
  using wpD [OF ReconcileStateMachine_run [OF assms(1,2)]] assms(3)
  by (cases r) (fastforce split: option.splits)+

theorem job_observed_generation_witness:
  "\<exists>r j' w'. ReconcileStateMachine sim_env (demo_job, demo_sim) = (r, (j', w')) \<and>
     (observed j' = om_generation (j_meta demo_job) \<or> observed j' = observed demo_job)"
proof -
  obtain r j' w' where r: "ReconcileStateMachine sim_env (demo_job, demo_sim) = (r, (j', w'))"
    by (metis prod.exhaust)
  from job_observed_generation [OF sim_env_ok demo_log_ok r] r show ?thesis
    by (auto split: sum.splits prod.splits option.splits)
qed

text \<open>
  C34. What becomes of a computed status. When the state machine returns a result,
  \<open>ReconcileWith\<close> writes the Job it computed with the status writer exactly when the result
  says that it changed, and then fails only with the error of that write; it says that
  nothing changed only when the Job is as it was read; and the run asks to be repeated after
  \<open>ChildCleanupRequeue\<close> exactly when the result carries the request for child clean-up. When
  the machine returns an error without a result, nothing is written, whatever it computed:
  with the request for child clean-up the run still succeeds and is repeated after
  \<open>ChildCleanupRequeue\<close>, any other error is returned, and none of them is a panic.
\<close>
theorem job_status_outcome:
  assumes "je_get_job env ns name w = (Inr j, w1)" and "job_env_ok env j (\<lambda>_. True)"
    and "ReconcileStateMachine env (j, w1) = (r, (j', w2))"
  shows "ReconcileWith (je_get_job env) IsTerminal (ReconcileStateMachine env) (je_update_job_status env) ns name w =
      (case r of
         Inr (changed, err) \<Rightarrow>
           (let after = (if err = None then 0 else ChildCleanupRequeue)
            in if changed then (case je_update_job_status env j' w2 of
                                  (Inl e, w3) \<Rightarrow> (Inl e, w3) | (Inr _, w3) \<Rightarrow> (Inr after, w3))
               else (Inr after, w2))
       | Inl e \<Rightarrow> (if errors_is e ''ErrRequeueAfterChildCleanup'' then (Inr ChildCleanupRequeue, w2)
                    else (Inl e, w2))) \<and>
    (case r of Inr (changed, err) \<Rightarrow> changed \<or> j' = j | Inl e \<Rightarrow> \<not> is_panic e)"
proof
  have terminal: "\<not> IsTerminal j" and good: "job_good env (j, w1)"
    using assms(2) by (simp_all add: IsTerminal_def job_good_def)
  note out = job_rec.outcome [where get = "je_get_job env" and terminal = IsTerminal, OF assms(1) terminal good assms(3)]
  show "ReconcileWith (je_get_job env) IsTerminal (ReconcileStateMachine env) (je_update_job_status env) ns name w =
      (case r of
         Inr (changed, err) \<Rightarrow>
           (let after = (if err = None then 0 else ChildCleanupRequeue)
            in if changed then (case je_update_job_status env j' w2 of
                                  (Inl e, w3) \<Rightarrow> (Inl e, w3) | (Inr _, w3) \<Rightarrow> (Inr after, w3))
               else (Inr after, w2))
       | Inl e \<Rightarrow> (if errors_is e ''ErrRequeueAfterChildCleanup'' then (Inr ChildCleanupRequeue, w2)
                    else (Inl e, w2)))"
    by (rule out(1))
  show "case r of Inr (changed, err) \<Rightarrow> changed \<or> j' = j | Inl e \<Rightarrow> \<not> is_panic e"
    using out(2,3) by (cases r) auto
qed

definition suspended_job :: job where
  "suspended_job = demo_job\<lparr>j_spec := (j_spec demo_job)\<lparr>jb_suspended := True\<rparr>\<rparr>"

definition suspended_sim :: sim where
  "suspended_sim = demo_sim\<lparr>sim_jobs := [suspended_job]\<rparr>"

lemma sim_env_ok_any: "job_env_ok sim_env j (\<lambda>_. True)"
  using sim_env_ok [of j] sim_task_client_any [of j] by (auto simp: job_env_owned_def)

text \<open>A Job of the store one of whose Tasks is being deleted.\<close>

definition dying_sim :: sim where
  "dying_sim = demo_sim\<lparr>sim_tasks := [legacy_head\<lparr>t_meta := (t_meta legacy_head)\<lparr>om_deletion := Some 5\<rparr>\<rparr>]\<rparr>"

theorem job_status_outcome_witness:
  "(case ReconcileStateMachine sim_env (suspended_job, suspended_sim) of
      (r, (j', w2)) \<Rightarrow> r = Inr (True, None) \<and> phase_of j' = PhaseStopped \<and>
        ReconcileWith sim_get_job IsTerminal (ReconcileStateMachine sim_env) sim_put_job ''default'' ''train'' suspended_sim
          = (Inr 0, snd (sim_put_job j' w2))) \<and>
   (case ReconcileStateMachine sim_env (demo_job, dying_sim) of
      (r, (j', w2)) \<Rightarrow> isl r \<and> map jts_name (elems (js_tasks (j_status j'))) = [''head'', ''worker''] \<and>
        ReconcileWith sim_get_job IsTerminal (ReconcileStateMachine sim_env) sim_put_job ''default'' ''train'' dying_sim
          = (Inr ChildCleanupRequeue, w2) \<and>
        map (\<lambda>j. js_tasks (j_status j)) (sim_jobs w2) = [None])"
proof
  have e: "je_get_job sim_env = sim_get_job" "je_update_job_status sim_env = sim_put_job"
    by (simp_all add: sim_env_def)
  {
    obtain r j' w2 where r: "ReconcileStateMachine sim_env (suspended_job, suspended_sim) = (r, (j', w2))"
      by (metis prod.exhaust)
    have g: "je_get_job sim_env ''default'' ''train'' suspended_sim = (Inr suspended_job, suspended_sim)"
      by (simp add: sim_env_def sim_get_job_def suspended_sim_def suspended_job_def demo_job_def demo_meta_def)
    have "case ReconcileStateMachine sim_env (suspended_job, suspended_sim) of
        (r, (j', w2)) \<Rightarrow> r = Inr (True, None) \<and> phase_of j' = PhaseStopped \<and> \<not> isl (fst (sim_put_job j' w2))"
      by code_simp
    then have v: "r = Inr (True, None)" "phase_of j' = PhaseStopped" "\<not> isl (fst (sim_put_job j' w2))"
      by (simp_all add: r)
    from v(3) obtain a w3 where p: "sim_put_job j' w2 = (Inr a, w3)" using run_Inr by blast
    from job_status_outcome [OF g sim_env_ok_any r] r v(1,2) p
    show "case ReconcileStateMachine sim_env (suspended_job, suspended_sim) of
      (r, (j', w2)) \<Rightarrow> r = Inr (True, None) \<and> phase_of j' = PhaseStopped \<and>
        ReconcileWith sim_get_job IsTerminal (ReconcileStateMachine sim_env) sim_put_job ''default'' ''train'' suspended_sim
          = (Inr 0, snd (sim_put_job j' w2))"
      unfolding e by simp
  }
  {
    obtain r j' w2 where r: "ReconcileStateMachine sim_env (demo_job, dying_sim) = (r, (j', w2))"
      by (metis prod.exhaust)
    have g: "je_get_job sim_env ''default'' ''train'' dying_sim = (Inr demo_job, dying_sim)"
      by (simp add: sim_env_def sim_get_job_def dying_sim_def demo_sim_def demo_job_def demo_meta_def)
    have plain: "\<not> jb_suspended (j_spec demo_job)" by code_simp
    have valid: "validateTaskTemplates demo_job = Inr ()" using validate_task_templates_spec_witness ..
    have "case reconcileWithStateMachine sim_env (demo_job, dying_sim) of (r, (j', w2)) \<Rightarrow>
        (case r of Inl e \<Rightarrow> errors_is e ''ErrRequeueAfterChildCleanup'' | Inr _ \<Rightarrow> False) \<and>
        map jts_name (elems (js_tasks (j_status j'))) = [''head'', ''worker''] \<and>
        map (\<lambda>j. js_tasks (j_status j)) (sim_jobs w2) = [None]"
      unfolding validated_run [OF plain valid] by code_simp
    with r have v: "case r of Inl e \<Rightarrow> errors_is e ''ErrRequeueAfterChildCleanup'' | Inr _ \<Rightarrow> False"
      "map jts_name (elems (js_tasks (j_status j'))) = [''head'', ''worker'']"
      "map (\<lambda>j. js_tasks (j_status j)) (sim_jobs w2) = [None]"
      unfolding ReconcileStateMachine_def seq_def
      by (cases "reconcileWithStateMachine sim_env (demo_job, dying_sim)"; auto split: sum.splits)+
    from job_status_outcome [OF g sim_env_ok_any r] r v
    show "case ReconcileStateMachine sim_env (demo_job, dying_sim) of
      (r, (j', w2)) \<Rightarrow> isl r \<and> map jts_name (elems (js_tasks (j_status j'))) = [''head'', ''worker''] \<and>
        ReconcileWith sim_get_job IsTerminal (ReconcileStateMachine sim_env) sim_put_job ''default'' ''train'' dying_sim
          = (Inr ChildCleanupRequeue, w2) \<and>
        map (\<lambda>j. js_tasks (j_status j)) (sim_jobs w2) = [None]"
      unfolding e by (cases r) simp_all
  }
qed

text \<open>
  C25. The phase of a Job converges to the aggregate of its Tasks: from any phase of a Job
  that is not suspended and has Tasks, at most two evaluations of \<open>evaluateJobEvent\<close> with the
  event table reach Failed when some Task failed, Succeeded or Running when all Tasks are,
  and Pending otherwise; and that phase is then a fixed point.
\<close>
theorem job_phase_converges:
  assumes "\<not> jb_suspended (j_spec j)" and "task_phases j \<noteq> []" and "phase_of j \<in> set job_phases"
  shows "next_phase (set_phase (next_phase j) j) = aggregate_phase (task_phases j) \<and>
    next_phase (set_phase (aggregate_phase (task_phases j)) j) = aggregate_phase (task_phases j)"
proof -
  have closed: "next_phase (set_phase p j) =
      (if p = aggregate_phase (task_phases j) then p
       else if p = PhasePending \<or> p = PhaseRunning then aggregate_phase (task_phases j) else PhasePending)"
    if "p \<in> set job_phases" for p
    using next_phase_closed [of "set_phase p j"] assms(1,2) that unfolding Let_def by simp
  have agg: "aggregate_phase (task_phases j) \<in> set job_phases"
    using aggregate_phase_cases [of "task_phases j"] unfolding list.set by blast
  have "next_phase j \<in> {phase_of j, aggregate_phase (task_phases j), PhasePending}" and
    now: "next_phase j = aggregate_phase (task_phases j) \<or> next_phase j = PhasePending"
    using next_phase_closed [OF assms] unfolding Let_def by (auto split: if_splits)
  then have "next_phase j \<in> set job_phases" using agg by auto
  from closed [OF this] closed [OF agg] now show ?thesis by presburger
qed

definition mixed_job :: job where
  "mixed_job = set_phase PhaseSucceeded (set_status_tasks
     [\<lparr>jts_name = ''head'', jts_phase = PhaseRunning, jts_message = []\<rparr>,
      \<lparr>jts_name = ''worker'', jts_phase = PhaseFailed, jts_message = ''OOM''\<rparr>] demo_job)"

theorem job_phase_converges_witness:
  "next_phase mixed_job = PhasePending \<and> next_phase (set_phase PhasePending mixed_job) = PhaseFailed"
proof -
  have "next_phase mixed_job = PhasePending" "aggregate_phase (task_phases mixed_job) = PhaseFailed"
    "\<not> jb_suspended (j_spec mixed_job)" "task_phases mixed_job \<noteq> []" "phase_of mixed_job \<in> set job_phases"
    by code_simp+
  with job_phase_converges [of mixed_job] show ?thesis by simp
qed

text \<open>
  C20. The clean-up finalizer is held while Tasks remain: as long as every listing of the Job's
  Tasks still shows one the Job controls, reconciling the deleted Job never writes the Job
  without the finalizer. The status writer and the operations on Tasks keep an invariant of
  the world here and nothing is assumed of \<open>Update\<close> of the Job: the run keeps the invariant
  because it does not call it; and a run that succeeds asks to be repeated.
\<close>
theorem deletion_waits_for_tasks:
  assumes "keeps I (je_list_tasks env (om_name (j_meta j))) (\<lambda>ts. \<exists>t \<in> set ts. controlled_by_job j (t_meta t)) (\<lambda>_. True)"
    and "\<And>t. keeps I (je_update_task env t) (\<lambda>_. True) (\<lambda>_. True)"
    and "\<And>t. keeps I (je_delete_task env t) (\<lambda>_. True) (\<lambda>_. True)"
    and "\<And>j'. keeps I (je_update_job_status env j') (\<lambda>_. True) (\<lambda>_. True)"
    and "\<And>w. I w \<Longrightarrow> I (snd (je_now env w))" and "I w"
  shows "I (snd (reconcile_deleting env j w)) \<and>
    (case fst (reconcile_deleting env j w) of Inl _ \<Rightarrow> True | Inr after \<Rightarrow> after \<noteq> 0)"
proof -
  let ?T = "\<lambda>_ :: go_error. True"
  have list: "keeps I (listJobTasks env j') (\<lambda>ts. \<exists>t \<in> set ts. controlled_by_job j (t_meta t)) ?T"
    if "j_meta j' = j_meta j" for j'
    unfolding listJobTasks_def by (rule keeps_wrap [where F = ?T]) (simp_all add: assms(1) that)
  have list_any: "keeps I (listJobTasks env j) (\<lambda>_. True) ?T" by (rule keeps_weaken [OF list]) simp_all
  have stop: "keeps I (stopOwnedTasks env j) (\<lambda>_. True) ?T"
    unfolding stopOwnedTasks_def by (rule keeps_seq_any [OF list_any]) (rule keeps_stop_loop [OF assms(3,2)])
  have find: "keeps I (findOwnedTasksByTemplate env j) (\<lambda>_. True) ?T"
    unfolding findOwnedTasksByTemplate_def by (rule keeps_seq_any [OF list_any]) (rule keeps_give, simp_all)
  have status: "keeps I (on_obj j (stop_status env)) (\<lambda>r. j_meta (snd r) = j_meta j) ?T"
    by (rule keepsI) (simp add: wp_on_obj wp_mono [OF stop_status_frame [OF find assms(5)]])
  have delete: "keeps I (deleteOwnedTasks env j') (\<lambda>r. r) ?T" if "j_meta j' = j_meta j" for j'
  proof -
    have "controlled_by_job j' = controlled_by_job j"
      using that by (simp add: controlled_by_job_def fun_eq_iff split: option.split)
    then show ?thesis
      unfolding deleteOwnedTasks_def
      by (intro keeps_seq [OF list [OF that]] keeps_weaken [OF keeps_delete_loop [OF assms(3)]]) simp_all
  qed
  have "keeps I (reconcile_deleting env j) (\<lambda>after. after \<noteq> 0) ?T"
    unfolding reconcile_deleting_def
    by (rule keeps_seq_any [OF stop], intro keeps_if keeps_ok, simp,
        rule keeps_seq [OF status], intro keeps_prod keeps_if,
        rule keeps_seq_any, rule keeps_wrap [where F = ?T], rule assms(4), simp_all add: keeps_ok)
       (rule keeps_seq [OF delete], simp_all add: keeps_ok)
  from keeps_run [OF this assms(6)] show ?thesis .
qed

text \<open>An API server that keeps a Task until its agent has finished: the deletion is accepted only.\<close>

definition stuck_env :: "sim job_env" where
  "stuck_env = sim_env\<lparr>je_delete_task := (\<lambda>_. ok ()), je_update_task := ok\<rparr>"

definition stuck_task :: task where
  "stuck_task = demo_task\<lparr>t_meta := (t_meta demo_task)\<lparr>om_controller := Some (job_ref demo_job)\<rparr>\<rparr>"

theorem deletion_waits_for_tasks_witness:
  "case fst (reconcile_deleting stuck_env demo_job (demo_sim\<lparr>sim_tasks := [stuck_task]\<rparr>)) of
     Inl _ \<Rightarrow> True | Inr after \<Rightarrow> after \<noteq> 0"
proof -
  let ?I = "\<lambda>w. sim_tasks w = [stuck_task]"
  have l: "''train'' \<in> set (indexTaskByJob stuck_task)" "om_name (j_meta demo_job) = ''train''" by code_simp+
  have c: "controlled_by_job demo_job (t_meta stuck_task)" by (simp add: stuck_task_def)
  have "?I (snd (reconcile_deleting stuck_env demo_job (demo_sim\<lparr>sim_tasks := [stuck_task]\<rparr>))) \<and>
    (case fst (reconcile_deleting stuck_env demo_job (demo_sim\<lparr>sim_tasks := [stuck_task]\<rparr>)) of
       Inl _ \<Rightarrow> True | Inr after \<Rightarrow> after \<noteq> 0)"
    by (rule deletion_waits_for_tasks)
       (auto simp: stuck_env_def sim_env_def sim_now_def sim_list_tasks_def sim_put_job_def keeps_def wp_def
         reading_def ok_def l c)
  then show ?thesis ..
qed

end
