(* ===== verification/Dag.thy ===== *)
theory Dag
  imports Api_Types
begin

text \<open>
  The dependency graph of the Jobs of a Workflow (\<open>controllermanager/workflow/dag.go\<close>). The
  map \<open>templates\<close> is an association list in insertion order, so that its keys can be
  enumerated; ranging over it visits the keys in an order that Go does not fix, which is an
  argument of \<open>dispatchReady\<close>. The other maps are functions with the zero value for a key
  that was never written.
\<close>

record dag =
  dg_templates :: "(string \<times> workflow_job_template) list"
  dg_in_degree :: "string \<Rightarrow> int"
  dg_dependents :: "string \<Rightarrow> string list"
  dg_resolved :: "string \<Rightarrow> bool"

section \<open>Operations\<close>

definition empty_dag :: dag where
  "empty_dag = \<lparr>dg_templates = [], dg_in_degree = (\<lambda>_. 0), dg_dependents = (\<lambda>_. []), dg_resolved = (\<lambda>_. False)\<rparr>"

fun add_dependencies :: "dag \<Rightarrow> string \<Rightarrow> string list \<Rightarrow> go_error + dag" where
  "add_dependencies d name [] = Inr d"
| "add_dependencies d name (dep # deps) =
     (if map_of (dg_templates d) dep = None
      then Inl (ErrText (''job '' @ quoted name @ '' depends on unknown job '' @ quoted dep))
      else add_dependencies
             (d\<lparr>dg_dependents := (dg_dependents d)(dep := dg_dependents d dep @ [name])\<rparr>) name deps)"

definition add_template :: "dag \<Rightarrow> workflow_job_template \<Rightarrow> go_error + dag" where
  "add_template d t =
     (if map_of (dg_templates d) (wt_name t) \<noteq> None
      then Inl (ErrText (''duplicate job template '' @ quoted (wt_name t)))
      else add_dependencies
             (d\<lparr>dg_templates := dg_templates d @ [(wt_name t, t)],
                dg_in_degree := (dg_in_degree d)(wt_name t := int (length (wt_dependencies t)))\<rparr>)
             (wt_name t) (wt_dependencies t))"

fun add_templates :: "dag \<Rightarrow> workflow_job_template list \<Rightarrow> go_error + dag" where
  "add_templates d [] = Inr d"
| "add_templates d (t # ts) = (case add_template d t of Inl e \<Rightarrow> Inl e | Inr d' \<Rightarrow> add_templates d' ts)"

definition newDAG :: "workflow_job_template list \<Rightarrow> go_error + dag" where
  "newDAG ts = add_templates empty_dag ts"

definition resolve :: "dag \<Rightarrow> string \<Rightarrow> dag" where
  "resolve d name =
     (if dg_resolved d name then d
      else d\<lparr>dg_resolved := (dg_resolved d)(name := True),
             dg_in_degree := foldl (\<lambda>g dep. g(dep := g dep - 1)) (dg_in_degree d) (dg_dependents d name)\<rparr>)"

text \<open>\<open>order\<close> is the sequence in which \<open>range d.templates\<close> visits the keys.\<close>

definition dispatchReady :: "dag \<Rightarrow> (string \<Rightarrow> workflow_job_status option) \<Rightarrow> string list \<Rightarrow> string list" where
  "dispatchReady d statuses order =
     filter (\<lambda>name. \<not> (dg_resolved d name \<or> dg_in_degree d name \<noteq> 0) \<and>
       \<not> (case statuses name of None \<Rightarrow> False | Some s \<Rightarrow> wjs_phase s \<noteq> [])) order"

section \<open>What a built graph holds\<close>

text \<open>The templates the construction accepts: new names, and dependencies on names up to its own.\<close>

fun well_ordered_from :: "string list \<Rightarrow> workflow_job_template list \<Rightarrow> bool" where
  "well_ordered_from seen [] \<longleftrightarrow> True"
| "well_ordered_from seen (t # ts) \<longleftrightarrow>
     wt_name t \<notin> set seen \<and> set (wt_dependencies t) \<subseteq> set (seen @ [wt_name t]) \<and>
     well_ordered_from (seen @ [wt_name t]) ts"

definition edges_from :: "string \<Rightarrow> workflow_job_template list \<Rightarrow> string list" where
  "edges_from dep ts = concat (map (\<lambda>t. map (\<lambda>_. wt_name t) (filter (\<lambda>x. x = dep) (wt_dependencies t))) ts)"

definition dag_of :: "workflow_job_template list \<Rightarrow> dag" where
  "dag_of ts = \<lparr>dg_templates = map (\<lambda>t. (wt_name t, t)) ts,
     dg_in_degree = (\<lambda>n. case find (\<lambda>t. wt_name t = n) ts of None \<Rightarrow> 0 | Some t \<Rightarrow> int (length (wt_dependencies t))),
     dg_dependents = (\<lambda>n. edges_from n ts), dg_resolved = (\<lambda>_. False)\<rparr>"

lemma edges_from_snoc:
  "edges_from dep (ts @ [t]) = edges_from dep ts @ map (\<lambda>_. wt_name t) (filter (\<lambda>x. x = dep) (wt_dependencies t))"
  by (simp add: edges_from_def)

lemma add_dependencies_ok:
  "set deps \<subseteq> fst ` set (dg_templates d) \<Longrightarrow>
     add_dependencies d n deps =
       Inr (d\<lparr>dg_dependents := (\<lambda>k. dg_dependents d k @ map (\<lambda>_. n) (filter (\<lambda>x. x = k) deps))\<rparr>)"
proof (induction deps arbitrary: d)
  case Nil
  then show ?case by simp
next
  case (Cons x deps)
  then have "map_of (dg_templates d) x \<noteq> None" by (simp add: map_of_eq_None_iff)
  then show ?case using Cons by (auto simp: fun_eq_iff intro!: arg_cong [where f = Inr] dag.equality)
qed

lemma add_dependencies_err:
  "\<not> set deps \<subseteq> fst ` set (dg_templates d) \<Longrightarrow> \<exists>e. add_dependencies d n deps = Inl e \<and> no_panic e"
  by (induction deps arbitrary: d) (auto simp: map_of_eq_None_iff)

lemma find_append: "find P (xs @ ys) = (case find P xs of None \<Rightarrow> find P ys | Some x \<Rightarrow> Some x)"
  by (induction xs) auto

lemma dag_of_templates: "fst ` set (dg_templates (dag_of ts)) = wt_name ` set ts"
  by (force simp: dag_of_def)

lemma add_template_ok:
  assumes "wt_name t \<notin> wt_name ` set ts" and "set (wt_dependencies t) \<subseteq> insert (wt_name t) (wt_name ` set ts)"
  shows "add_template (dag_of ts) t = Inr (dag_of (ts @ [t]))"
proof -
  have new: "map_of (dg_templates (dag_of ts)) (wt_name t) = None"
    using assms(1) by (simp add: map_of_eq_None_iff dag_of_templates)
  have none: "find (\<lambda>x. wt_name x = wt_name t) ts = None" unfolding find_None_iff using assms(1) by (metis image_eqI)
  let ?d = "(dag_of ts)\<lparr>dg_templates := dg_templates (dag_of ts) @ [(wt_name t, t)],
     dg_in_degree := (dg_in_degree (dag_of ts))(wt_name t := int (length (wt_dependencies t)))\<rparr>"
  have "set (wt_dependencies t) \<subseteq> fst ` set (dg_templates ?d)"
    using assms(2) by (simp add: dag_of_templates)
  note deps = add_dependencies_ok [OF this, of "wt_name t"]
  have dep: "dg_dependents ?d = (\<lambda>k. edges_from k ts)" by (simp add: dag_of_def)
  have "add_template (dag_of ts) t = add_dependencies ?d (wt_name t) (wt_dependencies t)"
    by (simp add: add_template_def new)
  then have "add_template (dag_of ts) t = Inr (?d\<lparr>dg_dependents := (\<lambda>k. edges_from k ts @
      map (\<lambda>_. wt_name t) (filter (\<lambda>x. x = k) (wt_dependencies t)))\<rparr>)"
    unfolding deps dep .
  moreover have "(dg_in_degree (dag_of ts))(wt_name t := int (length (wt_dependencies t))) = dg_in_degree (dag_of (ts @ [t]))"
    using none by (auto simp: dag_of_def find_append fun_eq_iff split: option.split)
  ultimately show ?thesis by (simp add: dag_of_def edges_from_snoc)
qed

lemma add_template_err:
  assumes "\<not> (wt_name t \<notin> wt_name ` set ts \<and> set (wt_dependencies t) \<subseteq> insert (wt_name t) (wt_name ` set ts))"
  shows "\<exists>e. add_template (dag_of ts) t = Inl e \<and> no_panic e"
proof (cases "wt_name t \<in> wt_name ` set ts")
  case True
  then have "map_of (dg_templates (dag_of ts)) (wt_name t) \<noteq> None"
    unfolding map_of_eq_None_iff dag_of_templates by simp
  then show ?thesis by (auto simp: add_template_def)
next
  case False
  then have "map_of (dg_templates (dag_of ts)) (wt_name t) = None"
    by (simp add: map_of_eq_None_iff dag_of_templates)
  with assms False show ?thesis
    by (auto simp: add_template_def dag_of_templates intro!: add_dependencies_err)
qed

lemma add_templates_spec:
  "(well_ordered_from (map wt_name pre) ts \<longrightarrow> add_templates (dag_of pre) ts = Inr (dag_of (pre @ ts))) \<and>
   (\<not> well_ordered_from (map wt_name pre) ts \<longrightarrow> (\<exists>e. add_templates (dag_of pre) ts = Inl e \<and> no_panic e))"
proof (induction ts arbitrary: pre)
  case Nil
  then show ?case by simp
next
  case (Cons t ts)
  show ?case
  proof (cases "wt_name t \<notin> wt_name ` set pre \<and> set (wt_dependencies t) \<subseteq> insert (wt_name t) (wt_name ` set pre)")
    case True
    with Cons.IH [of "pre @ [t]"] add_template_ok [of t pre] show ?thesis by simp
  next
    case False
    then have "\<not> well_ordered_from (map wt_name pre) (t # ts)" by auto
    with add_template_err [OF False] show ?thesis by auto
  qed
qed

lemma newDAG_spec:
  "newDAG ts = (if well_ordered_from [] ts then Inr (dag_of ts) else newDAG ts)"
  "\<not> well_ordered_from [] ts \<Longrightarrow> \<exists>e. newDAG ts = Inl e \<and> no_panic e"
proof -
  have "empty_dag = dag_of []" by (simp add: empty_dag_def dag_of_def edges_from_def)
  with add_templates_spec [of "[]" ts]
  show "newDAG ts = (if well_ordered_from [] ts then Inr (dag_of ts) else newDAG ts)"
    "\<not> well_ordered_from [] ts \<Longrightarrow> \<exists>e. newDAG ts = Inl e \<and> no_panic e"
    by (simp_all add: newDAG_def)
qed

lemma newDAG_Inr_iff: "newDAG ts = Inr d \<longleftrightarrow> well_ordered_from [] ts \<and> d = dag_of ts"
  using newDAG_spec [of ts] by (cases "well_ordered_from [] ts") auto

lemma newDAG_np: "newDAG ts = Inl e \<Longrightarrow> no_panic e"
  using newDAG_spec [of ts] by (cases "well_ordered_from [] ts") auto

lemma well_ordered_from_iff:
  "well_ordered_from seen ts \<longleftrightarrow> distinct (map wt_name ts) \<and> (\<forall>t \<in> set ts. wt_name t \<notin> set seen) \<and>
     (\<forall>i < length ts. set (wt_dependencies (ts ! i)) \<subseteq> set seen \<union> wt_name ` set (take (Suc i) ts))"
proof (induction ts arbitrary: seen)
  case Nil
  then show ?case by simp
next
  case (Cons t ts)
  let ?P = "\<lambda>i. set (wt_dependencies ((t # ts) ! i)) \<subseteq> set seen \<union> wt_name ` set (take (Suc i) (t # ts))"
  have tail: "?P (Suc i) \<longleftrightarrow>
      set (wt_dependencies (ts ! i)) \<subseteq> set (seen @ [wt_name t]) \<union> wt_name ` set (take (Suc i) ts)" for i
    by simp
  have "(\<forall>i < length (t # ts). ?P i) \<longleftrightarrow> ?P 0 \<and> (\<forall>i < length ts. ?P (Suc i))"
    by (simp only: list.size(4) add_0_right add_Suc_right All_less_Suc2)
  also have "?P 0 \<longleftrightarrow> set (wt_dependencies t) \<subseteq> set (seen @ [wt_name t])" by simp
  finally have split: "(\<forall>i < length (t # ts). ?P i) \<longleftrightarrow> set (wt_dependencies t) \<subseteq> set (seen @ [wt_name t]) \<and>
      (\<forall>i < length ts. set (wt_dependencies (ts ! i)) \<subseteq> set (seen @ [wt_name t]) \<union> wt_name ` set (take (Suc i) ts))"
    unfolding tail .
  show ?case
    unfolding split well_ordered_from.simps Cons.IH [of "seen @ [wt_name t]"]
    by (auto simp del: set_append take_Suc_Cons simp: set_append [of seen "[wt_name t]"]) (metis image_eqI)
qed

section \<open>Resolving and dispatching\<close>

definition entry_phase :: "(string \<Rightarrow> workflow_job_status option) \<Rightarrow> string \<Rightarrow> string" where
  "entry_phase statuses n = (case statuses n of None \<Rightarrow> [] | Some s \<Rightarrow> wjs_phase s)"

text \<open>The loop of \<open>reconcileDAG\<close> that resolves the templates whose Job has succeeded.\<close>

definition resolve_succeeded ::
    "(string \<Rightarrow> workflow_job_status option) \<Rightarrow> workflow_job_template list \<Rightarrow> dag \<Rightarrow> dag" where
  "resolve_succeeded statuses ts d =
     foldl (\<lambda>d t. case statuses (wt_name t) of None \<Rightarrow> d
              | Some s \<Rightarrow> if wjs_phase s = PhaseSucceeded then resolve d (wt_name t) else d) d ts"

lemma foldl_decrement: "foldl (\<lambda>g x. g(x := g x - 1)) g xs n = g n - int (count_list xs n)"
  by (induction xs arbitrary: g) auto

lemma length_filter_notin:
  "distinct rs \<Longrightarrow> int (length xs) - (\<Sum>r \<leftarrow> rs. int (count_list xs r)) = int (length (filter (\<lambda>x. x \<notin> set rs) xs))"
proof (induction rs)
  case Nil
  then show ?case by simp
next
  case (Cons r rs)
  have "length (filter (\<lambda>x. x \<notin> set rs) xs) =
      count_list (filter (\<lambda>x. x \<notin> set rs) xs) r + length (filter (\<lambda>x. x \<notin> set (r # rs)) xs)"
    by (induction xs) auto
  moreover have "count_list (filter (\<lambda>x. x \<notin> set rs) xs) r = count_list xs r"
    using Cons.prems by (induction xs) auto
  ultimately show ?case using Cons by simp
qed

lemma count_edges:
  assumes "distinct (map wt_name ts)" and "t \<in> set ts"
  shows "count_list (edges_from r ts) (wt_name t) = count_list (wt_dependencies t) r"
  using assms
proof (induction ts rule: rev_induct)
  case Nil
  then show ?case by simp
next
  case (snoc u ts)
  have none: "count_list (edges_from r us) n = 0" if "n \<notin> wt_name ` set us" for us n
  proof (rule count_notin)
    show "n \<notin> set (edges_from r us)" using that by (auto simp: edges_from_def)
  qed
  have count_const: "count_list (map (\<lambda>_. n) (filter (\<lambda>x. x = r) xs)) m = (if n = m then count_list xs r else 0)"
    for n m and xs :: "string list" by (induction xs) auto
  show ?case
  proof (cases "t = u")
    case True
    moreover from True snoc.prems(1) have "wt_name t \<notin> wt_name ` set ts" by simp
    ultimately show ?thesis by (simp add: edges_from_snoc count_const none)
  next
    case False
    with snoc.prems have "t \<in> set ts" by simp
    moreover from snoc.prems(1) have "wt_name u \<notin> wt_name ` set ts" by simp
    ultimately have "wt_name u \<noteq> wt_name t" by (metis image_eqI)
    with \<open>t \<in> set ts\<close> show ?thesis using snoc by (simp add: edges_from_snoc count_const)
  qed
qed

lemma resolve_fields:
  "dg_dependents (resolve d n) = dg_dependents d" "dg_templates (resolve d n) = dg_templates d"
  "dg_resolved (resolve d n) m \<longleftrightarrow> m = n \<or> dg_resolved d m"
  "\<not> dg_resolved d n \<Longrightarrow> dg_in_degree (resolve d n) m = dg_in_degree d m - int (count_list (dg_dependents d n) m)"
  by (auto simp: resolve_def foldl_decrement)

lemma foldl_resolve:
  assumes "distinct rs" and "\<forall>r \<in> set rs. \<not> dg_resolved d r"
  shows "dg_dependents (foldl resolve d rs) = dg_dependents d"
    and "dg_templates (foldl resolve d rs) = dg_templates d"
    and "dg_resolved (foldl resolve d rs) m \<longleftrightarrow> m \<in> set rs \<or> dg_resolved d m"
    and "dg_in_degree (foldl resolve d rs) m =
      dg_in_degree d m - (\<Sum>r \<leftarrow> rs. int (count_list (dg_dependents d r) m))"
proof -
  have "dg_dependents (foldl resolve d rs) = dg_dependents d \<and> dg_templates (foldl resolve d rs) = dg_templates d \<and>
    (\<forall>m. (dg_resolved (foldl resolve d rs) m \<longleftrightarrow> m \<in> set rs \<or> dg_resolved d m) \<and>
      dg_in_degree (foldl resolve d rs) m = dg_in_degree d m - (\<Sum>r \<leftarrow> rs. int (count_list (dg_dependents d r) m)))"
    using assms
  proof (induction rs rule: rev_induct)
    case Nil
    then show ?case by simp
  next
    case (snoc r rs)
    then have "\<not> dg_resolved (foldl resolve d rs) r" by simp
    with snoc show ?case by (simp add: resolve_fields)
  qed
  then show "dg_dependents (foldl resolve d rs) = dg_dependents d"
    "dg_templates (foldl resolve d rs) = dg_templates d"
    "dg_resolved (foldl resolve d rs) m \<longleftrightarrow> m \<in> set rs \<or> dg_resolved d m"
    "dg_in_degree (foldl resolve d rs) m = dg_in_degree d m - (\<Sum>r \<leftarrow> rs. int (count_list (dg_dependents d r) m))"
    by blast+
qed

definition succeeded_names ::
    "(string \<Rightarrow> workflow_job_status option) \<Rightarrow> workflow_job_template list \<Rightarrow> string list" where
  "succeeded_names statuses ts = filter (\<lambda>n. entry_phase statuses n = PhaseSucceeded) (map wt_name ts)"

lemma resolve_succeeded_foldl:
  "resolve_succeeded statuses ts d = foldl resolve d (succeeded_names statuses ts)"
  unfolding resolve_succeeded_def succeeded_names_def
  by (induction ts arbitrary: d) (auto simp: entry_phase_def split: option.split)

lemma find_by_name:
  "distinct (map wt_name ts) \<Longrightarrow> t \<in> set ts \<Longrightarrow> find (\<lambda>x. wt_name x = wt_name t) ts = Some t"
  by (induction ts) (auto simp: image_iff)

lemma in_degree_resolved:
  assumes "distinct (map wt_name ts)" and t: "t \<in> set ts"
  shows "dg_in_degree (resolve_succeeded statuses ts (dag_of ts)) (wt_name t) =
    int (length (filter (\<lambda>x. x \<notin> set (succeeded_names statuses ts)) (wt_dependencies t)))"
proof -
  let ?rs = "succeeded_names statuses ts"
  have rs: "distinct ?rs" "\<forall>r \<in> set ?rs. \<not> dg_resolved (dag_of ts) r"
    using assms(1) by (simp_all add: succeeded_names_def dag_of_def)
  have deg: "dg_in_degree (dag_of ts) (wt_name t) = int (length (wt_dependencies t))"
    by (simp add: dag_of_def find_by_name [OF assms])
  have edges: "count_list (dg_dependents (dag_of ts) r) (wt_name t) = count_list (wt_dependencies t) r" for r
    by (simp add: dag_of_def count_edges [OF assms])
  show ?thesis
    unfolding resolve_succeeded_foldl foldl_resolve(4) [OF rs] deg edges by (rule length_filter_notin [OF rs(1)])
qed

text \<open>The Jobs that may start: no phase yet, and every dependency has succeeded.\<close>

definition ready_template ::
    "(string \<Rightarrow> workflow_job_status option) \<Rightarrow> workflow_job_template \<Rightarrow> bool" where
  "ready_template statuses t \<longleftrightarrow> entry_phase statuses (wt_name t) = [] \<and>
     (\<forall>x \<in> set (wt_dependencies t). entry_phase statuses x = PhaseSucceeded)"

lemma newDAG_facts:
  assumes "newDAG ts = Inr d"
  shows "d = dag_of ts" and "distinct (map wt_name ts)"
    and "i < length ts \<Longrightarrow> set (wt_dependencies (ts ! i)) \<subseteq> wt_name ` set (take (Suc i) ts)"
proof -
  have w: "well_ordered_from [] ts" and d: "d = dag_of ts" using assms by (simp_all add: newDAG_Inr_iff)
  note f = w [unfolded well_ordered_from_iff]
  show "d = dag_of ts" by (rule d)
  show "distinct (map wt_name ts)" using f by blast
  show "i < length ts \<Longrightarrow> set (wt_dependencies (ts ! i)) \<subseteq> wt_name ` set (take (Suc i) ts)"
    using f by auto
qed

lemma newDAG_dependencies:
  assumes "newDAG ts = Inr d" and "t \<in> set ts" and "x \<in> set (wt_dependencies t)"
  shows "x \<in> wt_name ` set ts"
proof -
  obtain i where i: "i < length ts" "t = ts ! i" using assms(2) by (metis in_set_conv_nth)
  with newDAG_facts(3) [OF assms(1) i(1)] assms(3) show ?thesis by (auto dest: in_set_takeD)
qed

lemma dispatchReady_iff:
  assumes dag: "newDAG ts = Inr d" and order: "set order = wt_name ` set ts"
  shows "n \<in> set (dispatchReady (resolve_succeeded statuses ts d) statuses order) \<longleftrightarrow>
     (\<exists>t \<in> set ts. wt_name t = n \<and> ready_template statuses t)"
proof -
  note f = newDAG_facts [OF dag]
  let ?d = "resolve_succeeded statuses ts d" and ?rs = "succeeded_names statuses ts"
  have rs: "distinct ?rs" "\<forall>r \<in> set ?rs. \<not> dg_resolved (dag_of ts) r"
    using f(2) by (simp_all add: succeeded_names_def dag_of_def)
  have resolved: "dg_resolved ?d m \<longleftrightarrow> m \<in> set ?rs" for m
    unfolding f(1) resolve_succeeded_foldl foldl_resolve(3) [OF rs] by (simp add: dag_of_def)
  have one: "wt_name t \<in> set (dispatchReady ?d statuses order) \<longleftrightarrow> ready_template statuses t" if t: "t \<in> set ts" for t
  proof -
    have "dg_in_degree ?d (wt_name t) = 0 \<longleftrightarrow> (\<forall>x \<in> set (wt_dependencies t). x \<in> set ?rs)"
      unfolding f(1) in_degree_resolved [OF f(2) t] by (simp add: filter_empty_iff)
    also have "\<dots> \<longleftrightarrow> (\<forall>x \<in> set (wt_dependencies t). entry_phase statuses x = PhaseSucceeded)"
      using newDAG_dependencies [OF dag t] by (auto simp: succeeded_names_def)
    finally show ?thesis
      using t order by (auto simp: dispatchReady_def resolved ready_template_def succeeded_names_def entry_phase_def split: option.splits)
  qed
  show ?thesis
  proof
    assume n: "n \<in> set (dispatchReady ?d statuses order)"
    then obtain t where t: "t \<in> set ts" "n = wt_name t" using order by (auto simp: dispatchReady_def)
    with one [OF t(1)] n show "\<exists>t \<in> set ts. wt_name t = n \<and> ready_template statuses t" by auto
  qed (use one in auto)
qed

section \<open>Progress\<close>

lemma first_not:
  assumes "\<exists>x \<in> set xs. \<not> P x"
  shows "\<exists>i < length xs. \<not> P (xs ! i) \<and> (\<forall>y \<in> set (take i xs). P y)"
  using assms
proof (induction xs)
  case (Cons x xs)
  show ?case
  proof (cases "P x")
    case True
    with Cons obtain i where "i < length xs" "\<not> P (xs ! i)" "\<forall>y \<in> set (take i xs). P y" by auto
    with True show ?thesis by (intro exI [of _ "Suc i"]) simp
  qed auto
qed simp

lemma ready_exists:
  assumes dag: "newDAG ts = Inr d"
    and self: "\<forall>t \<in> set ts. wt_name t \<notin> set (wt_dependencies t)"
    and waiting: "\<exists>t \<in> set ts. entry_phase statuses (wt_name t) \<noteq> PhaseSucceeded"
    and phases: "\<forall>t \<in> set ts. entry_phase statuses (wt_name t) \<in> {[], PhaseSucceeded}"
  shows "\<exists>t \<in> set ts. ready_template statuses t"
proof -
  from first_not [of ts "\<lambda>t. entry_phase statuses (wt_name t) = PhaseSucceeded"] waiting
  obtain i where i: "i < length ts" "entry_phase statuses (wt_name (ts ! i)) \<noteq> PhaseSucceeded"
    "\<forall>t \<in> set (take i ts). entry_phase statuses (wt_name t) = PhaseSucceeded" by blast
  have "entry_phase statuses x = PhaseSucceeded" if x: "x \<in> set (wt_dependencies (ts ! i))" for x
  proof -
    have "x \<in> wt_name ` set (take (Suc i) ts)" using newDAG_facts(3) [OF dag i(1)] x by blast
    then have "x = wt_name (ts ! i) \<or> x \<in> wt_name ` set (take i ts)"
      using i(1) by (auto simp: take_Suc_conv_app_nth)
    with self i(1,3) x show ?thesis by auto
  qed
  with i(1,2) phases show ?thesis
    unfolding ready_template_def by (intro bexI [of _ "ts ! i"]) auto
qed

section \<open>Properties\<close>

text \<open>
  \<open>newDAG\<close> accepts exactly the template lists whose names are distinct and whose
  dependencies each name a template that stands at or before the one that depends on it.
  It never panics, whatever the templates hold.
\<close>
theorem new_dag_accepts:
  "case newDAG ts of
     Inl e \<Rightarrow> no_panic e \<and> \<not> (distinct (map wt_name ts) \<and>
       list_all (\<lambda>i. set (wt_dependencies (ts ! i)) \<subseteq> wt_name ` set (take (Suc i) ts)) [0 ..< length ts])
   | Inr d \<Rightarrow> map fst (dg_templates d) = map wt_name ts \<and> distinct (map wt_name ts) \<and>
       list_all (\<lambda>i. set (wt_dependencies (ts ! i)) \<subseteq> wt_name ` set (take (Suc i) ts)) [0 ..< length ts]"
proof -
  have w: "well_ordered_from [] ts \<longleftrightarrow> distinct (map wt_name ts) \<and>
       list_all (\<lambda>i. set (wt_dependencies (ts ! i)) \<subseteq> wt_name ` set (take (Suc i) ts)) [0 ..< length ts]"
    unfolding well_ordered_from_iff by (auto simp: list_all_iff)
  show ?thesis
  proof (cases "newDAG ts")
    case (Inl e)
    have "\<not> well_ordered_from [] ts" using Inl newDAG_spec(1) [of ts] by (auto split: if_splits)
    with Inl newDAG_np [OF Inl] w show ?thesis by simp
  next
    case (Inr d)
    then have "well_ordered_from [] ts" "d = dag_of ts" by (simp_all add: newDAG_Inr_iff)
    with Inr w show ?thesis by (simp add: dag_of_def comp_def)
  qed
qed

text \<open>
  C28. After the templates whose Job has succeeded are resolved, the counters of the graph let
  through exactly the templates whose Job has no phase yet and whose dependencies have all
  succeeded, in whatever order Go visits the map of templates.
\<close>
theorem dispatch_ready_exact:
  assumes "newDAG ts = Inr d" and "set order = wt_name ` set ts"
  shows "set (dispatchReady (resolve_succeeded statuses ts d) statuses order) =
     wt_name ` set (filter (ready_template statuses) ts)"
  using dispatchReady_iff [OF assms, of _ statuses] by auto

definition demo_templates :: "workflow_job_template list" where
  "demo_templates =
     (let spec = \<lparr>jb_domain = ''d'', jb_suspended = False, jb_task_slice = None, jb_ssh_public_key = [], jb_tag_slice = None\<rparr>
      in [\<lparr>wt_name = ''prep'', wt_dependencies = [], wt_spec = spec\<rparr>,
          \<lparr>wt_name = ''train'', wt_dependencies = [''prep''], wt_spec = spec\<rparr>])"

theorem dispatch_ready_exact_witness:
  "\<exists>d. newDAG demo_templates = Inr d \<and>
     set (dispatchReady (resolve_succeeded [''prep'' \<mapsto> \<lparr>wjs_name = ''prep'', wjs_phase = ''Succeeded'', wjs_message = []\<rparr>]
            demo_templates d) [''prep'' \<mapsto> \<lparr>wjs_name = ''prep'', wjs_phase = ''Succeeded'', wjs_message = []\<rparr>]
          [''train'', ''prep'']) = {''train''}"
proof -
  have "newDAG demo_templates = Inr (dag_of demo_templates)"
    by (simp add: newDAG_Inr_iff demo_templates_def Let_def)
  from dispatch_ready_exact [OF this, of "[''train'', ''prep'']"
      "[''prep'' \<mapsto> \<lparr>wjs_name = ''prep'', wjs_phase = ''Succeeded'', wjs_message = []\<rparr>]"]
  have "set (dispatchReady (resolve_succeeded [''prep'' \<mapsto> \<lparr>wjs_name = ''prep'', wjs_phase = ''Succeeded'', wjs_message = []\<rparr>]
            demo_templates (dag_of demo_templates)) [''prep'' \<mapsto> \<lparr>wjs_name = ''prep'', wjs_phase = ''Succeeded'', wjs_message = []\<rparr>]
          [''train'', ''prep'']) = {''train''}"
    by (simp add: demo_templates_def Let_def ready_template_def entry_phase_def insert_commute)
  with \<open>newDAG demo_templates = Inr (dag_of demo_templates)\<close> show ?thesis by blast
qed

text \<open>
  C29. Progress: while every Job of a Workflow has either no phase or succeeded, and some has
  not succeeded, some template is ready, provided that no template depends on itself. So the
  order that \<open>newDAG\<close> demands excludes every longer cycle.
\<close>
theorem dag_progress:
  assumes "newDAG ts = Inr d" and "set order = wt_name ` set ts"
    and "\<forall>t \<in> set ts. wt_name t \<notin> set (wt_dependencies t)"
    and "\<exists>t \<in> set ts. entry_phase statuses (wt_name t) \<noteq> PhaseSucceeded"
    and "\<forall>t \<in> set ts. entry_phase statuses (wt_name t) \<in> {[], PhaseSucceeded}"
  shows "dispatchReady (resolve_succeeded statuses ts d) statuses order \<noteq> []"
proof -
  obtain t where "t \<in> set ts" "ready_template statuses t" using ready_exists [OF assms(1,3-5)] by blast
  then have "wt_name t \<in> set (dispatchReady (resolve_succeeded statuses ts d) statuses order)"
    using dispatchReady_iff [OF assms(1,2)] by blast
  then show ?thesis by auto
qed

theorem dag_progress_witness:
  "\<exists>d. newDAG demo_templates = Inr d \<and>
     dispatchReady (resolve_succeeded Map.empty demo_templates d) Map.empty [''train'', ''prep''] \<noteq> []"
proof -
  have "newDAG demo_templates = Inr (dag_of demo_templates)"
    by (simp add: newDAG_Inr_iff demo_templates_def Let_def)
  from dag_progress [OF this, of "[''train'', ''prep'']" Map.empty] this
  show ?thesis by (auto simp: demo_templates_def Let_def entry_phase_def)
qed

text \<open>
  A template that names itself among its dependencies is accepted by \<open>newDAG\<close> (its own
  name is in the map before its dependencies are looked up) and is never ready, whatever the
  statuses are: the Workflow can then never complete.
\<close>
theorem self_dependency_never_ready:
  assumes "newDAG ts = Inr d" and "set order = wt_name ` set ts"
    and "t \<in> set ts" and "wt_name t \<in> set (wt_dependencies t)"
  shows "wt_name t \<notin> set (dispatchReady (resolve_succeeded statuses ts d) statuses order)"
proof
  assume "wt_name t \<in> set (dispatchReady (resolve_succeeded statuses ts d) statuses order)"
  then obtain u where u: "u \<in> set ts" "wt_name u = wt_name t" "ready_template statuses u"
    using dispatchReady_iff [OF assms(1,2)] by blast
  with assms(3) newDAG_facts(2) [OF assms(1)] have "u = t" by (metis (mono_tags) distinct_map inj_onD)
  with u assms(4) show False unfolding ready_template_def by fastforce
qed

definition self_template :: workflow_job_template where
  "self_template = \<lparr>wt_name = ''loop'', wt_dependencies = [''loop''],
     wt_spec = \<lparr>jb_domain = ''d'', jb_suspended = False, jb_task_slice = None, jb_ssh_public_key = [], jb_tag_slice = None\<rparr>\<rparr>"

theorem self_dependency_never_ready_witness:
  "\<exists>d. newDAG [self_template] = Inr d \<and>
     ''loop'' \<notin> set (dispatchReady (resolve_succeeded Map.empty [self_template] d) Map.empty [''loop''])"
proof -
  have "newDAG [self_template] = Inr (dag_of [self_template])"
    by (simp add: newDAG_Inr_iff self_template_def)
  from self_dependency_never_ready [OF this, of "[''loop'']" self_template Map.empty] this
  show ?thesis by (auto simp: self_template_def)
qed

end
