(* ===== verification/Workflow_Jobs.thy ===== *)
theory Workflow_Jobs
  imports Dag Status_Index Steps Reconcile Ownership
begin

text \<open>
  The operations of the Workflow controller on the Jobs of a Workflow (\<open>controllermanager/
  workflow/build.go\<close>, \<open>sync.go\<close> and the clean-up loop of \<open>workflow_controller.go\<close>). As for
  the Job controller, the API server, the clock, the scheme, the condition helper and the
  order in which Go ranges over a map are the fields of a record, over an abstract world.
  Jobs and Workflows are cluster-scoped, so a Job is read by its name alone.
\<close>

record 'w wf_env =
  we_fsm :: "(workflow \<times> 'w) fsm_lib"
  we_now :: "'w \<Rightarrow> time \<times> 'w"
  we_set_condition :: "condition list \<Rightarrow> condition \<Rightarrow> 'w \<Rightarrow> (bool \<times> condition list) \<times> 'w"
  we_set_controller_ref :: "object_meta \<Rightarrow> object_meta \<Rightarrow> go_error + object_meta"
  we_range :: "string list \<Rightarrow> 'w \<Rightarrow> string list \<times> 'w"
  we_list_labelled :: "string \<Rightarrow> ('w, job list) prog"
  we_list_jobs :: "('w, job list) prog"
  we_get_job :: "string \<Rightarrow> ('w, job) prog"
  we_create_job :: "job \<Rightarrow> ('w, job) prog"
  we_update_job :: "job \<Rightarrow> ('w, job) prog"
  we_delete_job :: "job \<Rightarrow> ('w, unit) prog"
  we_get_workflow :: "string \<Rightarrow> string \<Rightarrow> ('w, workflow) prog"
  we_update_workflow :: "workflow \<Rightarrow> ('w, workflow) prog"
  we_update_workflow_status :: "workflow \<Rightarrow> ('w, workflow) prog"

abbreviation workflowLabel :: string where
  "workflowLabel \<equiv> ''rlinf.io/workflow''"

abbreviation WorkflowStoppedByAnnotation :: string where
  "WorkflowStoppedByAnnotation \<equiv> ''rlinf.io/workflow-stopped-by''"

definition wf_parent :: "workflow \<Rightarrow> parent_id" where
  "wf_parent wfl = \<lparr>p_uid = om_uid (w_meta wfl), p_api_version = GroupVersion, p_kind = ''Workflow'',
     p_label = workflowLabel, p_name = om_name (w_meta wfl)\<rparr>"

definition wf_ref :: "workflow \<Rightarrow> owner_ref" where
  "wf_ref wfl = \<lparr>or_api_version = GroupVersion, or_kind = ''Workflow'',
     or_name = om_name (w_meta wfl), or_uid = om_uid (w_meta wfl)\<rparr>"

section \<open>Builders and status entries\<close>

definition buildJobStatusMap :: "workflow \<Rightarrow> string \<rightharpoonup> nat" where
  "buildJobStatusMap wfl = index_last wjs_name (elems (ww_jobs (w_status wfl)))"

text \<open>What the pointer of the map reads.\<close>

definition job_status_of :: "workflow \<Rightarrow> string \<Rightarrow> workflow_job_status option" where
  "job_status_of wfl n = map_option ((!) (elems (ww_jobs (w_status wfl)))) (buildJobStatusMap wfl n)"

definition buildJob :: "workflow \<Rightarrow> workflow_job_template \<Rightarrow> string \<Rightarrow> job" where
  "buildJob wfl t jobName =
     (let m = \<lparr>om_name = jobName, om_namespace = [], om_uid = [], om_resource_version = [],
               om_generation = 0, om_labels = Some [workflowLabel \<mapsto> om_name (w_meta wfl)],
               om_annotations = Some [ParentUIDAnnotation \<mapsto> om_uid (w_meta wfl), ChildTemplateAnnotation \<mapsto> wt_name t],
               om_finalizers = None, om_controller = None, om_deletion = None\<rparr>
      in \<lparr>j_meta = Inherit (Some (w_meta wfl)) m, j_spec = wt_spec t,
          j_status = \<lparr>js_phase = [], js_observed_generation = 0, js_tasks = None, js_conditions = [],
                      js_start_time = None, js_end_time = None\<rparr>\<rparr>)"

definition blank_job_status :: "string \<Rightarrow> workflow_job_status" where
  "blank_job_status n = \<lparr>wjs_name = n, wjs_phase = [], wjs_message = []\<rparr>"

definition set_status_jobs :: "workflow_job_status go_slice \<Rightarrow> workflow \<Rightarrow> workflow" where
  "set_status_jobs es wfl = wfl\<lparr>w_status := (w_status wfl)\<lparr>ww_jobs := es\<rparr>\<rparr>"

definition next_job_statuses :: "workflow \<Rightarrow> workflow_job_status list" where
  "next_job_statuses wfl =
     next_entries wjs_name blank_job_status (elems (ww_jobs (w_status wfl))) (map wt_name (ws_job_templates (w_spec wfl)))"

text \<open>\<open>reflect.DeepEqual\<close> tells the nil slice from an empty one; \<open>next\<close> is never nil.\<close>

definition syncJobStatusSnapshot :: "workflow \<Rightarrow> bool \<times> workflow" where
  "syncJobStatusSnapshot wfl =
     (let n = next_job_statuses wfl
      in if ww_jobs (w_status wfl) = Some n then (False, wfl) else (True, set_status_jobs (Some n) wfl))"

section \<open>One Job\<close>

definition job_conflict :: "job \<Rightarrow> go_error \<Rightarrow> go_error" where
  "job_conflict job e = ErrWrap (''job '' @ om_name (j_meta job) @ '' ownership conflict'') e"

definition jobTerminal :: "job \<Rightarrow> bool" where
  "jobTerminal job \<longleftrightarrow> js_phase (j_status job) = PhaseSucceeded \<or> js_phase (j_status job) = PhaseFailed"

definition ensureJobOwnership :: "'w wf_env \<Rightarrow> workflow \<Rightarrow> string \<Rightarrow> job \<Rightarrow> ('w, job) prog" where
  "ensureJobOwnership env wfl template job =
     (case ClassifyChild (j_meta job) (wf_parent wfl) template of
        Inl e \<Rightarrow> fail (job_conflict job e)
      | Inr (owned, legacy) \<Rightarrow>
          if \<not> owned then fail (job_conflict job (ErrText ''%!w(<nil>)''))
          else if \<not> legacy then ok job
          else
            (let m = (j_meta job)\<lparr>om_annotations := MergeAnnotations (om_annotations (j_meta job))
                       [ParentUIDAnnotation \<mapsto> om_uid (w_meta wfl), ChildTemplateAnnotation \<mapsto> template]\<rparr>
             in seq (wrap (''adopt Job '' @ om_name (j_meta job)) (give (we_set_controller_ref env (w_meta wfl) m)))
                  (\<lambda>m. wrap (''adopt Job '' @ om_name (j_meta job)) (we_update_job env (job\<lparr>j_meta := m\<rparr>)))))"

text \<open>The branch of \<open>reconcileJob\<close> for a Job that \<open>Get\<close> returned.\<close>

definition update_existing_job ::
    "'w wf_env \<Rightarrow> workflow \<Rightarrow> workflow_job_template \<Rightarrow> string \<Rightarrow> job \<Rightarrow> ('w, job) prog" where
  "update_existing_job env wfl t jobName job =
     seq (ensureJobOwnership env wfl (wt_name t) job) (\<lambda>job.
       if \<not> time_is_zero (om_deletion (j_meta job)) then fail ErrRequeueAfterChildCleanup
       else if jobTerminal job then ok job
       else
         (let desired = buildJob wfl t jobName;
              marker = om_uid (w_meta wfl);
              stopped = (ws_suspended (w_spec wfl) \<or> annotation (j_meta job) WorkflowStoppedByAnnotation = marker);
              spec = (if stopped then (j_spec desired)\<lparr>jb_suspended := True\<rparr> else j_spec desired);
              annotations = (if stopped then (entries (om_annotations (j_meta desired)))(WorkflowStoppedByAnnotation \<mapsto> marker)
                             else entries (om_annotations (j_meta desired)))
          in if j_spec job \<noteq> spec \<or> (stopped \<and> annotation (j_meta job) WorkflowStoppedByAnnotation \<noteq> marker) then
               wrap (''update Job '' @ jobName)
                 (we_update_job env (job\<lparr>j_spec := spec, j_meta := (j_meta job)\<lparr>om_annotations :=
                    MergeAnnotations (om_annotations (j_meta job)) annotations\<rparr>\<rparr>))
             else ok job))"

text \<open>The branch for a Job that does not exist, with the create race.\<close>

definition create_new_job ::
    "'w wf_env \<Rightarrow> workflow \<Rightarrow> workflow_job_template \<Rightarrow> string \<Rightarrow> ('w, job) prog" where
  "create_new_job env wfl t jobName =
     (let new = buildJob wfl t jobName
      in seq (wrap (''set controller reference on Job '' @ jobName) (give (we_set_controller_ref env (w_meta wfl) (j_meta new))))
           (\<lambda>m. seq (attempt (we_create_job env (new\<lparr>j_meta := m\<rparr>)))
              (\<lambda>r. case r of
                 Inr created \<Rightarrow> ok (created\<lparr>j_status := (j_status created)\<lparr>js_phase := PhasePending\<rparr>\<rparr>)
               | Inl e \<Rightarrow>
                   (if \<not> is_already_exists e then fail (ErrWrap (''create Job '' @ jobName) e)
                    else seq (wrap (''reload Job '' @ jobName @ '' after create race'') (we_get_job env jobName))
                           (\<lambda>job. ensureJobOwnership env wfl (wt_name t) job)))))"

definition reconcileJob :: "'w wf_env \<Rightarrow> workflow \<Rightarrow> workflow_job_template \<Rightarrow> ('w, job) prog" where
  "reconcileJob env wfl t =
     (let jobName = ChildName (om_name (w_meta wfl)) (wt_name t)
      in seq (attempt (we_get_job env jobName))
           (\<lambda>r. case r of
              Inr job \<Rightarrow> update_existing_job env wfl t jobName job
            | Inl e \<Rightarrow>
                (if \<not> is_not_found e then fail (ErrWrap (''get Job '' @ jobName) e)
                 else create_new_job env wfl t jobName)))"

section \<open>All Jobs of a Workflow\<close>

definition desired_jobs :: "workflow \<Rightarrow> string \<rightharpoonup> string" where
  "desired_jobs wfl =
     foldl (\<lambda>m t. m(ChildName (om_name (w_meta wfl)) (wt_name t) \<mapsto> wt_name t)) Map.empty (ws_job_templates (w_spec wfl))"

definition prune_job :: "'w wf_env \<Rightarrow> workflow \<Rightarrow> string list \<Rightarrow> bool \<Rightarrow> job \<Rightarrow> ('w, bool) prog" where
  "prune_job env wfl old_templates waiting job =
     (case desired_jobs wfl (om_name (j_meta job)) of
        Some template \<Rightarrow>
          (case ClassifyChild (j_meta job) (wf_parent wfl) template of
             Inl e \<Rightarrow> fail (job_conflict job e)
           | Inr _ \<Rightarrow> ok waiting)
      | None \<Rightarrow>
          (if fst (ClassifyRemovedChild (j_meta job) (wf_parent wfl) old_templates) then
             seq (wrap (''prune Job '' @ om_name (j_meta job)) (ignore_not_found (we_delete_job env job)))
               (\<lambda>_. ok True)
           else ok waiting))"

definition pruneJobsWithTemplates :: "'w wf_env \<Rightarrow> workflow \<Rightarrow> string list \<Rightarrow> ('w, bool) prog" where
  "pruneJobsWithTemplates env wfl old_templates =
     seq (wrap (''list Jobs for Workflow '' @ om_name (w_meta wfl)) (we_list_labelled env (om_name (w_meta wfl))))
       (\<lambda>jobs. fold_prog (prune_job env wfl old_templates) False jobs)"

definition pruneJobs :: "'w wf_env \<Rightarrow> workflow \<Rightarrow> ('w, bool) prog" where
  "pruneJobs env wfl = pruneJobsWithTemplates env wfl (map wjs_name (elems (ww_jobs (w_status wfl))))"

text \<open>The owner test of the clean-up loop looks at UID, kind and API version only.\<close>

definition controlled_by_wf :: "workflow \<Rightarrow> object_meta \<Rightarrow> bool" where
  "controlled_by_wf wfl m \<longleftrightarrow>
     (case om_controller m of None \<Rightarrow> False
      | Some r \<Rightarrow> \<not> (or_uid r \<noteq> om_uid (w_meta wfl) \<or> or_kind r \<noteq> ''Workflow'' \<or> or_api_version r \<noteq> GroupVersion))"

definition delete_job :: "'w wf_env \<Rightarrow> workflow \<Rightarrow> bool \<Rightarrow> job \<Rightarrow> ('w, bool) prog" where
  "delete_job env wfl pending job =
     (if \<not> controlled_by_wf wfl (j_meta job) then ok pending
      else if time_is_zero (om_deletion (j_meta job)) then
        seq (wrap (''delete Job '' @ om_name (j_meta job)) (ignore_not_found (we_delete_job env job)))
          (\<lambda>_. ok True)
      else ok True)"

definition deleteOwnedJobs :: "'w wf_env \<Rightarrow> workflow \<Rightarrow> ('w, bool) prog" where
  "deleteOwnedJobs env wfl =
     seq (wrap (''list Jobs owned by Workflow '' @ om_name (w_meta wfl)) (we_list_jobs env))
       (\<lambda>jobs. fold_prog (delete_job env wfl) False jobs)"

section \<open>What the operations may touch\<close>

definition may_touch_job :: "workflow \<Rightarrow> object_meta \<Rightarrow> bool" where
  "may_touch_job wfl m \<longleftrightarrow>
     (case om_controller m of
        Some _ \<Rightarrow> controlled_by_wf wfl m
      | None \<Rightarrow> mget (om_annotations m) ParentUIDAnnotation = Some (om_uid (w_meta wfl)) \<or>
          mget (om_annotations m) ParentUIDAnnotation = None \<and>
          mread (om_labels m) workflowLabel = om_name (w_meta wfl))"

text \<open>
  What the controller relies on, as for Tasks. \<open>G\<close> are the identities of the Jobs the Workflow
  may touch: a read that shows such a Job shows it under an identity in \<open>G\<close>, and nothing is
  known of the identity of a Job that a read shows as foreign. \<open>I\<close> is any property of the
  world that reads keep, that creating the Job of a template with \<open>R\<close>, controlled by the
  Workflow, keeps, and that writing or deleting a Job keeps only when the Workflow may touch
  it and its identity is in \<open>G\<close>.
\<close>

definition job_client_for :: "'w wf_env \<Rightarrow> workflow \<Rightarrow> (workflow_job_template \<Rightarrow> bool) \<Rightarrow>
    (string \<times> string \<times> string \<Rightarrow> bool) \<Rightarrow> ('w \<Rightarrow> bool) \<Rightarrow> bool" where
  "job_client_for env wfl R G I \<longleftrightarrow>
     (\<forall>m. case we_set_controller_ref env (w_meta wfl) m of
        Inl e \<Rightarrow> no_panic e | Inr m' \<Rightarrow> m' = m\<lparr>om_controller := Some (wf_ref wfl)\<rparr>) \<and>
     (\<forall>n. keeps I (we_list_labelled env n)
        (\<lambda>jobs. \<forall>job \<in> set jobs. may_touch_job wfl (j_meta job) \<longrightarrow> G (identity_of (j_meta job))) no_panic) \<and>
     keeps I (we_list_jobs env)
       (\<lambda>jobs. \<forall>job \<in> set jobs. may_touch_job wfl (j_meta job) \<longrightarrow> G (identity_of (j_meta job))) no_panic \<and>
     (\<forall>n. keeps I (we_get_job env n)
        (\<lambda>job. may_touch_job wfl (j_meta job) \<longrightarrow> G (identity_of (j_meta job))) no_panic) \<and>
     (\<forall>t job. R t \<longrightarrow> j_spec job = wt_spec t \<longrightarrow>
        om_name (j_meta job) = ChildName (om_name (w_meta wfl)) (wt_name t) \<longrightarrow>
        om_controller (j_meta job) = Some (wf_ref wfl) \<longrightarrow>
        keeps I (we_create_job env job) (\<lambda>_. True) no_panic) \<and>
     (\<forall>job. may_touch_job wfl (j_meta job) \<and> G (identity_of (j_meta job)) \<longrightarrow>
        keeps I (we_update_job env job)
          (\<lambda>job'. om_annotations (j_meta job') = om_annotations (j_meta job) \<and>
                om_controller (j_meta job') = om_controller (j_meta job) \<and>
                G (identity_of (j_meta job'))) no_panic) \<and>
     (\<forall>job. may_touch_job wfl (j_meta job) \<and> G (identity_of (j_meta job)) \<longrightarrow>
        keeps I (we_delete_job env job) (\<lambda>_. True) no_panic)"

abbreviation job_client :: "'w wf_env \<Rightarrow> workflow \<Rightarrow> (workflow_job_template \<Rightarrow> bool) \<Rightarrow> ('w \<Rightarrow> bool) \<Rightarrow> bool" where
  "job_client env wfl R I \<equiv> job_client_for env wfl R (\<lambda>_. True) I"

lemma job_client_ref:
  assumes "job_client_for env wfl R G I"
  shows "we_set_controller_ref env (w_meta wfl) m = Inl e \<Longrightarrow> no_panic e"
    and "we_set_controller_ref env (w_meta wfl) m = Inr m' \<Longrightarrow> m' = m\<lparr>om_controller := Some (wf_ref wfl)\<rparr>"
proof -
  have "case we_set_controller_ref env (w_meta wfl) m of
      Inl e \<Rightarrow> no_panic e | Inr m' \<Rightarrow> m' = m\<lparr>om_controller := Some (wf_ref wfl)\<rparr>"
    using assms unfolding job_client_for_def by blast
  then show "we_set_controller_ref env (w_meta wfl) m = Inl e \<Longrightarrow> no_panic e"
    and "we_set_controller_ref env (w_meta wfl) m = Inr m' \<Longrightarrow> m' = m\<lparr>om_controller := Some (wf_ref wfl)\<rparr>"
    by simp_all
qed

lemma job_client_ops:
  assumes "job_client_for env wfl R G I"
  shows "keeps I (we_list_labelled env n)
          (\<lambda>jobs. \<forall>job \<in> set jobs. may_touch_job wfl (j_meta job) \<longrightarrow> G (identity_of (j_meta job))) no_panic"
    and "keeps I (we_list_jobs env)
          (\<lambda>jobs. \<forall>job \<in> set jobs. may_touch_job wfl (j_meta job) \<longrightarrow> G (identity_of (j_meta job))) no_panic"
    and "keeps I (we_get_job env n) (\<lambda>job. may_touch_job wfl (j_meta job) \<longrightarrow> G (identity_of (j_meta job))) no_panic"
    and "R t \<Longrightarrow> j_spec job = wt_spec t \<Longrightarrow>
        om_name (j_meta job) = ChildName (om_name (w_meta wfl)) (wt_name t) \<Longrightarrow>
        om_controller (j_meta job) = Some (wf_ref wfl) \<Longrightarrow> keeps I (we_create_job env job) (\<lambda>_. True) no_panic"
    and "may_touch_job wfl (j_meta job) \<Longrightarrow> G (identity_of (j_meta job)) \<Longrightarrow> keeps I (we_update_job env job)
          (\<lambda>job'. om_annotations (j_meta job') = om_annotations (j_meta job) \<and>
                om_controller (j_meta job') = om_controller (j_meta job) \<and> G (identity_of (j_meta job'))) no_panic"
    and "may_touch_job wfl (j_meta job) \<Longrightarrow> G (identity_of (j_meta job)) \<Longrightarrow>
          keeps I (we_delete_job env job) (\<lambda>_. True) no_panic"
  using assms unfolding job_client_for_def by blast+

lemma controlled_by_wf_ref: "om_controller m = Some (wf_ref wfl) \<Longrightarrow> controlled_by_wf wfl m"
  by (simp add: controlled_by_wf_def wf_ref_def)

lemma touch_controlled: "controlled_by_wf wfl m \<Longrightarrow> may_touch_job wfl m"
  by (auto simp: may_touch_job_def controlled_by_wf_def split: option.splits)

lemma owner_matches_wf:
  "owner_matches (wf_parent wfl) (om_controller m) \<Longrightarrow> controlled_by_wf wfl m"
  by (auto simp: owner_matches_def controlled_by_wf_def wf_parent_def split: option.splits)

lemma touch_annotations [simp]:
  "controlled_by_wf wfl m \<Longrightarrow> may_touch_job wfl (m\<lparr>om_annotations := a\<rparr>)"
  by (auto simp: may_touch_job_def controlled_by_wf_def split: option.splits)

lemma removed_job_touch:
  "fst (ClassifyRemovedChild m (wf_parent wfl) old) \<Longrightarrow> may_touch_job wfl m"
  by (auto simp: ClassifyRemovedChild_def Let_def may_touch_job_def owner_matches_wf
      wf_parent_def owner_matches_def controlled_by_wf_def split: if_splits option.splits)

text \<open>\<open>ClassifyChild\<close> accepts only what the Workflow may touch.\<close>

lemma classified_job_touch: "ClassifyChild m (wf_parent wfl) template = Inr r \<Longrightarrow> may_touch_job wfl m"
  by (auto simp: ClassifyChild_def Let_def may_touch_job_def owner_matches_def wf_parent_def
      controlled_by_wf_def split: if_splits option.splits)

section \<open>The operations keep the world\<close>

lemma keeps_ensureJobOwnership:
  assumes "job_client_for env wfl R G I" and seen: "may_touch_job wfl (j_meta job) \<longrightarrow> G (identity_of (j_meta job))"
  shows "keeps I (ensureJobOwnership env wfl template job)
     (\<lambda>job'. controlled_by_wf wfl (j_meta job') \<and> G (identity_of (j_meta job'))) no_panic"
proof (cases "ClassifyChild (j_meta job) (wf_parent wfl) template")
  case (Inl e)
  then show ?thesis
    by (simp add: ensureJobOwnership_def keeps_fail job_conflict_def)
next
  case (Inr r)
  then obtain leg where r: "ClassifyChild (j_meta job) (wf_parent wfl) template = Inr (True, leg)"
    using ClassifyChild_owned [of "j_meta job"] by (cases r) auto
  with seen have g: "G (identity_of (j_meta job))" by (simp add: classified_job_touch)
  show ?thesis
  proof (cases leg)
    case False
    with r have "controlled_by_wf wfl (j_meta job)"
      by (simp add: ClassifyChild_current_iff owner_matches_wf)
    with r False g show ?thesis by (simp add: ensureJobOwnership_def keeps_ok)
  next
    case True
    then show ?thesis
      using r g
      by (auto simp: ensureJobOwnership_def Let_def
          intro!: keeps_seq [where P = "\<lambda>m. om_controller m = Some (wf_ref wfl) \<and> G (identity_of m)"] keeps_wrap_np keeps_give
            keeps_weaken [OF job_client_ops(5) [OF assms(1)]] touch_controlled
          dest: job_client_ref [OF assms(1)] intro: controlled_by_wf_ref)
  qed
qed

lemma keeps_delete_job_np:
  assumes "job_client_for env wfl R G I" and "may_touch_job wfl (j_meta job)" and "G (identity_of (j_meta job))"
  shows "keeps I (wrap msg (ignore_not_found (we_delete_job env job))) (\<lambda>_. True) no_panic"
  by (intro keeps_wrap_np keeps_ignore_not_found job_client_ops(6) [OF assms]) simp

lemma keeps_update_job_np:
  assumes "job_client_for env wfl R G I" and "may_touch_job wfl (j_meta job)" and "G (identity_of (j_meta job))"
  shows "keeps I (wrap msg (we_update_job env job)) (\<lambda>_. True) no_panic"
  by (intro keeps_wrap_np keeps_weaken [OF job_client_ops(5) [OF assms]]) simp_all

lemma keeps_update_existing_job:
  assumes "job_client_for env wfl R G I" and "may_touch_job wfl (j_meta job) \<longrightarrow> G (identity_of (j_meta job))"
  shows "keeps I (update_existing_job env wfl t n job) (\<lambda>_. True) no_panic"
  unfolding update_existing_job_def Let_def
  by (rule keeps_seq [OF keeps_ensureJobOwnership [OF assms]],
      intro keeps_if keeps_fail keeps_ok keeps_update_job_np [OF assms(1)])
     (simp_all add: touch_controlled)

lemma buildJob_facts:
  "j_spec (buildJob wfl t n) = wt_spec t" "om_name (j_meta (buildJob wfl t n)) = n"
  by (simp_all add: buildJob_def Let_def Inherit_def SetIdentity_def)

lemma keeps_create_new_job:
  assumes "job_client_for env wfl R G I" and "R t" and "n = ChildName (om_name (w_meta wfl)) (wt_name t)"
  shows "keeps I (create_new_job env wfl t n) (\<lambda>_. True) no_panic"
proof -
  have ref: "keeps I (wrap msg (give (we_set_controller_ref env (w_meta wfl) m)))
      (\<lambda>m'. om_controller m' = Some (wf_ref wfl) \<and> om_name m' = om_name m) no_panic" for m msg
    by (intro keeps_wrap_np keeps_give) (auto dest: job_client_ref [OF assms(1)])
  show ?thesis
    unfolding create_new_job_def Let_def
    by (rule keeps_seq [OF ref],
        rule keeps_seq [OF keeps_attempt_any [OF job_client_ops(4) [OF assms(1,2)]]],
        simp_all add: buildJob_facts assms(3),
        intro keeps_sum keeps_if keeps_fail keeps_ok keeps_seq [OF keeps_wrap_np [OF job_client_ops(3) [OF assms(1)]]]
          keeps_weaken [OF keeps_ensureJobOwnership [OF assms(1)]])
       simp_all
qed

lemma keeps_reconcileJob:
  assumes "job_client_for env wfl R G I" and "R t"
  shows "keeps I (reconcileJob env wfl t) (\<lambda>_. True) no_panic"
  unfolding reconcileJob_def Let_def
  by (rule keeps_seq [OF keeps_attempt_np [OF job_client_ops(3) [OF assms(1)]]],
      intro keeps_sum keeps_if keeps_fail keeps_update_existing_job [OF assms(1)] keeps_create_new_job [OF assms])
     simp_all

text \<open>The loops over a listing pass each Job on with what the listing showed of it.\<close>

lemma keeps_job_loop:
  assumes "keeps I m (\<lambda>jobs. \<forall>job \<in> set jobs. may_touch_job wfl (j_meta job) \<longrightarrow> G (identity_of (j_meta job))) no_panic"
    and "\<And>b job. may_touch_job wfl (j_meta job) \<longrightarrow> G (identity_of (j_meta job)) \<Longrightarrow> keeps I (f b job) (\<lambda>_. True) no_panic"
  shows "keeps I (seq (wrap msg m) (\<lambda>jobs. fold_prog f b jobs)) (\<lambda>_. True) no_panic"
  by (rule keeps_seq [OF keeps_wrap_np [OF assms(1)]], rule keeps_fold) (simp_all add: assms(2))

lemma keeps_pruneJobs:
  assumes "job_client_for env wfl R G I"
  shows "keeps I (pruneJobsWithTemplates env wfl old) (\<lambda>_. True) no_panic"
proof -
  have one: "keeps I (prune_job env wfl old b job) (\<lambda>_. True) no_panic"
    if "may_touch_job wfl (j_meta job) \<longrightarrow> G (identity_of (j_meta job))" for b job
    unfolding prune_job_def
    by (intro keeps_option keeps_sum keeps_if keeps_fail keeps_ok keeps_seq_any keeps_delete_job_np [OF assms])
       (use that in \<open>auto simp: job_conflict_def dest: removed_job_touch\<close>)
  show ?thesis
    unfolding pruneJobsWithTemplates_def by (rule keeps_job_loop [OF job_client_ops(1) [OF assms] one])
qed

lemma keeps_deleteOwnedJobs:
  assumes "job_client_for env wfl R G I"
  shows "keeps I (deleteOwnedJobs env wfl) (\<lambda>_. True) no_panic"
proof -
  have one: "keeps I (delete_job env wfl b job) (\<lambda>_. True) no_panic"
    if "may_touch_job wfl (j_meta job) \<longrightarrow> G (identity_of (j_meta job))" for b job
    unfolding delete_job_def
    by (intro keeps_if keeps_ok keeps_seq_any keeps_delete_job_np [OF assms])
       (use that in \<open>simp_all add: touch_controlled\<close>)
  show ?thesis
    unfolding deleteOwnedJobs_def by (rule keeps_job_loop [OF job_client_ops(2) [OF assms] one])
qed

end
