(* ===== verification/Workflow_Machine.thy ===== *)
theory Workflow_Machine
  imports Workflow_Jobs
begin

text \<open>
  The state machine of a Workflow: the event table and the callbacks of \<open>statemachine.go\<close>,
  the event a status calls for, and \<open>reconcileWithStateMachine\<close> cut at its early returns
  (\<open>sync.go\<close>). Programs run over the Workflow in memory and the world.
\<close>

type_synonym 'w wf_state = "workflow \<times> 'w"

section \<open>The event table\<close>

definition workflowEvents :: "event_desc list" where
  "workflowEvents =
     [\<lparr>ev_name = ''init'', ev_src = [''''], ev_dst = PhasePending\<rparr>,
      \<lparr>ev_name = ''start'', ev_src = [PhasePending], ev_dst = PhaseRunning\<rparr>,
      \<lparr>ev_name = ''stop'', ev_src = [PhasePending, PhaseRunning], ev_dst = PhaseStopping\<rparr>,
      \<lparr>ev_name = ''all-jobs-stopped'', ev_src = [PhaseStopping], ev_dst = PhaseStopped\<rparr>,
      \<lparr>ev_name = ''resume'', ev_src = [PhaseStopping, PhaseStopped], ev_dst = PhasePending\<rparr>,
      \<lparr>ev_name = ''all-jobs-succeeded'', ev_src = [PhaseRunning], ev_dst = PhaseSucceeded\<rparr>,
      \<lparr>ev_name = ''any-job-failed'', ev_src = [PhaseRunning], ev_dst = PhaseFailed\<rparr>]"

abbreviation wf_phases :: "string list" where
  "wf_phases \<equiv> [PhasePending, PhaseRunning, PhaseStopping, PhaseStopped, PhaseSucceeded, PhaseFailed]"

section \<open>The callbacks\<close>

definition wf_set_phase :: "string \<Rightarrow> workflow \<Rightarrow> workflow" where
  "wf_set_phase p wfl = wfl\<lparr>w_status := (w_status wfl)\<lparr>ww_phase := p\<rparr>\<rparr>"

definition wf_set_start :: "time option \<Rightarrow> workflow \<Rightarrow> workflow" where
  "wf_set_start t wfl = wfl\<lparr>w_status := (w_status wfl)\<lparr>ww_start_time := t\<rparr>\<rparr>"

definition wf_set_end :: "time option \<Rightarrow> workflow \<Rightarrow> workflow" where
  "wf_set_end t wfl = wfl\<lparr>w_status := (w_status wfl)\<lparr>ww_end_time := t\<rparr>\<rparr>"

definition wf_end_now :: "'w wf_env \<Rightarrow> 'w wf_state \<Rightarrow> 'w wf_state" where
  "wf_end_now env = (\<lambda>(wfl, w). case we_now env w of (now, w') \<Rightarrow> (wf_set_end (Some now) wfl, w'))"

definition wf_enter_pending :: "'w wf_env \<Rightarrow> fsm_args \<Rightarrow> 'w wf_state \<Rightarrow> 'w wf_state" where
  "wf_enter_pending env e = (\<lambda>(wfl, w).
     (if fe_src e \<noteq> [] then
        (case we_now env w of (now, w') \<Rightarrow>
           (snd (syncJobStatusSnapshot (wf_set_end None (wf_set_start (Some now) wfl))), w'))
      else (snd (syncJobStatusSnapshot wfl), w)))"

definition wf_enter_running :: "'w wf_env \<Rightarrow> 'w wf_state \<Rightarrow> 'w wf_state" where
  "wf_enter_running env = (\<lambda>(wfl, w).
     (if ww_start_time (w_status wfl) = None then
        (case we_now env w of (now, w') \<Rightarrow> (wf_set_end None (wf_set_start (Some now) wfl), w'))
      else (wf_set_end None wfl, w)))"

definition wf_callbacks :: "'w wf_env \<Rightarrow> 'w wf_state callbacks" where
  "wf_callbacks env =
     [''enter_state'' \<mapsto> (\<lambda>e (wfl, w). (wf_set_phase (fe_dst e) wfl, w)),
      ''enter_Pending'' \<mapsto> wf_enter_pending env,
      ''enter_Running'' \<mapsto> (\<lambda>_. wf_enter_running env),
      ''enter_Succeeded'' \<mapsto> (\<lambda>_. wf_end_now env),
      ''enter_Failed'' \<mapsto> (\<lambda>_. wf_end_now env)]"

definition wf_event_if ::
    "'w wf_env \<Rightarrow> string \<Rightarrow> string \<Rightarrow> bool \<Rightarrow> ('w wf_state, bool \<times> string) prog" where
  "wf_event_if env = event_if (we_fsm env) workflowEvents (wf_callbacks env)"

section \<open>The event of a status\<close>

definition evaluateWorkflowEvent :: "workflow \<Rightarrow> string" where
  "evaluateWorkflowEvent wfl =
     (let s = SummarizePhases (map wjs_phase (elems (ww_jobs (w_status wfl))))
                PhaseSucceeded PhaseFailed PhaseRunning PhaseStopped
      in if ws_suspended (w_spec wfl) \<and> (\<not> HasItems s \<or> AllStopped s) then ''all-jobs-stopped''
         else if AnyFailed s then ''any-job-failed''
         else if AllSucceeded s \<and> HasItems s then ''all-jobs-succeeded''
         else [])"

section \<open>Conditions\<close>

definition wf_mark_condition :: "'w wf_env \<Rightarrow> condition \<Rightarrow> ('w wf_state, bool) prog" where
  "wf_mark_condition env c = (\<lambda>(wfl, w).
     (case we_set_condition env (ww_conditions (w_status wfl)) c w of ((ch, cs), w') \<Rightarrow>
        (Inr ch, (wfl\<lparr>w_status := (w_status wfl)\<lparr>ww_conditions := cs\<rparr>\<rparr>, w'))))"

definition markWorkflowValid :: "'w wf_env \<Rightarrow> ('w wf_state, bool) prog" where
  "markWorkflowValid env = (\<lambda>(wfl, w). wf_mark_condition env
     \<lparr>cn_type = ''Validated'', cn_status = ''True'', cn_reason = ''SpecValidated'', cn_message = [],
      cn_observed_generation = om_generation (w_meta wfl), cn_transition = 0\<rparr> (wfl, w))"

definition markWorkflowInvalid :: "'w wf_env \<Rightarrow> string \<Rightarrow> ('w wf_state, bool) prog" where
  "markWorkflowInvalid env message = (\<lambda>(wfl, w).
     (let ch1 = (ww_phase (w_status wfl) \<noteq> PhaseFailed);
          wfl = (if ch1 then wf_set_phase PhaseFailed wfl else wfl);
          ch2 = (ww_end_time (w_status wfl) = None);
          (wfl, w) = (if ch2 then wf_end_now env (wfl, w) else (wfl, w))
      in seq (wf_mark_condition env
            \<lparr>cn_type = ''Validated'', cn_status = ''False'', cn_reason = ''InvalidJobDAG'',
             cn_message = message, cn_observed_generation = om_generation (w_meta wfl), cn_transition = 0\<rparr>)
           (\<lambda>ch3. ok (ch1 \<or> ch2 \<or> ch3)) (wfl, w)))"

section \<open>Status entries\<close>

text \<open>\<open>utils.SyncStatusEntry\<close> through a pointer into \<open>status.jobs\<close>; nil is \<open>None\<close>.\<close>

definition wf_sync_entry :: "nat option \<Rightarrow> string \<Rightarrow> string \<Rightarrow> ('w wf_state, bool) prog" where
  "wf_sync_entry ptr phase message = (\<lambda>(wfl, w).
     (case ptr of
        None \<Rightarrow> (if phase = [] then (Inr False, (wfl, w)) else (Inl (GoPanic ''nil pointer dereference''), (wfl, w)))
      | Some i \<Rightarrow>
          (let es = elems (ww_jobs (w_status wfl));
               (b, e) = SyncStatusEntry wjs_phase wjs_SetPhase wjs_SetMessage (es ! i) phase message
           in (Inr b, (set_status_jobs (Some (es[i := e])) wfl, w)))))"

text \<open>One template of \<open>syncJobStatuses\<close>: a Job that is gone is skipped.\<close>

definition sync_from_job ::
    "'w wf_env \<Rightarrow> (string \<rightharpoonup> nat) \<Rightarrow> bool \<Rightarrow> workflow_job_template \<Rightarrow> ('w wf_state, bool) prog" where
  "sync_from_job env statusMap changed t = (\<lambda>(wfl, w).
     (case statusMap (wt_name t) of
        None \<Rightarrow> ok changed
      | Some i \<Rightarrow>
          (if wjs_phase (elems (ww_jobs (w_status wfl)) ! i) = [] then ok changed
           else
             seq (on_snd (attempt (we_get_job env (ChildName (om_name (w_meta wfl)) (wt_name t)))))
               (\<lambda>r. case r of
                  Inl e \<Rightarrow> (if is_not_found e then ok changed else fail (ErrWrap (''get Job '' @ wt_name t) e))
                | Inr job \<Rightarrow>
                    (case ClassifyChild (j_meta job) (wf_parent wfl) (wt_name t) of
                       Inl e \<Rightarrow> fail (job_conflict job e)
                     | Inr _ \<Rightarrow>
                         seq (wf_sync_entry (Some i) (js_phase (j_status job)) []) (\<lambda>b. ok (b \<or> changed)))))) (wfl, w))"

definition syncJobStatuses :: "'w wf_env \<Rightarrow> ('w wf_state, bool) prog" where
  "syncJobStatuses env = (\<lambda>(wfl, w).
     fold_prog (sync_from_job env (buildJobStatusMap wfl)) False (ws_job_templates (w_spec wfl)) (wfl, w))"

section \<open>Dispatch\<close>

definition zero_template :: workflow_job_template where
  "zero_template = \<lparr>wt_name = [], wt_dependencies = [],
     wt_spec = \<lparr>jb_domain = [], jb_suspended = False, jb_task_slice = None, jb_ssh_public_key = [], jb_tag_slice = None\<rparr>\<rparr>"

definition template_at :: "dag \<Rightarrow> string \<Rightarrow> workflow_job_template" where
  "template_at d n = (case map_of (dg_templates d) n of None \<Rightarrow> zero_template | Some t \<Rightarrow> t)"

definition dispatch_job :: "'w wf_env \<Rightarrow> dag \<Rightarrow> (string \<rightharpoonup> nat) \<Rightarrow> bool \<Rightarrow> string \<Rightarrow> ('w wf_state, bool) prog" where
  "dispatch_job env d statusMap changed name = (\<lambda>(wfl, w).
     seq (on_snd (reconcileJob env wfl (template_at d name)))
       (\<lambda>job. seq (wf_sync_entry (statusMap name) (js_phase (j_status job)) []) (\<lambda>b. ok (b \<or> changed)))
       (wfl, w))"

definition range_keys :: "'w wf_env \<Rightarrow> string list \<Rightarrow> ('w, string list) prog" where
  "range_keys env keys = (\<lambda>w. case we_range env keys w of (order, w') \<Rightarrow> (Inr order, w'))"

definition reconcileDAG :: "'w wf_env \<Rightarrow> ('w wf_state, bool) prog" where
  "reconcileDAG env = (\<lambda>(wfl, w).
     (case newDAG (ws_job_templates (w_spec wfl)) of
        Inl e \<Rightarrow> fail (ErrWrap ''invalid DAG'' e)
      | Inr d \<Rightarrow>
          (let d' = resolve_succeeded (job_status_of wfl) (ws_job_templates (w_spec wfl)) d
           in seq (on_snd (range_keys env (map fst (dg_templates d'))))
                (\<lambda>order. fold_prog (dispatch_job env d' (buildJobStatusMap wfl)) False
                           (dispatchReady d' (job_status_of wfl) order)))) (wfl, w))"

section \<open>Reconciliation of the state machine\<close>

definition wf_snapshot :: "('w wf_state, bool) prog" where
  "wf_snapshot = (\<lambda>(wfl, w). case syncJobStatusSnapshot wfl of (ch, wfl') \<Rightarrow> (Inr ch, (wfl', w)))"

definition wf_mark_stopped :: "workflow_job_status \<Rightarrow> bool \<times> workflow_job_status" where
  "wf_mark_stopped s =
     (if wjs_phase s = PhaseSucceeded \<or> wjs_phase s = PhaseFailed \<or> wjs_phase s = PhaseStopped then (False, s)
      else (True, s\<lparr>wjs_phase := PhaseStopped\<rparr>))"

definition markJobStatusesStopped :: "workflow \<Rightarrow> bool \<times> workflow" where
  "markJobStatusesStopped wfl =
     (case syncJobStatusSnapshot wfl of (ch, wfl) \<Rightarrow>
        (let marked = map wf_mark_stopped (elems (ww_jobs (w_status wfl)))
         in (ch \<or> list_ex fst marked, set_status_jobs (Some (map snd marked)) wfl)))"

text \<open>From \<open>syncJobStatuses\<close> on, for a suspended Workflow.\<close>

definition stop_jobs :: "'w wf_env \<Rightarrow> bool \<Rightarrow> string \<Rightarrow> ('w wf_state, bool \<times> go_error option) prog" where
  "stop_jobs env changed cur =
     seq (\<lambda>(wfl, w). on_snd (deleteOwnedJobs env wfl) (wfl, w)) (\<lambda>waiting.
       if waiting then ok (changed, Some ErrRequeueAfterChildCleanup)
       else
         seq (\<lambda>(wfl, w). case markJobStatusesStopped wfl of (ch, wfl') \<Rightarrow> (Inr ch, (wfl', w))) (\<lambda>marked.
         seq (wf_event_if env cur ''all-jobs-stopped'' (changed \<or> marked)) (\<lambda>(changed, cur).
           ok (changed, None))))"

text \<open>The same for one that is not suspended: dispatch, then the event of the status.\<close>

definition run_jobs :: "'w wf_env \<Rightarrow> bool \<Rightarrow> string \<Rightarrow> ('w wf_state, bool \<times> go_error option) prog" where
  "run_jobs env changed cur =
     seq (\<lambda>(wfl, w). (if ww_phase (w_status wfl) = PhaseRunning then reconcileDAG env else ok False) (wfl, w)) (\<lambda>dagChanged.
     seq (reading (\<lambda>(wfl, w). evaluateWorkflowEvent wfl)) (\<lambda>event.
       (if event \<noteq> [] then
          seq (wf_event_if env cur event (changed \<or> dagChanged)) (\<lambda>(changed, cur). ok (changed, None))
        else ok (changed \<or> dagChanged, None))))"

definition resume_workflow :: "'w wf_env \<Rightarrow> string \<Rightarrow> ('w wf_state, bool \<times> go_error option) prog" where
  "resume_workflow env cur =
     seq (fsm_Event (we_fsm env) workflowEvents (wf_callbacks env) cur ''resume'') (\<lambda>_ (wfl, w).
       (Inr (True, None), (set_status_jobs None wfl, w)))"

text \<open>The events before the Jobs are observed, and the two continuations.\<close>

definition advance :: "'w wf_env \<Rightarrow> bool \<Rightarrow> bool \<Rightarrow> ('w wf_state, bool \<times> go_error option) prog" where
  "advance env suspended changed =
     seq (\<lambda>(wfl, w). wf_event_if env (ww_phase (w_status wfl)) ''init'' changed (wfl, w)) (\<lambda>(changed, cur).
     seq (if suspended then wf_event_if env cur ''stop'' changed else ok (changed, cur)) (\<lambda>(changed, cur).
       if \<not> suspended \<and> fsm_Can (we_fsm env) workflowEvents cur ''resume'' then resume_workflow env cur
       else
         seq (if \<not> suspended then wf_event_if env cur ''start'' changed else ok (changed, cur)) (\<lambda>(changed, cur).
         seq (syncJobStatuses env) (\<lambda>syncChanged.
           if suspended then stop_jobs env (changed \<or> syncChanged) cur
           else run_jobs env (changed \<or> syncChanged) cur))))"

definition wf_reconcileWithStateMachine :: "'w wf_env \<Rightarrow> ('w wf_state, bool \<times> go_error option) prog" where
  "wf_reconcileWithStateMachine env = (\<lambda>(wfl, w).
     (let suspended = ws_suspended (w_spec wfl);
          valid = (if suspended then None
                   else (case newDAG (ws_job_templates (w_spec wfl)) of Inl e \<Rightarrow> Some e | Inr _ \<Rightarrow> None))
      in case valid of
           Some e \<Rightarrow> seq (markWorkflowInvalid env (error_text e)) (\<lambda>ch. ok (ch, None))
         | None \<Rightarrow>
             (let oldTemplates = map wjs_name (elems (ww_jobs (w_status wfl)))
              in seq wf_snapshot (\<lambda>changed.
                 seq (if \<not> suspended then markWorkflowValid env else ok False) (\<lambda>marked.
                 seq (\<lambda>(wfl, w). on_snd (pruneJobsWithTemplates env wfl oldTemplates) (wfl, w)) (\<lambda>waiting.
                   if waiting then ok (changed \<or> marked, Some ErrRequeueAfterChildCleanup)
                   else advance env suspended (changed \<or> marked)))))) (wfl, w))"

definition wf_ReconcileStateMachine :: "'w wf_env \<Rightarrow> ('w wf_state, bool \<times> go_error option) prog" where
  "wf_ReconcileStateMachine env =
     seq (wf_reconcileWithStateMachine env) (\<lambda>(changed, err).
       if err \<noteq> None then ok (changed, err)
       else (\<lambda>(wfl, w).
         if ww_observed_generation (w_status wfl) \<noteq> om_generation (w_meta wfl) then
           (Inr (True, None),
            (wfl\<lparr>w_status := (w_status wfl)\<lparr>ww_observed_generation := om_generation (w_meta wfl)\<rparr>\<rparr>, w))
         else (Inr (changed, None), (wfl, w))))"

end
