(* ===== verification/Workflow_Steps.thy ===== *)
theory Workflow_Steps
  imports Workflow_Machine
begin

text \<open>
  What every step of the Workflow machine keeps: the metadata, the spec and the observed
  generation; the world's invariant; and, up to the branch that resumes a Workflow, a status
  with one entry per template, which is what the pointers of \<open>reconcileDAG\<close> rest on.
\<close>

section \<open>The frame\<close>

definition wf_frame :: "workflow \<Rightarrow> workflow \<Rightarrow> bool" where
  "wf_frame x y \<longleftrightarrow> w_meta y = w_meta x \<and> w_spec y = w_spec x \<and>
     ww_observed_generation (w_status y) = ww_observed_generation (w_status x)"

definition wf_names :: "workflow \<Rightarrow> bool" where
  "wf_names x \<longleftrightarrow> map wjs_name (elems (ww_jobs (w_status x))) = map wt_name (ws_job_templates (w_spec x))"

abbreviation wf_phase :: "workflow \<Rightarrow> string" where
  "wf_phase x \<equiv> ww_phase (w_status x)"

lemma wf_frame_refl [simp]: "wf_frame x x"
  by (simp add: wf_frame_def)

lemma wf_frame_trans: "wf_frame x y \<Longrightarrow> wf_frame y z \<Longrightarrow> wf_frame x z"
  by (simp add: wf_frame_def)

interpretation wff: framed_machine wf_frame wf_names "\<lambda>x. wf_phase x" workflowEvents wf_phases
  by unfold_locales (auto simp: workflowEvents_def deterministic_def intro: wf_frame_trans)

interpretation wft: object_frame wf_frame "\<lambda>_. True" "\<lambda>x. wf_phase x"
  by unfold_locales (auto intro: wf_frame_trans)

abbreviation wf_ok :: "('w \<Rightarrow> bool) \<Rightarrow> workflow \<Rightarrow> bool \<Rightarrow> 'w wf_state \<Rightarrow> bool" where
  "wf_ok \<equiv> step_ok_of wf_frame wf_names"

abbreviation wf_any :: "('w \<Rightarrow> bool) \<Rightarrow> workflow \<Rightarrow> bool \<Rightarrow> 'w wf_state \<Rightarrow> bool" where
  "wf_any \<equiv> step_ok_of wf_frame (\<lambda>_. True)"

abbreviation wf_err :: "('w \<Rightarrow> bool) \<Rightarrow> workflow \<Rightarrow> go_error \<Rightarrow> 'w wf_state \<Rightarrow> bool" where
  "wf_err \<equiv> step_err_of wf_frame"

text \<open>Forgetting the status invariant, for the continuation that may drop the entries.\<close>

lemma wf_forget:
  assumes "wp m (\<lambda>a s. wf_ok I x (c a) s \<and> P a (fst s)) (wf_err I x) s0"
  shows "wp m (\<lambda>a s. wf_any I x (c a) s \<and> (P a (fst s) \<and> (wf_names x \<longrightarrow> wf_names (fst s)))) (wf_err I x) s0"
  by (rule wp_mono [OF assms]) (simp_all add: step_ok_of_def)

lemma wf_status_frame [simp]:
  "wf_frame x (wf_set_phase p y) \<longleftrightarrow> wf_frame x y" "wf_frame x (wf_set_end t y) \<longleftrightarrow> wf_frame x y"
  "wf_frame x (wf_set_start t y) \<longleftrightarrow> wf_frame x y" "wf_frame x (set_status_jobs es y) \<longleftrightarrow> wf_frame x y"
  by (simp_all add: wf_frame_def wf_set_phase_def wf_set_end_def wf_set_start_def set_status_jobs_def)

lemma wf_status_names [simp]:
  "wf_names (wf_set_phase p y) \<longleftrightarrow> wf_names y" "wf_names (wf_set_end t y) \<longleftrightarrow> wf_names y"
  "wf_names (wf_set_start t y) \<longleftrightarrow> wf_names y"
  by (simp_all add: wf_names_def wf_set_phase_def wf_set_end_def wf_set_start_def)

lemma wf_phase_setters [simp]:
  "wf_phase (wf_set_phase p y) = p" "wf_phase (wf_set_end t y) = wf_phase y"
  "wf_phase (wf_set_start t y) = wf_phase y" "wf_phase (set_status_jobs es y) = wf_phase y"
  by (simp_all add: wf_set_phase_def wf_set_end_def wf_set_start_def set_status_jobs_def)

section \<open>What the controller relies on\<close>

definition wf_env_owned :: "'w wf_env \<Rightarrow> workflow \<Rightarrow> (workflow_job_template \<Rightarrow> bool) \<Rightarrow>
    (string \<times> string \<times> string \<Rightarrow> bool) \<Rightarrow> ('w \<Rightarrow> bool) \<Rightarrow> bool" where
  "wf_env_owned env wfl R G I \<longleftrightarrow> job_client_for env wfl R G I \<and> fsm_documented (we_fsm env) \<and>
     (\<forall>w. I w \<longrightarrow> I (snd (we_now env w))) \<and>
     (\<forall>cs c w. I w \<longrightarrow> I (snd (we_set_condition env cs c w))) \<and>
     (\<forall>cs c w cs' w'. we_set_condition env cs c w = ((False, cs'), w') \<longrightarrow> cs' = cs) \<and>
     (\<forall>keys w. I w \<longrightarrow> I (snd (we_range env keys w)) \<and> set (fst (we_range env keys w)) = set keys)"

abbreviation wf_env_ok :: "'w wf_env \<Rightarrow> workflow \<Rightarrow> (workflow_job_template \<Rightarrow> bool) \<Rightarrow> ('w \<Rightarrow> bool) \<Rightarrow> bool" where
  "wf_env_ok env wfl R I \<equiv> wf_env_owned env wfl R (\<lambda>_. True) I"

lemma job_client_cong: "w_meta y = w_meta x \<Longrightarrow> job_client_for env y R G I \<longleftrightarrow> job_client_for env x R G I"
proof -
  assume m: "w_meta y = w_meta x"
  then have c: "controlled_by_wf y = controlled_by_wf x"
    by (simp add: controlled_by_wf_def fun_eq_iff split: option.split)
  have "may_touch_job y = may_touch_job x" by (simp add: may_touch_job_def fun_eq_iff m c split: option.split)
  moreover have "wf_ref y = wf_ref x" by (simp add: wf_ref_def m)
  ultimately show ?thesis unfolding job_client_for_def m by (simp only:)
qed

lemma wf_env_ok_frame: "wf_env_owned env x R G I \<Longrightarrow> wf_frame x y \<Longrightarrow> wf_env_owned env y R G I"
  by (simp add: wf_env_owned_def wf_frame_def job_client_cong [of y x])

lemma wf_env_ok_client: "wf_env_owned env x R G I \<Longrightarrow> job_client_for env x R G I"
  by (simp add: wf_env_owned_def)

lemma wf_env_ok_world:
  assumes "wf_env_owned env x R G I" and "I w"
  shows "we_now env w = (t, w') \<Longrightarrow> I w'"
    and "we_set_condition env cs c w = ((ch, cs'), w') \<Longrightarrow> I w' \<and> (ch \<or> cs' = cs)"
    and "we_range env keys w = (order, w') \<Longrightarrow> I w' \<and> set order = set keys"
proof -
  have now: "I (snd (we_now env w))" and cond: "I (snd (we_set_condition env cs c w))"
    and same: "\<forall>cs'' w''. we_set_condition env cs c w = ((False, cs''), w'') \<longrightarrow> cs'' = cs"
    and range: "I (snd (we_range env keys w)) \<and> set (fst (we_range env keys w)) = set keys"
    using assms unfolding wf_env_owned_def by blast+
  show "we_now env w = (t, w') \<Longrightarrow> I w'" using now by simp
  show "we_set_condition env cs c w = ((ch, cs'), w') \<Longrightarrow> I w' \<and> (ch \<or> cs' = cs)"
    using cond same by (cases ch) auto
  show "we_range env keys w = (order, w') \<Longrightarrow> I w' \<and> set order = set keys" using range by simp
qed

section \<open>The snapshot, the conditions and the events\<close>

lemma job_snapshot_facts:
  assumes "syncJobStatusSnapshot x = (ch, y)"
  shows "wf_frame x y" and "wf_names y" and "wf_phase y = wf_phase x" and "ch \<or> y = x"
    and "ww_jobs (w_status y) = Some (next_job_statuses x)"
proof -
  show "wf_frame x y" "wf_phase y = wf_phase x" "ch \<or> y = x" and jobs: "ww_jobs (w_status y) = Some (next_job_statuses x)"
    using assms by (auto simp: syncJobStatusSnapshot_def Let_def wf_frame_def set_status_jobs_def split: if_splits)
  have "w_spec y = w_spec x"
    using assms by (auto simp: syncJobStatusSnapshot_def Let_def set_status_jobs_def split: if_splits)
  with jobs show "wf_names y"
    by (simp add: wf_names_def next_job_statuses_def next_entries_idents blank_job_status_def)
qed

lemma wp_wf_snapshot:
  assumes "I w"
  shows "wp wf_snapshot (\<lambda>ch s. wf_ok I x ch s \<and> (wf_names (fst s) \<and> wf_phase (fst s) = wf_phase x))
    (wf_err I x) (x, w)"
  using assms by (auto simp: wp_def wf_snapshot_def step_ok_of_def dest: job_snapshot_facts split: prod.split)

lemma wp_wf_mark_condition:
  assumes "wf_env_owned env x R G I" and "I w"
  shows "wp (wf_mark_condition env c) (\<lambda>ch s. wf_ok I x ch s \<and> wf_phase (fst s) = wf_phase x) (wf_err I x) (x, w)"
proof -
  obtain ch cs w' where r: "we_set_condition env (ww_conditions (w_status x)) c w = ((ch, cs), w')"
    by (metis prod.exhaust)
  with wf_env_ok_world(2) [OF assms r] show ?thesis
    by (auto simp: wp_def wf_mark_condition_def step_ok_of_def wf_frame_def wf_names_def)
qed

lemma wp_markWorkflowValid:
  assumes "wf_env_owned env x R G I" and "I w"
  shows "wp (markWorkflowValid env) (\<lambda>ch s. wf_ok I x ch s \<and> wf_phase (fst s) = wf_phase x) (wf_err I x) (x, w)"
  using wp_wf_mark_condition [OF assms] by (simp add: markWorkflowValid_def wp_def)

lemma wf_end_now_facts:
  assumes "wf_env_owned env x R G I" and "I w"
  shows "\<exists>t w'. wf_end_now env (x, w) = (wf_set_end (Some t) x, w') \<and> I w'"
proof -
  obtain t w' where r: "we_now env w = (t, w')" by (cases "we_now env w")
  with wf_env_ok_world(1) [OF assms r] show ?thesis by (auto simp: wf_end_now_def)
qed

lemma wp_markWorkflowInvalid:
  assumes env: "wf_env_owned env x R G I" and w: "I w"
  shows "wp (markWorkflowInvalid env msg) (\<lambda>ch s. wf_ok I x ch s \<and> wf_phase (fst s) = PhaseFailed) (wf_err I x) (x, w)"
proof -
  let ?y = "if wf_phase x \<noteq> PhaseFailed then wf_set_phase PhaseFailed x else x"
  have env1: "wf_env_owned env ?y R G I" by (rule wf_env_ok_frame [OF env]) simp
  obtain t w1 where e: "wf_end_now env (?y, w) = (wf_set_end (Some t) ?y, w1)" and "I w1"
    using wf_end_now_facts [OF env1 w] by blast
  obtain z w2 where r: "(if ww_end_time (w_status ?y) = None then wf_end_now env (?y, w) else (?y, w)) = (z, w2)"
    by (metis prod.exhaust)
  have z: "I w2" "wf_frame x z" "wf_names x \<Longrightarrow> wf_names z" "wf_phase z = PhaseFailed"
    "wf_phase x \<noteq> PhaseFailed \<or> ww_end_time (w_status ?y) = None \<or> z = x"
    using r e \<open>I w1\<close> w by (auto split: if_splits)
  have ok: "wf_ok I x (wf_phase x \<noteq> PhaseFailed \<or> ww_end_time (w_status ?y) = None) (z, w2)"
    using z by (auto simp: step_ok_of_def)
  define c where "c = \<lparr>cn_type = ''Validated'', cn_status = ''False'', cn_reason = ''InvalidJobDAG'',
     cn_message = msg, cn_observed_generation = om_generation (w_meta z), cn_transition = 0\<rparr>"
  let ?m = "seq (wf_mark_condition env c)
        (\<lambda>ch3. ok (wf_phase x \<noteq> PhaseFailed \<or> ww_end_time (w_status ?y) = None \<or> ch3))"
  have run: "markWorkflowInvalid env msg (x, w) = ?m (z, w2)"
    using r by (simp add: markWorkflowInvalid_def c_def)
  show ?thesis
    unfolding wp_run_eq [where m = "markWorkflowInvalid env msg" and m' = ?m and s' = "(z, w2)", OF run] wp_seq wp_ok
    by (rule wp_mono [OF wp_wf_mark_condition [OF wf_env_ok_frame [OF env z(2)] z(1)]])
       (auto simp: z(4) intro: wff.step_ok_mono [OF wff.step_ok_trans [OF ok]] wff.step_err_trans [OF ok])
qed

lemma wf_enter_pending_facts:
  assumes "wf_env_owned env x R G I" and "I w"
  shows "\<exists>y w'. wf_enter_pending env e (x, w) = (y, w') \<and> I w' \<and> wf_frame x y \<and> wf_names y"
proof -
  obtain t w1 where now: "we_now env w = (t, w1)" by (cases "we_now env w")
  let ?x = "if fe_src e \<noteq> [] then wf_set_end None (wf_set_start (Some t) x) else x"
  obtain b y where s: "syncJobStatusSnapshot ?x = (b, y)" by (cases "syncJobStatusSnapshot ?x")
  have "wf_enter_pending env e (x, w) = (y, if fe_src e \<noteq> [] then w1 else w)"
    using s by (auto simp: wf_enter_pending_def now split: if_splits)
  moreover have "wf_frame x ?x" by simp
  then have "wf_frame x y" using job_snapshot_facts(1) [OF s] by (rule wf_frame_trans)
  ultimately show ?thesis
    using job_snapshot_facts(2) [OF s] wf_env_ok_world(1) [OF assms now] assms(2) by auto
qed

lemma six_cases:
  "x \<in> set [a, b, c, d, e, f] \<Longrightarrow> x = a \<or> x = b \<or> (x = e \<or> x = f) \<or> (x = c \<or> x = d)"
  by auto

lemma wf_enter:
  assumes env: "wf_env_owned env x R G I" and w: "I w" and dst: "dst \<in> set wf_phases"
  shows "\<exists>y w'. enter (wf_callbacks env) ev src dst (x, w) = (y, w') \<and> I w' \<and> wf_frame x y \<and>
    (wf_names x \<longrightarrow> wf_names y) \<and> wf_phase y = dst"
proof -
  consider "dst = PhasePending" | "dst = PhaseRunning" | "dst = PhaseSucceeded \<or> dst = PhaseFailed"
    | "dst = PhaseStopping \<or> dst = PhaseStopped"
    using six_cases [OF dst] by argo
  then show ?thesis
  proof cases
    case 1
    obtain y w' where "wf_enter_pending env \<lparr>fe_event = ev, fe_src = src, fe_dst = dst\<rparr> (x, w) = (y, w')"
      "I w'" "wf_frame x y" "wf_names y"
      using wf_enter_pending_facts [OF env w] by blast
    then show ?thesis by (simp add: 1 enter_def run_callback_def wf_callbacks_def Let_def)
  next
    case 2
    obtain t w1 where now: "we_now env w = (t, w1)" by (cases "we_now env w")
    from wf_env_ok_world(1) [OF env w now] w show ?thesis
      by (simp add: 2 enter_def run_callback_def wf_callbacks_def Let_def wf_enter_running_def now)
  next
    case 3
    obtain t w' where end_now: "wf_end_now env (x, w) = (wf_set_end (Some t) x, w')" "I w'"
      using wf_end_now_facts [OF env w] by blast
    from 3 have "enter (wf_callbacks env) ev src dst (x, w) = (wf_set_phase dst (wf_set_end (Some t) x), w')"
      by (elim disjE) (simp_all add: enter_def run_callback_def wf_callbacks_def Let_def end_now(1))
    with end_now(2) show ?thesis by simp
  next
    case 4
    then have "enter (wf_callbacks env) ev src dst (x, w) = (wf_set_phase dst x, w)"
      by (elim disjE) (simp_all add: enter_def run_callback_def wf_callbacks_def Let_def)
    with w show ?thesis by simp
  qed
qed

lemma wf_callbacks_only_enter: "only_enter (wf_callbacks env)"
  by (auto simp: only_enter_def wf_callbacks_def split: if_splits)

lemma wp_wf_event_if:
  assumes env: "wf_env_owned env x R G I" and w: "I w" and cur: "cur = wf_phase x"
  shows "wp (wf_event_if env cur ev ch)
     (\<lambda>a s. wf_ok I x (fst a) s \<and> ((ch \<longrightarrow> fst a) \<and> snd a = wf_phase (fst s))) (wf_err I x) (x, w)"
proof -
  have doc: "fsm_documented (we_fsm env)" using env by (simp add: wf_env_owned_def)
  show ?thesis
    unfolding wf_event_if_def
    by (rule wff.wp_event_if [where I = I and w = w and x = x, OF doc wf_callbacks_only_enter w cur])
       (rule wf_enter [OF env w])
qed

section \<open>The entries\<close>

lemma wp_wf_sync_entry:
  assumes w: "I w" and i: "i < length (elems (ww_jobs (w_status x)))"
  shows "wp (wf_sync_entry (Some i) p msg) (\<lambda>b s. wf_ok I x b s \<and> wf_phase (fst s) = wf_phase x) (wf_err I x) (x, w)"
proof -
  let ?es = "elems (ww_jobs (w_status x))"
  obtain b e where r: "SyncStatusEntry wjs_phase wjs_SetPhase wjs_SetMessage (?es ! i) p msg = (b, e)"
    by (metis prod.exhaust)
  have "map wjs_name (?es[i := e]) = map wjs_name ?es"
    using wjs.sync_keeps_ident [OF r] by (metis list_update_id map_update)
  then have names: "wf_names (set_status_jobs (Some (?es[i := e])) x) \<longleftrightarrow> wf_names x"
    by (simp add: wf_names_def set_status_jobs_def)
  have "b \<or> set_status_jobs (Some (?es[i := e])) x = x"
  proof (cases b)
    case False
    with r have "e = ?es ! i" using wjs.sync_unchanged by metis
    moreover have "ww_jobs (w_status x) = Some ?es" using i by (cases "ww_jobs (w_status x)") simp_all
    ultimately show ?thesis by (simp add: set_status_jobs_def)
  qed simp
  with r w names show ?thesis by (simp add: wp_def wf_sync_entry_def step_ok_of_def)
qed

lemma job_index:
  assumes "buildJobStatusMap x n = Some i" and "wf_names x" and "wf_names y" and "wf_frame x y"
  shows "i < length (elems (ww_jobs (w_status y)))"
proof -
  have "length (elems (ww_jobs (w_status y))) = length (elems (ww_jobs (w_status x)))"
    using assms(2-4) unfolding wf_names_def wf_frame_def by (metis length_map)
  then show ?thesis using index_last_Some(1) [OF assms(1) [unfolded buildJobStatusMap_def]] by simp
qed

lemma job_index_exists:
  assumes "n \<in> wt_name ` set (ws_job_templates (w_spec x))" and "wf_names x"
  shows "\<exists>i. buildJobStatusMap x n = Some i"
proof -
  have "n \<in> set (map wjs_name (elems (ww_jobs (w_status x))))"
    using assms unfolding wf_names_def by simp
  then show ?thesis unfolding buildJobStatusMap_def by (intro index_last_exists) simp
qed

lemma wp_sync_from_job:
  assumes env: "wf_env_owned env x R G I" and w: "I w"
    and i: "\<And>i. m (wt_name t) = Some i \<Longrightarrow> i < length (elems (ww_jobs (w_status x)))"
  shows "wp (sync_from_job env m changed t)
     (\<lambda>b s. wf_ok I x b s \<and> ((changed \<longrightarrow> b) \<and> wf_phase (fst s) = wf_phase x)) (wf_err I x) (x, w)"
proof -
  let ?n = "ChildName (om_name (w_meta x)) (wt_name t)"
  let ?G = "\<lambda>i r. case r of
                  Inl e \<Rightarrow> (if is_not_found e then ok changed else fail (ErrWrap (''get Job '' @ wt_name t) e))
                | Inr job \<Rightarrow>
                    (case ClassifyChild (j_meta job) (wf_parent x) (wt_name t) of
                       Inl e \<Rightarrow> fail (job_conflict job e)
                     | Inr _ \<Rightarrow>
                         seq (wf_sync_entry (Some i) (js_phase (j_status job)) []) (\<lambda>b. ok (b \<or> changed)))"
  let ?F = "case m (wt_name t) of
        None \<Rightarrow> ok changed
      | Some i \<Rightarrow>
          (if wjs_phase (elems (ww_jobs (w_status x)) ! i) = [] then ok changed
           else seq (on_snd (attempt (we_get_job env ?n))) (?G i))"
  have run: "sync_from_job env m changed t (x, w) = ?F (x, w)" by (simp add: sync_from_job_def)
  have get: "keeps I (attempt (we_get_job env ?n)) (\<lambda>r. \<forall>e. r = Inl e \<longrightarrow> no_panic e) no_panic"
    by (rule keeps_attempt_any [OF keeps_weaken [OF job_client_ops(3) [OF wf_env_ok_client [OF env]]]]) simp_all
  have tail: "wp (?G i r) (\<lambda>b s. wf_ok I x b s \<and> ((changed \<longrightarrow> b) \<and> wf_phase (fst s) = wf_phase x)) (wf_err I x) (x, w')"
    if w': "I w'" and r: "\<forall>e. r = Inl e \<longrightarrow> no_panic e" and len: "i < length (elems (ww_jobs (w_status x)))" for i r w'
  proof (cases r)
    case (Inl e)
    with r w' show ?thesis by (simp add: wp_ok wp_fail wff.step_ok_refl step_err_of_def)
  next
    case (Inr job)
    show ?thesis
    proof (cases "ClassifyChild (j_meta job) (wf_parent x) (wt_name t)")
      case (Inl e)
      with Inr w' show ?thesis by (simp add: wp_fail step_err_of_def job_conflict_def)
    next
      case (Inr _)
      with \<open>r = Inr job\<close> show ?thesis
        by (simp add: wff.wp_flag_ok [OF wp_wf_sync_entry [where I = I and w = w', OF w' len]])
    qed
  qed
  show ?thesis
    unfolding wp_run_eq [where m = "sync_from_job env m changed t" and m' = ?F and s' = "(x, w)", OF run]
    by (cases "m (wt_name t)")
       (auto simp: wp_ok wff.step_ok_refl w simp del: wp_sum split del: sum.split
         intro!: wff.wp_world_then [OF get] tail i)
qed

abbreviation wf_synced :: "('w \<Rightarrow> bool) \<Rightarrow> workflow \<Rightarrow> bool \<Rightarrow> 'w wf_state \<Rightarrow> bool" where
  "wf_synced I x b s \<equiv> wf_ok I x b s \<and> (wf_names (fst s) \<and> wf_phase (fst s) = wf_phase x)"

lemma wp_syncJobStatuses:
  assumes env: "wf_env_owned env x R G I" and w: "I w" and n: "wf_names x"
  shows "wp (syncJobStatuses env) (wf_synced I x) (wf_err I x) (x, w)"
proof -
  let ?F = "fold_prog (sync_from_job env (buildJobStatusMap x)) False (ws_job_templates (w_spec x))"
  have run: "syncJobStatuses env (x, w) = ?F (x, w)" by (simp add: syncJobStatuses_def)
  show ?thesis
    unfolding wp_run_eq [where m = "syncJobStatuses env" and m' = ?F and s' = "(x, w)", OF run]
    by (rule wff.wp_object_fold [where I = I and w = w, OF w n])
       (rule wp_sync_from_job [OF wf_env_ok_frame [OF env]], assumption+, rule job_index [OF _ n])
qed

text \<open>Dispatch creates Jobs for ready templates only.\<close>

lemma job_status_entry_phase:
  "entry_phase (job_status_of x) = entry_phase (\<lambda>n. map_option ((!) (elems (ww_jobs (w_status x)))) (buildJobStatusMap x n))"
  by (rule arg_cong [where f = entry_phase]) (simp add: fun_eq_iff job_status_of_def)

lemma template_at_dag_of:
  assumes "distinct (map wt_name ts)" and "t \<in> set ts" and "dg_templates d = dg_templates (dag_of ts)"
  shows "template_at d (wt_name t) = t"
proof -
  have "map_of (map (\<lambda>t. (wt_name t, t)) ts) (wt_name t) = Some t"
    using assms(1,2) by (intro map_of_is_SomeI) (auto simp: comp_def)
  with assms(3) show ?thesis by (simp add: template_at_def dag_of_def)
qed

lemma resolve_succeeded_templates:
  assumes "distinct (map wt_name ts)"
  shows "dg_templates (resolve_succeeded st ts (dag_of ts)) = dg_templates (dag_of ts)"
  unfolding resolve_succeeded_foldl
  by (rule foldl_resolve(2)) (use assms in \<open>simp_all add: succeeded_names_def dag_of_def\<close>)

lemma keeps_range_keys:
  assumes "wf_env_owned env x R G I"
  shows "keeps I (range_keys env keys) (\<lambda>order. set order = set keys) no_panic"
proof (rule keepsI)
  fix w
  assume w: "I w"
  obtain order w' where r: "we_range env keys w = (order, w')" by (cases "we_range env keys w")
  with wf_env_ok_world(3) [OF assms w r]
  show "wp (range_keys env keys) (\<lambda>a s. I s \<and> set a = set keys) (\<lambda>e s. I s \<and> no_panic e) w"
    by (simp add: wp_def range_keys_def)
qed

lemma wp_reconcileDAG:
  assumes env: "wf_env_owned env x R G I" and w: "I w" and n: "wf_names x"
    and R: "\<And>t. t \<in> set (ws_job_templates (w_spec x)) \<Longrightarrow> ready_template (job_status_of x) t \<Longrightarrow> R t"
  shows "wp (reconcileDAG env) (wf_synced I x) (wf_err I x) (x, w)"
proof (cases "newDAG (ws_job_templates (w_spec x))")
  case (Inl e)
  with newDAG_np [OF Inl] w show ?thesis
    by (simp add: reconcileDAG_def wp_def fail_def step_err_of_def)
next
  case (Inr d)
  let ?ts = "ws_job_templates (w_spec x)" and ?m = "buildJobStatusMap x"
  let ?d = "resolve_succeeded (job_status_of x) ?ts d"
  let ?F = "seq (on_snd (range_keys env (map fst (dg_templates ?d))))
              (\<lambda>order. fold_prog (dispatch_job env ?d ?m) False (dispatchReady ?d (job_status_of x) order))"
  have run: "reconcileDAG env (x, w) = ?F (x, w)" by (simp add: reconcileDAG_def Inr Let_def)
  note dag = newDAG_facts [OF Inr]
  have tmpl: "dg_templates ?d = dg_templates (dag_of ?ts)"
    using resolve_succeeded_templates [OF dag(2)] unfolding dag(1) .
  then have keys: "set (map fst (dg_templates ?d)) = wt_name ` set ?ts"
    by (simp add: dag_of_def image_comp comp_def)
  have range: "keeps I (range_keys env (map fst (dg_templates ?d))) (\<lambda>order. set order = wt_name ` set ?ts) no_panic"
    using keeps_range_keys [OF env, of "map fst (dg_templates ?d)"] unfolding keys .
  have one: "wp (dispatch_job env ?d ?m b name)
      (\<lambda>b' s. wf_ok I y b' s \<and> ((b \<longrightarrow> b') \<and> wf_phase (fst s) = wf_phase y)) (wf_err I y) (y, w')"
    if name: "name \<in> set (dispatchReady ?d (job_status_of x) order)" and order: "set order = wt_name ` set ?ts"
      and y: "I w'" "wf_frame x y" "wf_names y" for b name order y w'
  proof -
    obtain t where t: "t \<in> set ?ts" "wt_name t = name" "ready_template (job_status_of x) t"
      using dispatchReady_iff [OF Inr order] name by blast
    have at: "template_at ?d name = t"
      using template_at_dag_of [OF dag(2) t(1) tmpl] t(2) by simp
    obtain i where i: "?m name = Some i" using job_index_exists [of name x] t(1,2) n by blast
    let ?G = "seq (on_snd (reconcileJob env y t))
       (\<lambda>job. seq (wf_sync_entry (Some i) (js_phase (j_status job)) []) (\<lambda>b'. ok (b' \<or> b)))"
    have run: "dispatch_job env ?d ?m b name (y, w') = ?G (y, w')" by (simp add: dispatch_job_def at i)
    show ?thesis
      unfolding wp_run_eq [where m = "dispatch_job env ?d ?m b name" and m' = ?G and s' = "(y, w')", OF run]
      by (rule wff.wp_world_then [OF keeps_reconcileJob [OF wf_env_ok_client [OF wf_env_ok_frame [OF env y(2)]] R [OF t(1,3)]] y(1)],
          rule wff.wp_flag_ok, rule wp_wf_sync_entry [OF _ job_index [OF i n y(3,2)]])
  qed
  show ?thesis
    unfolding wp_run_eq [where m = "reconcileDAG env" and m' = ?F and s' = "(x, w)", OF run]
    by (rule wff.wp_world_then [OF range w], rule wff.wp_object_fold [OF _ n], assumption) (rule one)
qed

section \<open>The branches and the whole\<close>

text \<open>
  A run of a suspended Workflow creates no Job, so it needs no creation to be allowed; for the
  others every template may be created, and \<open>wp_reconcileDAG\<close> says which ones are.
\<close>

definition may_create :: "bool \<Rightarrow> (workflow_job_template \<Rightarrow> bool) \<Rightarrow> bool" where
  "may_create suspended R \<longleftrightarrow> suspended \<or> (\<forall>t. R t)"

abbreviation waits_or_none :: "bool \<times> go_error option \<Rightarrow> bool" where
  "waits_or_none b \<equiv> snd b = None \<or> snd b = Some ErrRequeueAfterChildCleanup"

lemma wp_wf_mark_stopped:
  assumes "I w" and "wf_names x"
  shows "wp (\<lambda>(x, w). case markJobStatusesStopped x of (ch, y) \<Rightarrow> (Inr ch, (y, w))) (wf_synced I x) (wf_err I x) (x, w)"
proof -
  obtain b y where s: "syncJobStatusSnapshot x = (b, y)" by (cases "syncJobStatusSnapshot x")
  note facts = job_snapshot_facts [OF s]
  let ?es = "elems (ww_jobs (w_status y))"
  have "wjs_name (snd (wf_mark_stopped e)) = wjs_name e" for e by (simp add: wf_mark_stopped_def)
  then have names: "wf_names (set_status_jobs (Some (map (snd \<circ> wf_mark_stopped) ?es)) y)"
    using facts(2) by (simp add: wf_names_def set_status_jobs_def comp_def)
  have marked: "fst (wf_mark_stopped e) \<or> snd (wf_mark_stopped e) = e" for e by (simp add: wf_mark_stopped_def)
  have "list_ex fst (map wf_mark_stopped ?es) \<or> map (snd \<circ> wf_mark_stopped) ?es = ?es"
  proof (cases "list_ex fst (map wf_mark_stopped ?es)")
    case False
    then have "\<forall>e \<in> set ?es. snd (wf_mark_stopped e) = e"
      using marked by (metis (no_types, lifting) image_eqI list.set_map list_ex_iff)
    then show ?thesis by (simp add: map_idI)
  qed simp
  then have "b \<or> list_ex fst (map wf_mark_stopped ?es) \<or> set_status_jobs (Some (map (snd \<circ> wf_mark_stopped) ?es)) y = x"
    using facts(4,5) by (auto simp: set_status_jobs_def)
  then show ?thesis
    using assms(1) facts(1,3) names
    by (auto simp: wp_def markJobStatusesStopped_def s Let_def step_ok_of_def)
qed

lemma wp_wf_event_then:
  assumes env: "wf_env_owned env x R G I" and w: "I w" and cur: "cur = wf_phase x"
    and f: "\<And>a y w'. I w' \<Longrightarrow> wf_frame x y \<Longrightarrow> (wf_names x \<Longrightarrow> wf_names y) \<Longrightarrow>
       (ch \<longrightarrow> fst a) \<Longrightarrow> snd a = wf_phase y \<Longrightarrow>
       wp (f a) (\<lambda>b s. wf_any I y (d b) s \<and> (fst a \<longrightarrow> d b) \<and> Q b (fst s)) (wf_err I y) (y, w')"
  shows "wp (seq (wf_event_if env cur ev ch) f) (\<lambda>b s. wf_any I x (d b) s \<and> Q b (fst s)) (wf_err I x) (x, w)"
  by (rule wft.wp_steps [where c = fst, OF wf_forget [OF wp_wf_event_if [OF env w cur]]]) (blast intro: f)

lemma wp_wf_synced_then:
  assumes "wp m (wf_synced I x) (wf_err I x) (x, w)"
    and f: "\<And>ch y w'. I w' \<Longrightarrow> wf_frame x y \<Longrightarrow> wf_names y \<Longrightarrow> wf_phase y = wf_phase x \<Longrightarrow>
       wp (f ch) (\<lambda>b s. wf_any I y (d b) s \<and> (ch \<longrightarrow> d b) \<and> Q b (fst s)) (wf_err I y) (y, w')"
  shows "wp (seq m f) (\<lambda>b s. wf_any I x (d b) s \<and> Q b (fst s)) (wf_err I x) (x, w)"
  by (rule wft.wp_steps [where c = "\<lambda>b. b", OF wf_forget [OF assms(1)]]) (blast intro: f)

lemma wp_wf_world_then:
  assumes "keeps I (m x) (\<lambda>_. True) no_panic" and "I w"
    and "\<And>a w'. I w' \<Longrightarrow> wp (f a) (\<lambda>b s. wf_any I x (d b) s \<and> Q b (fst s)) (wf_err I x) (x, w')"
  shows "wp (seq (\<lambda>(x, w). on_snd (m x) (x, w)) f) (\<lambda>b s. wf_any I x (d b) s \<and> Q b (fst s)) (wf_err I x) (x, w)"
  using wft.wp_world_then [where I = I and w = w and m = "m x" and f = f and d = d and R = Q, OF assms(1,2)] assms(3)
  by (simp add: wp_def seq_def)

lemma wp_stop_jobs:
  assumes env: "wf_env_owned env x R G I" and w: "I w" and n: "wf_names x" and cur: "cur = wf_phase x"
  shows "wp (stop_jobs env ch cur)
     (\<lambda>b s. wf_any I x (fst b) s \<and> ((ch \<longrightarrow> fst b) \<and> waits_or_none b)) (wf_err I x) (x, w)"
  unfolding stop_jobs_def
  by (rule wp_wf_world_then [where I = I and w = w and m = "\<lambda>x. deleteOwnedJobs env x" and x = x, OF keeps_deleteOwnedJobs [OF wf_env_ok_client [OF env]] w])
     (auto simp: wp_if wp_ok wft.step_ok_refl cur
       intro!: wp_wf_synced_then [OF wp_wf_mark_stopped] n wp_wf_event_then [OF wf_env_ok_frame [OF env]])

lemma wp_run_jobs:
  assumes env: "wf_env_owned env x R G I" and w: "I w" and n: "wf_names x" and cur: "cur = wf_phase x"
    and all: "\<And>t. R t"
  shows "wp (run_jobs env ch cur)
     (\<lambda>b s. wf_any I x (fst b) s \<and> ((ch \<longrightarrow> fst b) \<and> waits_or_none b)) (wf_err I x) (x, w)"
proof -
  have dag: "wp (\<lambda>(x, w). (if wf_phase x = PhaseRunning then reconcileDAG env else ok False) (x, w))
      (wf_synced I x) (wf_err I x) (x, w)"
    using wp_reconcileDAG [OF env w n all] w n by (simp add: wp_def ok_def wff.step_ok_refl)
  show ?thesis
    unfolding run_jobs_def
    by (rule wp_wf_synced_then [OF dag])
       (auto simp: wp_seq_reading wp_if wp_ok wft.step_ok_refl cur intro!: wp_wf_event_then [OF wf_env_ok_frame [OF env]])
qed

lemma wp_resume_workflow:
  assumes env: "wf_env_owned env x R G I" and w: "I w" and can: "fsm_Can (we_fsm env) workflowEvents cur ''resume''"
  shows "wp (resume_workflow env cur) (\<lambda>b s. wf_any I x (fst b) s \<and> b = (True, None)) (wf_err I x) (x, w)"
proof -
  have doc: "fsm_documented (we_fsm env)" using env by (simp add: wf_env_owned_def)
  show ?thesis
    unfolding resume_workflow_def wp_seq
  proof (rule wff.wp_fire [OF doc wf_callbacks_only_enter can])
    fix dst
    assume "dst \<in> set wf_phases"
    from wf_enter [OF env w this, of "''resume''" cur]
    obtain y w' where "enter (wf_callbacks env) ''resume'' cur dst (x, w) = (y, w')" "I w'" "wf_frame x y"
      by blast
    then show "wp ((\<lambda>_ (wfl, w). (Inr (True, None), set_status_jobs None wfl, w)) dst)
        (\<lambda>b s. wf_any I x (fst b) s \<and> b = (True, None)) (wf_err I x)
        (enter (wf_callbacks env) ''resume'' cur dst (x, w))"
      by (simp add: wp_def step_ok_of_def)
  qed
qed

lemma wp_wf_event_or_ok:
  assumes env: "wf_env_owned env x R G I" and w: "I w" and cur: "cur = wf_phase x"
    and f: "\<And>a y w'. I w' \<Longrightarrow> wf_frame x y \<Longrightarrow> (wf_names x \<Longrightarrow> wf_names y) \<Longrightarrow>
       (ch \<longrightarrow> fst a) \<Longrightarrow> snd a = wf_phase y \<Longrightarrow>
       wp (f a) (\<lambda>b s. wf_any I y (d b) s \<and> (fst a \<longrightarrow> d b) \<and> Q b (fst s)) (wf_err I y) (y, w')"
  shows "wp (seq (if c then wf_event_if env cur ev ch else ok (ch, cur)) f)
    (\<lambda>b s. wf_any I x (d b) s \<and> (ch \<longrightarrow> d b) \<and> Q b (fst s)) (wf_err I x) (x, w)"
proof (cases c)
  case True
  have "wp (seq (wf_event_if env cur ev ch) f)
      (\<lambda>b s. wf_any I x (d b) s \<and> (\<lambda>b y. (ch \<longrightarrow> d b) \<and> Q b y) b (fst s)) (wf_err I x) (x, w)"
  proof (rule wp_wf_event_then [where I = I and w = w and x = x and d = d, OF env w cur])
    fix a y w'
    assume a: "I w'" "wf_frame x y" "wf_names x \<Longrightarrow> wf_names y" "ch \<longrightarrow> fst a" "snd a = wf_phase y"
    show "wp (f a) (\<lambda>b s. wf_any I y (d b) s \<and> (fst a \<longrightarrow> d b) \<and> (ch \<longrightarrow> d b) \<and> Q b (fst s)) (wf_err I y) (y, w')"
      by (rule wp_mono [OF f [OF a]]) (use a(4) in auto)
  qed
  with True show ?thesis by simp
next
  case False
  then show ?thesis
    using f [of w x "(ch, cur)"] w cur by (simp add: wp_seq wp_ok)
qed

lemma wp_settle:
  assumes env: "wf_env_owned env x R G I" and w: "I w" and n: "wf_names x" and cur: "cur = wf_phase x"
    and create: "may_create suspended R"
  shows "wp (seq (if \<not> suspended then wf_event_if env cur ''start'' ch else ok (ch, cur)) (\<lambda>(ch, cur).
         seq (syncJobStatuses env) (\<lambda>syncChanged.
           if suspended then stop_jobs env (ch \<or> syncChanged) cur
           else run_jobs env (ch \<or> syncChanged) cur)))
     (\<lambda>b s. wf_any I x (fst b) s \<and> (ch \<longrightarrow> fst b) \<and> waits_or_none b) (wf_err I x) (x, w)"
proof (rule wp_wf_event_or_ok [where I = I and w = w and x = x, OF env w cur])
  fix a y w'
  assume a: "I w'" "wf_frame x y" "wf_names x \<Longrightarrow> wf_names y" "ch \<longrightarrow> fst a" "snd a = wf_phase y"
  obtain ch1 cur1 where p: "a = (ch1, cur1)" by (cases a)
  note env1 = wf_env_ok_frame [OF env a(2)]
  have "wp (seq (syncJobStatuses env) (\<lambda>syncChanged.
           if suspended then stop_jobs env (ch1 \<or> syncChanged) cur1
           else run_jobs env (ch1 \<or> syncChanged) cur1))
     (\<lambda>b s. wf_any I y (fst b) s \<and> (\<lambda>b _. (ch1 \<longrightarrow> fst b) \<and> waits_or_none b) b (fst s)) (wf_err I y) (y, w')"
  proof (rule wp_wf_synced_then [where I = I and w = w' and x = y, OF wp_syncJobStatuses [OF env1 a(1) a(3) [OF n]]])
    fix chs z w2
    assume z: "I w2" "wf_frame y z" "wf_names z" "wf_phase z = wf_phase y"
    note env2 = wf_env_ok_frame [OF env1 z(2)]
    have cur1: "cur1 = wf_phase z" using a(5) p z(4) by simp
    show "wp (if suspended then stop_jobs env (ch1 \<or> chs) cur1 else run_jobs env (ch1 \<or> chs) cur1)
       (\<lambda>b s. wf_any I z (fst b) s \<and> (chs \<longrightarrow> fst b) \<and> (ch1 \<longrightarrow> fst b) \<and> waits_or_none b) (wf_err I z) (z, w2)"
      using wp_mono [OF wp_stop_jobs [OF env2 z(1,3) cur1, of "ch1 \<or> chs"]]
        wp_mono [OF wp_run_jobs [OF env2 z(1,3) cur1, of "ch1 \<or> chs"]] create
      by (cases suspended) (simp_all add: may_create_def)
  qed
  then show "wp (case a of (ch, cur) \<Rightarrow> seq (syncJobStatuses env) (\<lambda>syncChanged.
           if suspended then stop_jobs env (ch \<or> syncChanged) cur else run_jobs env (ch \<or> syncChanged) cur))
     (\<lambda>b s. wf_any I y (fst b) s \<and> (fst a \<longrightarrow> fst b) \<and> waits_or_none b) (wf_err I y) (y, w')"
    by (simp add: p)
qed

lemma wp_advance:
  assumes env: "wf_env_owned env x R G I" and w: "I w" and n: "wf_names x" and create: "may_create suspended R"
  shows "wp (advance env suspended ch)
     (\<lambda>b s. wf_any I x (fst b) s \<and> ((ch \<longrightarrow> fst b) \<and> waits_or_none b)) (wf_err I x) (x, w)"
proof -
  let ?rest = "\<lambda>ch cur. seq (if \<not> suspended then wf_event_if env cur ''start'' ch else ok (ch, cur)) (\<lambda>(ch, cur).
         seq (syncJobStatuses env) (\<lambda>syncChanged.
           if suspended then stop_jobs env (ch \<or> syncChanged) cur
           else run_jobs env (ch \<or> syncChanged) cur))"
  let ?mid = "\<lambda>(ch, cur). if \<not> suspended \<and> fsm_Can (we_fsm env) workflowEvents cur ''resume'' then resume_workflow env cur
       else ?rest ch cur"
  let ?F = "seq (wf_event_if env (wf_phase x) ''init'' ch) (\<lambda>(ch, cur).
     seq (if suspended then wf_event_if env cur ''stop'' ch else ok (ch, cur)) ?mid)"
  have run: "advance env suspended ch (x, w) = ?F (x, w)" by (simp add: advance_def seq_def)
  have mid: "wp (?mid a) (\<lambda>b s. wf_any I z (fst b) s \<and> (fst a \<longrightarrow> fst b) \<and> waits_or_none b) (wf_err I z) (z, w2)"
    if z: "I w2" "wf_frame x z" "wf_names z" "snd a = wf_phase z" for a z w2
  proof -
    obtain ch2 cur2 where p: "a = (ch2, cur2)" by (cases a)
    note envz = wf_env_ok_frame [OF env z(2)]
    show ?thesis
    proof (cases "\<not> suspended \<and> fsm_Can (we_fsm env) workflowEvents cur2 ''resume''")
      case True
      show ?thesis
        unfolding p prod.case if_P [OF True]
        by (rule wp_mono [OF wp_resume_workflow [OF envz z(1)]]) (use True in auto)
    next
      case False
      show ?thesis
        unfolding p prod.case if_not_P [OF False]
        using wp_settle [OF envz z(1,3) _ create, of cur2 ch2] z(4) by (simp add: p)
    qed
  qed
  have "wp ?F (\<lambda>b s. wf_any I x (fst b) s \<and> (\<lambda>b _. (ch \<longrightarrow> fst b) \<and> waits_or_none b) b (fst s)) (wf_err I x) (x, w)"
  proof (rule wp_wf_event_then [where I = I and w = w and x = x and d = fst, OF env w refl])
    fix a y w'
    assume a: "I w'" "wf_frame x y" "wf_names x \<Longrightarrow> wf_names y" "ch \<longrightarrow> fst a" "snd a = wf_phase y"
    obtain ch1 cur1 where p: "a = (ch1, cur1)" by (cases a)
    have cur1: "cur1 = wf_phase y" using a(5) p by simp
    note env1 = wf_env_ok_frame [OF env a(2)]
    have "wp (seq (if suspended then wf_event_if env cur1 ''stop'' ch1 else ok (ch1, cur1)) ?mid)
       (\<lambda>b s. wf_any I y (fst b) s \<and> (ch1 \<longrightarrow> fst b) \<and> (\<lambda>b _. waits_or_none b) b (fst s)) (wf_err I y) (y, w')"
    proof (rule wp_wf_event_or_ok [where I = I and w = w' and x = y and d = fst, OF env1 a(1) cur1])
      fix a1 z w2
      assume z: "I w2" "wf_frame y z" "wf_names y \<Longrightarrow> wf_names z" "ch1 \<longrightarrow> fst a1" "snd a1 = wf_phase z"
      show "wp (?mid a1) (\<lambda>b s. wf_any I z (fst b) s \<and> (fst a1 \<longrightarrow> fst b) \<and> (\<lambda>b _. waits_or_none b) b (fst s)) (wf_err I z) (z, w2)"
        using mid [OF z(1) wf_frame_trans [OF a(2) z(2)] z(3) [OF a(3) [OF n]] z(5)] by simp
    qed
    then have "wp (seq (if suspended then wf_event_if env cur1 ''stop'' ch1 else ok (ch1, cur1)) ?mid)
       (\<lambda>b s. wf_any I y (fst b) s \<and> (ch1 \<longrightarrow> fst b) \<and> (ch \<longrightarrow> fst b) \<and> waits_or_none b) (wf_err I y) (y, w')"
      by (rule wp_mono) (use a(4) p in auto)
    then show "wp (case a of (ch, cur) \<Rightarrow> seq (if suspended then wf_event_if env cur ''stop'' ch else ok (ch, cur)) ?mid)
       (\<lambda>b s. wf_any I y (fst b) s \<and> (fst a \<longrightarrow> fst b) \<and> (\<lambda>b _. (ch \<longrightarrow> fst b) \<and> waits_or_none b) b (fst s))
       (wf_err I y) (y, w')"
      by (simp add: p)
  qed
  then show ?thesis
    unfolding wp_run_eq [where m = "advance env suspended ch" and m' = ?F and s' = "(x, w)", OF run] by simp
qed

lemma wp_wf_reconcile:
  assumes env: "wf_env_owned env x R G I" and w: "I w" and create: "may_create (ws_suspended (w_spec x)) R"
  shows "wp (wf_reconcileWithStateMachine env) (\<lambda>b s. wf_any I x (fst b) s \<and> waits_or_none b) (wf_err I x) (x, w)"
proof -
  let ?sus = "ws_suspended (w_spec x)" and ?old = "map wjs_name (elems (ww_jobs (w_status x)))"
  let ?V = "seq wf_snapshot (\<lambda>changed.
                 seq (if \<not> ?sus then markWorkflowValid env else ok False) (\<lambda>marked.
                 seq (\<lambda>(wfl, w). on_snd (pruneJobsWithTemplates env wfl ?old) (wfl, w)) (\<lambda>waiting.
                   if waiting then ok (changed \<or> marked, Some ErrRequeueAfterChildCleanup)
                   else advance env ?sus (changed \<or> marked))))"
  have invalid: "wp (seq (markWorkflowInvalid env msg) (\<lambda>ch. ok (ch, None)))
      (\<lambda>b s. wf_any I x (fst b) s \<and> waits_or_none b) (wf_err I x) (x, w)" for msg
    unfolding wp_seq wp_ok
    by (rule wp_mono [OF wp_markWorkflowInvalid [OF env w]]) (simp_all add: step_ok_of_def)
  have valid: "wp (if \<not> ?sus then markWorkflowValid env else ok False)
      (\<lambda>ch s. wf_ok I y ch s \<and> wf_phase (fst s) = wf_phase y) (wf_err I y) (y, w')"
    if "wf_env_owned env y R G I" "I w'" for y w'
    using wp_markWorkflowValid [OF that] that(2) by (simp add: wp_ok wff.step_ok_refl)
  have prune: "wp (seq (\<lambda>(wfl, w). on_snd (pruneJobsWithTemplates env wfl ?old) (wfl, w)) (\<lambda>waiting.
                   if waiting then ok (ch, Some ErrRequeueAfterChildCleanup) else advance env ?sus ch))
      (\<lambda>b s. wf_any I y (fst b) s \<and> (\<lambda>b _. (ch \<longrightarrow> fst b) \<and> waits_or_none b) b (fst s)) (wf_err I y) (y, w')"
    if y: "wf_env_owned env y R G I" "I w'" "wf_names y" for ch y w'
  proof (rule wp_wf_world_then [where I = I and w = w' and m = "\<lambda>y. pruneJobsWithTemplates env y ?old" and x = y,
        OF keeps_pruneJobs [OF wf_env_ok_client [OF y(1)]] y(2)])
    fix a w2
    assume "I w2"
    then show "wp (if a then ok (ch, Some ErrRequeueAfterChildCleanup) else advance env ?sus ch)
        (\<lambda>b s. wf_any I y (fst b) s \<and> (ch \<longrightarrow> fst b) \<and> waits_or_none b) (wf_err I y) (y, w2)"
      using wp_advance [OF y(1) _ y(3) create] by (simp add: wp_ok wft.step_ok_refl)
  qed
  have marked: "wp (seq (if \<not> ?sus then markWorkflowValid env else ok False) (\<lambda>marked.
                 seq (\<lambda>(wfl, w). on_snd (pruneJobsWithTemplates env wfl ?old) (wfl, w)) (\<lambda>waiting.
                   if waiting then ok (ch \<or> marked, Some ErrRequeueAfterChildCleanup)
                   else advance env ?sus (ch \<or> marked))))
      (\<lambda>b s. wf_any I y (fst b) s \<and> (\<lambda>b _. (ch \<longrightarrow> fst b) \<and> waits_or_none b) b (fst s)) (wf_err I y) (y, w')"
    if y: "wf_env_owned env y R G I" "I w'" "wf_names y" for ch y w'
  proof (rule wft.wp_steps [where c = "\<lambda>b. b", OF wf_forget [OF valid [OF y(1,2)]]])
    fix m z w2
    assume z: "I w2" "wf_frame y z" "True \<Longrightarrow> True" "wf_phase z = wf_phase y \<and> (wf_names y \<longrightarrow> wf_names z)"
    show "wp (seq (\<lambda>(wfl, w). on_snd (pruneJobsWithTemplates env wfl ?old) (wfl, w)) (\<lambda>waiting.
                   if waiting then ok (ch \<or> m, Some ErrRequeueAfterChildCleanup)
                   else advance env ?sus (ch \<or> m)))
       (\<lambda>b s. wf_any I z (fst b) s \<and> (m \<longrightarrow> fst b) \<and> (ch \<longrightarrow> fst b) \<and> waits_or_none b) (wf_err I z) (z, w2)"
      by (rule wp_mono [OF prune [OF wf_env_ok_frame [OF y(1) z(2)] z(1)]]) (use z(4) y(3) in auto)
  qed
  have V: "wp ?V (\<lambda>b s. wf_any I x (fst b) s \<and> (\<lambda>b _. waits_or_none b) b (fst s)) (wf_err I x) (x, w)"
  proof (rule wp_wf_synced_then [where I = I and w = w and x = x and d = fst, OF wp_wf_snapshot [where I = I and w = w, OF w]])
    fix ch y w'
    assume y: "I w'" "wf_frame x y" "wf_names y" "wf_phase y = wf_phase x"
    show "wp (seq (if \<not> ?sus then markWorkflowValid env else ok False) (\<lambda>marked.
                 seq (\<lambda>(wfl, w). on_snd (pruneJobsWithTemplates env wfl ?old) (wfl, w)) (\<lambda>waiting.
                   if waiting then ok (ch \<or> marked, Some ErrRequeueAfterChildCleanup)
                   else advance env ?sus (ch \<or> marked))))
       (\<lambda>b s. wf_any I y (fst b) s \<and> (ch \<longrightarrow> fst b) \<and> waits_or_none b) (wf_err I y) (y, w')"
      using marked [OF wf_env_ok_frame [OF env y(2)] y(1,3)] by simp
  qed
  show ?thesis
  proof (cases "if ?sus then None else (case newDAG (ws_job_templates (w_spec x)) of Inl e \<Rightarrow> Some e | Inr _ \<Rightarrow> None)")
    case None
    have "wf_reconcileWithStateMachine env (x, w) = ?V (x, w)"
      by (simp only: wf_reconcileWithStateMachine_def Let_def prod.case None option.case)
    from wp_run_eq [where m = "wf_reconcileWithStateMachine env" and m' = ?V and s' = "(x, w)", OF this] V
    show ?thesis by simp
  next
    case (Some e)
    let ?M = "seq (markWorkflowInvalid env (error_text e)) (\<lambda>ch. ok (ch, None))"
    have "wf_reconcileWithStateMachine env (x, w) = ?M (x, w)"
      by (simp only: wf_reconcileWithStateMachine_def Let_def prod.case Some option.case)
    from wp_run_eq [where m = "wf_reconcileWithStateMachine env" and m' = ?M and s' = "(x, w)", OF this] invalid
    show ?thesis by simp
  qed
qed

end
