(* ===== verification/Workflow_Controller.thy ===== *)
theory Workflow_Controller
  imports Workflow_Steps
begin

text \<open>
  The Workflow controller as a whole (\<open>controllermanager/workflow/workflow_controller.go\<close>): one
  request with the clean-up finalizer, the contract of the generic reconciler, and the
  properties of the controller. The results of \<open>Reconcile\<close> are \<open>RequeueAfter\<close> in
  nanoseconds. The API server of the witnesses is at the end of the theory's first half.
\<close>

abbreviation CleanupFinalizer :: string where
  "CleanupFinalizer \<equiv> ''workflows.rlinf.io/job-cleanup''"

section \<open>Operations\<close>

definition wf_IsTerminal :: "workflow \<Rightarrow> bool" where
  "wf_IsTerminal x = False"

definition wf_reconcile_deleting :: "'w wf_env \<Rightarrow> workflow \<Rightarrow> ('w, int) prog" where
  "wf_reconcile_deleting env x =
     seq (deleteOwnedJobs env x) (\<lambda>pending.
       if pending then ok ChildCleanupRequeue
       else
         seq (wrap ''remove Workflow cleanup finalizer''
                (we_update_workflow env (x\<lparr>w_meta := remove_finalizer (w_meta x) CleanupFinalizer\<rparr>)))
           (\<lambda>_. ok 0))"

definition wf_Reconcile :: "'w wf_env \<Rightarrow> string \<Rightarrow> string \<Rightarrow> ('w, int) prog" where
  "wf_Reconcile env ns name =
     seq (attempt (we_get_workflow env ns name)) (\<lambda>r. case r of
       Inl e \<Rightarrow> (if is_not_found e then ok 0 else fail e)
     | Inr x \<Rightarrow>
         (if time_is_zero (om_deletion (w_meta x)) then
            (if \<not> contains_finalizer (w_meta x) CleanupFinalizer then
               seq (wrap ''add Workflow cleanup finalizer''
                      (we_update_workflow env (x\<lparr>w_meta := add_finalizer (w_meta x) CleanupFinalizer\<rparr>)))
                 (\<lambda>_. ok 1)
             else ReconcileWith (we_get_workflow env) wf_IsTerminal (wf_ReconcileStateMachine env)
                    (we_update_workflow_status env) ns name)
          else if \<not> contains_finalizer (w_meta x) CleanupFinalizer then ok 0
          else wf_reconcile_deleting env x))"

section \<open>The state machine step\<close>

definition wf_observed :: "workflow \<Rightarrow> int" where
  "wf_observed x = ww_observed_generation (w_status x)"

lemma wf_ReconcileStateMachine_run:
  assumes env: "wf_env_owned env x R G I" and create: "may_create (ws_suspended (w_spec x)) R" and w: "I w"
  shows "wp (wf_ReconcileStateMachine env)
     (\<lambda>(changed, err) (y, w').
        I w' \<and> w_meta y = w_meta x \<and> w_spec y = w_spec x \<and> (changed \<or> y = x) \<and>
        (case err of None \<Rightarrow> wf_observed y = om_generation (w_meta x)
         | Some e \<Rightarrow> e = ErrRequeueAfterChildCleanup \<and> wf_observed y = wf_observed x))
     (\<lambda>e (y, w'). I w' \<and> w_meta y = w_meta x \<and> w_spec y = w_spec x \<and> no_panic e \<and> wf_observed y = wf_observed x)
     (x, w)"
  unfolding wf_ReconcileStateMachine_def wp_seq
  by (rule wp_mono [OF wp_wf_reconcile [OF env w create]])
     (auto simp: step_ok_of_def step_err_of_def wf_frame_def wf_observed_def wp_def ok_def split: prod.splits if_splits)

lemma may_create_all [simp]: "may_create suspended (\<lambda>_. True)"
  by (simp add: may_create_def)

lemmas wf_run_all = wf_ReconcileStateMachine_run [OF _ may_create_all]

definition wf_good :: "'w wf_env \<Rightarrow> workflow \<times> 'w \<Rightarrow> bool" where
  "wf_good env = (\<lambda>(x, w). wf_env_ok env x (\<lambda>_. True) (\<lambda>_. True))"

interpretation wf_rec: reconciler "wf_ReconcileStateMachine env" "wf_good env" for env
proof
  fix s err s'
  assume g: "wf_good env s" and r: "wf_ReconcileStateMachine env s = (Inr (False, err), s')"
  obtain x w where s: "s = (x, w)" by (cases s)
  from wpD(1) [OF wf_run_all [of env x "\<lambda>_. True" "\<lambda>_. True" w], of "(False, err)" s'] g r s
  show "fst s' = fst s" by (auto simp: wf_good_def)
next
  fix s e s'
  assume g: "wf_good env s" and r: "wf_ReconcileStateMachine env s = (Inl e, s')"
  obtain x w where s: "s = (x, w)" by (cases s)
  from wpD(2) [OF wf_run_all [of env x "\<lambda>_. True" "\<lambda>_. True" w], of e s'] g r s
  show "no_panic e" by (auto simp: wf_good_def)
next
  fix s changed e s'
  assume g: "wf_good env s" and r: "wf_ReconcileStateMachine env s = (Inr (changed, Some e), s')"
  obtain x w where s: "s = (x, w)" by (cases s)
  from wpD(1) [OF wf_run_all [of env x "\<lambda>_. True" "\<lambda>_. True" w], of "(changed, Some e)" s'] g r s
  show "errors_is e ''ErrRequeueAfterChildCleanup''" by (auto simp: wf_good_def)
qed

section \<open>An API server for the witnesses\<close>

text \<open>A store of Jobs and Workflows with a clock, a log of the Jobs written and one of the names created; not code of the repository.\<close>

record store =
  st_jobs :: "job list"
  st_workflows :: "workflow list"
  st_clock :: int
  st_log :: "object_meta list"
  st_created :: "string list"

definition st_now :: "store \<Rightarrow> time \<times> store" where
  "st_now w = (st_clock w + 1, w\<lparr>st_clock := st_clock w + 1\<rparr>)"

definition st_condition :: "condition list \<Rightarrow> condition \<Rightarrow> store \<Rightarrow> (bool \<times> condition list) \<times> store" where
  "st_condition cs c w =
     (if \<exists>x \<in> set cs. cn_type x = cn_type c \<and> cn_status x = cn_status c \<and> cn_reason x = cn_reason c \<and>
           cn_message x = cn_message c \<and> cn_observed_generation x = cn_observed_generation c
      then ((False, cs), w)
      else ((True, filter (\<lambda>x. cn_type x \<noteq> cn_type c) cs @ [c\<lparr>cn_transition := st_clock w\<rparr>]), w))"

definition st_ref :: "object_meta \<Rightarrow> object_meta \<Rightarrow> go_error + object_meta" where
  "st_ref owner m =
     (if (case om_controller m of None \<Rightarrow> False | Some r \<Rightarrow> or_uid r \<noteq> om_uid owner)
      then Inl (ErrText ''already owned by another controller'')
      else Inr (m\<lparr>om_controller := Some \<lparr>or_api_version = GroupVersion, or_kind = ''Workflow'',
                                         or_name = om_name owner, or_uid = om_uid owner\<rparr>\<rparr>))"

definition st_find :: "string \<Rightarrow> store \<Rightarrow> job option" where
  "st_find n w = find (\<lambda>j. om_name (j_meta j) = n) (st_jobs w)"

definition st_get :: "string \<Rightarrow> (store, job) prog" where
  "st_get n = (\<lambda>w. case st_find n w of None \<Rightarrow> (Inl (ErrKube NotFound), w) | Some j \<Rightarrow> (Inr j, w))"

definition st_logged :: "job \<Rightarrow> store \<Rightarrow> store" where
  "st_logged j w = w\<lparr>st_log := st_log w @ [j_meta j]\<rparr>"

definition st_create :: "job \<Rightarrow> (store, job) prog" where
  "st_create j = (\<lambda>w. let w = st_logged j w in
     case st_find (om_name (j_meta j)) w of
       Some _ \<Rightarrow> (Inl (ErrKube AlreadyExists), w) | None \<Rightarrow> (Inr j, w\<lparr>st_jobs := st_jobs w @ [j], st_created := st_created w @ [om_name (j_meta j)]\<rparr>))"

definition st_update :: "job \<Rightarrow> (store, job) prog" where
  "st_update j = (\<lambda>w. let w = st_logged j w in
     case st_find (om_name (j_meta j)) w of
       None \<Rightarrow> (Inl (ErrKube NotFound), w)
     | Some _ \<Rightarrow> (Inr j, w\<lparr>st_jobs := map (\<lambda>x. if om_name (j_meta x) = om_name (j_meta j) then j else x) (st_jobs w)\<rparr>))"

definition st_delete :: "job \<Rightarrow> (store, unit) prog" where
  "st_delete j = (\<lambda>w. let w = st_logged j w in
     case st_find (om_name (j_meta j)) w of
       None \<Rightarrow> (Inl (ErrKube NotFound), w)
     | Some _ \<Rightarrow> (Inr (), w\<lparr>st_jobs := filter (\<lambda>x. om_name (j_meta x) \<noteq> om_name (j_meta j)) (st_jobs w)\<rparr>))"

definition st_get_workflow :: "string \<Rightarrow> string \<Rightarrow> (store, workflow) prog" where
  "st_get_workflow ns n = (\<lambda>w. case find (\<lambda>x. om_name (w_meta x) = n) (st_workflows w) of
     None \<Rightarrow> (Inl (ErrKube NotFound), w) | Some x \<Rightarrow> (Inr x, w))"

definition st_put_workflow :: "workflow \<Rightarrow> (store, workflow) prog" where
  "st_put_workflow x = (\<lambda>w. (Inr x, w\<lparr>st_workflows :=
     map (\<lambda>y. if om_name (w_meta y) = om_name (w_meta x) then x else y) (st_workflows w)\<rparr>))"

definition st_env :: "store wf_env" where
  "st_env = \<lparr>we_fsm = table_fsm, we_now = st_now, we_set_condition = st_condition, we_set_controller_ref = st_ref,
     we_range = (\<lambda>keys w. (rev keys, w)),
     we_list_labelled = (\<lambda>n. reading (\<lambda>w. filter (\<lambda>j. mread (om_labels (j_meta j)) workflowLabel = n) (st_jobs w))),
     we_list_jobs = reading st_jobs, we_get_job = st_get, we_create_job = st_create, we_update_job = st_update,
     we_delete_job = st_delete, we_get_workflow = st_get_workflow, we_update_workflow = st_put_workflow,
     we_update_workflow_status = st_put_workflow\<rparr>"

text \<open>The invariants the witnesses use: of the log of written Jobs and of the created names.\<close>

definition log_all :: "(object_meta \<Rightarrow> bool) \<Rightarrow> (string \<Rightarrow> bool) \<Rightarrow> store \<Rightarrow> bool" where
  "log_all P C w \<longleftrightarrow> (\<forall>m \<in> set (st_log w). P m) \<and> (\<forall>n \<in> set (st_created w). C n)"

lemma st_ops_log:
  assumes "P (j_meta j)"
  shows "C (om_name (j_meta j)) \<Longrightarrow> keeps (log_all P C) (st_create j) (\<lambda>_. True) no_panic"
    and "keeps (log_all P C) (st_update j) (\<lambda>j'. om_annotations (j_meta j') = om_annotations (j_meta j) \<and>
      om_controller (j_meta j') = om_controller (j_meta j)) no_panic"
    and "keeps (log_all P C) (st_delete j) (\<lambda>_. True) no_panic"
  using assms
  by (auto simp: keeps_def wp_def st_create_def st_update_def st_delete_def Let_def st_logged_def log_all_def
      split: option.split)

lemma st_env_ok:
  assumes create: "\<And>t n. R t \<Longrightarrow> n = ChildName (om_name (w_meta x)) (wt_name t) \<Longrightarrow> C n"
    and touch: "\<And>m. may_touch_job x m \<Longrightarrow> P m"
  shows "wf_env_ok st_env x R (log_all P C)"
proof -
  let ?I = "log_all P C"
  have ref: "case st_ref (w_meta x) m of Inl e \<Rightarrow> no_panic e | Inr m' \<Rightarrow> m' = m\<lparr>om_controller := Some (wf_ref x)\<rparr>" for m
    by (simp add: st_ref_def wf_ref_def split: option.split)
  have get: "keeps ?I (st_get n) (\<lambda>_. True) no_panic" for n
    by (auto simp: keeps_def wp_def st_get_def split: option.split)
  have mk: "keeps ?I (st_create j) (\<lambda>_. True) no_panic"
    if "R t" "om_name (j_meta j) = ChildName (om_name (w_meta x)) (wt_name t)" "om_controller (j_meta j) = Some (wf_ref x)" for t and j :: job
    by (rule st_ops_log(1) [where P = P and C = C and j = j, OF touch [OF touch_controlled [OF controlled_by_wf_ref [OF that(3)]]] create [OF that(1,2)]])
  have upd: "keeps ?I (st_update j) (\<lambda>j'. om_annotations (j_meta j') = om_annotations (j_meta j) \<and>
      om_controller (j_meta j') = om_controller (j_meta j)) no_panic" if "may_touch_job x (j_meta j)" for j
    by (rule st_ops_log(2) [where P = P and C = C and j = j, OF touch [OF that]])
  have del: "keeps ?I (st_delete j) (\<lambda>_. True) no_panic" if "may_touch_job x (j_meta j)" for j
    by (rule st_ops_log(3) [where P = P and C = C and j = j, OF touch [OF that]])
  have client: "job_client st_env x R ?I"
    unfolding job_client_for_def st_env_def wf_env.select_convs simp_thms ball_triv
    by (intro conjI allI impI) (rule ref, rule keeps_reading, rule keeps_reading, rule get, rule mk, assumption+, rule upd, assumption, rule del, assumption)
  have cond: "?I (snd (st_condition cs c w))" if "?I w" for cs c w
    using that by (simp add: st_condition_def)
  have same: "cs' = cs" if "st_condition cs c w = ((False, cs'), w')" for cs c w cs' w'
    using that by (auto simp: st_condition_def split: if_splits)
  have now: "?I (snd (st_now w))" if "?I w" for w
    using that by (simp add: st_now_def log_all_def)
  have range: "?I (snd (rev keys, w)) \<and> set (fst (rev keys, w)) = set keys" if "?I w" for keys w
    using that by simp
  show ?thesis
    unfolding wf_env_owned_def
  proof (intro conjI client)
    show "fsm_documented (we_fsm st_env)" by (simp add: st_env_def table_fsm_documented)
    show "\<forall>w. ?I w \<longrightarrow> ?I (snd (we_now st_env w))" using now by (simp add: st_env_def)
    show "\<forall>cs c w. ?I w \<longrightarrow> ?I (snd (we_set_condition st_env cs c w))" using cond by (simp add: st_env_def)
    show "\<forall>cs c w cs' w'. we_set_condition st_env cs c w = ((False, cs'), w') \<longrightarrow> cs' = cs"
      using same by (simp add: st_env_def)
    show "\<forall>keys w. ?I w \<longrightarrow> ?I (snd (we_range st_env keys w)) \<and> set (fst (we_range st_env keys w)) = set keys"
      using range by (simp add: st_env_def)
  qed
qed

text \<open>A Job \<open>f\<close> of somebody else that the store has as it was.\<close>

definition job_kept :: "job \<Rightarrow> store \<Rightarrow> bool" where
  "job_kept f w \<longleftrightarrow> filter (\<lambda>j. om_name (j_meta j) = om_name (j_meta f)) (st_jobs w) = [f]"

definition not_named :: "string \<Rightarrow> string \<times> string \<times> string \<Rightarrow> bool" where
  "not_named n i \<longleftrightarrow> fst (snd i) \<noteq> n"

lemma not_named_identity: "not_named n (identity_of m) \<longleftrightarrow> om_name m \<noteq> n"
  by (simp add: not_named_def identity_of_def)

lemma filter_named_skip:
  assumes "om_name (j_meta k) \<noteq> n"
  shows "filter (\<lambda>j. om_name (j_meta j) = n) (map (\<lambda>x. if om_name (j_meta x) = om_name (j_meta k) then k else x) js)
      = filter (\<lambda>j. om_name (j_meta j) = n) js"
    and "filter (\<lambda>j. om_name (j_meta j) \<noteq> om_name (j_meta k) \<and> om_name (j_meta j) = n) js
      = filter (\<lambda>j. om_name (j_meta j) = n) js"
  using assms by (induction js) auto

lemma st_env_foreign:
  assumes f: "\<not> may_touch_job x (j_meta f)"
  shows "wf_env_owned st_env x (\<lambda>_. True) (not_named (om_name (j_meta f))) (job_kept f)"
proof -
  let ?I = "job_kept f" and ?G = "not_named (om_name (j_meta f))"
  have seen: "om_name (j_meta j) \<noteq> om_name (j_meta f)"
    if "?I w" "j \<in> set (st_jobs w)" "may_touch_job x (j_meta j)" for j w
  proof
    assume "om_name (j_meta j) = om_name (j_meta f)"
    with that(2) have "j \<in> set (filter (\<lambda>j. om_name (j_meta j) = om_name (j_meta f)) (st_jobs w))" by simp
    with that(1) have "j = f" unfolding job_kept_def by simp
    with f that(3) show False by simp
  qed
  have found: "st_find (om_name (j_meta f)) w \<noteq> None" if "?I w" for w
  proof -
    have "f \<in> set (filter (\<lambda>j. om_name (j_meta j) = om_name (j_meta f)) (st_jobs w))"
      using that by (simp add: job_kept_def)
    then show ?thesis by (auto simp: st_find_def find_None_iff)
  qed
  have seen_find: "?G (identity_of (j_meta j))"
    if "?I w" "st_find n w = Some j" "may_touch_job x (j_meta j)" for n j w
    using that seen by (auto simp: not_named_identity st_find_def find_Some_iff dest: nth_mem)
  have find_logged: "st_find n (st_logged j w) = st_find n w" for n j w
    by (simp add: st_find_def st_logged_def)
  have jobs_logged: "st_jobs (st_logged j w) = st_jobs w" for j w
    by (simp add: st_logged_def)
  have mk: "keeps ?I (st_create j) (\<lambda>_. True) no_panic" for j
    using found by (cases "om_name (j_meta j) = om_name (j_meta f)")
      (fastforce simp: keeps_def wp_def st_create_def Let_def find_logged job_kept_def jobs_logged split: option.split)+
  have upd: "keeps ?I (st_update j) (\<lambda>j'. om_annotations (j_meta j') = om_annotations (j_meta j) \<and>
      om_controller (j_meta j') = om_controller (j_meta j) \<and> ?G (identity_of (j_meta j'))) no_panic"
    if "?G (identity_of (j_meta j))" for j
    using that by (auto simp: keeps_def wp_def st_update_def Let_def job_kept_def st_logged_def not_named_identity
        filter_named_skip split: option.split)
  have del: "keeps ?I (st_delete j) (\<lambda>_. True) no_panic" if "?G (identity_of (j_meta j))" for j
    using that by (auto simp: keeps_def wp_def st_delete_def Let_def job_kept_def st_logged_def not_named_identity
        filter_named_skip split: option.split)
  have get: "keeps ?I (st_get n) (\<lambda>j. may_touch_job x (j_meta j) \<longrightarrow> ?G (identity_of (j_meta j))) no_panic" for n
    by (auto simp: keeps_def wp_def st_get_def seen_find split: option.split)
  have listing: "keeps ?I (reading (\<lambda>w. filter P (st_jobs w)))
      (\<lambda>js. \<forall>j \<in> set js. may_touch_job x (j_meta j) \<longrightarrow> ?G (identity_of (j_meta j))) no_panic" for P
    by (auto simp: keeps_def wp_def reading_def not_named_identity dest: seen)
  have ref: "case st_ref (w_meta x) m of Inl e \<Rightarrow> no_panic e | Inr m' \<Rightarrow> m' = m\<lparr>om_controller := Some (wf_ref x)\<rparr>" for m
    by (simp add: st_ref_def wf_ref_def split: option.split)
  have client: "job_client_for st_env x (\<lambda>_. True) ?G ?I"
    using listing [of "\<lambda>_. True"] unfolding job_client_for_def st_env_def wf_env.select_convs
    by (simp add: ref listing get mk upd del)
  have same: "cs' = cs" if "st_condition cs c w = ((False, cs'), w')" for cs c w cs' w'
    using that by (auto simp: st_condition_def split: if_splits)
  have cond: "?I (snd (st_condition cs c w))" if "?I w" for cs c w
    using that by (simp add: st_condition_def)
  show ?thesis
    unfolding wf_env_owned_def using client table_fsm_documented same cond
    by (simp add: st_env_def st_now_def job_kept_def)
qed

definition demo_workflow :: workflow where
  "demo_workflow =
     \<lparr>w_meta = \<lparr>om_name = ''pipe'', om_namespace = [], om_uid = ''w-1'', om_resource_version = ''1'', om_generation = 1,
                om_labels = None, om_annotations = None, om_finalizers = Some [CleanupFinalizer],
                om_controller = None, om_deletion = None\<rparr>,
      w_spec = \<lparr>ws_job_templates = demo_templates, ws_suspended = False\<rparr>,
      w_status = \<lparr>ww_phase = [], ww_observed_generation = 0, ww_jobs = None, ww_conditions = [],
                  ww_start_time = None, ww_end_time = None\<rparr>\<rparr>"

definition demo_store :: store where
  "demo_store = \<lparr>st_jobs = [], st_workflows = [demo_workflow], st_clock = 3, st_log = [], st_created = []\<rparr>"

lemma demo_store_log: "log_all P C demo_store"
  by (simp add: log_all_def demo_store_def)

section \<open>Properties\<close>

text \<open>
  C5. A Workflow touches only its own Jobs, judged by what it read and not by what it sends.
  Let \<open>G\<close> be the identities (namespace, name, UID) of the Jobs the Workflow may touch: those
  whose controller is the Workflow by UID, kind and API version, or that have no controller
  and carry the Workflow's UID, or neither and its label. Every property of the world that
  reads keep, that creating the Job of a template under the Workflow's control keeps, and
  that updating or deleting a Job with an identity in \<open>G\<close> keeps, still holds after the state
  machine, whatever it returns; the metadata and the spec of the Workflow are not written. A
  Job that reads show as foreign is in no such \<open>G\<close>, so the check in \<open>ensureJobOwnership\<close> is
  what keeps it as it is.
\<close>
theorem workflow_touches_own_jobs:
  assumes "wf_env_owned env x (\<lambda>_. True) G I" and "I w" and "wf_ReconcileStateMachine env (x, w) = (r, (y, w'))"
  shows "I w' \<and> w_meta y = w_meta x \<and> w_spec y = w_spec x"
  using wpD [OF wf_run_all [OF assms(1,2)]] assms(3) by (cases r) fastforce+

text \<open>
  A Workflow of two independent Jobs, and a store with a Job that a user created without any
  owner under the name of one and a Job from before the ownership annotations, known by its
  label only, under the name of the other. \<open>SetControllerReference\<close> would accept both.
\<close>

definition contested_workflow :: workflow where
  "contested_workflow = demo_workflow\<lparr>w_spec := (w_spec demo_workflow)\<lparr>ws_job_templates :=
     map (\<lambda>t. t\<lparr>wt_dependencies := []\<rparr>) (rev demo_templates)\<rparr>\<rparr>"

definition stored_job :: "string \<Rightarrow> go_map \<Rightarrow> job" where
  "stored_job n labels = \<lparr>j_meta = (w_meta demo_workflow)\<lparr>om_name := n, om_uid := ''j9'', om_labels := labels\<rparr>,
     j_spec = wt_spec (hd demo_templates),
     j_status = \<lparr>js_phase = PhaseRunning, js_observed_generation = 0, js_tasks = None, js_conditions = [],
                 js_start_time = None, js_end_time = None\<rparr>\<rparr>"

definition foreign_job :: job where
  "foreign_job = stored_job ''pipe-train'' None"

definition contested_store :: store where
  "contested_store = demo_store\<lparr>st_jobs := [stored_job ''pipe-prep'' (Some [workflowLabel \<mapsto> ''pipe'']), foreign_job]\<rparr>"

theorem workflow_touches_own_jobs_witness:
  "case wf_ReconcileStateMachine st_env (contested_workflow, contested_store) of
     (r, (y, w')) \<Rightarrow> job_kept foreign_job w' \<and> isl r \<and> map om_name (st_log w') = [''pipe-prep'']"
proof -
  obtain r y w' where run: "wf_ReconcileStateMachine st_env (contested_workflow, contested_store) = (r, (y, w'))"
    by (metis prod.exhaust)
  have foreign: "\<not> may_touch_job contested_workflow (j_meta foreign_job)"
    by (simp add: may_touch_job_def foreign_job_def stored_job_def contested_workflow_def demo_workflow_def)
  have start: "job_kept foreign_job contested_store"
    by (simp add: job_kept_def contested_store_def foreign_job_def stored_job_def)
  have "case wf_ReconcileStateMachine st_env (contested_workflow, contested_store) of
     (r, (y, w')) \<Rightarrow> isl r \<and> map om_name (st_log w') = [''pipe-prep'']"
    by code_simp
  with workflow_touches_own_jobs [OF st_env_foreign [OF foreign] start run] show ?thesis by (simp add: run)
qed

text \<open>
  C27. The Workflow state machine never panics: with a client that returns errors instead of
  panicking, no error it returns is a run-time panic. In particular the status pointer that
  \<open>reconcileDAG\<close> writes through is never nil.
\<close>
theorem workflow_machine_never_panics:
  assumes "wf_env_ok env x (\<lambda>_. True) I" and "I w" and "wf_ReconcileStateMachine env (x, w) = (Inl e, s)"
  shows "\<not> is_panic e"
  using wpD(2) [OF wf_run_all [OF assms(1,2)] assms(3)] by (auto split: prod.splits)

definition refusing_env :: "store wf_env" where
  "refusing_env = st_env\<lparr>we_create_job := (\<lambda>_. fail (ErrText ''quota exceeded''))\<rparr>"

theorem workflow_machine_never_panics_witness:
  "\<exists>e s. wf_ReconcileStateMachine refusing_env (demo_workflow, demo_store) = (Inl e, s) \<and> \<not> is_panic e"
proof -
  have "wf_env_ok st_env demo_workflow (\<lambda>_. True) (log_all (\<lambda>_. True) (\<lambda>_. True))" by (rule st_env_ok) simp_all
  then have env: "wf_env_ok refusing_env demo_workflow (\<lambda>_. True) (log_all (\<lambda>_. True) (\<lambda>_. True))"
    unfolding wf_env_owned_def job_client_for_def refusing_env_def by (auto intro: keeps_fail)
  have "isl (fst (wf_ReconcileStateMachine refusing_env (demo_workflow, demo_store)))" by code_simp
  then obtain e s where r: "wf_ReconcileStateMachine refusing_env (demo_workflow, demo_store) = (Inl e, s)"
    using run_Inl by blast
  from workflow_machine_never_panics [OF env demo_store_log r] r show ?thesis by blast
qed

text \<open>
  C6. No Job starts before its dependencies: \<open>reconcileDAG\<close> creates a Job only for a template
  whose status has no phase and whose dependencies have all Succeeded in the status it starts
  from. Stated over any property of the world that such creations keep, and the accesses of
  \<open>workflow_touches_own_jobs\<close>; the status list holds one entry per template.
\<close>
theorem dag_creates_only_ready:
  assumes "wf_env_ok env x (\<lambda>t. t \<in> set (ws_job_templates (w_spec x)) \<and> ready_template (job_status_of x) t) I"
    and "I w" and "wf_names x" and "reconcileDAG env (x, w) = (r, (y, w'))"
  shows "I w'"
  using wpD [OF wp_reconcileDAG [OF assms(1-3)]] assms(4)
  by (cases r) (fastforce simp: step_ok_of_def step_err_of_def)+

definition started_workflow :: workflow where
  "started_workflow = set_status_jobs (Some [blank_job_status ''prep'', blank_job_status ''train'']) demo_workflow"

theorem dag_creates_only_ready_witness:
  "\<exists>r y w'. reconcileDAG st_env (started_workflow, demo_store) = (r, (y, w')) \<and>
     st_created w' = [''pipe-prep''] \<and>
     (\<forall>n \<in> set (st_created w'). \<exists>t \<in> set demo_templates. n = ChildName ''pipe'' (wt_name t) \<and>
        ready_template (job_status_of started_workflow) t)"
proof -
  obtain r y w' where run: "reconcileDAG st_env (started_workflow, demo_store) = (r, (y, w'))"
    by (metis prod.exhaust)
  let ?R = "\<lambda>t. t \<in> set (ws_job_templates (w_spec started_workflow)) \<and> ready_template (job_status_of started_workflow) t"
  let ?C = "\<lambda>n. \<exists>t \<in> set demo_templates. n = ChildName ''pipe'' (wt_name t) \<and> ready_template (job_status_of started_workflow) t"
  have w: "ws_job_templates (w_spec started_workflow) = demo_templates" "om_name (w_meta started_workflow) = ''pipe''"
    by (simp_all add: started_workflow_def set_status_jobs_def demo_workflow_def)
  have "wf_env_ok st_env started_workflow ?R (log_all (\<lambda>_. True) ?C)"
    by (rule st_env_ok) (use w in auto)
  moreover have "wf_names started_workflow" by code_simp
  ultimately have "log_all (\<lambda>_. True) ?C w'"
    using dag_creates_only_ready [where I = "log_all (\<lambda>_. True) ?C" and w = demo_store, OF _ demo_store_log _ run] by blast
  moreover have "st_created (snd (snd (reconcileDAG st_env (started_workflow, demo_store)))) = [''pipe-prep'']"
    by code_simp
  ultimately show ?thesis using run by (simp add: log_all_def)
qed

text \<open>
  A suspended Workflow creates no Job: the state machine keeps every property of the world
  that reads and accesses to its existing Jobs keep, with nothing assumed of \<open>Create\<close>.
\<close>
theorem suspended_workflow_creates_nothing:
  assumes "ws_suspended (w_spec x)" and "wf_env_ok env x (\<lambda>_. False) I" and "I w"
    and "wf_ReconcileStateMachine env (x, w) = (r, (y, w'))"
  shows "I w'"
proof -
  have "may_create (ws_suspended (w_spec x)) (\<lambda>_. False)" using assms(1) by (simp add: may_create_def)
  from wpD [OF wf_ReconcileStateMachine_run [OF assms(2) this assms(3)]] assms(4)
  show ?thesis by (cases r) fastforce+
qed

theorem suspended_workflow_creates_nothing_witness:
  "\<exists>r y w'. wf_ReconcileStateMachine st_env
     (demo_workflow\<lparr>w_spec := (w_spec demo_workflow)\<lparr>ws_suspended := True\<rparr>\<rparr>, demo_store) = (r, (y, w')) \<and> st_created w' = []"
proof -
  let ?x = "demo_workflow\<lparr>w_spec := (w_spec demo_workflow)\<lparr>ws_suspended := True\<rparr>\<rparr>"
  obtain r y w' where run: "wf_ReconcileStateMachine st_env (?x, demo_store) = (r, (y, w'))"
    by (metis prod.exhaust)
  have "wf_env_ok st_env ?x (\<lambda>_. False) (log_all (\<lambda>_. True) (\<lambda>_. False))"
    by (rule st_env_ok) simp_all
  from suspended_workflow_creates_nothing [OF _ this demo_store_log run]
  have "log_all (\<lambda>_. True) (\<lambda>_. False) w'" by simp
  with run show ?thesis by (cases "st_created w'") (auto simp: log_all_def)
qed

text \<open>
  The same for a Workflow: a result that says it changed is written, one that says it did not
  leaves the Workflow as it was read, and an error without a result writes nothing.
\<close>
theorem workflow_status_outcome:
  assumes "we_get_workflow env ns name w = (Inr x, w1)" and "wf_env_ok env x (\<lambda>_. True) (\<lambda>_. True)"
    and "wf_ReconcileStateMachine env (x, w1) = (r, (y, w2))"
  shows "ReconcileWith (we_get_workflow env) wf_IsTerminal (wf_ReconcileStateMachine env)
        (we_update_workflow_status env) ns name w =
      (case r of
         Inr (changed, err) \<Rightarrow>
           (let after = (if err = None then 0 else ChildCleanupRequeue)
            in if changed then (case we_update_workflow_status env y w2 of
                                  (Inl e, w3) \<Rightarrow> (Inl e, w3) | (Inr _, w3) \<Rightarrow> (Inr after, w3))
               else (Inr after, w2))
       | Inl e \<Rightarrow> (if errors_is e ''ErrRequeueAfterChildCleanup'' then (Inr ChildCleanupRequeue, w2)
                    else (Inl e, w2)))"
    and "r = Inr (False, err) \<Longrightarrow> y = x" and "r = Inl e \<Longrightarrow> \<not> is_panic e"
proof -
  have terminal: "\<not> wf_IsTerminal x" and good: "wf_good env (x, w1)"
    using assms(2) by (simp_all add: wf_IsTerminal_def wf_good_def)
  note out = wf_rec.outcome [where get = "we_get_workflow env" and terminal = wf_IsTerminal, OF assms(1) terminal good assms(3)]
  show "ReconcileWith (we_get_workflow env) wf_IsTerminal (wf_ReconcileStateMachine env)
        (we_update_workflow_status env) ns name w =
      (case r of
         Inr (changed, err) \<Rightarrow>
           (let after = (if err = None then 0 else ChildCleanupRequeue)
            in if changed then (case we_update_workflow_status env y w2 of
                                  (Inl e, w3) \<Rightarrow> (Inl e, w3) | (Inr _, w3) \<Rightarrow> (Inr after, w3))
               else (Inr after, w2))
       | Inl e \<Rightarrow> (if errors_is e ''ErrRequeueAfterChildCleanup'' then (Inr ChildCleanupRequeue, w2)
                    else (Inl e, w2)))"
    by (rule out(1))
  show "r = Inr (False, err) \<Longrightarrow> y = x" by (rule out(2))
  show "r = Inl e \<Longrightarrow> \<not> is_panic e" using out(3) by simp
qed

text \<open>
  C21. The clean-up finalizer of a deleted Workflow is held while Jobs remain: as long as every
  listing still shows a Job the Workflow controls, the deletion branch never writes the
  Workflow (nothing is assumed of its \<open>Update\<close>), and a run that succeeds asks to be repeated.
\<close>
theorem workflow_deletion_waits:
  assumes "keeps I (we_list_jobs env) (\<lambda>js. \<exists>j \<in> set js. controlled_by_wf x (j_meta j)) (\<lambda>_. True)"
    and "\<And>j. keeps I (we_delete_job env j) (\<lambda>_. True) (\<lambda>_. True)" and "I w"
  shows "I (snd (wf_reconcile_deleting env x w)) \<and>
    (case fst (wf_reconcile_deleting env x w) of Inl _ \<Rightarrow> True | Inr after \<Rightarrow> after \<noteq> 0)"
proof -
  let ?T = "\<lambda>_ :: go_error. True"
  have del: "keeps I (wrap msg (ignore_not_found (we_delete_job env j))) (\<lambda>_. True) ?T" for msg j
    by (rule keeps_wrap [where F = ?T], rule keeps_ignore_not_found) (simp_all add: assms)
  have loop: "keeps I (fold_prog (delete_job env x) b js) (\<lambda>r. b \<or> (\<exists>j \<in> set js. controlled_by_wf x (j_meta j)) \<longrightarrow> r) ?T" for b js
  proof (induction js arbitrary: b)
    case Nil
    then show ?case by (simp add: keeps_ok)
  next
    case (Cons j js)
    have "keeps I (delete_job env x b j) (\<lambda>r. b \<or> controlled_by_wf x (j_meta j) \<longrightarrow> r) ?T"
      unfolding delete_job_def by (intro keeps_if keeps_ok keeps_seq_any del) simp_all
    then show ?case
      unfolding fold_prog.simps
      by (rule keeps_seq) (rule keeps_weaken [OF Cons.IH], auto)
  qed
  have list: "keeps I (wrap msg (we_list_jobs env)) (\<lambda>js. \<exists>j \<in> set js. controlled_by_wf x (j_meta j)) ?T" for msg
    by (rule keeps_wrap [where F = ?T]) (simp_all add: assms(1))
  have "keeps I (deleteOwnedJobs env x) (\<lambda>r. r) ?T"
    unfolding deleteOwnedJobs_def by (intro keeps_seq [OF list] keeps_weaken [OF loop]) simp_all
  then have "keeps I (wf_reconcile_deleting env x) (\<lambda>after. after \<noteq> 0) ?T"
    unfolding wf_reconcile_deleting_def by (rule keeps_seq) (simp add: keeps_ok)
  from keeps_run [OF this assms(3)] show ?thesis .
qed

definition held_job :: job where
  "held_job = (let j = buildJob demo_workflow self_template ''pipe-loop''
               in j\<lparr>j_meta := (j_meta j)\<lparr>om_controller := Some (wf_ref demo_workflow), om_deletion := Some 5\<rparr>\<rparr>)"

theorem workflow_deletion_waits_witness:
  "fst (wf_reconcile_deleting st_env demo_workflow (demo_store\<lparr>st_jobs := [held_job]\<rparr>)) = Inr ChildCleanupRequeue \<and>
   st_jobs (snd (wf_reconcile_deleting (st_env\<lparr>we_delete_job := (\<lambda>_. ok ())\<rparr>) demo_workflow
     (demo_store\<lparr>st_jobs := [held_job]\<rparr>))) = [held_job]"
proof
  have c: "controlled_by_wf demo_workflow (j_meta held_job)"
    by (rule controlled_by_wf_ref) (simp add: held_job_def Let_def)
  show "fst (wf_reconcile_deleting st_env demo_workflow (demo_store\<lparr>st_jobs := [held_job]\<rparr>)) = Inr ChildCleanupRequeue"
    by code_simp
  show "st_jobs (snd (wf_reconcile_deleting (st_env\<lparr>we_delete_job := (\<lambda>_. ok ())\<rparr>) demo_workflow
     (demo_store\<lparr>st_jobs := [held_job]\<rparr>))) = [held_job]"
    by (rule workflow_deletion_waits [where I = "\<lambda>w. st_jobs w = [held_job]", THEN conjunct1])
       (auto simp: st_env_def keeps_def wp_def reading_def ok_def c)
qed

end
