(* ===== verification/Exec_Types.thy ===== *)
theory Exec_Types
  imports Api_Types
begin

text \<open>
  The data of the agent's execution engine (\<open>agent/execution\<close>): runtime objects and
  providers (\<open>runtime/types.go\<close>), plans (\<open>plan/types.go\<close>), task snapshots and selectors
  (\<open>coordination/types.go\<close>), resolved environments (\<open>environment/types.go\<close>), workload
  adapters (\<open>workload/types.go\<close>), and the pure functions of those files. Named string types
  of Go are strings, their constants abbreviations. JSON bytes are \<open>raw_json\<close>: a document up
  to its layout.
\<close>

section \<open>Faults\<close>

abbreviation InvalidArgument :: string where "InvalidArgument \<equiv> ''InvalidArgument''"
abbreviation FaultNotFound :: string where "FaultNotFound \<equiv> ''NotFound''"
abbreviation FailedPrecondition :: string where "FailedPrecondition \<equiv> ''FailedPrecondition''"
abbreviation InternalFault :: string where "InternalFault \<equiv> ''Internal''"

abbreviation fault_New :: "string \<Rightarrow> string \<Rightarrow> go_error" where
  "fault_New code message \<equiv> ErrFault code message None"

abbreviation fault_Wrap :: "string \<Rightarrow> string \<Rightarrow> go_error \<Rightarrow> go_error" where
  "fault_Wrap code message cause \<equiv> ErrFault code message (Some cause)"

text \<open>\<open>fault.Is\<close>: \<open>errors.Is\<close> with the method that compares execution faults by code.\<close>

fun fault_Is :: "go_error \<Rightarrow> string \<Rightarrow> bool" where
  "fault_Is (ErrFault c _ cause) code \<longleftrightarrow>
     c = code \<or> (case cause of None \<Rightarrow> False | Some e \<Rightarrow> fault_Is e code)"
| "fault_Is (ErrWrap _ e) code \<longleftrightarrow> fault_Is e code"
| "fault_Is _ code \<longleftrightarrow> False"

section \<open>Identities\<close>

record logical_task_id =
  lt_namespace :: string
  lt_name :: string

record task_identity =
  ti_logical :: logical_task_id
  ti_object_uid :: string
  ti_generation :: int

record object_kind =
  k_group :: string
  k_version :: string
  k_kind :: string

record object_ref =
  rf_runtime_id :: string
  rf_id :: string
  rf_namespace :: string
  rf_name :: string
  rf_uid :: string
  rf_logical_task :: logical_task_id

record runtime_info =
  ri_id :: string
  ri_kind :: string
  ri_capabilities :: "string list"

abbreviation CapabilityIncarnationAdoption :: string where
  "CapabilityIncarnationAdoption \<equiv> ''IncarnationAdoption''"
abbreviation CapabilityReconcileProfiles :: string where
  "CapabilityReconcileProfiles \<equiv> ''ReconcileProfiles''"

definition LogicalTaskID_Validate :: "logical_task_id \<Rightarrow> go_error option" where
  "LogicalTaskID_Validate i =
     (if lt_namespace i = [] then Some (ErrText ''logical task namespace is required'')
      else if lt_name i = [] then Some (ErrText ''logical task name is required'')
      else None)"

definition LogicalTaskID_String :: "logical_task_id \<Rightarrow> string" where
  "LogicalTaskID_String i = lt_namespace i @ ''/'' @ lt_name i"

section \<open>Ownership and lifecycle\<close>

record resource_ownership =
  ro_scope :: string
  ro_owner_key :: string
  ro_incarnation_policy :: string

abbreviation IdentityTaskIncarnation :: string where "IdentityTaskIncarnation \<equiv> ''TaskIncarnation''"
abbreviation IncarnationOwnershipAllowAdoption :: string where "IncarnationOwnershipAllowAdoption \<equiv> ''AllowAdoption''"
abbreviation LifecycleDeleteOnTaskCleanup :: string where "LifecycleDeleteOnTaskCleanup \<equiv> ''DeleteOnTaskCleanup''"
abbreviation UpdateReplace :: string where "UpdateReplace \<equiv> ''Replace''"

definition ResourceOwnership_Validate :: "resource_ownership \<Rightarrow> go_error option" where
  "ResourceOwnership_Validate r =
     (if ro_scope r \<notin> {IdentityTaskIncarnation, ''LogicalTask'', ''RuntimeInstance'', ''SharedResource'', ''External''}
      then Some (ErrText (''unknown identity scope '' @ quoted (ro_scope r)))
      else if ro_owner_key r = [] then Some (ErrText ''owner key is required'')
      else if ro_incarnation_policy r = [] then None
      else if ro_incarnation_policy r = IncarnationOwnershipAllowAdoption then
        (if ro_scope r \<noteq> IdentityTaskIncarnation
         then Some (ErrText ''incarnation adoption is valid only for Task-incarnation ownership'') else None)
      else Some (ErrText (''unknown incarnation ownership policy '' @ quoted (ro_incarnation_policy r))))"

section \<open>Objects\<close>

record typed_manifest =
  mf_type :: object_kind
  mf_object :: raw_json

record typed_options =
  to_type :: object_kind
  to_value :: raw_json

record object_locator =
  lo_type :: object_kind
  lo_path :: string

record runtime_unit =
  ru_name :: string
  ru_kind :: string
  ru_role :: string
  ru_locator :: object_locator

abbreviation UnitPodTemplate :: string where "UnitPodTemplate \<equiv> ''PodTemplate''"
abbreviation UnitPod :: string where "UnitPod \<equiv> ''Pod''"

record desired_object =
  do_logical_name :: string
  do_role :: string
  do_kind :: object_kind
  do_manifest :: typed_manifest
  do_ownership :: resource_ownership
  do_lifecycle :: string
  do_depends_on :: "string list"
  do_update_mode :: string
  do_reconcile_profile :: object_kind
  do_owned_fields :: "string list"
  do_units :: "runtime_unit list"

record object_candidate =
  oc_kind :: object_kind
  oc_namespace :: string
  oc_name :: string
  oc_labels :: "(string \<times> string) list"
  oc_ownership :: resource_ownership
  oc_lifecycle :: string

record runtime_object =
  ob_ref :: object_ref
  ob_manifest :: typed_manifest

record object_snapshot =
  sn_revision :: string
  sn_objects :: "runtime_object list"

definition CandidateKey :: "object_candidate \<Rightarrow> string" where
  "CandidateKey c =
     (if oc_name c = [] then []
      else k_group (oc_kind c) @ ''/'' @ k_version (oc_kind c) @ ''/'' @ k_kind (oc_kind c) @ ''/'' @
           oc_namespace c @ ''/'' @ oc_name c)"

definition DesiredObject_KindString :: "desired_object \<Rightarrow> string" where
  "DesiredObject_KindString d =
     k_group (do_kind d) @ ''/'' @ k_version (do_kind d) @ '', Kind='' @ k_kind (do_kind d)"

section \<open>Instances\<close>

record instance_ref =
  ir_runtime_id :: string
  ir_id :: string
  ir_uid :: string
  ir_parent :: object_ref

record instance_condition =
  ic_source :: string
  ic_scope :: string
  ic_subject :: string
  ic_reason :: string
  ic_message :: string

record runtime_instance =
  in_ref :: instance_ref
  in_task :: task_identity
  in_name :: string
  in_role :: string
  in_index :: "int32 option"
  in_rank :: "int32 option"
  in_phase :: string
  in_reason :: string
  in_message :: string
  in_conditions :: "instance_condition list"

record instance_query =
  iq_task :: task_identity
  iq_workloads :: "object_ref list"
  iq_roots :: "string list"
  iq_options :: "typed_options option"

record instance_snapshot =
  is_revision :: string
  is_instances :: "runtime_instance list"

section \<open>Provider requests\<close>

record execution_revision =
  er_runtime_id :: string
  er_runtime_kind :: string
  er_workload_type :: string
  er_workload_version :: string
  er_compiled_digest :: string
  er_executable_digest :: string
  er_binding_revision :: string

record apply_request =
  ap_idempotency_key :: string
  ap_task :: task_identity
  ap_desired :: desired_object
  ap_current :: "object_ref option"
  ap_proven_owners :: "object_ref list"
  ap_revision :: execution_revision

record apply_result =
  ar_ref :: object_ref
  ar_object :: runtime_object

record delete_request =
  dr_idempotency_key :: string
  dr_task :: task_identity
  dr_ref :: object_ref

record managed_object_query =
  mq_task :: task_identity
  mq_candidates :: "object_candidate list"

section \<open>Plans\<close>

record consumer_selector =
  cs_targets :: "string list"
  cs_object_names :: "string list"
  cs_roles :: "string list"
  cs_unit_names :: "string list"

record mutation_target =
  mt_name :: string
  mt_object_name :: string
  mt_kind :: string
  mt_role :: string
  mt_locator :: object_locator

record workload_unit =
  wu_name :: string
  wu_object_name :: string
  wu_kind :: string
  wu_role :: string
  wu_locator :: object_locator

record environment_requirement =
  eq_name :: string
  eq_type :: string
  eq_version :: string
  eq_parameters :: raw_json
  eq_consumers :: "consumer_selector list"

record instance_discovery =
  id_roots :: "string list"
  id_options :: "typed_options option"

record process_declaration =
  pd_name :: string
  pd_target :: string
  pd_locator :: object_locator
  pd_container_name :: string
  pd_role :: string
  pd_executable :: string
  pd_args :: "string list"
  pd_restart_policy :: string
  pd_required :: bool

record plan =
  pl_adapter_id :: string
  pl_adapter_version :: string
  pl_compiled_hash :: string
  pl_objects :: "desired_object list"
  pl_environment :: "environment_requirement list"
  pl_targets :: "mutation_target list"
  pl_units :: "workload_unit list"
  pl_processes :: "process_declaration list"
  pl_discovery :: instance_discovery

record digests =
  dg_compiled_hash :: string
  dg_executable_hash :: string
  dg_binding_revision :: string

record executable_plan =
  ep_digests :: digests
  ep_objects :: "desired_object list"
  ep_discovery :: instance_discovery

definition Requirements_Empty :: "environment_requirement list \<Rightarrow> bool" where
  "Requirements_Empty r \<longleftrightarrow> r = []"

section \<open>Task snapshots\<close>

record runtime_selector =
  rs_id :: string
  rs_kind :: string

record workload_selector =
  wsel_type :: string
  wsel_version :: string

record carrier_selector =
  csel_type :: string
  csel_version :: string

record versioned_configuration =
  vc_type :: string
  vc_version :: string
  vc_parameters :: raw_json

record workload_configuration =
  wcf_template :: pod_template
  wcf_parameters :: raw_json
  wcf_carrier :: versioned_configuration

record task_snapshot =
  ts_identity :: task_identity
  ts_runtime_selector :: runtime_selector
  ts_workload_selector :: workload_selector
  ts_carrier_selector :: carrier_selector
  ts_configuration :: workload_configuration
  ts_environment :: "environment_requirement list"
  ts_local_environments :: "versioned_configuration list"
  ts_deleting :: bool

section \<open>Environments and workloads\<close>

record resolved_consumer =
  rcn_target_name :: string
  rcn_object_name :: string
  rcn_role :: string
  rcn_unit_name :: string

record profile_reference =
  pr_type :: string
  pr_name :: string
  pr_version :: string
  pr_revision :: string

record resolved_binding =
  rb_kind :: string
  rb_requirement_name :: string
  rb_profile :: profile_reference
  rb_consumers :: "resolved_consumer list"
  rb_ownership :: resource_ownership
  rb_lifecycle :: string
  rb_source_revision :: string
  rb_algorithm :: string
  rb_value :: typed_options

record resolved_environment =
  rv_task :: task_identity
  rv_bindings :: "resolved_binding list"

record resolve_request =
  rq_task :: task_identity
  rq_runtime :: runtime_info
  rq_requirements :: "environment_requirement list"
  rq_targets :: "mutation_target list"

record bind_request =
  br_runtime :: runtime_info
  br_plan :: plan
  br_environment :: resolved_environment

record compile_request =
  cr_task :: task_snapshot
  cr_runtime :: runtime_info

record inventory_request =
  iv_task :: task_identity
  iv_runtime :: runtime_info
  iv_carrier :: carrier_selector

record observation =
  obs_phase :: string
  obs_reason :: string
  obs_message :: string

record observe_request =
  orq_task :: task_snapshot
  orq_plan :: executable_plan
  orq_objects :: object_snapshot
  orq_instances :: instance_snapshot

end
