(* ===== verification/Object_Graph.thy ===== *)
theory Object_Graph
  imports Exec_Types Kahn "HOL-Library.Multiset"
begin

text \<open>
  The dependency graph of the objects of a plan: \<open>ValidateObjects\<close> (\<open>runtime/plan.go\<close>), a
  depth-first search for a cycle, and \<open>orderDesired\<close> (\<open>coordination/coordinator\<close>), the
  work-list order with a sorted ready queue. The two decide the same question; the theory
  proves that they agree, and that the order does not depend on how an adapter emits the
  objects.
\<close>

section \<open>The canonical order\<close>

type_synonym edge_state = "(string \<Rightarrow> int) \<times> (string \<Rightarrow> string list)"

fun order_names :: "(string \<rightharpoonup> desired_object) \<Rightarrow> desired_object list \<Rightarrow> go_error + (string \<rightharpoonup> desired_object)" where
  "order_names byName [] = Inr byName"
| "order_names byName (d # ds) =
     (if do_logical_name d = [] then Inl (fault_New InvalidArgument ''desired object logical name is required'')
      else if byName (do_logical_name d) \<noteq> None
      then Inl (fault_New InvalidArgument ''duplicate desired object logical name'')
      else order_names (byName(do_logical_name d \<mapsto> d)) ds)"

fun order_dependencies ::
    "(string \<rightharpoonup> desired_object) \<Rightarrow> string \<Rightarrow> edge_state \<Rightarrow> string list \<Rightarrow> go_error + edge_state" where
  "order_dependencies byName name (deg, children) [] = Inr (deg, children)"
| "order_dependencies byName name (deg, children) (dep # deps) =
     (if byName dep = None
      then Inl (fault_New InvalidArgument
             (''desired object '' @ quoted name @ '' depends on missing object '' @ quoted dep))
      else order_dependencies byName name
             (deg(name := deg name + 1), children(dep := children dep @ [name])) deps)"

fun order_edges ::
    "(string \<rightharpoonup> desired_object) \<Rightarrow> edge_state \<Rightarrow> desired_object list \<Rightarrow> go_error + edge_state" where
  "order_edges byName st [] = Inr st"
| "order_edges byName st (d # ds) =
     (case order_dependencies byName (do_logical_name d) st (do_depends_on d) of
        Inl e \<Rightarrow> Inl e | Inr st' \<Rightarrow> order_edges byName st' ds)"

text \<open>
  Ranging over the map of in-degrees collects the ready names in any order; they are sorted
  right away. The outer \<open>None\<close> would be a loop that does not return.
\<close>

definition orderDesired :: "desired_object list \<Rightarrow> (go_error + desired_object list) option" where
  "orderDesired objects =
     (case order_names Map.empty objects of
        Inl e \<Rightarrow> Some (Inl e)
      | Inr byName \<Rightarrow>
          (case order_edges byName (\<lambda>_. 0, \<lambda>_. []) objects of
             Inl e \<Rightarrow> Some (Inl e)
           | Inr (deg, children) \<Rightarrow>
               (case kahn_loop sorted_in (\<lambda>n. sort (children n))
                       (sort (filter (\<lambda>n. deg n = 0) (map do_logical_name objects))) deg [] of
                  None \<Rightarrow> None
                | Some (order, _) \<Rightarrow>
                    (if length order \<noteq> length objects
                     then Some (Inl (fault_New InvalidArgument ''desired object dependencies contain a cycle''))
                     else Some (Inr (map (\<lambda>n. the (byName n)) order))))))"

section \<open>The depth-first check\<close>

text \<open>
  \<open>visit\<close> of the code, over the list of names still to visit: \<open>active\<close> holds the names on the
  recursion stack, \<open>seen\<close> the finished ones in the order they were finished. The loop over the
  map \<open>byName\<close> is the same recursion from an empty stack, in the order \<open>range\<close> takes.
\<close>

definition deps_of :: "desired_object list \<Rightarrow> string \<Rightarrow> string list" where
  "deps_of objects n = (case find (\<lambda>d. do_logical_name d = n) objects of None \<Rightarrow> [] | Some d \<Rightarrow> do_depends_on d)"

lemma deps_of_unknown: "n \<notin> do_logical_name ` set objects \<Longrightarrow> deps_of objects n = []"
  by (auto simp: deps_of_def find_None_iff split: option.split dest: find_SomeD)

function visit :: "desired_object list \<Rightarrow> string list \<Rightarrow> string list \<Rightarrow> string list \<Rightarrow> go_error + string list" where
  "visit objects active seen [] = Inr seen"
| "visit objects active seen (n # ns) =
     (if n \<in> set active then Inl (ErrWrap (''at '' @ quoted n) (ErrSentinel ''ErrObjectDependencyCycle''))
      else if n \<in> set seen then visit objects active seen ns
      else (case visit objects (n # active) seen (deps_of objects n) of
              Inl e \<Rightarrow> Inl e
            | Inr seen' \<Rightarrow> visit objects active (seen' @ [n]) ns))"
  by pat_completeness auto
termination
proof (relation "measures [\<lambda>(os, active, _, _). card (do_logical_name ` set os - set active), \<lambda>(_, _, _, ns). length ns]",
    simp_all)
  fix objects :: "desired_object list" and active ns :: "string list" and n
  assume n: "n \<notin> set active"
  let ?N = "do_logical_name ` set objects"
  show "card (?N - insert n (set active)) < card (?N - set active) \<or>
      card (?N - insert n (set active)) = card (?N - set active) \<and> length (deps_of objects n) < Suc (length ns)"
  proof (cases "n \<in> ?N")
    case True
    with n have "card (?N - insert n (set active)) < card (?N - set active)"
      by (intro psubset_card_mono) auto
    then show ?thesis ..
  next
    case False
    then have "?N - insert n (set active) = ?N - set active" by auto
    with deps_of_unknown [OF False] show ?thesis by simp
  qed
qed

fun validate_names :: "string list \<Rightarrow> desired_object list \<Rightarrow> go_error option" where
  "validate_names names [] = None"
| "validate_names names (d # ds) =
     (if do_logical_name d = [] then Some (ErrText ''runtime object logical name is required'')
      else if do_logical_name d \<in> set names
      then Some (ErrText (''duplicate runtime object logical name '' @ quoted (do_logical_name d)))
      else (case ResourceOwnership_Validate (do_ownership d) of
              Some e \<Rightarrow> Some (ErrWrap (''runtime object '' @ quoted (do_logical_name d) @ '' ownership'') e)
            | None \<Rightarrow> validate_names (do_logical_name d # names) ds))"

definition unknown_dependency :: "desired_object list \<Rightarrow> desired_object \<Rightarrow> string option" where
  "unknown_dependency objects d = find (\<lambda>x. x \<notin> do_logical_name ` set objects) (do_depends_on d)"

fun validate_references :: "desired_object list \<Rightarrow> desired_object list \<Rightarrow> go_error option" where
  "validate_references objects [] = None"
| "validate_references objects (d # ds) =
     (case unknown_dependency objects d of
        Some x \<Rightarrow> Some (ErrText (''runtime object '' @ quoted (do_logical_name d) @
                                 '' depends on unknown object '' @ quoted x))
      | None \<Rightarrow> validate_references objects ds)"

text \<open>\<open>order\<close> is the sequence in which \<open>range byName\<close> visits the names.\<close>

definition ValidateObjects :: "desired_object list \<Rightarrow> string list \<Rightarrow> go_error option" where
  "ValidateObjects objects order =
     (case validate_names [] objects of
        Some e \<Rightarrow> Some e
      | None \<Rightarrow>
          (case validate_references objects objects of
             Some e \<Rightarrow> Some e
           | None \<Rightarrow> (case visit objects [] [] order of Inl e \<Rightarrow> Some e | Inr _ \<Rightarrow> None)))"

section \<open>What the order computes\<close>

abbreviation obj_names :: "desired_object list \<Rightarrow> string list" where
  "obj_names objects \<equiv> map do_logical_name objects"

text \<open>Names set and distinct, and every dependency the name of an object.\<close>

definition well_named :: "desired_object list \<Rightarrow> bool" where
  "well_named objects \<longleftrightarrow> distinct (obj_names objects) \<and> (\<forall>d \<in> set objects. do_logical_name d \<noteq> [])"

definition closed_dependencies :: "desired_object list \<Rightarrow> bool" where
  "closed_dependencies objects \<longleftrightarrow> (\<forall>d \<in> set objects. set (do_depends_on d) \<subseteq> set (obj_names objects))"

definition by_name :: "desired_object list \<Rightarrow> string \<rightharpoonup> desired_object" where
  "by_name objects n = find (\<lambda>d. do_logical_name d = n) objects"

lemma by_name_None: "by_name objects n = None \<longleftrightarrow> n \<notin> set (obj_names objects)"
  by (auto simp: by_name_def find_None_iff)

lemma by_name_simps [simp]:
  "by_name [] n = None" "by_name (d # ds) n = (if do_logical_name d = n then Some d else by_name ds n)"
  by (simp_all add: by_name_def)

lemma dom_by_name: "dom (by_name objects) = set (obj_names objects)"
  by (rule set_eqI) (metis by_name_None domIff)

lemma by_name_Some:
  "distinct (obj_names objects) \<Longrightarrow> d \<in> set objects \<Longrightarrow> by_name objects (do_logical_name d) = Some d"
  unfolding by_name_def by (induction objects) (auto simp: image_iff)

lemma order_names_from:
  assumes "\<forall>d \<in> set ds. do_logical_name d \<notin> dom m"
  shows "order_names m ds =
     (if well_named ds then Inr (\<lambda>n. case by_name ds n of None \<Rightarrow> m n | Some d \<Rightarrow> Some d) else order_names m ds) \<and>
    (\<not> well_named ds \<longrightarrow> (\<exists>e. order_names m ds = Inl e \<and> no_panic e))"
  using assms
proof (induction ds arbitrary: m)
  case Nil
  then show ?case by (simp add: well_named_def by_name_def)
next
  case (Cons d ds)
  show ?case
  proof (cases "do_logical_name d = [] \<or> do_logical_name d \<in> set (obj_names ds)")
    case True
    then have n: "\<not> well_named (d # ds)" by (auto simp: well_named_def)
    have "\<exists>e. order_names m (d # ds) = Inl e \<and> no_panic e"
    proof (cases "do_logical_name d = []")
      case False
      with True obtain d' where d': "d' \<in> set ds" "do_logical_name d' = do_logical_name d" by auto
      have fresh: "m (do_logical_name d) = None" using Cons.prems by auto
      have dup: "x \<in> set xs \<Longrightarrow> m' (do_logical_name x) \<noteq> None \<Longrightarrow> \<exists>e. order_names m' xs = Inl e \<and> no_panic e" for x xs m'
        by (induction xs arbitrary: m') auto
      from False fresh d' show ?thesis by (simp add: dup [OF d'(1)])
    qed simp
    with n show ?thesis by simp
  next
    case False
    let ?m = "m(do_logical_name d \<mapsto> d)"
    have fresh: "m (do_logical_name d) = None" using Cons.prems by auto
    have "\<forall>x \<in> set ds. do_logical_name x \<notin> dom ?m" using Cons.prems False by auto (metis image_eqI)
    note ih = Cons.IH [OF this]
    have w: "well_named (d # ds) \<longleftrightarrow> well_named ds" using False by (auto simp: well_named_def)
    have run: "order_names m (d # ds) = order_names ?m ds" using False fresh by simp
    have eq: "(\<lambda>n. case by_name ds n of None \<Rightarrow> ?m n | Some d \<Rightarrow> Some d) =
        (\<lambda>n. case by_name (d # ds) n of None \<Rightarrow> m n | Some d \<Rightarrow> Some d)"
      using False by_name_None [of ds "do_logical_name d"] by (auto simp: fun_eq_iff split: option.split)
    show ?thesis using ih unfolding w run eq by argo
  qed
qed

lemma order_names_spec:
  "well_named ds \<Longrightarrow> order_names Map.empty ds = Inr (by_name ds)"
  "\<not> well_named ds \<Longrightarrow> \<exists>e. order_names Map.empty ds = Inl e \<and> no_panic e"
proof -
  have "(\<lambda>n. case by_name ds n of None \<Rightarrow> None | Some d \<Rightarrow> Some d) = by_name ds"
    by (auto simp: fun_eq_iff split: option.split)
  then show "well_named ds \<Longrightarrow> order_names Map.empty ds = Inr (by_name ds)"
    "\<not> well_named ds \<Longrightarrow> \<exists>e. order_names Map.empty ds = Inl e \<and> no_panic e"
    using order_names_from [of ds Map.empty] by simp_all
qed

lemma order_dependencies_spec:
  "set deps \<subseteq> dom m \<Longrightarrow> order_dependencies m n (deg, ch) deps =
     Inr (deg(n := deg n + int (length deps)), \<lambda>u. ch u @ replicate (count_list deps u) n)"
  "\<not> set deps \<subseteq> dom m \<Longrightarrow> \<exists>e. order_dependencies m n (deg, ch) deps = Inl e \<and> no_panic e"
proof -
  show "set deps \<subseteq> dom m \<Longrightarrow> order_dependencies m n (deg, ch) deps =
     Inr (deg(n := deg n + int (length deps)), \<lambda>u. ch u @ replicate (count_list deps u) n)"
  proof (induction deps arbitrary: deg ch)
    case (Cons x deps)
    then have "m x \<noteq> None" by auto
    with Cons show ?case
      by (auto simp: fun_eq_iff replicate_app_Cons_same [symmetric])
  qed simp
  show "\<not> set deps \<subseteq> dom m \<Longrightarrow> \<exists>e. order_dependencies m n (deg, ch) deps = Inl e \<and> no_panic e"
    by (induction deps arbitrary: deg ch) auto
qed

definition in_degrees :: "desired_object list \<Rightarrow> string \<Rightarrow> int" where
  "in_degrees ds n = (\<Sum>d \<leftarrow> ds. if do_logical_name d = n then int (length (do_depends_on d)) else 0)"

lemma order_edges_spec:
  "\<forall>d \<in> set ds. set (do_depends_on d) \<subseteq> dom m \<Longrightarrow> order_edges m (deg, ch) ds =
     Inr (\<lambda>n. deg n + in_degrees ds n, \<lambda>u. ch u @ dependants_of do_logical_name do_depends_on ds u)"
  "\<not> (\<forall>d \<in> set ds. set (do_depends_on d) \<subseteq> dom m) \<Longrightarrow> \<exists>e. order_edges m (deg, ch) ds = Inl e \<and> no_panic e"
proof -
  show "\<forall>d \<in> set ds. set (do_depends_on d) \<subseteq> dom m \<Longrightarrow> order_edges m (deg, ch) ds =
     Inr (\<lambda>n. deg n + in_degrees ds n, \<lambda>u. ch u @ dependants_of do_logical_name do_depends_on ds u)"
  proof (induction ds arbitrary: deg ch)
    case Nil
    then show ?case by (simp add: in_degrees_def dependants_of_def)
  next
    case (Cons d ds)
    then have "set (do_depends_on d) \<subseteq> dom m" by simp
    note one = order_dependencies_spec(1) [OF this, of "do_logical_name d" deg ch]
    from Cons show ?case
      by (auto simp: one fun_eq_iff in_degrees_def dependants_of_def)
  qed
  show "\<not> (\<forall>d \<in> set ds. set (do_depends_on d) \<subseteq> dom m) \<Longrightarrow> \<exists>e. order_edges m (deg, ch) ds = Inl e \<and> no_panic e"
  proof (induction ds arbitrary: deg ch)
    case (Cons d ds)
    show ?case
    proof (cases "set (do_depends_on d) \<subseteq> dom m")
      case True
      with Cons show ?thesis
        using order_dependencies_spec(1) [OF True, of "do_logical_name d" deg ch] by simp
    next
      case False
      from order_dependencies_spec(2) [OF this, of "do_logical_name d" deg ch] show ?thesis by auto
    qed
  qed simp
qed

lemma in_degrees_named:
  "distinct (obj_names ds) \<Longrightarrow> d \<in> set ds \<Longrightarrow> in_degrees ds (do_logical_name d) = int (length (do_depends_on d))"
proof (induction ds)
  case (Cons x ds)
  have "in_degrees ds n = 0" if "n \<notin> set (obj_names ds)" for n
    using that unfolding in_degrees_def by (induction ds) auto
  with Cons show ?case by (auto simp: in_degrees_def image_iff)
qed simp

text \<open>The sorted children leave the invariant of the loop alone.\<close>

lemma count_list_sort: "count_list (sort xs) x = count_list xs x" for xs :: "'a :: linorder list"
  using mset_sort [of "\<lambda>x. x" xs] by (metis count_mset)

lemma kahn_inv_sort:
  fixes children :: "'a :: linorder \<Rightarrow> 'a list"
  shows "kahn_inv (\<lambda>n. sort (children n)) N q d acc \<longleftrightarrow> kahn_inv children N q d acc"
  by (simp add: kahn_inv_def after_deps_def count_list_sort)

lemma blocked_sort:
  fixes children :: "'a :: linorder \<Rightarrow> 'a list"
  shows "blocked (\<lambda>n. sort (children n)) S \<longleftrightarrow> blocked children S"
  by (simp add: blocked_def)

lemma after_deps_sort:
  fixes children :: "'a :: linorder \<Rightarrow> 'a list"
  shows "after_deps (\<lambda>n. sort (children n)) N acc \<longleftrightarrow> after_deps children N acc"
  by (simp add: after_deps_def)

abbreviation object_children :: "desired_object list \<Rightarrow> string \<Rightarrow> string list" where
  "object_children objects \<equiv> dependants_of do_logical_name do_depends_on objects"

abbreviation ready_names :: "desired_object list \<Rightarrow> string list" where
  "ready_names objects \<equiv> sort (filter (\<lambda>n. in_degrees objects n = 0) (obj_names objects))"

lemma orderDesired_run:
  assumes "well_named objects" and "closed_dependencies objects"
  shows "orderDesired objects =
     (case kahn_loop sorted_in (\<lambda>n. sort (object_children objects n)) (ready_names objects) (in_degrees objects) [] of
        None \<Rightarrow> None
      | Some (order, _) \<Rightarrow>
          (if length order \<noteq> length objects
           then Some (Inl (fault_New InvalidArgument ''desired object dependencies contain a cycle''))
           else Some (Inr (map (\<lambda>n. the (by_name objects n)) order))))"
proof -
  have dom: "\<forall>d \<in> set objects. set (do_depends_on d) \<subseteq> dom (by_name objects)"
    using assms(2) unfolding closed_dependencies_def dom_by_name .
  from order_edges_spec(1) [OF dom, of "\<lambda>_. 0" "\<lambda>_. []"] show ?thesis
    by (simp add: orderDesired_def order_names_spec(1) [OF assms(1)])
qed

lemma orderDesired_bad:
  assumes "\<not> (well_named objects \<and> closed_dependencies objects)"
  shows "\<exists>e. orderDesired objects = Some (Inl e) \<and> no_panic e"
proof (cases "well_named objects")
  case False
  from order_names_spec(2) [OF this] show ?thesis by (auto simp: orderDesired_def)
next
  case True
  with assms obtain d where d: "d \<in> set objects" "\<not> set (do_depends_on d) \<subseteq> set (obj_names objects)"
    unfolding closed_dependencies_def by blast
  have "\<not> (\<forall>d \<in> set objects. set (do_depends_on d) \<subseteq> dom (by_name objects))"
    unfolding dom_by_name using d by blast
  from order_edges_spec(2) [OF this, of "\<lambda>_. 0" "\<lambda>_. []"] show ?thesis
    by (auto simp: orderDesired_def order_names_spec(1) [OF True])
qed

lemma order_kahn:
  assumes "well_named objects" and "closed_dependencies objects"
  obtains acc d' where
    "kahn_loop sorted_in (\<lambda>n. sort (object_children objects n)) (ready_names objects) (in_degrees objects) [] = Some (acc, d')"
    and "distinct acc" and "set acc \<subseteq> set (obj_names objects)"
    and "after_deps (object_children objects) (set (obj_names objects)) acc"
    and "set acc = set (obj_names objects) \<longleftrightarrow> (\<nexists>S. S \<subseteq> set (obj_names objects) \<and> blocked (object_children objects) S)"
proof -
  let ?N = "do_logical_name ` set objects"
  have dist: "distinct (obj_names objects)" using assms(1) by (simp add: well_named_def)
  have "filter (\<lambda>u. u \<in> ?N) (do_depends_on d) = do_depends_on d" if "d \<in> set objects" for d
    using assms(2) that unfolding closed_dependencies_def by (auto intro: filter_True)
  then have deg: "\<forall>d \<in> set objects. in_degrees objects (do_logical_name d) =
      int (length (filter (\<lambda>u. u \<in> ?N) (do_depends_on d)))"
    by (simp add: in_degrees_named [OF dist])
  have q: "distinct (ready_names objects)" "set (ready_names objects) = {v \<in> ?N. in_degrees objects v = 0}"
    using dist by auto
  have inv: "kahn_inv (\<lambda>n. sort (object_children objects n)) ?N (ready_names objects) (in_degrees objects) []"
    unfolding kahn_inv_sort by (rule kahn_inv_init [OF dist deg q])
  have closed: "\<forall>u \<in> ?N. set (sort (object_children objects u)) \<subseteq> ?N"
    using dependants_closed by fastforce
  have fin: "finite ?N" by simp
  obtain acc d' where
    run: "kahn_loop sorted_in (\<lambda>n. sort (object_children objects n)) (ready_names objects) (in_degrees objects) [] = Some (acc, d')"
    and acc: "distinct acc" "set acc \<subseteq> ?N" "after_deps (\<lambda>n. sort (object_children objects n)) ?N acc"
    and full: "set acc = ?N \<longleftrightarrow> (\<nexists>S. S \<subseteq> ?N \<and> blocked (\<lambda>n. sort (object_children objects n)) S)"
    by (rule sorted_in.kahn_result [OF inv fin closed])
  have N: "?N = set (obj_names objects)" by simp
  show ?thesis
    by (rule that [OF run acc(1) acc(2) [unfolded N] acc(3) [unfolded after_deps_sort N]
          full [unfolded blocked_sort N]])
qed

text \<open>
  A circular set of objects: each member depends on a member. \<open>acyclic_objects\<close> says there
  is none.
\<close>

definition circular :: "desired_object list \<Rightarrow> string set \<Rightarrow> bool" where
  "circular objects S \<longleftrightarrow> S \<noteq> {} \<and> S \<subseteq> set (obj_names objects) \<and>
     (\<forall>n \<in> S. \<exists>m \<in> S. m \<in> set (deps_of objects n))"

lemma circular_names: "circular objects S \<Longrightarrow> S \<subseteq> set (obj_names objects)"
  by (simp only: circular_def)

lemma deps_of_object:
  "distinct (obj_names objects) \<Longrightarrow> d \<in> set objects \<Longrightarrow> deps_of objects (do_logical_name d) = do_depends_on d"
  using by_name_Some [of objects d] by (simp add: deps_of_def by_name_def)

lemma blocked_circular:
  assumes "well_named objects" and "S \<subseteq> set (obj_names objects)"
  shows "blocked (object_children objects) S \<longleftrightarrow> circular objects S"
proof -
  have dist: "distinct (obj_names objects)" using assms(1) by (simp add: well_named_def)
  have "(\<exists>c \<in> set objects. do_logical_name c = v \<and> (\<exists>u \<in> S. u \<in> set (do_depends_on c))) \<longleftrightarrow>
      (\<exists>m \<in> S. m \<in> set (deps_of objects v))" if "v \<in> S" for v
  proof -
    obtain d where d: "d \<in> set objects" "do_logical_name d = v" using assms(2) \<open>v \<in> S\<close> by auto
    have "c = d" if "c \<in> set objects" "do_logical_name c = v" for c
      using dist d that by (auto simp: distinct_map dest: inj_onD)
    with d have "(\<exists>c \<in> set objects. do_logical_name c = v \<and> (\<exists>u \<in> S. u \<in> set (do_depends_on c))) \<longleftrightarrow>
        (\<exists>u \<in> S. u \<in> set (do_depends_on d))" by metis
    then show ?thesis unfolding deps_of_object [OF dist d(1), unfolded d(2)] .
  qed
  then have "(\<forall>v \<in> S. \<exists>c \<in> set objects. do_logical_name c = v \<and> (\<exists>u \<in> S. u \<in> set (do_depends_on c))) \<longleftrightarrow>
      (\<forall>v \<in> S. \<exists>m \<in> S. m \<in> set (deps_of objects v))"
    by (intro ball_cong) blast+
  then show ?thesis unfolding blocked_dependants circular_def using assms(2) by argo
qed

definition orderable :: "desired_object list \<Rightarrow> bool" where
  "orderable objects \<longleftrightarrow> well_named objects \<and> closed_dependencies objects \<and> \<not> (\<exists>S. circular objects S)"

lemma orderDesired_cases:
  "(orderable objects \<and> (\<exists>result. orderDesired objects = Some (Inr result) \<and> mset result = mset objects \<and>
      (\<forall>xs d ys. result = xs @ d # ys \<longrightarrow> set (do_depends_on d) \<subseteq> set (obj_names xs)))) \<or>
   (\<not> orderable objects \<and> (\<exists>e. orderDesired objects = Some (Inl e) \<and> no_panic e))"
proof (cases "well_named objects \<and> closed_dependencies objects")
  case False
  with orderDesired_bad [OF this] show ?thesis by (auto simp: orderable_def)
next
  case True
  let ?N = "set (obj_names objects)" and ?b = "\<lambda>n. the (by_name objects n)"
  have dist: "distinct (obj_names objects)" using True by (simp add: well_named_def)
  obtain acc d' where run:
    "kahn_loop sorted_in (\<lambda>n. sort (object_children objects n)) (ready_names objects) (in_degrees objects) [] = Some (acc, d')"
    and acc: "distinct acc" "set acc \<subseteq> ?N" "after_deps (object_children objects) ?N acc"
    and full: "set acc = ?N \<longleftrightarrow> (\<nexists>S. S \<subseteq> ?N \<and> blocked (object_children objects) S)"
    by (rule order_kahn [OF conjunct1 [OF True] conjunct2 [OF True]])
  have circ: "(\<nexists>S. S \<subseteq> ?N \<and> blocked (object_children objects) S) \<longleftrightarrow> \<not> (\<exists>S. circular objects S)"
    using blocked_circular [OF conjunct1 [OF True]] circular_names [of objects] by metis
  have len: "length acc = length objects \<longleftrightarrow> set acc = ?N"
    using acc(1,2) dist by (metis card_subset_eq distinct_card List.finite_set length_map)
  have pick: "\<forall>d \<in> set objects. ?b (do_logical_name d) = d" using by_name_Some [OF dist] by simp
  show ?thesis
  proof (cases "set acc = ?N")
    case True': True
    then have all: "set acc = do_logical_name ` set objects" by simp
    have after: "after_deps (object_children objects) (do_logical_name ` set objects) acc" using acc(3) by simp
    note order = named_order [OF dist pick acc(1) all]
    have "distinct objects" using dist by (simp add: distinct_map)
    with order(2,3) have perm: "mset (map ?b acc) = mset objects"
      using set_eq_iff_mset_eq_distinct by blast
    have first: "set (do_depends_on d) \<subseteq> set (obj_names xs)" if split: "map ?b acc = xs @ d # ys" for xs d ys
    proof
      fix u
      assume u: "u \<in> set (do_depends_on d)"
      have d: "d \<in> set objects" using split order(3) by (metis in_set_conv_decomp)
      with u True have "u \<in> do_logical_name ` set objects" unfolding closed_dependencies_def by fastforce
      with named_order_after [OF dist pick acc(1) all after split u] show "u \<in> set (obj_names xs)" by simp
    qed
    have "orderDesired objects = Some (Inr (map ?b acc))"
      using orderDesired_run [OF conjunct1 [OF True] conjunct2 [OF True]] run True' len by simp
    moreover have "orderable objects" using True True' full circ by (simp add: orderable_def)
    ultimately show ?thesis using perm first by blast
  next
    case False
    with True len full circ orderDesired_run [of objects] run show ?thesis by (auto simp: orderable_def)
  qed
qed

text \<open>
  C13. \<open>orderDesired\<close> returns for every plan. It succeeds exactly on the orderable ones (names
  given and distinct, dependencies among them, no circular set), and then with a permutation
  of the objects in which every object comes after everything it depends on.
\<close>

theorem order_desired_correct:
  "if orderable objects
   then \<exists>result. orderDesired objects = Some (Inr result) \<and> mset result = mset objects \<and>
          (\<forall>xs d ys. result = xs @ d # ys \<longrightarrow> set (do_depends_on d) \<subseteq> set (map do_logical_name xs))
   else \<exists>e. orderDesired objects = Some (Inl e) \<and> no_panic e"
  using orderDesired_cases [of objects] by argo

definition plain_kind :: "string \<Rightarrow> object_kind" where
  "plain_kind k = \<lparr>k_group = [], k_version = ''v1'', k_kind = k\<rparr>"

definition graph_object :: "string \<Rightarrow> string list \<Rightarrow> desired_object" where
  "graph_object n deps =
     \<lparr>do_logical_name = n, do_role = [], do_kind = plain_kind ''Pod'',
       do_manifest = \<lparr>mf_type = plain_kind ''Pod'', mf_object = RawDoc JNull\<rparr>,
       do_ownership = \<lparr>ro_scope = ''LogicalTask'', ro_owner_key = ''owner'', ro_incarnation_policy = []\<rparr>,
       do_lifecycle = LifecycleDeleteOnTaskCleanup, do_depends_on = deps, do_update_mode = [],
       do_reconcile_profile = plain_kind [], do_owned_fields = [], do_units = []\<rparr>"

theorem order_desired_correct_witness:
  "orderDesired [graph_object ''b'' [''a''], graph_object ''a'' []] =
     Some (Inr [graph_object ''a'' [], graph_object ''b'' [''a'']]) \<and>
   orderable [graph_object ''b'' [''a''], graph_object ''a'' []]"
proof -
  have run: "orderDesired [graph_object ''b'' [''a''], graph_object ''a'' []] =
     Some (Inr [graph_object ''a'' [], graph_object ''b'' [''a'']])"
    by code_simp
  with order_desired_correct [of "[graph_object ''b'' [''a''], graph_object ''a'' []]"] show ?thesis
    by (simp split: if_split_asm)
qed

section \<open>The order of the plan does not matter\<close>

lemma kahn_ingredients_mset:
  assumes "mset xs = mset ys"
  shows "in_degrees xs n = in_degrees ys n"
    and "sort (object_children xs n) = sort (object_children ys n)"
proof -
  have "in_degrees zs n = (\<Sum>d \<in># mset zs. if do_logical_name d = n then int (length (do_depends_on d)) else 0)" for zs
    unfolding in_degrees_def by (induction zs) simp_all
  then show "in_degrees xs n = in_degrees ys n" by (simp only: assms)
  have "mset (object_children zs n) =
      (\<Sum>d \<in># mset zs. replicate_mset (count_list (do_depends_on d) n) (do_logical_name d))" for zs
    unfolding dependants_of_def by (induction zs) simp_all
  then have "mset (object_children xs n) = mset (object_children ys n)" by (simp only: assms)
  then show "sort (object_children xs n) = sort (object_children ys n)"
    by (metis properties_for_sort mset_sort sorted_sort)
qed

lemma ready_names_mset:
  assumes "mset xs = mset ys"
  shows "ready_names xs = ready_names ys"
proof -
  have "mset (filter (\<lambda>n. in_degrees xs n = 0) (obj_names xs)) =
      mset (filter (\<lambda>n. in_degrees ys n = 0) (obj_names ys))"
    unfolding mset_filter mset_map by (simp only: assms kahn_ingredients_mset(1) [OF assms])
  then show ?thesis by (metis properties_for_sort mset_sort sorted_sort)
qed

lemma by_name_mset:
  assumes "mset xs = mset ys" and "distinct (obj_names xs)"
  shows "by_name xs = by_name ys"
proof
  fix n
  have names: "mset (obj_names xs) = mset (obj_names ys)" by (simp only: mset_map assms(1))
  have sets: "set xs = set ys" "set (obj_names xs) = set (obj_names ys)"
    using assms(1) names by (metis set_mset_mset)+
  have dist: "distinct (obj_names ys)" using assms(2) names by (metis mset_eq_imp_distinct_iff)
  show "by_name xs n = by_name ys n"
  proof (cases "n \<in> set (obj_names xs)")
    case True
    then obtain d where d: "d \<in> set xs" "n = do_logical_name d" by auto
    then have "d \<in> set ys" using sets by blast
    from by_name_Some [OF assms(2) d(1)] by_name_Some [OF dist this] d(2) show ?thesis by simp
  next
    case False
    with sets(2) show ?thesis by (metis by_name_None)
  qed
qed

lemma well_named_mset:
  assumes "mset xs = mset ys"
  shows "well_named xs = well_named ys" and "closed_dependencies xs = closed_dependencies ys"
proof -
  have names: "mset (obj_names xs) = mset (obj_names ys)" by (simp only: mset_map assms)
  have sets: "set xs = set ys" "set (obj_names xs) = set (obj_names ys)"
    using assms names by (metis set_mset_mset)+
  have "distinct (obj_names xs) = distinct (obj_names ys)" using names by (metis mset_eq_imp_distinct_iff)
  with sets show "well_named xs = well_named ys" by (simp only: well_named_def)
  from sets show "closed_dependencies xs = closed_dependencies ys" by (simp only: closed_dependencies_def)
qed

text \<open>
  The canonical order is a function of the plan's contents: emitted in another order,
  the same objects give the same result, or are both refused.
\<close>

theorem order_desired_slice_independent:
  assumes "mset xs = mset ys"
  shows "orderDesired xs = orderDesired ys \<or>
    (\<exists>e e'. orderDesired xs = Some (Inl e) \<and> orderDesired ys = Some (Inl e'))"
proof (cases "well_named xs \<and> closed_dependencies xs")
  case True
  then have ys: "well_named ys" "closed_dependencies ys" using well_named_mset [OF assms] by auto
  from True have dist: "distinct (obj_names xs)" by (simp only: well_named_def)
  have len: "length xs = length ys" using assms by (rule mset_eq_length)
  have deg: "in_degrees xs = in_degrees ys" using kahn_ingredients_mset(1) [OF assms] by (rule ext)
  note ready = ready_names_mset [OF assms, unfolded deg]
  show ?thesis
    unfolding orderDesired_run [OF conjunct1 [OF True] conjunct2 [OF True]] orderDesired_run [OF ys]
      kahn_ingredients_mset(2) [OF assms] deg ready by_name_mset [OF assms dist] len
    by simp
next
  case False
  then have "\<not> (well_named ys \<and> closed_dependencies ys)" using well_named_mset [OF assms] by auto
  with orderDesired_bad [OF False] orderDesired_bad [OF this] show ?thesis by blast
qed

theorem order_desired_slice_independent_witness:
  "orderDesired [graph_object ''b'' [''a''], graph_object ''a'' []] =
     orderDesired [graph_object ''a'' [], graph_object ''b'' [''a'']] \<or>
   (\<exists>e e'. orderDesired [graph_object ''b'' [''a''], graph_object ''a'' []] = Some (Inl e) \<and>
      orderDesired [graph_object ''a'' [], graph_object ''b'' [''a'']] = Some (Inl e'))"
  by (rule order_desired_slice_independent) simp

section \<open>The two checks agree\<close>

lemma validate_names_None:
  "validate_names names ds = None \<longleftrightarrow>
     well_named ds \<and> set (obj_names ds) \<inter> set names = {} \<and>
     (\<forall>d \<in> set ds. ResourceOwnership_Validate (do_ownership d) = None)"
  by (induction ds arbitrary: names) (auto simp: well_named_def split: option.splits)

lemma validate_references_None:
  "validate_references objects ds = None \<longleftrightarrow> (\<forall>d \<in> set ds. set (do_depends_on d) \<subseteq> set (obj_names objects))"
proof (induction ds)
  case (Cons d ds)
  have "unknown_dependency objects d = None \<longleftrightarrow> set (do_depends_on d) \<subseteq> set (obj_names objects)"
    unfolding unknown_dependency_def find_None_iff by auto
  with Cons show ?case by (cases "unknown_dependency objects d") auto
qed simp

definition deps_first :: "desired_object list \<Rightarrow> string list \<Rightarrow> bool" where
  "deps_first objects s \<longleftrightarrow> (\<forall>xs n ys. s = xs @ n # ys \<longrightarrow> set (deps_of objects n) \<subseteq> set xs)"

lemma deps_first_snoc:
  assumes "deps_first objects s" and "set (deps_of objects n) \<subseteq> set s"
  shows "deps_first objects (s @ [n])"
  unfolding deps_first_def
proof (intro allI impI)
  fix xs v ys
  assume eq: "s @ [n] = xs @ v # ys"
  show "set (deps_of objects v) \<subseteq> set xs"
  proof (cases ys rule: rev_cases)
    case Nil
    with eq assms(2) show ?thesis by simp
  next
    case (snoc ys' y)
    with eq have "s = xs @ v # ys'" by simp
    with assms(1) show ?thesis by (simp add: deps_first_def)
  qed
qed

lemma visit_sound:
  assumes "visit objects active seen ns = Inr seen'" and "deps_first objects seen"
  shows "deps_first objects seen' \<and> set seen \<union> set ns \<subseteq> set seen'"
  using assms
proof (induction objects active seen ns arbitrary: seen' rule: visit.induct)
  case (2 objects active seen n ns)
  show ?case
  proof (cases "n \<in> set seen")
    case True
    with 2 show ?thesis by (auto split: if_splits)
  next
    case False
    from "2.prems"(1) False have act: "n \<notin> set active" by (auto split: if_splits)
    with "2.prems"(1) False obtain s where s: "visit objects (n # active) seen (deps_of objects n) = Inr s"
      and rest: "visit objects active (s @ [n]) ns = Inr seen'" by (auto split: sum.splits)
    have one: "deps_first objects s" "set seen \<union> set (deps_of objects n) \<subseteq> set s"
      using "2.IH"(2) [OF act False s "2.prems"(2)] by simp_all
    then have "deps_first objects (s @ [n])" by (intro deps_first_snoc) auto
    from "2.IH"(3) [OF act False s rest this] one(2) show ?thesis by auto
  qed
qed simp

lemma deps_first_not_circular:
  assumes "deps_first objects s" and "S \<subseteq> set s"
  shows "\<not> circular objects S"
proof
  assume circ: "circular objects S"
  then obtain v where "v \<in> S" unfolding circular_def by blast
  with assms(2) have "\<exists>x \<in> set s. x \<in> S" by blast
  then obtain xs n ys where split: "s = xs @ n # ys" "n \<in> S" "\<forall>x \<in> set xs. x \<notin> S"
    using split_list_first_prop [of s "\<lambda>x. x \<in> S"] by blast
  with circ obtain m where "m \<in> S" "m \<in> set (deps_of objects n)" unfolding circular_def by blast
  with assms(1) split show False unfolding deps_first_def by blast
qed

text \<open>Conversely, the stack at the point of failure holds a circular set.\<close>

lemma successively_predecessor:
  "successively P xs \<Longrightarrow> x \<in> set xs \<Longrightarrow> x = hd xs \<or> (\<exists>m \<in> set xs. P m x)"
proof (induction xs)
  case (Cons a xs)
  show ?case
  proof (cases "x = a")
    case False
    with Cons.prems have x: "x \<in> set xs" and s: "successively P xs" "P a (hd xs)"
      by (auto simp: successively_Cons)
    from Cons.IH [OF s(1) x] s(2) show ?thesis by auto
  qed simp
qed simp

lemma visit_complete:
  assumes "visit objects active seen ns = Inl e"
    and "successively (\<lambda>a b. a \<in> set (deps_of objects b)) active"
    and "active \<noteq> [] \<Longrightarrow> set ns \<subseteq> set (deps_of objects (hd active))"
    and "set active \<union> set ns \<subseteq> set (obj_names objects)"
    and "\<forall>n. set (deps_of objects n) \<subseteq> set (obj_names objects)"
  shows "\<exists>S. circular objects S"
  using assms
proof (induction objects active seen ns arbitrary: e rule: visit.induct)
  case (2 objects active seen n ns)
  note [simp del] = set_map
  show ?case
  proof (cases "n \<in> set active")
    case True
    then obtain xs ys where split: "active = xs @ n # ys" by (meson split_list)
    let ?L = "xs @ [n]"
    have path: "successively (\<lambda>a b. a \<in> set (deps_of objects b)) ?L"
      using "2.prems"(2) split by (simp add: successively_append_iff)
    have hd: "hd active = hd ?L" using split by (cases xs) auto
    have "n \<in> set (deps_of objects (hd ?L))" using "2.prems"(3) split hd by simp
    then have "\<exists>m \<in> set ?L. m \<in> set (deps_of objects v)" if "v \<in> set ?L" for v
      using successively_predecessor [OF path that] by auto
    moreover have "set ?L \<subseteq> set (obj_names objects)" using "2.prems"(4) split by auto
    moreover have "set ?L \<noteq> {}" by simp
    ultimately have "circular objects (set ?L)" unfolding circular_def by blast
    then show ?thesis ..
  next
    case act: False
    show ?thesis
    proof (cases "n \<in> set seen")
      case True
      with act "2.prems"(1) have run: "visit objects active seen ns = Inl e" by simp
      show ?thesis
        by (rule "2.IH"(1) [OF act True run "2.prems"(2)]) (use "2.prems"(3-5) in auto)
    next
      case False
      show ?thesis
      proof (cases "visit objects (n # active) seen (deps_of objects n)")
        case (Inl e')
        have "successively (\<lambda>a b. a \<in> set (deps_of objects b)) (n # active)"
          using "2.prems"(2,3) by (cases active) auto
        then show ?thesis
          by (rule "2.IH"(2) [OF act False Inl]) (use "2.prems"(4,5) in auto)
      next
        case (Inr s)
        with act False "2.prems"(1) have run: "visit objects active (s @ [n]) ns = Inl e" by simp
        show ?thesis
          by (rule "2.IH"(3) [OF act False Inr run "2.prems"(2)]) (use "2.prems"(3-5) in auto)
      qed
    qed
  qed
qed simp

text \<open>
  C31. The depth-first check of \<open>ValidateObjects\<close> and the work-list order agree, in whatever order
  the check ranges over the names: a plan validates exactly when its ownership policies are
  valid and \<open>orderDesired\<close> finds an order.
\<close>

theorem validate_objects_iff_ordered:
  assumes "set order = set (map do_logical_name objects)"
  shows "ValidateObjects objects order = None \<longleftrightarrow>
    (\<forall>d \<in> set objects. ResourceOwnership_Validate (do_ownership d) = None) \<and>
    (\<exists>result. orderDesired objects = Some (Inr result))"
proof -
  let ?own = "\<forall>d \<in> set objects. ResourceOwnership_Validate (do_ownership d) = None"
  have ordered: "(\<exists>result. orderDesired objects = Some (Inr result)) \<longleftrightarrow> orderable objects"
    using orderDesired_cases [of objects] by auto
  have dfs: "visit objects [] [] order = Inr s \<Longrightarrow> \<not> (\<exists>S. circular objects S)" for s
  proof -
    assume run: "visit objects [] [] order = Inr s"
    have "deps_first objects []" by (simp add: deps_first_def)
    from visit_sound [OF run this] show "\<not> (\<exists>S. circular objects S)"
      using deps_first_not_circular [of objects s] circular_names [of objects] assms by (metis Un_subset_iff subset_trans)
  qed
  have dfs': "\<exists>S. circular objects S" if run: "visit objects [] [] order = Inl e"
    and names: "well_named objects" and closed: "closed_dependencies objects" for e
  proof (rule visit_complete [OF run])
    show "\<forall>n. set (deps_of objects n) \<subseteq> set (obj_names objects)"
    proof
      fix n
      show "set (deps_of objects n) \<subseteq> set (obj_names objects)"
        using closed by (auto simp: closed_dependencies_def deps_of_def split: option.split dest!: find_SomeD [OF sym])
    qed
  qed (use assms in auto)
  have V: "ValidateObjects objects order = None \<longleftrightarrow>
      ?own \<and> well_named objects \<and> closed_dependencies objects \<and> (\<exists>s. visit objects [] [] order = Inr s)"
  proof (cases "validate_names [] objects = None \<and> validate_references objects objects = None")
    case True
    then have "well_named objects" "closed_dependencies objects" ?own
      unfolding validate_names_None validate_references_None closed_dependencies_def by blast+
    with True show ?thesis by (auto simp: ValidateObjects_def split: sum.split)
  next
    case False
    then have "\<not> (?own \<and> well_named objects \<and> closed_dependencies objects)"
      unfolding validate_names_None validate_references_None closed_dependencies_def by auto
    with False show ?thesis by (auto simp: ValidateObjects_def split: option.splits)
  qed
  show ?thesis
  proof (cases "visit objects [] [] order")
    case (Inl e)
    with dfs' have "\<not> orderable objects" unfolding orderable_def by blast
    with V Inl ordered show ?thesis by auto
  next
    case (Inr s)
    with dfs V ordered show ?thesis unfolding orderable_def by auto
  qed
qed

theorem validate_objects_iff_ordered_witness:
  "ValidateObjects [graph_object ''a'' []] [''a''] = None \<longleftrightarrow>
    (\<forall>d \<in> set [graph_object ''a'' []]. ResourceOwnership_Validate (do_ownership d) = None) \<and>
    (\<exists>result. orderDesired [graph_object ''a'' []] = Some (Inr result))"
  by (rule validate_objects_iff_ordered) (simp add: graph_object_def)

end
