(* ===== verification/Evidence.thy ===== *)
theory Evidence
  imports Exec_Types
begin

text \<open>
  Execution revisions and the decision between targeted observation and full reconciliation
  (\<open>agent/execution/evidence/evidence.go\<close>). The SHA-256 function, in hexadecimal, is the
  parameter \<open>sha256\<close> of the definitions that hash.
\<close>

section \<open>Digests\<close>

abbreviation digestPrefix :: string where "digestPrefix \<equiv> ''sha256:''"

definition NewDigest :: "(string \<Rightarrow> string) \<Rightarrow> string \<Rightarrow> string" where
  "NewDigest sha256 value = digestPrefix @ sha256 value"

definition upper_char :: "char \<Rightarrow> bool" where
  "upper_char c \<longleftrightarrow> CHR ''A'' \<le> c \<and> c \<le> CHR ''Z''"

definition hex_char :: "char \<Rightarrow> bool" where
  "hex_char c \<longleftrightarrow> CHR ''0'' \<le> c \<and> c \<le> CHR ''9'' \<or> CHR ''a'' \<le> c \<and> c \<le> CHR ''f'' \<or> CHR ''A'' \<le> c \<and> c \<le> CHR ''F''"

text \<open>
  \<open>encoded\<close> differs from its lower-case form when it has an upper-case letter; a byte outside
  ASCII is refused by \<open>hex.DecodeString\<close> at the latest.
\<close>

definition Digest_Validate :: "string \<Rightarrow> go_error option" where
  "Digest_Validate value =
     (if take (length digestPrefix) value \<noteq> digestPrefix \<or> length value \<noteq> length digestPrefix + 32 * 2
      then Some (ErrText ''digest must use sha256:<lowercase-hex>'')
      else let encoded = drop (length digestPrefix) value in
        if \<exists>c \<in> set encoded. upper_char c then Some (ErrText ''digest must use lowercase hexadecimal'')
        else if \<exists>c \<in> set encoded. \<not> hex_char c then Some (ErrText ''encoding/hex: invalid byte'')
        else None)"

section \<open>Evidence\<close>

record revision =
  rev_runtime :: runtime_selector
  rev_workload :: workload_selector
  rev_compiled :: string
  rev_executable :: string
  rev_binding :: string

record current_task =
  ct_identity :: task_identity
  ct_runtime :: runtime_selector
  ct_workload :: workload_selector
  ct_claimed :: bool
  ct_claimed_by_host :: bool
  ct_deleting :: bool
  ct_lifecycle_pending :: bool

record root_evidence =
  re_ref :: object_ref
  re_task :: task_identity
  re_revision :: revision
  re_ownership :: resource_ownership

record fast_candidate =
  fc_observed_uid :: string
  fc_generation :: int
  fc_runtime_id :: string
  fc_root :: root_evidence
  fc_expected :: revision
  fc_conflicting :: bool
  fc_periodic :: bool
  fc_desired_changed :: bool

datatype mode = ModeObserveRoot | ModeFullReconcile

datatype reason = ReasonVerified | ReasonPeriodic | ReasonDesiredChanged | ReasonConflictingHints
  | ReasonTaskUnclaimed | ReasonWrongClaimant | ReasonTaskDeleting | ReasonLifecyclePending
  | ReasonStaleTaskUID | ReasonGenerationChange | ReasonRuntimeMismatch | ReasonRootMismatch
  | ReasonOwnership | ReasonRevisionMissing | ReasonRevisionChanged

record decision =
  de_mode :: mode
  de_reason :: reason
  de_root :: "object_ref option"

definition revisionMissing :: "revision \<Rightarrow> bool" where
  "revisionMissing v \<longleftrightarrow>
     rs_id (rev_runtime v) = [] \<or> rs_kind (rev_runtime v) = [] \<or>
     wsel_type (rev_workload v) = [] \<or> wsel_version (rev_workload v) = [] \<or>
     Digest_Validate (rev_compiled v) \<noteq> None \<or> Digest_Validate (rev_executable v) \<noteq> None \<or>
     Digest_Validate (rev_binding v) \<noteq> None"

definition Decide :: "current_task \<Rightarrow> fast_candidate \<Rightarrow> decision" where
  "Decide current candidate =
     (let full = (\<lambda>r. \<lparr>de_mode = ModeFullReconcile, de_reason = r, de_root = None\<rparr>);
          root = fc_root candidate; me = ct_identity current in
      if fc_periodic candidate then full ReasonPeriodic
      else if fc_desired_changed candidate then full ReasonDesiredChanged
      else if fc_conflicting candidate then full ReasonConflictingHints
      else if \<not> ct_claimed current then full ReasonTaskUnclaimed
      else if \<not> ct_claimed_by_host current then full ReasonWrongClaimant
      else if ct_deleting current then full ReasonTaskDeleting
      else if ct_lifecycle_pending current then full ReasonLifecyclePending
      else if fc_observed_uid candidate = [] \<or> fc_observed_uid candidate \<noteq> ti_object_uid me \<or>
              ti_object_uid (re_task root) \<noteq> ti_object_uid me then full ReasonStaleTaskUID
      else if fc_generation candidate = 0 \<or> fc_generation candidate \<noteq> ti_generation me \<or>
              ti_generation (re_task root) \<noteq> ti_generation me then full ReasonGenerationChange
      else if fc_runtime_id candidate = [] \<or> fc_runtime_id candidate \<noteq> rs_id (ct_runtime current) \<or>
              rf_runtime_id (re_ref root) \<noteq> rs_id (ct_runtime current) \<or>
              rev_runtime (re_revision root) \<noteq> ct_runtime current then full ReasonRuntimeMismatch
      else if rf_uid (re_ref root) = [] \<or> rf_logical_task (re_ref root) \<noteq> ti_logical me \<or>
              ti_logical (re_task root) \<noteq> ti_logical me then full ReasonRootMismatch
      else if ro_scope (re_ownership root) \<noteq> IdentityTaskIncarnation \<or>
              ro_owner_key (re_ownership root) \<noteq> ti_object_uid me then full ReasonOwnership
      else if revisionMissing (re_revision root) \<or> revisionMissing (fc_expected candidate)
      then full ReasonRevisionMissing
      else if re_revision root \<noteq> fc_expected candidate \<or> rev_runtime (fc_expected candidate) \<noteq> ct_runtime current \<or>
              rev_workload (fc_expected candidate) \<noteq> ct_workload current then full ReasonRevisionChanged
      else \<lparr>de_mode = ModeObserveRoot, de_reason = ReasonVerified, de_root = Some (re_ref root)\<rparr>)"

section \<open>The evidence a targeted observation rests on\<close>

text \<open>
  The specification, independent of the order of the checks: the hint asks for nothing more,
  the Task is claimed here and at rest, and one incarnation, generation, Runtime and revision
  is named by the hint, the Task and the root alike.
\<close>

definition hint_narrow :: "fast_candidate \<Rightarrow> bool" where
  "hint_narrow c \<longleftrightarrow> \<not> fc_periodic c \<and> \<not> fc_desired_changed c \<and> \<not> fc_conflicting c"

definition task_at_rest :: "current_task \<Rightarrow> bool" where
  "task_at_rest t \<longleftrightarrow> ct_claimed t \<and> ct_claimed_by_host t \<and> \<not> ct_deleting t \<and> \<not> ct_lifecycle_pending t"

definition root_of_task :: "current_task \<Rightarrow> root_evidence \<Rightarrow> bool" where
  "root_of_task t r \<longleftrightarrow> re_task r = ct_identity t \<and>
     rf_logical_task (re_ref r) = ti_logical (ct_identity t) \<and> rf_uid (re_ref r) \<noteq> [] \<and>
     rf_runtime_id (re_ref r) = rs_id (ct_runtime t) \<and>
     ro_scope (re_ownership r) = IdentityTaskIncarnation \<and>
     ro_owner_key (re_ownership r) = ti_object_uid (ct_identity t)"

definition hint_of_task :: "current_task \<Rightarrow> fast_candidate \<Rightarrow> bool" where
  "hint_of_task t c \<longleftrightarrow>
     fc_observed_uid c = ti_object_uid (ct_identity t) \<and> fc_observed_uid c \<noteq> [] \<and>
     fc_generation c = ti_generation (ct_identity t) \<and> fc_generation c \<noteq> 0 \<and>
     fc_runtime_id c = rs_id (ct_runtime t)"

definition revision_current :: "current_task \<Rightarrow> revision \<Rightarrow> bool" where
  "revision_current t v \<longleftrightarrow> rev_runtime v = ct_runtime t \<and> rev_workload v = ct_workload t \<and> \<not> revisionMissing v"

definition fast_path_proven :: "current_task \<Rightarrow> fast_candidate \<Rightarrow> bool" where
  "fast_path_proven t c \<longleftrightarrow> hint_narrow c \<and> task_at_rest t \<and> hint_of_task t c \<and> root_of_task t (fc_root c) \<and>
     re_revision (fc_root c) = fc_expected c \<and> revision_current t (fc_expected c)"

lemma Decide_modes:
  "de_mode (Decide t c) = ModeObserveRoot \<longleftrightarrow> de_reason (Decide t c) = ReasonVerified"
  "de_root (Decide t c) = (if de_mode (Decide t c) = ModeObserveRoot then Some (re_ref (fc_root c)) else None)"
  by (auto simp: Decide_def Let_def)

lemma identity_eq:
  "i = j \<longleftrightarrow> ti_logical i = ti_logical j \<and> ti_object_uid i = ti_object_uid j \<and> ti_generation i = ti_generation j"
  for i j :: task_identity
  by (cases i; cases j) auto

text \<open>
  C30. \<open>Decide\<close> picks a targeted observation exactly when the evidence is complete, and then it
  observes the root of the evidence; every other case is a full reconciliation without a root.
\<close>

theorem decide_exact:
  "Decide t c =
     (if fast_path_proven t c
      then \<lparr>de_mode = ModeObserveRoot, de_reason = ReasonVerified, de_root = Some (re_ref (fc_root c))\<rparr>
      else \<lparr>de_mode = ModeFullReconcile, de_reason = de_reason (Decide t c), de_root = None\<rparr>)"
proof (cases "fast_path_proven t c")
  case True
  then have "revisionMissing (re_revision (fc_root c)) = False" "revisionMissing (fc_expected c) = False"
    "rs_id (ct_runtime t) \<noteq> []"
    unfolding fast_path_proven_def revision_current_def by (auto simp: revisionMissing_def)
  with True show ?thesis
    unfolding fast_path_proven_def hint_narrow_def task_at_rest_def hint_of_task_def root_of_task_def
      revision_current_def
    by (simp add: Decide_def Let_def)
next
  case False
  have "de_mode (Decide t c) = ModeFullReconcile"
  proof (rule ccontr)
    assume "de_mode (Decide t c) \<noteq> ModeFullReconcile"
    then have "fast_path_proven t c"
      unfolding fast_path_proven_def hint_narrow_def task_at_rest_def hint_of_task_def root_of_task_def
        revision_current_def identity_eq
      by (simp add: Decide_def Let_def split: if_splits)
    with False show False ..
  qed
  with False Decide_modes(2) [of t c] show ?thesis by simp
qed

section \<open>The revision of an evaluation\<close>

text \<open>\<open>canonicalDigest\<close> of the coordinator: a digest as it is, anything else hashed.\<close>

definition canonicalDigest :: "(string \<Rightarrow> string) \<Rightarrow> string \<Rightarrow> string" where
  "canonicalDigest sha256 value =
     (if Digest_Validate value = None then value else NewDigest sha256 value)"

definition sha256_hex :: "(string \<Rightarrow> string) \<Rightarrow> bool" where
  "sha256_hex h \<longleftrightarrow> (\<forall>s. length (h s) = 64 \<and> (\<forall>c \<in> set (h s). hex_char c \<and> \<not> upper_char c))"

lemma canonicalDigest_valid:
  assumes "sha256_hex h"
  shows "Digest_Validate (canonicalDigest h value) = None"
proof -
  have "Digest_Validate (NewDigest h value) = None"
    using assms by (auto simp: Digest_Validate_def NewDigest_def sha256_hex_def Let_def)
  then show ?thesis by (simp add: canonicalDigest_def)
qed

end
