(* ===== verification/Environment.thy ===== *)
theory Environment
  imports Object_Graph Evidence "HOL-Library.AList"
begin

text \<open>
  Environment bindings: target and consumer validation (\<open>environment/target.go\<close>), unit
  projection (\<open>plan/unit.go\<close>), the handler registry, its ordering and the run of the handlers
  (\<open>environment/handler.go\<close>), the pass-through resolver, the binding revision, and the binder
  (\<open>agent/execution/binding\<close>). A handler is a record of its three methods; the working plan
  that handlers mutate through a pointer is the state of their programs. The order in which
  Go ranges over a map is the argument \<open>rng\<close>, a permutation of the keys. Leases of secret
  material are not modelled: a request only says whether a provider is configured.
\<close>

section \<open>Targets and consumers\<close>

fun target_objects :: "(string \<rightharpoonup> desired_object) \<Rightarrow> desired_object list \<Rightarrow> go_error + (string \<rightharpoonup> desired_object)" where
  "target_objects m [] = Inr m"
| "target_objects m (d # ds) =
     (if do_logical_name d = []
      then Inl (fault_New InvalidArgument ''environment target object has an empty logical name'')
      else if m (do_logical_name d) \<noteq> None
      then Inl (fault_New InvalidArgument
             (''environment targets reference duplicate object logical name '' @ quoted (do_logical_name d)))
      else target_objects (m(do_logical_name d \<mapsto> d)) ds)"

fun check_targets ::
    "(string \<rightharpoonup> desired_object) \<Rightarrow> (string \<rightharpoonup> mutation_target) \<Rightarrow> mutation_target list \<Rightarrow>
     go_error + (string \<rightharpoonup> mutation_target)" where
  "check_targets objects result [] = Inr result"
| "check_targets objects result (t # ts) =
     (if trim_space (mt_name t) = [] then Inl (fault_New InvalidArgument ''environment target name is required'')
      else if result (mt_name t) \<noteq> None
      then Inl (fault_New InvalidArgument (''duplicate environment target '' @ quoted (mt_name t)))
      else (case objects (mt_object_name t) of
              None \<Rightarrow> Inl (fault_New InvalidArgument
                (''environment target '' @ quoted (mt_name t) @ '' references missing object '' @ quoted (mt_object_name t)))
            | Some d \<Rightarrow>
                (if mt_kind t \<noteq> UnitPodTemplate \<and> mt_kind t \<noteq> UnitPod
                 then Inl (fault_New InvalidArgument
                   (''environment target '' @ quoted (mt_name t) @ '' has unsupported kind '' @ quoted (mt_kind t)))
                 else if lo_type (mt_locator t) \<noteq> do_kind d \<or> lo_type (mt_locator t) \<noteq> mf_type (do_manifest d)
                 then Inl (fault_New InvalidArgument
                   (''environment target '' @ quoted (mt_name t) @ '' locator type does not match object '' @ quoted (mt_object_name t)))
                 else if trim_space (lo_path (mt_locator t)) = []
                 then Inl (fault_New InvalidArgument
                   (''environment target '' @ quoted (mt_name t) @ '' locator path is required''))
                 else check_targets objects (result(mt_name t \<mapsto> t)) ts)))"

definition ValidateTargets ::
    "mutation_target list \<Rightarrow> desired_object list \<Rightarrow> go_error + (string \<rightharpoonup> mutation_target)" where
  "ValidateTargets targets objects =
     (case target_objects Map.empty objects of
        Inl e \<Rightarrow> Inl e | Inr m \<Rightarrow> check_targets m Map.empty targets)"

text \<open>The map of resolved consumers, with its keys in the order they were first set.\<close>

fun consume_names ::
    "(string \<rightharpoonup> mutation_target) \<Rightarrow> (string \<times> resolved_consumer) list \<Rightarrow> string list \<Rightarrow>
     go_error + (string \<times> resolved_consumer) list" where
  "consume_names targets resolved [] = Inr resolved"
| "consume_names targets resolved (n # ns) =
     (case targets n of
        None \<Rightarrow> Inl (fault_New InvalidArgument (''environment consumer references unknown target '' @ quoted n))
      | Some t \<Rightarrow> consume_names targets
          (AList.update n \<lparr>rcn_target_name = n, rcn_object_name = mt_object_name t, rcn_role = mt_role t, rcn_unit_name = []\<rparr>
             resolved) ns)"

fun consume_selectors ::
    "(string \<rightharpoonup> mutation_target) \<Rightarrow> (string \<times> resolved_consumer) list \<Rightarrow> consumer_selector list \<Rightarrow>
     go_error + (string \<times> resolved_consumer) list" where
  "consume_selectors targets resolved [] = Inr resolved"
| "consume_selectors targets resolved (s # ss) =
     (if cs_object_names s \<noteq> [] \<or> cs_roles s \<noteq> [] \<or> cs_unit_names s \<noteq> []
      then Inl (fault_New InvalidArgument
             ''legacy environment consumer selectors must be normalized to exact targets'')
      else if cs_targets s = []
      then Inl (fault_New InvalidArgument ''environment consumer selector must name at least one target'')
      else (case consume_names targets resolved (cs_targets s) of
              Inl e \<Rightarrow> Inl e | Inr r \<Rightarrow> consume_selectors targets r ss))"

definition ResolveConsumers ::
    "consumer_selector list \<Rightarrow> (string \<rightharpoonup> mutation_target) \<Rightarrow> go_error + resolved_consumer list" where
  "ResolveConsumers selectors targets =
     (case consume_selectors targets [] selectors of
        Inl e \<Rightarrow> Inl e
      | Inr resolved \<Rightarrow> Inr (map (\<lambda>n. the (map_of resolved n)) (sort (map fst resolved))))"

section \<open>Unit projection\<close>

fun unit_objects :: "string list \<Rightarrow> desired_object list \<Rightarrow> go_error option" where
  "unit_objects names [] = None"
| "unit_objects names (d # ds) =
     (if do_logical_name d = []
      then Some (fault_New InvalidArgument ''workload unit object has an empty logical name'')
      else if do_logical_name d \<in> set names
      then Some (fault_New InvalidArgument ''workload units reference duplicate object logical names'')
      else unit_objects (do_logical_name d # names) ds)"

definition attach_unit :: "workload_unit \<Rightarrow> desired_object \<Rightarrow> desired_object" where
  "attach_unit u d =
     (if do_logical_name d = wu_object_name u
      then d\<lparr>do_units := do_units d @
             [\<lparr>ru_name = wu_name u, ru_kind = wu_kind u, ru_role = wu_role u, ru_locator = wu_locator u\<rparr>]\<rparr>
      else d)"

definition check_unit :: "string list \<Rightarrow> desired_object list \<Rightarrow> workload_unit \<Rightarrow> go_error option" where
  "check_unit seen result u =
     (let name = quoted (wu_name u) in
      if trim_space (wu_name u) = [] then Some (fault_New InvalidArgument ''workload unit name is required'')
      else if wu_name u \<in> set seen then Some (fault_New InvalidArgument (''duplicate workload unit '' @ name))
      else case find (\<lambda>d. do_logical_name d = wu_object_name u) result of
        None \<Rightarrow> Some (fault_New InvalidArgument
          (''workload unit '' @ name @ '' references missing object '' @ quoted (wu_object_name u)))
      | Some d \<Rightarrow>
          (if lo_type (wu_locator u) \<noteq> do_kind d \<or> lo_type (wu_locator u) \<noteq> mf_type (do_manifest d)
           then Some (fault_New InvalidArgument
             (''workload unit '' @ name @ '' locator type does not match object '' @ quoted (wu_object_name u)))
           else if wu_kind u = UnitPodTemplate then
             (if trim_space (lo_path (wu_locator u)) = []
              then Some (fault_New InvalidArgument (''PodTemplate workload unit '' @ name @ '' requires a static locator path''))
              else None)
           else if wu_kind u = UnitPod then
             (if trim_space (lo_path (wu_locator u)) = []
              then Some (fault_New InvalidArgument (''Pod workload unit '' @ name @ '' requires a static locator path''))
              else None)
           else Some (fault_New InvalidArgument
             (''workload unit '' @ name @ '' has unsupported kind '' @ quoted (wu_kind u)))))"

fun project_units ::
    "string list \<Rightarrow> desired_object list \<Rightarrow> workload_unit list \<Rightarrow> go_error + desired_object list" where
  "project_units seen result [] = Inr result"
| "project_units seen result (u # us) =
     (case check_unit seen result u of
        Some e \<Rightarrow> Inl e
      | None \<Rightarrow> project_units (wu_name u # seen) (map (attach_unit u) result) us)"

definition ProjectUnits :: "workload_unit list \<Rightarrow> desired_object list \<Rightarrow> go_error + desired_object list" where
  "ProjectUnits units objects =
     (case unit_objects [] objects of Some e \<Rightarrow> Inl e | None \<Rightarrow> project_units [] objects units)"

section \<open>The pass-through resolver and the binding revision\<close>

definition PassthroughResolver_Resolve :: "resolve_request \<Rightarrow> go_error + resolved_environment" where
  "PassthroughResolver_Resolve r =
     (if \<not> Requirements_Empty (rq_requirements r)
      then Inl (fault_New FailedPrecondition ''passthrough environment resolver cannot resolve non-empty requirements'')
      else Inr \<lparr>rv_task = rq_task r, rv_bindings = []\<rparr>)"

record binding_projection =
  bp_kind :: string
  bp_requirement_name :: string
  bp_profile :: profile_reference
  bp_consumers :: "resolved_consumer list"
  bp_ownership :: resource_ownership
  bp_lifecycle :: string
  bp_source_revision :: string
  bp_algorithm :: string
  bp_value_type :: object_kind

abbreviation nul :: string where "nul \<equiv> [CHR 0x00]"

definition consumer_key :: "resolved_consumer \<Rightarrow> string" where
  "consumer_key c = rcn_target_name c @ nul @ rcn_object_name c @ nul @ rcn_role c @ nul @ rcn_unit_name c"

definition projection_key :: "binding_projection \<Rightarrow> string" where
  "projection_key p = bp_kind p @ nul @ bp_requirement_name p @ nul @ pr_type (bp_profile p) @ nul @ pr_name (bp_profile p)"

definition project_binding :: "resolved_binding \<Rightarrow> binding_projection" where
  "project_binding b =
     \<lparr>bp_kind = rb_kind b, bp_requirement_name = rb_requirement_name b, bp_profile = rb_profile b,
      bp_consumers = sort_key consumer_key (rb_consumers b), bp_ownership = rb_ownership b,
      bp_lifecycle = rb_lifecycle b, bp_source_revision = rb_source_revision b,
      bp_algorithm = rb_algorithm b, bp_value_type = to_type (rb_value b)\<rparr>"

text \<open>
  \<open>encode\<close> is \<open>json.Marshal\<close> of the projection. \<open>sort.Slice\<close> leaves the order of equal keys
  open; here they keep theirs (\<open>Bind\<close> refuses two bindings of one kind and requirement).
\<close>

definition BindingRevision ::
    "(binding_projection list \<Rightarrow> go_error + string) \<Rightarrow> (string \<Rightarrow> string) \<Rightarrow> resolved_environment \<Rightarrow> go_error + string" where
  "BindingRevision encode sha256 resolved =
     (case encode (sort_key projection_key (map project_binding (rv_bindings resolved))) of
        Inl e \<Rightarrow> Inl (fault_Wrap InternalFault ''encode environment binding revision'' e)
      | Inr data \<Rightarrow> Inr (NewDigest sha256 data))"

section \<open>Handlers\<close>

record handler_key =
  hk_runtime_kind :: string
  hk_binding_kind :: string
  hk_profile_type :: string

record handler_info =
  hi_id :: string
  hi_key :: handler_key
  hi_requires :: "string list"
  hi_before :: "string list"
  hi_after :: "string list"
  hi_algorithm :: string

record write_intent =
  wi_slot :: string
  wi_value :: string

record handler_request =
  hr_task :: task_identity
  hr_runtime :: runtime_info
  hr_binding :: resolved_binding
  hr_targets :: "string \<rightharpoonup> mutation_target"
  hr_materials :: bool

record handler =
  hd_info :: handler_info
  hd_intents :: "handler_request \<Rightarrow> plan \<Rightarrow> go_error + write_intent list"
  hd_apply :: "handler_request \<Rightarrow> (plan, unit) prog"

record handler_job =
  hj_handler :: handler
  hj_request :: handler_request

record registry =
  rg_by_id :: "string \<rightharpoonup> handler"
  rg_by_key :: "handler_key \<rightharpoonup> string"

text \<open>The first relation of a handler that names the handler itself.\<close>

definition self_reference :: "handler_info \<Rightarrow> string option" where
  "self_reference info =
     (if hi_id info \<in> set (hi_requires info) then Some ''Requires''
      else if hi_id info \<in> set (hi_before info) then Some ''Before''
      else if hi_id info \<in> set (hi_after info) then Some ''After'' else None)"

definition register :: "registry \<Rightarrow> handler option \<Rightarrow> go_error + registry" where
  "register r registration =
     (case registration of
        None \<Rightarrow> Inl (fault_New FailedPrecondition ''environment handler registration has no handler'')
      | Some h \<Rightarrow>
          (let info = hd_info h; name = quoted (hi_id info) in
           if trim_space (hi_id info) = []
           then Inl (fault_New FailedPrecondition ''environment handler ID is required'')
           else if hk_runtime_kind (hi_key info) = [] \<or> hk_binding_kind (hi_key info) = [] \<or>
                   trim_space (hk_profile_type (hi_key info)) = []
           then Inl (fault_New FailedPrecondition (''environment handler '' @ name @ '' has an incomplete selection key''))
           else if trim_space (hi_algorithm info) = []
           then Inl (fault_New FailedPrecondition (''environment handler '' @ name @ '' algorithm is required''))
           else case self_reference info of
             Some rel \<Rightarrow> Inl (fault_New FailedPrecondition
               (''environment handler '' @ name @ '' cannot reference itself in '' @ rel))
           | None \<Rightarrow>
               (if rg_by_id r (hi_id info) \<noteq> None
                then Inl (fault_New ''AlreadyExists'' (''duplicate environment handler ID '' @ name))
                else case rg_by_key r (hi_key info) of
                  Some previous \<Rightarrow> Inl (fault_New ''AlreadyExists''
                    (''environment handler key is registered by both '' @ quoted previous @ '' and '' @ name))
                | None \<Rightarrow> Inr \<lparr>rg_by_id = (rg_by_id r)(hi_id info \<mapsto> h), rg_by_key = (rg_by_key r)(hi_key info \<mapsto> hi_id info)\<rparr>)))"

fun register_all :: "registry \<Rightarrow> handler option list \<Rightarrow> go_error + registry" where
  "register_all r [] = Inr r"
| "register_all r (h # hs) = (case register r h of Inl e \<Rightarrow> Inl e | Inr r' \<Rightarrow> register_all r' hs)"

definition NewRegistry :: "handler option list \<Rightarrow> go_error + registry" where
  "NewRegistry registrations = register_all \<lparr>rg_by_id = Map.empty, rg_by_key = Map.empty\<rparr> registrations"

section \<open>The order of the handlers\<close>

definition addEdge :: "string \<Rightarrow> string \<Rightarrow> edge_state \<Rightarrow> edge_state" where
  "addEdge source target st =
     (case st of (deg, children) \<Rightarrow>
        (if target \<in> set (children source) then st
         else (deg(target := deg target + 1), children(source := children source @ [target]))))"

text \<open>The edges of one selected handler, and of all.\<close>

definition edges_of :: "registry \<Rightarrow> string list \<Rightarrow> string \<Rightarrow> (string \<times> string) list" where
  "edges_of r selected i =
     (case rg_by_id r i of
        None \<Rightarrow> []
      | Some h \<Rightarrow>
          map (\<lambda>x. (x, i)) (filter (\<lambda>x. x \<in> set selected) (hi_requires (hd_info h))) @
          map (\<lambda>x. (i, x)) (filter (\<lambda>x. x \<in> set selected) (hi_before (hd_info h))) @
          map (\<lambda>x. (x, i)) (filter (\<lambda>x. x \<in> set selected) (hi_after (hd_info h))))"

definition add_edges :: "(string \<times> string) list \<Rightarrow> edge_state \<Rightarrow> edge_state" where
  "add_edges es st = fold (\<lambda>(source, target). addEdge source target) es st"

text \<open>
  The ready handlers are a set of which the least is taken: a sorted queue. \<open>selected\<close> is the
  set of handlers in the order \<open>range\<close> takes; a \<open>None\<close> would be a loop that does not return.
\<close>

definition Registry_order :: "registry \<Rightarrow> string list \<Rightarrow> (go_error + string list) option" where
  "Registry_order r selected =
     (case add_edges (concat (map (edges_of r selected) selected)) (\<lambda>_. 0, \<lambda>_. []) of
        (deg, children) \<Rightarrow>
          (case kahn_loop sorted_in children (sort (filter (\<lambda>i. deg i = 0) selected)) deg [] of
             None \<Rightarrow> None
           | Some (result, _) \<Rightarrow>
               (if length result \<noteq> length selected
                then Some (Inl (fault_New FailedPrecondition
                       ''environment handler ordering contains a dependency cycle''))
                else Some (Inr result))))"

section \<open>The jobs\<close>

type_synonym job_map = "(string \<times> handler_request list) list"

definition requests_of :: "job_map \<Rightarrow> string \<Rightarrow> handler_request list" where
  "requests_of jobs i = (case map_of jobs i of None \<Rightarrow> [] | Some rs \<Rightarrow> rs)"

fun select_handlers ::
    "registry \<Rightarrow> runtime_info \<Rightarrow> (string \<rightharpoonup> mutation_target) \<Rightarrow> job_map \<Rightarrow> resolved_binding list \<Rightarrow> go_error + job_map" where
  "select_handlers r rt targets jobs [] = Inr jobs"
| "select_handlers r rt targets jobs (b # bs) =
     (case rg_by_key r \<lparr>hk_runtime_kind = ri_kind rt, hk_binding_kind = rb_kind b, hk_profile_type = pr_type (rb_profile b)\<rparr> of
        None \<Rightarrow> Inl (fault_New FailedPrecondition
          (''no environment handler for Runtime '' @ quoted (ri_kind rt) @ '' binding '' @ quoted (rb_kind b) @
           '' profile '' @ quoted (pr_type (rb_profile b))))
      | Some i \<Rightarrow>
          select_handlers r rt targets
            (AList.update i (requests_of jobs i @
               [\<lparr>hr_task = \<lparr>ti_logical = \<lparr>lt_namespace = [], lt_name = []\<rparr>, ti_object_uid = [], ti_generation = 0\<rparr>,
                 hr_runtime = rt, hr_binding = b, hr_targets = targets, hr_materials = False\<rparr>]) jobs) bs)"

definition missing_requirement :: "registry \<Rightarrow> string list \<Rightarrow> string \<Rightarrow> string option" where
  "missing_requirement r selected i =
     (case rg_by_id r i of
        None \<Rightarrow> None
      | Some h \<Rightarrow> find (\<lambda>x. x \<notin> set selected) (hi_requires (hd_info h)))"

fun check_requires :: "registry \<Rightarrow> string list \<Rightarrow> string list \<Rightarrow> go_error option" where
  "check_requires r selected [] = None"
| "check_requires r selected (i # is) =
     (case missing_requirement r selected i of
        Some x \<Rightarrow> Some (fault_New FailedPrecondition
          (''environment handler '' @ quoted i @ '' requires selected handler '' @ quoted x))
      | None \<Rightarrow> check_requires r selected is)"

definition request_key :: "handler_request \<Rightarrow> string" where
  "request_key q = rb_kind (hr_binding q) @ nul @ rb_requirement_name (hr_binding q)"

definition jobs_for :: "registry \<Rightarrow> job_map \<Rightarrow> string \<Rightarrow> handler_job list" where
  "jobs_for r jobs i =
     (case rg_by_id r i of
        None \<Rightarrow> []
      | Some h \<Rightarrow> map (\<lambda>q. \<lparr>hj_handler = h, hj_request = q\<rparr>) (sort_key request_key (requests_of jobs i)))"

definition Registry_Jobs ::
    "(string list \<Rightarrow> string list) \<Rightarrow> registry option \<Rightarrow> runtime_info \<Rightarrow> resolved_binding list \<Rightarrow>
     (string \<rightharpoonup> mutation_target) \<Rightarrow> (go_error + handler_job list) option" where
  "Registry_Jobs rng registry rt bindings targets =
     (case registry of
        None \<Rightarrow> Some (Inl (fault_New FailedPrecondition ''environment handler registry is required''))
      | Some r \<Rightarrow>
          (case select_handlers r rt targets [] bindings of
             Inl e \<Rightarrow> Some (Inl e)
           | Inr jobs \<Rightarrow>
               (let selected = rng (map fst jobs) in
                case check_requires r selected selected of
                  Some e \<Rightarrow> Some (Inl e)
                | None \<Rightarrow>
                    (case Registry_order r selected of
                       None \<Rightarrow> None
                     | Some (Inl e) \<Rightarrow> Some (Inl e)
                     | Some (Inr order) \<Rightarrow> Some (Inr (concat (map (jobs_for r jobs) order)))))))"

section \<open>Running the handlers\<close>

type_synonym reservations = "string \<rightharpoonup> (string \<times> string)"

fun reserve :: "string \<Rightarrow> reservations \<Rightarrow> write_intent list \<Rightarrow> go_error + reservations" where
  "reserve writer reserved [] = Inr reserved"
| "reserve writer reserved (w # ws) =
     (if trim_space (wi_slot w) = []
      then Inl (fault_New InternalFault (''environment handler '' @ quoted writer @ '' declared an empty semantic slot''))
      else case reserved (wi_slot w) of
        None \<Rightarrow> reserve writer (reserved(wi_slot w \<mapsto> (writer, wi_value w))) ws
      | Some (previous, value) \<Rightarrow>
          (if value = wi_value w then reserve writer reserved ws
           else Inl (fault_New ''Conflict''
             (''semantic slot '' @ quoted (wi_slot w) @ '' is written by both '' @ quoted previous @ '' and '' @ quoted writer))))"

fun reserve_all :: "reservations \<Rightarrow> (handler_job \<times> write_intent list) list \<Rightarrow> go_error option" where
  "reserve_all reserved [] = None"
| "reserve_all reserved ((j, ws) # rest) =
     (case reserve (hi_id (hd_info (hj_handler j))) reserved ws of
        Inl e \<Rightarrow> Some e | Inr r \<Rightarrow> reserve_all r rest)"

definition ValidateWriteIntents :: "handler_job list \<Rightarrow> write_intent list list \<Rightarrow> go_error option" where
  "ValidateWriteIntents jobs intents =
     (if length jobs \<noteq> length intents
      then Some (fault_New InternalFault ''environment handler intent results do not match jobs'')
      else reserve_all Map.empty (zip jobs intents))"

text \<open>
  The state of a run is the working plan with the rest of the world; \<open>poll\<close> is \<open>ctx.Err()\<close>,
  which only reads the clock.
\<close>

definition on_plan :: "(plan, 'a) prog \<Rightarrow> (plan \<times> 'w, 'a) prog" where
  "on_plan m = (\<lambda>(p, w). case m p of (r, p') \<Rightarrow> (r, (p', w)))"

definition not_cancelled :: "('w, go_error option) prog \<Rightarrow> string \<Rightarrow> (plan \<times> 'w, unit) prog" where
  "not_cancelled poll message =
     seq (on_snd poll) (\<lambda>r. case r of
       Some e \<Rightarrow> fail (fault_Wrap ''DeadlineExceeded'' message e) | None \<Rightarrow> ok ())"

definition collect_intents ::
    "('w, go_error option) prog \<Rightarrow> handler_job list \<Rightarrow> (plan \<times> 'w, write_intent list list) prog" where
  "collect_intents poll jobs =
     fold_prog (\<lambda>intents job.
       seq (not_cancelled poll ''environment binding canceled before intent collection'') (\<lambda>_.
       seq (reading (\<lambda>(p, _). hd_intents (hj_handler job) (hj_request job) p)) (\<lambda>r.
       case r of Inl e \<Rightarrow> fail e | Inr declared \<Rightarrow> ok (intents @ [declared])))) [] jobs"

definition apply_jobs ::
    "('w, go_error option) prog \<Rightarrow> bool \<Rightarrow> handler_job list \<Rightarrow> (plan \<times> 'w, unit) prog" where
  "apply_jobs poll materials jobs =
     fold_prog (\<lambda>_ job.
       seq (not_cancelled poll ''environment binding canceled before handler apply'') (\<lambda>_.
       on_plan (hd_apply (hj_handler job) ((hj_request job)\<lparr>hr_materials := materials\<rparr>)))) () jobs"

definition Environment_Run ::
    "('w, go_error option) prog \<Rightarrow> bool \<Rightarrow> handler_job list \<Rightarrow> (plan \<times> 'w, unit) prog" where
  "Environment_Run poll materials jobs =
     seq (collect_intents poll jobs) (\<lambda>intents.
     case ValidateWriteIntents jobs intents of
       Some e \<Rightarrow> fail e | None \<Rightarrow> apply_jobs poll materials jobs)"

section \<open>The binder\<close>

fun check_consumers :: "(string \<rightharpoonup> mutation_target) \<Rightarrow> string list \<Rightarrow> resolved_consumer list \<Rightarrow> go_error option" where
  "check_consumers targets names [] = None"
| "check_consumers targets names (c # cs) =
     (case targets (rcn_target_name c) of
        None \<Rightarrow> Some (fault_New InvalidArgument ''resolved environment binding references an unknown target'')
      | Some t \<Rightarrow>
          (if rcn_target_name c \<in> set names
           then Some (fault_New InvalidArgument ''resolved environment binding contains a duplicate consumer'')
           else if rcn_object_name c \<noteq> mt_object_name t \<or> rcn_role c \<noteq> mt_role t
           then Some (fault_New InvalidArgument ''resolved environment consumer does not match its target'')
           else check_consumers targets (rcn_target_name c # names) cs))"

definition binding_key :: "resolved_binding \<Rightarrow> string" where
  "binding_key b = rb_kind b @ nul @ rb_requirement_name b"

fun check_bindings :: "(string \<rightharpoonup> mutation_target) \<Rightarrow> string list \<Rightarrow> resolved_binding list \<Rightarrow> go_error option" where
  "check_bindings targets seen [] = None"
| "check_bindings targets seen (b # bs) =
     (if rb_kind b = [] \<or> rb_requirement_name b = []
      then Some (fault_New InvalidArgument ''resolved environment binding kind and requirement name are required'')
      else if binding_key b \<in> set seen
      then Some (fault_New InvalidArgument ''duplicate resolved environment binding'')
      else if pr_type (rb_profile b) = []
      then Some (fault_New InvalidArgument ''resolved environment binding profile type is required'')
      else if rb_consumers b = []
      then Some (fault_New InvalidArgument ''resolved environment binding must contain at least one consumer'')
      else case check_consumers targets [] (rb_consumers b) of
        Some e \<Rightarrow> Some e | None \<Rightarrow> check_bindings targets (binding_key b # seen) bs)"

definition validateResolvedBindings ::
    "resolved_binding list \<Rightarrow> (string \<rightharpoonup> mutation_target) \<Rightarrow> go_error option" where
  "validateResolvedBindings bindings targets = check_bindings targets [] bindings"

fun validate_desired :: "(desired_object \<Rightarrow> go_error option) \<Rightarrow> desired_object list \<Rightarrow> go_error option" where
  "validate_desired v [] = None"
| "validate_desired v (d # ds) = (case v d of Some e \<Rightarrow> Some e | None \<Rightarrow> validate_desired v ds)"

text \<open>\<open>DesiredPlanValidator\<close>, of a plan that is present.\<close>

definition DesiredPlanValidator_Validate ::
    "(string list \<Rightarrow> string list) \<Rightarrow> string \<Rightarrow> (desired_object \<Rightarrow> go_error option) option \<Rightarrow>
     bind_request \<Rightarrow> plan option \<Rightarrow> go_error option" where
  "DesiredPlanValidator_Validate rng runtime_kind validator request working =
     (case validator of
        None \<Rightarrow> Some (fault_New FailedPrecondition ''desired object validator is required'')
      | Some v \<Rightarrow>
          (if runtime_kind = [] \<or> ri_kind (br_runtime request) \<noteq> runtime_kind
           then Some (fault_New FailedPrecondition ''plan validator does not support the selected Runtime kind'')
           else case working of
             None \<Rightarrow> Some (fault_New InternalFault ''plan validator received no Plan'')
           | Some p \<Rightarrow>
               (case ValidateObjects (pl_objects p) (rng (map do_logical_name (pl_objects p))) of
                  Some e \<Rightarrow> Some (fault_Wrap InvalidArgument ''invalid desired object graph'' e)
                | None \<Rightarrow> validate_desired v (pl_objects p))))"

record 'w plan_binder =
  bd_handlers :: "registry option"
  bd_validator :: "(bind_request \<Rightarrow> plan \<Rightarrow> go_error option) option"
  bd_materials :: bool
  bd_lowerer :: "(runtime_info \<Rightarrow> desired_object \<Rightarrow> go_error + desired_object) option"
  bd_workloads :: "(bind_request \<Rightarrow> (plan, unit) prog) option"
  bd_poll :: "('w, go_error option) prog"
  bd_range :: "string list \<Rightarrow> string list"

fun lower_all :: "(desired_object \<Rightarrow> go_error + desired_object) \<Rightarrow> desired_object list \<Rightarrow> go_error + desired_object list" where
  "lower_all f [] = Inr []"
| "lower_all f (d # ds) =
     (case f d of Inl e \<Rightarrow> Inl e | Inr d' \<Rightarrow> (case lower_all f ds of Inl e \<Rightarrow> Inl e | Inr ds' \<Rightarrow> Inr (d' # ds')))"

text \<open>The part of \<open>Bind\<close> that runs on the working copy.\<close>

definition bind_working ::
    "'w plan_binder \<Rightarrow> bind_request \<Rightarrow> handler_job list \<Rightarrow> (plan \<times> 'w, unit) prog" where
  "bind_working b request jobs =
     seq (Environment_Run (bd_poll b) (bd_materials b)
            (map (\<lambda>j. j\<lparr>hj_request := (hj_request j)\<lparr>hr_task := rv_task (br_environment request)\<rparr>\<rparr>) jobs)) (\<lambda>_.
     case bd_workloads b of
       None \<Rightarrow> fail (fault_New FailedPrecondition ''workload assembler is required'')
     | Some assemble \<Rightarrow>
         seq (on_plan (assemble request)) (\<lambda>_.
         case bd_lowerer b of
           None \<Rightarrow> fail (fault_New FailedPrecondition ''runtime workload-unit lowerer is required'')
         | Some lower \<Rightarrow>
             seq (reading (\<lambda>(p, _). lower_all (lower (br_runtime request)) (pl_objects p))) (\<lambda>r.
             case r of
               Inl e \<Rightarrow> fail e
             | Inr objects \<Rightarrow> modify (\<lambda>(p, w). (p\<lparr>pl_objects := objects\<rparr>, w)))))"

definition BindingPlanBinder_Bind :: "'w plan_binder \<Rightarrow> bind_request \<Rightarrow> ('w, executable_plan) prog option" where
  "BindingPlanBinder_Bind b request =
     (case bd_handlers b of
        None \<Rightarrow> Some (fail (fault_New FailedPrecondition ''environment handler registry is required''))
      | Some r \<Rightarrow>
     (case bd_validator b of
        None \<Rightarrow> Some (fail (fault_New FailedPrecondition ''environment plan validator is required''))
      | Some validate \<Rightarrow>
     (case ValidateTargets (pl_targets (br_plan request)) (pl_objects (br_plan request)) of
        Inl e \<Rightarrow> Some (fail e)
      | Inr targets \<Rightarrow>
     (case validateResolvedBindings (rv_bindings (br_environment request)) targets of
        Some e \<Rightarrow> Some (fail e)
      | None \<Rightarrow>
     (case ProjectUnits (pl_units (br_plan request)) (pl_objects (br_plan request)) of
        Inl e \<Rightarrow> Some (fail e)
      | Inr objects \<Rightarrow>
     (case Registry_Jobs (bd_range b) (Some r) (br_runtime request) (rv_bindings (br_environment request)) targets of
        None \<Rightarrow> None
      | Some (Inl e) \<Rightarrow> Some (fail e)
      | Some (Inr jobs) \<Rightarrow>
          Some (seq (on_obj ((br_plan request)\<lparr>pl_objects := objects\<rparr>) (bind_working b request jobs)) (\<lambda>(_, working).
            case validate request working of
              Some e \<Rightarrow> fail e
            | None \<Rightarrow> ok \<lparr>ep_digests = \<lparr>dg_compiled_hash = pl_compiled_hash working, dg_executable_hash = [], dg_binding_revision = []\<rparr>,
                ep_objects = pl_objects working, ep_discovery = pl_discovery working\<rparr>))))))))"

section \<open>The order is a topological order of the selected handlers\<close>

abbreviation degree_sum :: "string set \<Rightarrow> edge_state \<Rightarrow> bool" where
  "degree_sum N st \<equiv> \<forall>v. fst st v = (\<Sum>u \<in> N. int (count_list (snd st u) v))"

lemma addEdge_spec:
  assumes "finite N" and "source \<in> N" and "degree_sum N st"
  shows "degree_sum N (addEdge source target st)"
    and "set (snd (addEdge source target st) u) = set (snd st u) \<union> (if u = source then {target} else {})"
proof -
  obtain deg ch where st: "st = (deg, ch)" by fastforce
  show "set (snd (addEdge source target st) u) = set (snd st u) \<union> (if u = source then {target} else {})"
    by (auto simp: addEdge_def st)
  show "degree_sum N (addEdge source target st)"
  proof (cases "target \<in> set (ch source)")
    case True
    with assms(3) show ?thesis by (simp add: addEdge_def st)
  next
    case False
    have "(\<Sum>u \<in> N. int (count_list ((ch(source := ch source @ [target])) u) v)) =
        (\<Sum>u \<in> N. int (count_list (ch u) v) + (if u = source then (if v = target then 1 else 0) else 0))" for v
      by (rule sum.cong) auto
    then have "(\<Sum>u \<in> N. int (count_list ((ch(source := ch source @ [target])) u) v)) =
        (\<Sum>u \<in> N. int (count_list (ch u) v)) + (if v = target then 1 else 0)" for v
      using assms(1,2) by (simp add: sum.distrib)
    with False assms(3) show ?thesis by (simp add: addEdge_def st)
  qed
qed

lemma add_edges_spec:
  assumes "finite N" and "\<forall>(s, t) \<in> set es. s \<in> N" and "degree_sum N st"
  shows "degree_sum N (add_edges es st)"
    and "set (snd (add_edges es st) u) = set (snd st u) \<union> {t. (u, t) \<in> set es}"
proof -
  have "degree_sum N (add_edges es st) \<and>
      (\<forall>u. set (snd (add_edges es st) u) = set (snd st u) \<union> {t. (u, t) \<in> set es})"
    using assms(2,3)
  proof (induction es arbitrary: st)
    case Nil
    then show ?case by (simp add: add_edges_def)
  next
    case (Cons e es)
    obtain s t where e: "e = (s, t)" by fastforce
    have s: "s \<in> N" using Cons.prems(1) e by auto
    note one = addEdge_spec [OF assms(1) s Cons.prems(2), of t]
    have "\<forall>(s, t) \<in> set es. s \<in> N" using Cons.prems(1) by auto
    from Cons.IH [OF this one(1)] one(2) show ?case
      by (auto simp: add_edges_def e)
  qed
  then show "degree_sum N (add_edges es st)"
    "set (snd (add_edges es st) u) = set (snd st u) \<union> {t. (u, t) \<in> set es}" by blast+
qed

lemma edges_of_selected: "i \<in> set selected \<Longrightarrow> (s, t) \<in> set (edges_of r selected i) \<Longrightarrow> s \<in> set selected \<and> t \<in> set selected"
  by (auto simp: edges_of_def split: option.splits)

abbreviation all_edges :: "registry \<Rightarrow> string list \<Rightarrow> (string \<times> string) set" where
  "all_edges r selected \<equiv> (\<Union>i \<in> set selected. set (edges_of r selected i))"

lemma Registry_order_run:
  assumes "distinct selected"
  obtains order where "distinct order" "set order \<subseteq> set selected"
    and "\<forall>xs v ys s. order = xs @ v # ys \<and> (s, v) \<in> all_edges r selected \<longrightarrow> s \<in> set xs"
    and "Registry_order r selected =
      (if set order = set selected then Some (Inr order)
       else Some (Inl (fault_New FailedPrecondition ''environment handler ordering contains a dependency cycle'')))"
    and "set order = set selected \<longleftrightarrow> (\<nexists>S. S \<noteq> {} \<and> S \<subseteq> set selected \<and> (\<forall>v \<in> S. \<exists>s \<in> S. (s, v) \<in> all_edges r selected))"
proof -
  let ?N = "set selected" and ?es = "concat (map (edges_of r selected) selected)"
  obtain deg ch where st: "add_edges ?es (\<lambda>_. 0, \<lambda>_. []) = (deg, ch)" by fastforce
  have src: "\<forall>(s, t) \<in> set ?es. s \<in> ?N" by (auto dest: edges_of_selected)
  note spec = add_edges_spec [OF _ src, of "(\<lambda>_. 0, \<lambda>_. [])", unfolded st, simplified]
  have deg: "deg v = (\<Sum>u \<in> ?N. int (count_list (ch u) v))" for v using spec(1) by simp
  have ch: "t \<in> set (ch u) \<longleftrightarrow> (u, t) \<in> all_edges r selected" for u t using spec(2) by auto
  let ?q = "sort (filter (\<lambda>i. deg i = 0) selected)"
  have inv: "kahn_inv ch ?N ?q deg []"
    using assms deg by (auto simp: kahn_inv_def)
  have closed: "\<forall>u \<in> ?N. set (ch u) \<subseteq> ?N"
    by (auto simp: ch dest: edges_of_selected)
  obtain acc d' where run: "kahn_loop sorted_in ch ?q deg [] = Some (acc, d')"
    and acc: "distinct acc" "set acc \<subseteq> ?N" "after_deps ch ?N acc"
    and full: "set acc = ?N \<longleftrightarrow> (\<nexists>S. S \<subseteq> ?N \<and> blocked ch S)"
    by (rule sorted_in.kahn_result [OF inv _ closed]) simp
  have len: "length acc = length selected \<longleftrightarrow> set acc = ?N"
    using acc(1,2) assms by (metis card_subset_eq distinct_card List.finite_set)
  show thesis
  proof (rule that [OF acc(1,2)])
    have "s \<in> set xs" if "acc = xs @ v # ys" "(s, v) \<in> all_edges r selected" for xs v ys s
    proof -
      have "\<forall>u \<in> ?N. v \<in> set (ch u) \<longrightarrow> u \<in> set xs" using acc(3) that(1) unfolding after_deps_def by blast
      moreover have "s \<in> ?N" using that(2) by (auto dest: edges_of_selected)
      moreover have "v \<in> set (ch s)" using that(2) by (simp only: ch)
      ultimately show ?thesis by blast
    qed
    then show "\<forall>xs v ys s. acc = xs @ v # ys \<and> (s, v) \<in> all_edges r selected \<longrightarrow> s \<in> set xs" by blast
    show "Registry_order r selected =
      (if set acc = set selected then Some (Inr acc)
       else Some (Inl (fault_New FailedPrecondition ''environment handler ordering contains a dependency cycle'')))"
      using len by (simp add: Registry_order_def st run)
    show "set acc = set selected \<longleftrightarrow> (\<nexists>S. S \<noteq> {} \<and> S \<subseteq> set selected \<and> (\<forall>v \<in> S. \<exists>s \<in> S. (s, v) \<in> all_edges r selected))"
      unfolding full blocked_def ch by blast
  qed
qed

section \<open>The registry\<close>

definition registry_ok :: "registry \<Rightarrow> bool" where
  "registry_ok r \<longleftrightarrow>
     (\<forall>i h. rg_by_id r i = Some h \<longrightarrow> hi_id (hd_info h) = i \<and> self_reference (hd_info h) = None) \<and>
     (\<forall>k i. rg_by_key r k = Some i \<longrightarrow> (\<exists>h. rg_by_id r i = Some h \<and> hi_key (hd_info h) = k))"

lemma register_ok:
  assumes "registry_ok r" and "register r h = Inr r'"
  shows "registry_ok r'"
proof (cases h)
  case None
  with assms show ?thesis by (simp add: register_def)
next
  case (Some x)
  from assms(2) Some have self: "self_reference (hd_info x) = None" and fresh: "rg_by_id r (hi_id (hd_info x)) = None"
    and r': "r' = \<lparr>rg_by_id = (rg_by_id r)(hi_id (hd_info x) \<mapsto> x), rg_by_key = (rg_by_key r)(hi_key (hd_info x) \<mapsto> hi_id (hd_info x))\<rparr>"
    unfolding register_def Some option.case Let_def by (simp_all split: if_split_asm option.split_asm)
  show ?thesis
    unfolding registry_ok_def r' registry.select_convs
  proof (intro conjI allI impI)
    fix k i
    assume "((rg_by_key r)(hi_key (hd_info x) \<mapsto> hi_id (hd_info x))) k = Some i"
    then show "\<exists>h. ((rg_by_id r)(hi_id (hd_info x) \<mapsto> x)) i = Some h \<and> hi_key (hd_info h) = k"
      using assms(1) fresh unfolding registry_ok_def by (auto split: if_splits) (metis option.distinct(1))
  qed (use assms(1) self in \<open>auto simp: registry_ok_def split: if_splits\<close>)
qed

lemma NewRegistry_ok: "NewRegistry hs = Inr r \<Longrightarrow> registry_ok r"
proof -
  have "registry_ok r0 \<Longrightarrow> register_all r0 hs = Inr r \<Longrightarrow> registry_ok r" for r0
    by (induction hs arbitrary: r0) (auto split: sum.splits intro: register_ok)
  moreover have "registry_ok \<lparr>rg_by_id = Map.empty, rg_by_key = Map.empty\<rparr>"
    by (simp add: registry_ok_def)
  ultimately show "NewRegistry hs = Inr r \<Longrightarrow> registry_ok r"
    unfolding NewRegistry_def by blast
qed

lemma missing_requirement_None:
  assumes "registry_ok r" and "rg_by_id r i = Some h"
  shows "missing_requirement r selected i = None \<longleftrightarrow> set (hi_requires (hd_info h)) \<subseteq> set selected"
  using assms(2) by (auto simp: missing_requirement_def find_None_iff)

lemma check_requires_None:
  "check_requires r selected is = None \<longleftrightarrow> (\<forall>i \<in> set is. missing_requirement r selected i = None)"
  by (induction "is") (auto split: option.split)

section \<open>The jobs of a binding request\<close>

definition handler_for :: "registry \<Rightarrow> runtime_info \<Rightarrow> resolved_binding \<Rightarrow> string option" where
  "handler_for r rt b =
     rg_by_key r \<lparr>hk_runtime_kind = ri_kind rt, hk_binding_kind = rb_kind b, hk_profile_type = pr_type (rb_profile b)\<rparr>"

definition job_map_ok :: "registry \<Rightarrow> runtime_info \<Rightarrow> job_map \<Rightarrow> bool" where
  "job_map_ok r rt jobs \<longleftrightarrow> distinct (map fst jobs) \<and>
     (\<forall>(i, qs) \<in> set jobs. qs \<noteq> [] \<and> (\<forall>q \<in> set qs. handler_for r rt (hr_binding q) = Some i))"

lemma job_map_update:
  "distinct (map fst jobs) \<Longrightarrow>
   mset (concat (map snd (AList.update i (requests_of jobs i @ [q]) jobs))) = add_mset q (mset (concat (map snd jobs)))"
  by (induction jobs) (auto simp: requests_of_def)

lemma job_map_entry: "distinct (map fst jobs) \<Longrightarrow> (i, qs) \<in> set jobs \<Longrightarrow> requests_of jobs i = qs"
  by (simp add: requests_of_def)

lemma job_map_ok_update:
  assumes "job_map_ok r rt jobs" and "handler_for r rt (hr_binding q) = Some i"
  shows "job_map_ok r rt (AList.update i (requests_of jobs i @ [q]) jobs)"
proof -
  have req: "\<forall>x \<in> set (requests_of jobs i). handler_for r rt (hr_binding x) = Some i"
    using assms(1) unfolding job_map_ok_def requests_of_def by (auto split: option.splits dest: map_of_SomeD)
  have entry: "(k, qs) \<in> set jobs \<or> (k = i \<and> qs = requests_of jobs i @ [q])"
    if "(k, qs) \<in> set (AList.update i (requests_of jobs i @ [q]) jobs)" for k qs
    using that
  proof -
    have "map_of (AList.update i (requests_of jobs i @ [q]) jobs) k = Some qs"
      using that assms(1) by (intro map_of_is_SomeI distinct_update) (auto simp: job_map_ok_def)
    then show ?thesis by (auto simp: update_conv' split: if_splits dest: map_of_SomeD)
  qed
  show ?thesis
    unfolding job_map_ok_def
  proof (intro conjI ballI)
    show "distinct (map fst (AList.update i (requests_of jobs i @ [q]) jobs))"
      using assms(1) by (simp add: job_map_ok_def distinct_update)
    fix e
    assume "e \<in> set (AList.update i (requests_of jobs i @ [q]) jobs)"
    with entry [of "fst e" "snd e"] consider "e \<in> set jobs" | "e = (i, requests_of jobs i @ [q])"
      by (metis prod.collapse)
    then show "case e of (k, qs) \<Rightarrow> qs \<noteq> [] \<and> (\<forall>x \<in> set qs. handler_for r rt (hr_binding x) = Some k)"
    proof cases
      case 1
      with assms(1) show ?thesis unfolding job_map_ok_def by blast
    next
      case 2
      with req assms(2) show ?thesis by auto
    qed
  qed
qed

lemma select_handlers_spec:
  assumes "select_handlers r rt targets jobs bs = Inr jobs'" and "job_map_ok r rt jobs"
  shows "job_map_ok r rt jobs' \<and>
    mset (map hr_binding (concat (map snd jobs'))) = mset (map hr_binding (concat (map snd jobs))) + mset bs"
  using assms
proof (induction bs arbitrary: jobs)
  case Nil
  then show ?case by simp
next
  case (Cons b bs)
  from Cons.prems(1) obtain i where i: "handler_for r rt b = Some i"
    by (auto simp: handler_for_def split: option.splits)
  let ?q = "\<lparr>hr_task = \<lparr>ti_logical = \<lparr>lt_namespace = [], lt_name = []\<rparr>, ti_object_uid = [], ti_generation = 0\<rparr>,
                 hr_runtime = rt, hr_binding = b, hr_targets = targets, hr_materials = False\<rparr>"
  let ?jobs = "AList.update i (requests_of jobs i @ [?q]) jobs"
  have run: "select_handlers r rt targets ?jobs bs = Inr jobs'"
    using Cons.prems(1) i by (simp add: handler_for_def)
  have "job_map_ok r rt ?jobs" by (rule job_map_ok_update [OF Cons.prems(2)]) (simp add: i)
  moreover have "mset (map hr_binding (concat (map snd ?jobs))) =
      add_mset b (mset (map hr_binding (concat (map snd jobs))))"
    using job_map_update [of jobs i ?q] Cons.prems(2) by (simp add: job_map_ok_def del: concat_map_singleton)
  ultimately show ?case using Cons.IH [OF run] by simp
qed

lemma concat_map_split:
  assumes "concat (map F ks) = xs @ j # ys"
  obtains ks1 k ks2 as bs where "ks = ks1 @ k # ks2" "F k = as @ j # bs"
    and "xs = concat (map F ks1) @ as" "ys = bs @ concat (map F ks2)"
proof -
  have "\<exists>ks1 k ks2 as bs. ks = ks1 @ k # ks2 \<and> F k = as @ j # bs \<and>
      xs = concat (map F ks1) @ as \<and> ys = bs @ concat (map F ks2)"
    using assms
  proof (induction ks arbitrary: xs)
    case (Cons a ks)
    then have "F a @ concat (map F ks) = xs @ j # ys" by simp
    then consider (here) bs where "F a = xs @ j # bs" "ys = bs @ concat (map F ks)"
      | (later) xs' where "xs = F a @ xs'" "concat (map F ks) = xs' @ j # ys"
      by (auto simp: append_eq_append_conv2 append_eq_Cons_conv Cons_eq_append_conv)
    then show ?case
    proof cases
      case (here bs)
      then show ?thesis by (metis append_Nil concat.simps(1) list.map(1))
    next
      case (later xs')
      from Cons.IH [OF later(2)] obtain ks1 k ks2 as bs where "ks = ks1 @ k # ks2" "F k = as @ j # bs"
        "xs' = concat (map F ks1) @ as" "ys = bs @ concat (map F ks2)" by blast
      with later(1) have "a # ks = (a # ks1) @ k # ks2" "xs = concat (map F (a # ks1)) @ as" by simp_all
      with \<open>F k = as @ j # bs\<close> \<open>ys = bs @ concat (map F ks2)\<close> show ?thesis by blast
    qed
  qed simp
  then show thesis using that by blast
qed

lemma jobs_for_simps:
  "rg_by_id r i = Some h \<Longrightarrow> jobs_for r jobs i = map (\<lambda>q. \<lparr>hj_handler = h, hj_request = q\<rparr>) (sort_key request_key (requests_of jobs i))"
  by (simp add: jobs_for_def)

text \<open>The identity of the handler of a job, and what must have run before it.\<close>

abbreviation job_id :: "handler_job \<Rightarrow> string" where
  "job_id j \<equiv> hi_id (hd_info (hj_handler j))"

definition must_precede :: "handler_job \<Rightarrow> handler_job \<Rightarrow> bool" where
  "must_precede k j \<longleftrightarrow>
     job_id k \<in> set (hi_requires (hd_info (hj_handler j))) \<or> job_id k \<in> set (hi_after (hd_info (hj_handler j))) \<or>
     job_id j \<in> set (hi_before (hd_info (hj_handler k)))"

lemma must_precede_edge:
  assumes "rg_by_id r i = Some (hj_handler j)" "rg_by_id r k = Some (hj_handler j')"
    and "job_id j = i" "job_id j' = k" "i \<in> set selected" "k \<in> set selected" "must_precede j' j"
  shows "(k, i) \<in> all_edges r selected"
proof -
  have "(k, i) \<in> set (edges_of r selected i) \<or> (k, i) \<in> set (edges_of r selected k)"
    using assms by (auto simp: must_precede_def edges_of_def)
  with assms(5,6) show ?thesis by blast
qed

lemma select_handlers_ids:
  assumes "job_map_ok r rt jobs" and "registry_ok r" and "i \<in> set (map fst jobs)"
  obtains h where "rg_by_id r i = Some h" "hi_id (hd_info h) = i" "self_reference (hd_info h) = None"
    and "requests_of jobs i \<noteq> []" "\<forall>q \<in> set (requests_of jobs i). handler_for r rt (hr_binding q) = Some i"
    and "\<forall>q \<in> set (requests_of jobs i). hi_key (hd_info h) =
      \<lparr>hk_runtime_kind = ri_kind rt, hk_binding_kind = rb_kind (hr_binding q), hk_profile_type = pr_type (rb_profile (hr_binding q))\<rparr>"
proof -
  from assms(3) obtain qs where qs: "(i, qs) \<in> set jobs" by auto
  with assms(1) have req: "requests_of jobs i = qs" by (intro job_map_entry) (auto simp: job_map_ok_def)
  with assms(1) qs have ne: "requests_of jobs i \<noteq> []"
    and all: "\<forall>q \<in> set (requests_of jobs i). handler_for r rt (hr_binding q) = Some i"
    unfolding job_map_ok_def by blast+
  then obtain q where "q \<in> set (requests_of jobs i)" by (meson ex_in_conv set_empty)
  with all assms(2) obtain h where h: "rg_by_id r i = Some h" unfolding handler_for_def registry_ok_def by blast
  show thesis
  proof (rule that [OF h _ _ ne all])
    show "hi_id (hd_info h) = i" "self_reference (hd_info h) = None"
      using assms(2) h unfolding registry_ok_def by blast+
    show "\<forall>q \<in> set (requests_of jobs i). hi_key (hd_info h) =
      \<lparr>hk_runtime_kind = ri_kind rt, hk_binding_kind = rb_kind (hr_binding q), hk_profile_type = pr_type (rb_profile (hr_binding q))\<rparr>"
      using assms(2) h all unfolding registry_ok_def handler_for_def by fastforce
  qed
qed

lemma jobs_bindings:
  assumes "distinct (map fst jobs)" and "mset order = mset (map fst jobs)"
    and "\<forall>i \<in> set (map fst jobs). rg_by_id r i \<noteq> None"
  shows "mset (map (\<lambda>j. hr_binding (hj_request j)) (concat (map (jobs_for r jobs) order))) =
    mset (map hr_binding (concat (map snd jobs)))"
proof -
  have one: "mset (map (\<lambda>j. hr_binding (hj_request j)) (jobs_for r jobs i)) = mset (map hr_binding (requests_of jobs i))"
    if i: "i \<in> set (map fst jobs)" for i
  proof -
    from assms(3) i obtain h where "rg_by_id r i = Some h" by blast
    then have "map (\<lambda>j. hr_binding (hj_request j)) (jobs_for r jobs i) =
        map hr_binding (sort_key request_key (requests_of jobs i))"
      by (simp add: jobs_for_def)
    then show ?thesis by simp
  qed
  have many: "mset (map (\<lambda>j. hr_binding (hj_request j)) (concat (map (jobs_for r jobs) is))) =
      mset (map hr_binding (concat (map (requests_of jobs) is)))" if "set is \<subseteq> set (map fst jobs)" for "is"
    using that by (induction "is") (use one in auto)
  have "set order = set (map fst jobs)" using assms(2) by (metis set_mset_mset)
  then have "mset (map (\<lambda>j. hr_binding (hj_request j)) (concat (map (jobs_for r jobs) order))) =
      mset (map hr_binding (concat (map (requests_of jobs) order)))"
    by (intro many) simp
  also have "\<dots> = mset (map hr_binding (concat (map (requests_of jobs) (map fst jobs))))"
  proof -
    have "mset (map hr_binding (concat (map (requests_of jobs) is))) =
        (\<Sum>i \<in># mset is. mset (map hr_binding (requests_of jobs i)))" for "is"
      by (induction "is") auto
    then show ?thesis by (simp only: assms(2))
  qed
  also have "map (requests_of jobs) (map fst jobs) = map snd jobs"
    using assms(1) job_map_entry [OF assms(1)] by (auto intro!: map_cong)
  finally show ?thesis .
qed

text \<open>A job of a selected handler is that handler's, selected by the key of its binding.\<close>

lemma jobs_for_handler:
  assumes "job_map_ok r rt jobs" and "registry_ok r" and "i \<in> set (map fst jobs)" and j: "j \<in> set (jobs_for r jobs i)"
  shows "rg_by_id r i = Some (hj_handler j)" and "job_id j = i" and "self_reference (hd_info (hj_handler j)) = None"
    and "hi_key (hd_info (hj_handler j)) =
      \<lparr>hk_runtime_kind = ri_kind rt, hk_binding_kind = rb_kind (hr_binding (hj_request j)),
       hk_profile_type = pr_type (rb_profile (hr_binding (hj_request j)))\<rparr>"
proof -
  obtain h where h: "rg_by_id r i = Some h" "hi_id (hd_info h) = i" "self_reference (hd_info h) = None"
    "\<forall>q \<in> set (requests_of jobs i). hi_key (hd_info h) =
      \<lparr>hk_runtime_kind = ri_kind rt, hk_binding_kind = rb_kind (hr_binding q), hk_profile_type = pr_type (rb_profile (hr_binding q))\<rparr>"
    by (rule select_handlers_ids [OF assms(1-3)])
  from j jobs_for_simps [OF h(1)] obtain q where "j = \<lparr>hj_handler = h, hj_request = q\<rparr>" "q \<in> set (requests_of jobs i)" by auto
  with h show "rg_by_id r i = Some (hj_handler j)" and "job_id j = i" and "self_reference (hd_info (hj_handler j)) = None"
    and "hi_key (hd_info (hj_handler j)) =
      \<lparr>hk_runtime_kind = ri_kind rt, hk_binding_kind = rb_kind (hr_binding (hj_request j)),
       hk_profile_type = pr_type (rb_profile (hr_binding (hj_request j)))\<rparr>"
    by simp_all
qed

lemma jobs_for_nonempty:
  assumes "job_map_ok r rt jobs" and "registry_ok r" and "i \<in> set (map fst jobs)"
  obtains k where "k \<in> set (jobs_for r jobs i)" and "job_id k = i"
proof -
  obtain h where h: "rg_by_id r i = Some h" "requests_of jobs i \<noteq> []"
    by (rule select_handlers_ids [OF assms])
  then have "jobs_for r jobs i \<noteq> []"
    using jobs_for_simps [OF h(1), of jobs] by (metis length_0_conv length_map length_sort)
  then obtain k where "k \<in> set (jobs_for r jobs i)" by (meson ex_in_conv set_empty)
  with jobs_for_handler(2) [OF assms] that show thesis by blast
qed

lemma jobs_after_required:
  assumes jm: "job_map_ok r rt jobs" and ok: "registry_ok r" and sel: "set sel = set (map fst jobs)"
    and req: "check_requires r sel sel = None"
    and edges: "\<forall>xs v ys s. order = xs @ v # ys \<and> (s, v) \<in> all_edges r sel \<longrightarrow> s \<in> set xs"
    and i: "order = is1 @ i # is2" "i \<in> set sel" "j \<in> set (jobs_for r jobs i)"
    and x: "x \<in> set (hi_requires (hd_info (hj_handler j)))"
  shows "x \<in> job_id ` set (concat (map (jobs_for r jobs) is1))"
proof -
  have j: "rg_by_id r i = Some (hj_handler j)"
    using jobs_for_handler(1) [OF jm ok _ i(3)] i(2) sel by simp
  have "x \<in> set sel"
    using req i(2) x missing_requirement_None [OF ok j, of sel] by (auto simp: check_requires_None)
  then have "(x, i) \<in> all_edges r sel" using x i(2) j by (auto simp: edges_of_def intro!: bexI [of _ i])
  with edges i(1) have "x \<in> set is1" by blast
  moreover obtain k where "k \<in> set (jobs_for r jobs x)" "job_id k = x"
    using \<open>x \<in> set sel\<close> unfolding sel by (rule jobs_for_nonempty [OF jm ok])
  ultimately show ?thesis by (auto intro!: image_eqI [of _ _ k])
qed

lemma jobs_respect_order:
  assumes jm: "job_map_ok r rt jobs" and ok: "registry_ok r" and sel: "set sel = set (map fst jobs)"
    and req: "check_requires r sel sel = None" and order: "distinct order" "set order = set sel"
    and edges: "\<forall>xs v ys s. order = xs @ v # ys \<and> (s, v) \<in> all_edges r sel \<longrightarrow> s \<in> set xs"
    and split: "concat (map (jobs_for r jobs) order) = xs @ j # ys"
  shows "set (hi_requires (hd_info (hj_handler j))) \<subseteq> job_id ` set xs \<and> (\<forall>k \<in> set ys. \<not> must_precede k j)"
proof -
  obtain is1 i is2 as bs where i: "order = is1 @ i # is2" "jobs_for r jobs i = as @ j # bs"
    "xs = concat (map (jobs_for r jobs) is1) @ as" "ys = bs @ concat (map (jobs_for r jobs) is2)"
    by (rule concat_map_split [OF split])
  have isel: "i \<in> set sel" and j: "j \<in> set (jobs_for r jobs i)" using i order(2) by auto
  note job = jobs_for_handler [OF jm ok, folded sel]
  have "x \<in> job_id ` set xs" if "x \<in> set (hi_requires (hd_info (hj_handler j)))" for x
    using jobs_after_required [OF jm ok sel req edges i(1) isel j that] unfolding i(3) by auto
  moreover have "\<not> must_precede k j" if k: "k \<in> set ys" for k
  proof
    assume pre: "must_precede k j"
    from k i(4) consider "k \<in> set bs" | k' where "k' \<in> set is2" "k \<in> set (jobs_for r jobs k')" by auto
    then show False
    proof cases
      case 1
      with i(2) have k: "k \<in> set (jobs_for r jobs i)" by simp
      have "hj_handler k = hj_handler j" using job(1) [OF isel k] job(1) [OF isel j] by simp
      with pre job(3) [OF isel j] show False by (auto simp: must_precede_def self_reference_def split: if_splits)
    next
      case 2
      have sel': "k' \<in> set sel" using 2(1) i(1) order(2) by auto
      have "(k', i) \<in> all_edges r sel"
        by (rule must_precede_edge [OF job(1) [OF isel j] job(1) [OF sel' 2(2)] job(2) [OF isel j] job(2) [OF sel' 2(2)]
              isel sel' pre])
      with edges i(1) have "k' \<in> set is1" by blast
      with 2(1) i(1) order(1) show False by auto
    qed
  qed
  ultimately show ?thesis by blast
qed

text \<open>
  C14. When \<open>Jobs\<close> accepts the bindings, every binding runs exactly once, under the handler
  registered for its Runtime, kind and profile; each job runs after every handler it requires,
  all of which are selected, and never before one that it names in \<open>After\<close> or that names it in
  \<open>Before\<close>. \<open>Jobs\<close> returns whatever the bindings are, in any map order.
\<close>

theorem handler_jobs_ordered:
  assumes "NewRegistry handlers = Inr r" and "\<And>xs. mset (rng xs) = mset xs"
  shows "case Registry_Jobs rng (Some r) rt bindings targets of
      None \<Rightarrow> False
    | Some (Inl _) \<Rightarrow> True
    | Some (Inr jobs) \<Rightarrow>
        mset (map (\<lambda>j. hr_binding (hj_request j)) jobs) = mset bindings \<and>
        (\<forall>j \<in> set jobs. hi_key (hd_info (hj_handler j)) =
           \<lparr>hk_runtime_kind = ri_kind rt, hk_binding_kind = rb_kind (hr_binding (hj_request j)),
            hk_profile_type = pr_type (rb_profile (hr_binding (hj_request j)))\<rparr>) \<and>
        (\<forall>xs j ys. jobs = xs @ j # ys \<longrightarrow>
           set (hi_requires (hd_info (hj_handler j))) \<subseteq> job_id ` set xs \<and> (\<forall>k \<in> set ys. \<not> must_precede k j))"
proof (cases "select_handlers r rt targets [] bindings")
  case (Inl e)
  then show ?thesis by (simp add: Registry_Jobs_def)
next
  case (Inr jobs)
  note ok = NewRegistry_ok [OF assms(1)]
  have "job_map_ok r rt []" by (simp add: job_map_ok_def)
  from select_handlers_spec [OF Inr this] have jm: "job_map_ok r rt jobs"
    and bs: "mset (map hr_binding (concat (map snd jobs))) = mset bindings" by simp_all
  define sel where "sel = rng (map fst jobs)"
  have sel: "mset sel = mset (map fst jobs)" unfolding sel_def by (rule assms(2))
  then have dist: "distinct sel" using jm unfolding job_map_ok_def by (metis mset_eq_imp_distinct_iff)
  have set_sel: "set sel = set (map fst jobs)" using sel by (metis set_mset_mset)
  note ids = select_handlers_ids [OF jm ok, folded set_sel]
  obtain order where order: "distinct order" "set order \<subseteq> set sel"
    and edges: "\<forall>xs v ys s. order = xs @ v # ys \<and> (s, v) \<in> all_edges r sel \<longrightarrow> s \<in> set xs"
    and run: "Registry_order r sel = (if set order = set sel then Some (Inr order)
       else Some (Inl (fault_New FailedPrecondition ''environment handler ordering contains a dependency cycle'')))"
    and "set order = set sel \<longleftrightarrow> (\<nexists>S. S \<noteq> {} \<and> S \<subseteq> set sel \<and> (\<forall>v \<in> S. \<exists>s \<in> S. (s, v) \<in> all_edges r sel))"
    by (rule Registry_order_run [OF dist, of r])
  show ?thesis
  proof (cases "check_requires r sel sel = None \<and> set order = set sel")
    case False
    with Inr run show ?thesis by (auto simp: Registry_Jobs_def Let_def sel_def split: option.split)
  next
    case True
    let ?jobs = "concat (map (jobs_for r jobs) order)"
    from Inr run True have result: "Registry_Jobs rng (Some r) rt bindings targets = Some (Inr ?jobs)"
      by (simp add: Registry_Jobs_def Let_def sel_def)
    have perm: "mset order = mset (map fst jobs)"
      using set_eq_iff_mset_eq_distinct [OF order(1) dist] True sel by simp
    have all_ids: "\<forall>i \<in> set (map fst jobs). rg_by_id r i \<noteq> None" 
    proof
      fix i
      assume "i \<in> set (map fst jobs)"
      then have "i \<in> set sel" by (simp only: set_sel)
      then show "rg_by_id r i \<noteq> None" by (rule ids) simp
    qed
    have "\<forall>j \<in> set ?jobs. hi_key (hd_info (hj_handler j)) =
           \<lparr>hk_runtime_kind = ri_kind rt, hk_binding_kind = rb_kind (hr_binding (hj_request j)),
            hk_profile_type = pr_type (rb_profile (hr_binding (hj_request j)))\<rparr>"
      using jobs_for_handler(4) [OF jm ok] True set_sel by fastforce
    moreover have "mset (map (\<lambda>j. hr_binding (hj_request j)) ?jobs) = mset bindings"
      using jobs_bindings [OF _ perm all_ids] jm bs by (simp add: job_map_ok_def)
    moreover note jobs_respect_order [OF jm ok set_sel conjunct1 [OF True] order(1) conjunct2 [OF True] edges]
    ultimately show ?thesis unfolding result by simp
  qed
qed

definition demo_handler :: "string \<Rightarrow> string list \<Rightarrow> handler" where
  "demo_handler n after =
     \<lparr>hd_info = \<lparr>hi_id = n, hi_key = \<lparr>hk_runtime_kind = ''K'', hk_binding_kind = n, hk_profile_type = ''P''\<rparr>,
         hi_requires = after, hi_before = [], hi_after = [], hi_algorithm = ''v1''\<rparr>,
      hd_intents = (\<lambda>_ _. Inr []), hd_apply = (\<lambda>_. ok ())\<rparr>"

definition demo_binding :: "string \<Rightarrow> resolved_binding" where
  "demo_binding n =
     \<lparr>rb_kind = n, rb_requirement_name = ''r'', rb_profile = \<lparr>pr_type = ''P'', pr_name = [], pr_version = [], pr_revision = []\<rparr>,
      rb_consumers = [], rb_ownership = \<lparr>ro_scope = [], ro_owner_key = [], ro_incarnation_policy = []\<rparr>, rb_lifecycle = [],
      rb_source_revision = [], rb_algorithm = [], rb_value = \<lparr>to_type = plain_kind [], to_value = RawBlank\<rparr>\<rparr>"

definition demo_registry :: registry where
  "demo_registry = projr (NewRegistry [Some (demo_handler ''b'' [''a'']), Some (demo_handler ''a'' [])])"

definition demo_runtime :: runtime_info where
  "demo_runtime = \<lparr>ri_id = ''r1'', ri_kind = ''K'', ri_capabilities = []\<rparr>"

theorem handler_jobs_ordered_witness:
  "case Registry_Jobs (\<lambda>xs. xs) (Some demo_registry) demo_runtime [demo_binding ''b'', demo_binding ''a''] Map.empty of
      None \<Rightarrow> False
    | Some (Inl _) \<Rightarrow> True
    | Some (Inr jobs) \<Rightarrow>
        mset (map (\<lambda>j. hr_binding (hj_request j)) jobs) = mset [demo_binding ''b'', demo_binding ''a''] \<and>
        (\<forall>j \<in> set jobs. hi_key (hd_info (hj_handler j)) =
           \<lparr>hk_runtime_kind = ri_kind demo_runtime, hk_binding_kind = rb_kind (hr_binding (hj_request j)),
            hk_profile_type = pr_type (rb_profile (hr_binding (hj_request j)))\<rparr>) \<and>
        (\<forall>xs j ys. jobs = xs @ j # ys \<longrightarrow>
           set (hi_requires (hd_info (hj_handler j))) \<subseteq> job_id ` set xs \<and> (\<forall>k \<in> set ys. \<not> must_precede k j))"
proof (rule handler_jobs_ordered [where handlers = "[Some (demo_handler ''b'' [''a'']), Some (demo_handler ''a'' [])]"])
  have "trim_space ''a'' = ''a''" "trim_space ''b'' = ''b''" "trim_space ''P'' = ''P''" "trim_space ''v1'' = ''v1''"
    by (rule trim_space_graph, simp add: ascii_graph_def)+
  then have "isl (NewRegistry [Some (demo_handler ''b'' [''a'']), Some (demo_handler ''a'' [])]) = False"
    by (simp add: NewRegistry_def register_def demo_handler_def self_reference_def Let_def)
  then show "NewRegistry [Some (demo_handler ''b'' [''a'']), Some (demo_handler ''a'' [])] = Inr demo_registry"
    unfolding demo_registry_def by simp
qed simp

end
