(* ===== verification/Exec_Diff.thy ===== *)
theory Exec_Diff
  imports Environment Params "HOL-Library.Sublist"
begin

text \<open>
  The pure part of the coordinator (\<open>coordination/coordinator/coordinator.go\<close>): the identity
  of a manifest, JSON equality, the executable hash with its redaction of Secrets, idempotency
  keys, \<open>diff\<close> between the desired objects and a snapshot, and the cleanup candidates.
  \<open>encoding/json\<close> and SHA-256 enter through the record \<open>exec_lib\<close>: how a JSON number
  becomes a \<open>float64\<close> (its canonical text, or no value when it overflows), the encoded plan
  and bindings, and the digest in hexadecimal.
\<close>

record exec_lib =
  xl_number :: "json \<Rightarrow> string option"
  xl_encode_plan :: "desired_object list \<Rightarrow> instance_discovery \<Rightarrow> go_error + string"
  xl_encode_bindings :: "binding_projection list \<Rightarrow> go_error + string"
  xl_sha256 :: "string \<Rightarrow> string"

section \<open>JSON values\<close>

text \<open>
  The Go value of a document unmarshalled into \<open>any\<close>, in a canonical form: numbers as their
  \<open>float64\<close>, an object as its map, the last of several entries of a key, sorted by key.
\<close>

definition canonical_entries :: "(string \<times> json) list \<Rightarrow> (string \<times> json) list" where
  "canonical_entries kvs = sort_key fst (AList.clearjunk (rev kvs))"

fun go_value :: "(json \<Rightarrow> string option) \<Rightarrow> json \<Rightarrow> json option" where
  "go_value num JNull = Some JNull"
| "go_value num (JBool b) = Some (JBool b)"
| "go_value num (JStr s) = Some (JStr s)"
| "go_value num (JInt i) = map_option JReal (num (JInt i))"
| "go_value num (JReal s) = map_option JReal (num (JReal s))"
| "go_value num (JArr xs) = map_option JArr (those (map (go_value num) xs))"
| "go_value num (JObj kvs) =
     map_option (\<lambda>es. JObj (canonical_entries es))
       (those (map (\<lambda>(k, v). map_option (Pair k) (go_value num v)) kvs))"

definition unmarshal_any :: "exec_lib \<Rightarrow> raw_json \<Rightarrow> json option" where
  "unmarshal_any L raw = (case raw of RawDoc j \<Rightarrow> go_value (xl_number L) j | _ \<Rightarrow> None)"

definition jsonEqual :: "exec_lib \<Rightarrow> raw_json \<Rightarrow> raw_json \<Rightarrow> bool" where
  "jsonEqual L l r \<longleftrightarrow>
     (case (unmarshal_any L l, unmarshal_any L r) of (Some a, Some b) \<Rightarrow> a = b | _ \<Rightarrow> False)"

section \<open>Identities\<close>

record manifest_metadata =
  mm_namespace :: string
  mm_name :: string

record manifestIdentity =
  mid_api_version :: string
  mid_kind :: string
  mid_metadata :: manifest_metadata

text \<open>\<open>json.Unmarshal\<close> into a struct: as the strict decoder, but an unknown key is skipped.\<close>

fun decode_known :: "'r field list \<Rightarrow> (string \<times> json) list \<Rightarrow> 'r \<Rightarrow> 'r option" where
  "decode_known fs [] r = Some r"
| "decode_known fs ((k, v) # kvs) r =
     (case find_field fs k of None \<Rightarrow> decode_known fs kvs r
      | Some f \<Rightarrow> (case f v r of None \<Rightarrow> None | Some r' \<Rightarrow> decode_known fs kvs r'))"

fun decode_lenient :: "'r field list \<Rightarrow> json \<Rightarrow> 'r \<Rightarrow> 'r option" where
  "decode_lenient fs JNull r = Some r"
| "decode_lenient fs (JObj kvs) r = decode_known fs kvs r"
| "decode_lenient fs _ r = None"

definition metadata_fields :: "manifest_metadata field list" where
  "metadata_fields =
     [(''namespace'', string_field (\<lambda>s r. r\<lparr>mm_namespace := s\<rparr>)),
      (''name'', string_field (\<lambda>s r. r\<lparr>mm_name := s\<rparr>))]"

definition identity_fields :: "manifestIdentity field list" where
  "identity_fields =
     [(''apiVersion'', string_field (\<lambda>s r. r\<lparr>mid_api_version := s\<rparr>)),
      (''kind'', string_field (\<lambda>s r. r\<lparr>mid_kind := s\<rparr>)),
      (''metadata'', \<lambda>j r. map_option (\<lambda>m. r\<lparr>mid_metadata := m\<rparr>)
                              (decode_lenient metadata_fields j (mid_metadata r)))]"

definition zero_identity :: manifestIdentity where
  "zero_identity = \<lparr>mid_api_version = [], mid_kind = [], mid_metadata = \<lparr>mm_namespace = [], mm_name = []\<rparr>\<rparr>"

definition decodeIdentity :: "typed_manifest \<Rightarrow> go_error + manifestIdentity" where
  "decodeIdentity manifest =
     (case mf_object manifest of
        RawDoc j \<Rightarrow>
          (case decode_lenient identity_fields j zero_identity of
             None \<Rightarrow> Inl (ErrText ''json: cannot unmarshal'')
           | Some i \<Rightarrow>
               (if mm_name (mid_metadata i) = [] then Inl (ErrText ''manifest metadata.name is required'') else Inr i))
      | _ \<Rightarrow> Inl (ErrText ''manifest is not valid JSON''))"

definition objectKey :: "object_kind \<Rightarrow> string \<Rightarrow> string \<Rightarrow> string" where
  "objectKey kind namespace name =
     go_join ''/'' [k_group kind, k_version kind, k_kind kind, namespace, name]"

definition runtime_key :: "runtime_object \<Rightarrow> string" where
  "runtime_key x = objectKey (mf_type (ob_manifest x)) (rf_namespace (ob_ref x)) (rf_name (ob_ref x))"

section \<open>The executable hash\<close>

definition redact_entry :: "string \<times> json \<Rightarrow> string \<times> json" where
  "redact_entry e = (if fst e = ''data'' \<or> fst e = ''stringData'' then (fst e, JStr ''[REDACTED]'') else e)"

text \<open>\<open>null\<close> decodes to a nil map, which encodes as \<open>null\<close> again.\<close>

definition redact :: "exec_lib \<Rightarrow> raw_json \<Rightarrow> go_error + raw_json" where
  "redact L raw =
     (case unmarshal_any L raw of
        Some (JObj kvs) \<Rightarrow> Inr (RawDoc (JObj (map redact_entry kvs)))
      | Some JNull \<Rightarrow> Inr (RawDoc JNull)
      | _ \<Rightarrow> Inl (ErrText ''json: cannot unmarshal''))"

definition hashed_object :: "exec_lib \<Rightarrow> desired_object \<Rightarrow> go_error + desired_object" where
  "hashed_object L d =
     (if k_kind (do_kind d) = ''Secret''
      then (case redact L (mf_object (do_manifest d)) of
              Inl e \<Rightarrow> Inl e
            | Inr raw \<Rightarrow> Inr (d\<lparr>do_manifest := (do_manifest d)\<lparr>mf_object := raw\<rparr>\<rparr>))
      else Inr d)"

fun hashed_objects :: "exec_lib \<Rightarrow> desired_object list \<Rightarrow> go_error + desired_object list" where
  "hashed_objects L [] = Inr []"
| "hashed_objects L (d # ds) =
     (case hashed_object L d of
        Inl e \<Rightarrow> Inl e
      | Inr d' \<Rightarrow> (case hashed_objects L ds of Inl e \<Rightarrow> Inl e | Inr ds' \<Rightarrow> Inr (d' # ds')))"

definition executableHash :: "exec_lib \<Rightarrow> executable_plan \<Rightarrow> go_error + string" where
  "executableHash L p =
     (case hashed_objects L (ep_objects p) of
        Inl e \<Rightarrow> Inl e
      | Inr objects \<Rightarrow>
          (case xl_encode_plan L objects (ep_discovery p) of
             Inl e \<Rightarrow> Inl e | Inr data \<Rightarrow> Inr (xl_sha256 L data)))"

section \<open>Operations\<close>

record operation =
  op_kind :: string
  op_logical_name :: string
  op_desired :: "desired_object option"
  op_current :: "object_ref option"
  op_key :: string

abbreviation OperationCreate :: string where "OperationCreate \<equiv> ''Create''"
abbreviation OperationUpdate :: string where "OperationUpdate \<equiv> ''Update''"
abbreviation OperationDelete :: string where "OperationDelete \<equiv> ''Delete''"

definition operationKey :: "exec_lib \<Rightarrow> task_identity \<Rightarrow> string \<Rightarrow> string \<Rightarrow> operation \<Rightarrow> string" where
  "operationKey L t runtime_id h x =
     xl_sha256 L
       (LogicalTaskID_String (ti_logical t) @ nul @ ti_object_uid t @ nul @ itoa (ti_generation t) @ nul @
        runtime_id @ nul @ h @ nul @ op_kind x @ nul @ op_logical_name x @
        (case op_current x of None \<Rightarrow> [] | Some ref \<Rightarrow> nul @ rf_id ref @ nul @ rf_uid ref))"

definition cleanupOperationKey :: "exec_lib \<Rightarrow> task_identity \<Rightarrow> string \<Rightarrow> object_ref \<Rightarrow> string" where
  "cleanupOperationKey L t runtime_id ref =
     xl_sha256 L (go_join nul [''cleanup'', LogicalTaskID_String (ti_logical t), ti_object_uid t, runtime_id,
        rf_id ref, rf_namespace ref, rf_name ref, rf_uid ref])"

record operation_summary =
  os_kind :: string
  os_logical_name :: string
  os_object_kind :: string
  os_fenced :: bool

definition operationSummaries :: "operation list \<Rightarrow> operation_summary list" where
  "operationSummaries xs =
     map (\<lambda>x. \<lparr>os_kind = op_kind x, os_logical_name = op_logical_name x,
               os_object_kind = (case op_desired x of None \<Rightarrow> [] | Some d \<Rightarrow> k_kind (do_kind d)),
               os_fenced = (case op_current x of None \<Rightarrow> False | Some ref \<Rightarrow> rf_uid ref \<noteq> [])\<rparr>) xs"

section \<open>The difference between desired and current state\<close>

type_synonym comparator = "typed_manifest \<Rightarrow> desired_object \<Rightarrow> go_error + bool"

definition desiredObjectEqual :: "exec_lib \<Rightarrow> typed_manifest \<Rightarrow> desired_object \<Rightarrow> comparator option \<Rightarrow> go_error + bool" where
  "desiredObjectEqual L current d comparator =
     (case comparator of
        Some cmp \<Rightarrow> cmp current d
      | None \<Rightarrow> Inr (jsonEqual L (mf_object current) (mf_object (do_manifest d))))"

text \<open>The index of a snapshot: the last object of a key.\<close>

definition current_objects :: "object_snapshot \<Rightarrow> string \<rightharpoonup> runtime_object" where
  "current_objects managed = map_of (rev (map (\<lambda>x. (runtime_key x, x)) (sn_objects managed)))"

record diff_state =
  ds_keys :: "string list"
  ds_operations :: "operation list"
  ds_roots :: "string \<rightharpoonup> object_ref"

record diff_input =
  di_task :: task_snapshot
  di_runtime_id :: string
  di_plan :: executable_plan
  di_managed :: object_snapshot
  di_comparator :: "comparator option"

definition keyed_operation :: "exec_lib \<Rightarrow> diff_input \<Rightarrow> operation \<Rightarrow> operation" where
  "keyed_operation L i x =
     x\<lparr>op_key := operationKey L (ts_identity (di_task i)) (di_runtime_id i)
        (dg_executable_hash (ep_digests (di_plan i))) x\<rparr>"

definition add_operation :: "exec_lib \<Rightarrow> diff_input \<Rightarrow> operation \<Rightarrow> diff_state \<Rightarrow> diff_state" where
  "add_operation L i x st = st\<lparr>ds_operations := ds_operations st @ [keyed_operation L i x]\<rparr>"

definition blank_operation :: "desired_object \<Rightarrow> operation" where
  "blank_operation d =
     \<lparr>op_kind = [], op_logical_name = do_logical_name d, op_desired = None, op_current = None, op_key = []\<rparr>"

definition object_identity_key :: "desired_object \<Rightarrow> go_error + string" where
  "object_identity_key d =
     (case decodeIdentity (do_manifest d) of
        Inl e \<Rightarrow> Inl e
      | Inr i \<Rightarrow> Inr (objectKey (do_kind d) (mm_namespace (mid_metadata i)) (mm_name (mid_metadata i))))"

text \<open>One desired object, with the Task being deleted and otherwise.\<close>

definition diff_deleting :: "exec_lib \<Rightarrow> diff_input \<Rightarrow> desired_object \<Rightarrow> string \<Rightarrow> diff_state \<Rightarrow> diff_state" where
  "diff_deleting L i d key st =
     (case current_objects (di_managed i) key of
        Some existing \<Rightarrow>
          (if do_lifecycle d = LifecycleDeleteOnTaskCleanup
           then add_operation L i ((blank_operation d)\<lparr>op_kind := OperationDelete, op_current := Some (ob_ref existing)\<rparr>) st
           else st)
      | None \<Rightarrow> st)"

definition diff_existing :: "exec_lib \<Rightarrow> diff_input \<Rightarrow> desired_object \<Rightarrow> runtime_object \<Rightarrow> diff_state \<Rightarrow> go_error + diff_state" where
  "diff_existing L i d existing st =
     (let st' = (if do_logical_name d \<in> set (id_roots (ep_discovery (di_plan i)))
                 then st\<lparr>ds_roots := (ds_roots st)(do_logical_name d \<mapsto> ob_ref existing)\<rparr> else st);
          x = (blank_operation d)\<lparr>op_current := Some (ob_ref existing)\<rparr> in
      case desiredObjectEqual L (ob_manifest existing) d (di_comparator i) of
        Inl e \<Rightarrow> Inl (fault_Wrap InvalidArgument ''compare desired object'' e)
      | Inr True \<Rightarrow> Inr st'
      | Inr False \<Rightarrow>
          Inr (add_operation L i
            (if do_update_mode d = UpdateReplace then x\<lparr>op_kind := OperationDelete\<rparr>
             else x\<lparr>op_kind := OperationUpdate, op_desired := Some d\<rparr>) st'))"

definition diff_one :: "exec_lib \<Rightarrow> diff_input \<Rightarrow> desired_object \<Rightarrow> diff_state \<Rightarrow> go_error + diff_state" where
  "diff_one L i d st =
     (case object_identity_key d of
        Inl e \<Rightarrow> Inl (fault_Wrap InvalidArgument ''decode desired object identity'' e)
      | Inr key \<Rightarrow>
          (let st' = st\<lparr>ds_keys := ds_keys st @ [key]\<rparr> in
           if ts_deleting (di_task i) then Inr (diff_deleting L i d key st')
           else case current_objects (di_managed i) key of
             Some existing \<Rightarrow> diff_existing L i d existing st'
           | None \<Rightarrow> Inr (add_operation L i ((blank_operation d)\<lparr>op_kind := OperationCreate, op_desired := Some d\<rparr>) st')))"

fun diff_all :: "exec_lib \<Rightarrow> diff_input \<Rightarrow> desired_object list \<Rightarrow> diff_state \<Rightarrow> go_error + diff_state" where
  "diff_all L i [] st = Inr st"
| "diff_all L i (d # ds) st = (case diff_one L i d st of Inl e \<Rightarrow> Inl e | Inr st' \<Rightarrow> diff_all L i ds st')"

definition diff :: "exec_lib \<Rightarrow> diff_input \<Rightarrow> go_error + (operation list \<times> object_ref list \<times> object_ref list)" where
  "diff L i =
     (let objects = ep_objects (di_plan i);
          iteration = (if ts_deleting (di_task i) then rev objects else objects) in
      case diff_all L i iteration \<lparr>ds_keys = [], ds_operations = [], ds_roots = Map.empty\<rparr> of
        Inl e \<Rightarrow> Inl e
      | Inr st \<Rightarrow>
          (if ts_deleting (di_task i) then Inr (ds_operations st, [], [])
           else Inr (ds_operations st,
                     List.map_filter (ds_roots st) (id_roots (ep_discovery (di_plan i))),
                     map ob_ref (filter (\<lambda>x. runtime_key x \<notin> set (ds_keys st)) (rev (sn_objects (di_managed i)))))))"

section \<open>Cleanup\<close>

fun declared_candidates ::
    "(string \<rightharpoonup> object_candidate) \<Rightarrow> object_candidate list \<Rightarrow> go_error + (string \<rightharpoonup> object_candidate)" where
  "declared_candidates m [] = Inr m"
| "declared_candidates m (c # cs) =
     (if oc_lifecycle c \<noteq> LifecycleDeleteOnTaskCleanup then declared_candidates m cs
      else if CandidateKey c = []
      then Inl (fault_New InvalidArgument ''DeleteOnTaskCleanup inventory candidate must use an exact name'')
      else if m (CandidateKey c) \<noteq> None
      then Inl (fault_New InvalidArgument ''duplicate DeleteOnTaskCleanup inventory candidate'')
      else declared_candidates (m(CandidateKey c \<mapsto> c)) cs)"

text \<open>The result maps the keys of the snapshot that a candidate declares; \<open>len\<close> of it is its size.\<close>

definition cleanupCandidates ::
    "object_candidate list \<Rightarrow> object_snapshot \<Rightarrow> go_error + (string \<times> object_candidate) list" where
  "cleanupCandidates candidates managed =
     (case declared_candidates Map.empty candidates of
        Inl e \<Rightarrow> Inl e
      | Inr declared \<Rightarrow>
          Inr (List.map_filter (\<lambda>k. map_option (Pair k) (declared k)) (remdups (map runtime_key (sn_objects managed)))))"

definition lastPresentCleanupCandidate :: "object_candidate list \<Rightarrow> object_snapshot \<Rightarrow> string" where
  "lastPresentCleanupCandidate candidates managed =
     (case find (\<lambda>c. oc_lifecycle c = LifecycleDeleteOnTaskCleanup \<and>
                     CandidateKey c \<in> runtime_key ` set (sn_objects managed)) (rev candidates) of
        None \<Rightarrow> [] | Some c \<Rightarrow> CandidateKey c)"

fun cleanup_objects_absent :: "string set \<Rightarrow> desired_object list \<Rightarrow> bool" where
  "cleanup_objects_absent current [] = True"
| "cleanup_objects_absent current (d # ds) =
     (if do_lifecycle d \<noteq> LifecycleDeleteOnTaskCleanup then cleanup_objects_absent current ds
      else case object_identity_key d of
        Inl _ \<Rightarrow> False
      | Inr key \<Rightarrow> (if key \<in> current then False else cleanup_objects_absent current ds))"

definition cleanupComplete :: "task_snapshot \<Rightarrow> executable_plan \<Rightarrow> object_snapshot \<Rightarrow> bool" where
  "cleanupComplete task p managed \<longleftrightarrow>
     ts_deleting task \<and> cleanup_objects_absent (runtime_key ` set (sn_objects managed)) (ep_objects p)"

section \<open>Capabilities\<close>

definition hasCapability :: "string list \<Rightarrow> string \<Rightarrow> bool" where
  "hasCapability capabilities required \<longleftrightarrow> required \<in> set capabilities"

definition validateIncarnationAdoptionCapabilities ::
    "object_candidate list \<Rightarrow> string list \<Rightarrow> string list \<Rightarrow> go_error option" where
  "validateIncarnationAdoptionCapabilities candidates adapter_caps runtime_caps =
     (if \<not> (\<exists>c \<in> set candidates. ro_incarnation_policy (oc_ownership c) = IncarnationOwnershipAllowAdoption) then None
      else if \<not> hasCapability adapter_caps CapabilityIncarnationAdoption
      then Some (fault_New FailedPrecondition
             ''selected Workload declares incarnation adoption without advertising its capability'')
      else if \<not> hasCapability runtime_caps CapabilityIncarnationAdoption
      then Some (fault_New FailedPrecondition ''selected Runtime does not support Task-incarnation adoption'')
      else None)"

definition validateReconcileProfileCapabilities ::
    "desired_object list \<Rightarrow> string list \<Rightarrow> string list \<Rightarrow> go_error option" where
  "validateReconcileProfileCapabilities objects adapter_caps runtime_caps =
     (if \<not> (\<exists>d \<in> set objects. do_reconcile_profile d \<noteq> \<lparr>k_group = [], k_version = [], k_kind = []\<rparr>) then None
      else if \<not> hasCapability adapter_caps CapabilityReconcileProfiles
      then Some (fault_New FailedPrecondition
             ''selected Workload declares reconcile profiles without advertising its capability'')
      else if \<not> hasCapability runtime_caps CapabilityReconcileProfiles
      then Some (fault_New FailedPrecondition ''selected Runtime does not support typed reconcile profiles'')
      else None)"

section \<open>What diff computes\<close>

text \<open>The operation that one desired object calls for, and when \<open>diff\<close> can decide it.\<close>

definition ops_for :: "exec_lib \<Rightarrow> diff_input \<Rightarrow> desired_object \<Rightarrow> operation list" where
  "ops_for L i d =
     (case current_objects (di_managed i) (projr (object_identity_key d)) of
        None \<Rightarrow>
          (if ts_deleting (di_task i) then []
           else [keyed_operation L i ((blank_operation d)\<lparr>op_kind := OperationCreate, op_desired := Some d\<rparr>)])
      | Some x \<Rightarrow>
          (if ts_deleting (di_task i) then
             (if do_lifecycle d = LifecycleDeleteOnTaskCleanup
              then [keyed_operation L i ((blank_operation d)\<lparr>op_kind := OperationDelete, op_current := Some (ob_ref x)\<rparr>)]
              else [])
           else if desiredObjectEqual L (ob_manifest x) d (di_comparator i) = Inr True then []
           else if do_update_mode d = UpdateReplace
           then [keyed_operation L i ((blank_operation d)\<lparr>op_current := Some (ob_ref x), op_kind := OperationDelete\<rparr>)]
           else [keyed_operation L i ((blank_operation d)\<lparr>op_current := Some (ob_ref x), op_kind := OperationUpdate, op_desired := Some d\<rparr>)]))"

lemma diff_one_ops:
  assumes "diff_one L i d st = Inr st'"
  shows "ds_operations st' = ds_operations st @ ops_for L i d"
    and "\<exists>key. object_identity_key d = Inr key \<and> ds_keys st' = ds_keys st @ [key]"
proof -
  from assms obtain key where key: "object_identity_key d = Inr key"
    by (auto simp: diff_one_def split: sum.splits)
  note run = assms [unfolded diff_one_def key, simplified, unfolded Let_def]
  have "ds_operations st' = ds_operations st @ ops_for L i d \<and> ds_keys st' = ds_keys st @ [key]"
  proof (cases "current_objects (di_managed i) key")
    case None
    with run key show ?thesis
      by (cases "ts_deleting (di_task i)") (auto simp: ops_for_def diff_deleting_def add_operation_def)
  next
    case (Some x)
    show ?thesis
    proof (cases "ts_deleting (di_task i)")
      case True
      with run key Some show ?thesis by (auto simp: ops_for_def diff_deleting_def add_operation_def)
    next
      case False
      with run Some have ex: "diff_existing L i d x (st\<lparr>ds_keys := ds_keys st @ [key]\<rparr>) = Inr st'" by simp
      then obtain b where b: "desiredObjectEqual L (ob_manifest x) d (di_comparator i) = Inr b"
        by (auto simp: diff_existing_def Let_def split: sum.splits)
      show ?thesis
        using ex False key Some b
        by (cases b) (auto simp: diff_existing_def ops_for_def add_operation_def Let_def)
    qed
  qed
  with key show "ds_operations st' = ds_operations st @ ops_for L i d"
    and "\<exists>key. object_identity_key d = Inr key \<and> ds_keys st' = ds_keys st @ [key]" by blast+
qed

lemma diff_all_ops:
  assumes "diff_all L i ds st = Inr st'"
  shows "ds_operations st' = ds_operations st @ concat (map (ops_for L i) ds) \<and>
    (\<forall>d \<in> set ds. \<exists>key. object_identity_key d = Inr key) \<and>
    set (ds_keys st') = set (ds_keys st) \<union> {key. \<exists>d \<in> set ds. object_identity_key d = Inr key}"
  using assms
proof (induction ds arbitrary: st)
  case (Cons d ds)
  then obtain s where one: "diff_one L i d st = Inr s" and rest: "diff_all L i ds s = Inr st'"
    by (auto split: sum.splits)
  from diff_one_ops [OF one] Cons.IH [OF rest] show ?case by auto
qed simp

lemma diff_result:
  assumes "diff L i = Inr (ops, roots, orphans)"
  shows "ops = concat (map (ops_for L i) (if ts_deleting (di_task i) then rev (ep_objects (di_plan i)) else ep_objects (di_plan i)))"
    and "\<forall>d \<in> set (ep_objects (di_plan i)). \<exists>key. object_identity_key d = Inr key"
    and "\<not> ts_deleting (di_task i) \<Longrightarrow> set orphans = ob_ref ` {x \<in> set (sn_objects (di_managed i)).
           \<not> (\<exists>d \<in> set (ep_objects (di_plan i)). object_identity_key d = Inr (runtime_key x))}"
proof -
  let ?it = "if ts_deleting (di_task i) then rev (ep_objects (di_plan i)) else ep_objects (di_plan i)"
  from assms obtain st where run: "diff_all L i ?it \<lparr>ds_keys = [], ds_operations = [], ds_roots = Map.empty\<rparr> = Inr st"
    and ops: "ops = ds_operations st"
    and orph: "\<not> ts_deleting (di_task i) \<Longrightarrow>
       orphans = map ob_ref (filter (\<lambda>x. runtime_key x \<notin> set (ds_keys st)) (rev (sn_objects (di_managed i))))"
    by (auto simp: diff_def Let_def split: sum.splits if_splits)
  note all = diff_all_ops [OF run]
  show "ops = concat (map (ops_for L i) ?it)" using all ops by simp
  show "\<forall>d \<in> set (ep_objects (di_plan i)). \<exists>key. object_identity_key d = Inr key" using all by (simp split: if_splits)
  show "set orphans = ob_ref ` {x \<in> set (sn_objects (di_managed i)).
           \<not> (\<exists>d \<in> set (ep_objects (di_plan i)). object_identity_key d = Inr (runtime_key x))}"
    if "\<not> ts_deleting (di_task i)"
    using all orph [OF that] that by auto
qed

lemma ops_for_cases:
  "ops_for L i d = [] \<or> (\<exists>x. ops_for L i d = [x] \<and> op_logical_name x = do_logical_name d)"
  by (auto simp: ops_for_def keyed_operation_def blank_operation_def split: option.split)

lemma ops_in_order: "subseq (map op_logical_name (concat (map (ops_for L i) ds))) (map do_logical_name ds)"
proof (induction ds)
  case (Cons d ds)
  from ops_for_cases [of L i d] show ?case
  proof
    assume "\<exists>x. ops_for L i d = [x] \<and> op_logical_name x = do_logical_name d"
    with Cons show ?thesis by auto
  qed (use Cons in auto)
qed simp

lemma current_objects_Some:
  "current_objects m k = Some x \<Longrightarrow> x \<in> set (sn_objects m) \<and> runtime_key x = k"
  by (auto simp: current_objects_def dest!: map_of_SomeD)

lemma current_objects_None: "current_objects m k = None \<longleftrightarrow> k \<notin> runtime_key ` set (sn_objects m)"
  by (auto simp: current_objects_def map_of_eq_None_iff image_iff)

lemma delete_op_declared:
  assumes "x \<in> set (ops_for L i d)" and "op_kind x = OperationDelete" and "object_identity_key d = Inr key"
  shows "\<exists>existing \<in> set (sn_objects (di_managed i)). op_logical_name x = do_logical_name d \<and>
     op_current x = Some (ob_ref existing) \<and> object_identity_key d = Inr (runtime_key existing) \<and>
     (if ts_deleting (di_task i) then do_lifecycle d = LifecycleDeleteOnTaskCleanup else do_update_mode d = UpdateReplace)"
proof (cases "current_objects (di_managed i) key")
  case None
  with assms show ?thesis by (auto simp: ops_for_def keyed_operation_def split: if_splits)
next
  case (Some y)
  from current_objects_Some [OF Some] assms(3) have "y \<in> set (sn_objects (di_managed i))" "object_identity_key d = Inr (runtime_key y)"
    by simp_all
  moreover have "op_logical_name x = do_logical_name d \<and> op_current x = Some (ob_ref y) \<and>
     (if ts_deleting (di_task i) then do_lifecycle d = LifecycleDeleteOnTaskCleanup else do_update_mode d = UpdateReplace)"
    using assms Some by (auto simp: ops_for_def keyed_operation_def blank_operation_def split: if_splits)
  ultimately show ?thesis by blast
qed

lemma cleanup_objects_absent_iff:
  "\<forall>d \<in> set ds. \<exists>key. object_identity_key d = Inr key \<Longrightarrow>
   cleanup_objects_absent current ds \<longleftrightarrow>
     (\<forall>d \<in> set ds. do_lifecycle d = LifecycleDeleteOnTaskCleanup \<longrightarrow> projr (object_identity_key d) \<notin> current)"
  by (induction ds) (auto split: sum.split)

text \<open>
  C10. A \<open>diff\<close> that succeeds orders its operations as the plan (reversed when the Task is being
  deleted), deletes only a current object that a desired object of the plan names and whose
  policy allows it, and reports as orphans exactly the managed objects no desired object names.
  It is empty exactly when the plan is in its steady state: every object present and equal, or,
  when deleting, exactly when \<open>cleanupComplete\<close> holds.
\<close>

theorem diff_safe:
  assumes "diff L i = Inr (ops, roots, orphans)"
  shows "subseq (map op_logical_name ops)
      (map do_logical_name (if ts_deleting (di_task i) then rev (ep_objects (di_plan i)) else ep_objects (di_plan i))) \<and>
    (\<forall>x \<in> set ops. op_kind x = OperationDelete \<longrightarrow>
       (\<exists>d \<in> set (ep_objects (di_plan i)). \<exists>existing \<in> set (sn_objects (di_managed i)).
          op_logical_name x = do_logical_name d \<and> op_current x = Some (ob_ref existing) \<and>
          object_identity_key d = Inr (runtime_key existing) \<and>
          (if ts_deleting (di_task i) then do_lifecycle d = LifecycleDeleteOnTaskCleanup
           else do_update_mode d = UpdateReplace))) \<and>
    (if ts_deleting (di_task i)
     then (ops = [] \<longleftrightarrow> cleanupComplete (di_task i) (di_plan i) (di_managed i)) \<and> (\<forall>x \<in> set ops. op_kind x = OperationDelete)
     else (ops = [] \<longleftrightarrow> (\<forall>d \<in> set (ep_objects (di_plan i)). \<exists>key existing.
             object_identity_key d = Inr key \<and> current_objects (di_managed i) key = Some existing \<and>
             desiredObjectEqual L (ob_manifest existing) d (di_comparator i) = Inr True)) \<and>
          set orphans = ob_ref ` {x \<in> set (sn_objects (di_managed i)).
             \<not> (\<exists>d \<in> set (ep_objects (di_plan i)). object_identity_key d = Inr (runtime_key x))})"
proof -
  let ?ds = "ep_objects (di_plan i)"
  let ?it = "if ts_deleting (di_task i) then rev ?ds else ?ds"
  note res = diff_result [OF assms]
  have del: "\<exists>d \<in> set ?ds. \<exists>existing \<in> set (sn_objects (di_managed i)).
          op_logical_name x = do_logical_name d \<and> op_current x = Some (ob_ref existing) \<and>
          object_identity_key d = Inr (runtime_key existing) \<and>
          (if ts_deleting (di_task i) then do_lifecycle d = LifecycleDeleteOnTaskCleanup
           else do_update_mode d = UpdateReplace)"
    if "x \<in> set ops" "op_kind x = OperationDelete" for x
  proof -
    from that(1) obtain d where d: "d \<in> set ?ds" "x \<in> set (ops_for L i d)" unfolding res(1) by (auto split: if_splits)
    with res(2) obtain key where "object_identity_key d = Inr key" by blast
    from delete_op_declared [OF d(2) that(2) this] d(1) show ?thesis by blast
  qed
  have empty: "ops = [] \<longleftrightarrow> (\<forall>d \<in> set ?ds. ops_for L i d = [])"
    unfolding res(1) by (auto split: if_splits)
  have steady: "ops_for L i d = [] \<longleftrightarrow> (\<exists>key existing. object_identity_key d = Inr key \<and>
      current_objects (di_managed i) key = Some existing \<and>
      desiredObjectEqual L (ob_manifest existing) d (di_comparator i) = Inr True)"
    if "d \<in> set ?ds" "\<not> ts_deleting (di_task i)" for d
    using res(2) that by (auto simp: ops_for_def split: option.splits)
  have gone: "ops_for L i d = [] \<longleftrightarrow>
      (do_lifecycle d = LifecycleDeleteOnTaskCleanup \<longrightarrow> projr (object_identity_key d) \<notin> runtime_key ` set (sn_objects (di_managed i)))"
    if "ts_deleting (di_task i)" for d
    using that by (auto simp: ops_for_def current_objects_None [symmetric] split: option.splits)
  show ?thesis
  proof (cases "ts_deleting (di_task i)")
    case True
    have "ops = [] \<longleftrightarrow> cleanupComplete (di_task i) (di_plan i) (di_managed i)"
      unfolding empty cleanupComplete_def cleanup_objects_absent_iff [OF res(2)] using gone [OF True] True by simp
    moreover have "\<forall>x \<in> set ops. op_kind x = OperationDelete"
      using True unfolding res(1) by (auto simp: ops_for_def keyed_operation_def split: option.splits if_splits)
    ultimately show ?thesis using del True ops_in_order [of L i ?it] res(1) by simp
  next
    case False
    have "ops = [] \<longleftrightarrow> (\<forall>d \<in> set ?ds. \<exists>key existing. object_identity_key d = Inr key \<and>
             current_objects (di_managed i) key = Some existing \<and>
             desiredObjectEqual L (ob_manifest existing) d (di_comparator i) = Inr True)"
      unfolding empty using steady False by blast
    with False res(3) del ops_in_order [of L i ?it] res(1) show ?thesis by simp
  qed
qed

definition named_manifest :: "string \<Rightarrow> typed_manifest" where
  "named_manifest n =
     \<lparr>mf_type = plain_kind ''Pod'', mf_object = RawDoc (JObj [(''metadata'', JObj [(''name'', JStr n)])])\<rparr>"

definition named_object :: "string \<Rightarrow> desired_object" where
  "named_object n = (graph_object n [])\<lparr>do_manifest := named_manifest n\<rparr>"

definition present_object :: "string \<Rightarrow> runtime_object" where
  "present_object n =
     \<lparr>ob_ref = \<lparr>rf_runtime_id = ''r1'', rf_id = n, rf_namespace = [], rf_name = n, rf_uid = ''u'',
        rf_logical_task = \<lparr>lt_namespace = [], lt_name = []\<rparr>\<rparr>, ob_manifest = named_manifest n\<rparr>"

definition demo_lib :: exec_lib where
  "demo_lib = \<lparr>xl_number = (\<lambda>_. Some []), xl_encode_plan = (\<lambda>_ _. Inr []), xl_encode_bindings = (\<lambda>_. Inr []), xl_sha256 = (\<lambda>s. s)\<rparr>"

definition demo_snapshot :: "bool \<Rightarrow> task_snapshot" where
  "demo_snapshot deleting =
     \<lparr>ts_identity = \<lparr>ti_logical = \<lparr>lt_namespace = ''ns'', lt_name = ''t''\<rparr>, ti_object_uid = ''u'', ti_generation = 1\<rparr>,
      ts_runtime_selector = \<lparr>rs_id = ''r1'', rs_kind = []\<rparr>, ts_workload_selector = \<lparr>wsel_type = ''w'', wsel_version = ''v1''\<rparr>,
      ts_carrier_selector = \<lparr>csel_type = [], csel_version = []\<rparr>,
      ts_configuration = \<lparr>wcf_template = \<lparr>pt_container_names = [''main''], pt_opaque = []\<rparr>, wcf_parameters = RawBlank,
        wcf_carrier = \<lparr>vc_type = [], vc_version = [], vc_parameters = RawBlank\<rparr>\<rparr>,
      ts_environment = [], ts_local_environments = [], ts_deleting = deleting\<rparr>"

definition demo_diff :: "bool \<Rightarrow> diff_input" where
  "demo_diff deleting =
     \<lparr>di_task = demo_snapshot deleting, di_runtime_id = ''r1'',
      di_plan = \<lparr>ep_digests = \<lparr>dg_compiled_hash = [], dg_executable_hash = [], dg_binding_revision = []\<rparr>,
                 ep_objects = [named_object ''a''], ep_discovery = \<lparr>id_roots = [''a''], id_options = None\<rparr>\<rparr>,
      di_managed = \<lparr>sn_revision = [], sn_objects = [present_object ''a'']\<rparr>, di_comparator = None\<rparr>"

theorem diff_safe_witness:
  "\<exists>ops roots orphans. diff demo_lib (demo_diff True) = Inr (ops, roots, orphans) \<and> ops \<noteq> [] \<and>
     \<not> cleanupComplete (di_task (demo_diff True)) (di_plan (demo_diff True)) (di_managed (demo_diff True))"
proof -
  have "object_identity_key (named_object ''a'') = Inr (runtime_key (present_object ''a''))"
    by code_simp
  then have "diff_all demo_lib (demo_diff True) [named_object ''a''] \<lparr>ds_keys = [], ds_operations = [], ds_roots = Map.empty\<rparr> =
      Inr (diff_deleting demo_lib (demo_diff True) (named_object ''a'') (runtime_key (present_object ''a''))
             \<lparr>ds_keys = [runtime_key (present_object ''a'')], ds_operations = [], ds_roots = Map.empty\<rparr>)"
    by (simp add: diff_one_def demo_diff_def demo_snapshot_def)
  then obtain ops where run: "diff demo_lib (demo_diff True) = Inr (ops, [], [])" "ops \<noteq> []"
    by (simp add: diff_def demo_diff_def demo_snapshot_def diff_deleting_def current_objects_def add_operation_def
        named_object_def graph_object_def)
  from diff_safe [OF run(1)] run show ?thesis by (simp add: demo_diff_def demo_snapshot_def)
qed

end
