(* ===== verification/Coordinator.thy ===== *)
theory Coordinator
  imports Exec_Diff
begin

text \<open>
  The execution coordinator (\<open>coordination/coordinator/coordinator.go\<close>) with the selection of
  Runtimes (\<open>coordination/registry.go\<close>) and Workload adapters (\<open>workload/registry.go\<close>):
  \<open>Evaluate\<close>, \<open>Reconcile\<close>, \<open>CleanupTask\<close> and \<open>ObserveRoot\<close>. Providers, adapters, the
  resolver and the binders are records of programs over the state of the outside world; an
  interface that a value may also implement is an optional field. Observability calls are
  left out: the code never reads them back. The partial result that Go returns beside an
  error is not kept; the world keeps the effects.
\<close>

section \<open>The collaborators\<close>

record type_info =
  ty_id :: string
  ty_version :: string
  ty_runtime_kinds :: "string list"
  ty_capabilities :: "string list"

record 'w provider =
  pv_get :: "object_ref \<Rightarrow> ('w, runtime_object) prog"
  pv_apply :: "apply_request \<Rightarrow> ('w, apply_result) prog"
  pv_delete :: "delete_request \<Rightarrow> ('w, unit) prog"
  pv_list_instances :: "instance_query \<Rightarrow> ('w, instance_snapshot) prog"
  pv_list_candidates :: "(managed_object_query \<Rightarrow> ('w, object_snapshot) prog) option"
  pv_claimed_workload :: "(task_identity \<Rightarrow> ('w, string \<times> string) prog) option"

record 'w adapter =
  ad_info :: "('w, type_info) prog"
  ad_compile :: "compile_request \<Rightarrow> ('w, plan) prog"
  ad_observe :: "observe_request \<Rightarrow> ('w, observation) prog"
  ad_inventory :: "(inventory_request \<Rightarrow> ('w, object_candidate list) prog) option"

type_synonym 'w plan_bind = "bind_request \<Rightarrow> ('w, executable_plan) prog"

record 'w runtime_registration =
  rr_info :: runtime_info
  rr_provider :: "'w provider option"
  rr_comparator :: "comparator option"

record 'w workload_registration =
  wr_type :: string
  wr_version :: string
  wr_runtime_kind :: string
  wr_adapter :: "'w adapter option"

record 'w coordinator =
  co_runtimes :: "'w runtime_registration list"
  co_workloads :: "'w workload_registration list"
  co_implementations :: "(string \<Rightarrow> string \<Rightarrow> string \<Rightarrow> go_error + 'w adapter) option"
  co_resolver :: "(resolve_request \<Rightarrow> ('w, resolved_environment) prog) option"
  co_binder :: "'w plan_bind option"
  co_binder_for_task :: "(task_snapshot \<Rightarrow> go_error + 'w plan_bind option) option"
  co_lib :: exec_lib

record evaluation =
  ev_runtime :: runtime_info
  ev_plan :: executable_plan
  ev_managed :: object_snapshot
  ev_instances :: instance_snapshot
  ev_observation :: observation
  ev_operations :: "operation list"
  ev_orphans :: "object_ref list"
  ev_roots :: "object_ref list"
  ev_cleanup_complete :: bool

record reconcile_result =
  rs_evaluation :: evaluation
  rs_applied :: "apply_result list"
  rs_deleted :: "object_ref list"
  rs_revision :: execution_revision

record cleanup_result =
  cu_managed :: object_snapshot
  cu_deleted :: "object_ref list"
  cu_complete :: bool

record observe_result =
  or_runtime :: runtime_info
  or_object :: runtime_object
  or_instances :: instance_snapshot
  or_observation :: observation

section \<open>Selection\<close>

abbreviation ErrRuntimeNotFound :: string where "ErrRuntimeNotFound \<equiv> ''ErrRuntimeNotFound''"
abbreviation ErrAmbiguousRuntime :: string where "ErrAmbiguousRuntime \<equiv> ''ErrAmbiguousRuntime''"
abbreviation ErrAdapterNotFound :: string where "ErrAdapterNotFound \<equiv> ''ErrAdapterNotFound''"
abbreviation ErrAmbiguousAdapter :: string where "ErrAmbiguousAdapter \<equiv> ''ErrAmbiguousAdapter''"

definition runtime_matches :: "runtime_selector \<Rightarrow> runtime_info \<Rightarrow> bool" where
  "runtime_matches s i \<longleftrightarrow>
     \<not> (rs_id s \<noteq> [] \<and> ri_id i \<noteq> rs_id s) \<and> \<not> (rs_kind s \<noteq> [] \<and> ri_kind i \<noteq> rs_kind s)"

definition SelectRuntime :: "runtime_selector \<Rightarrow> runtime_info list \<Rightarrow> go_error + runtime_info" where
  "SelectRuntime s candidates =
     (case filter (runtime_matches s) candidates of
        [] \<Rightarrow> Inl (ErrSentinel ErrRuntimeNotFound)
      | [m] \<Rightarrow> Inr m
      | ms \<Rightarrow> Inl (ErrWrap (''matched '' @ itoa (int (length ms)) @ '' runtimes'') (ErrSentinel ErrAmbiguousRuntime)))"

record 'v candidate =
  ca_type :: string
  ca_version :: string
  ca_value :: 'v

definition Select :: "workload_selector \<Rightarrow> 'v candidate list \<Rightarrow> go_error + 'v" where
  "Select s candidates =
     (case filter (\<lambda>c. ca_type c = wsel_type s \<and> ca_version c = wsel_version s) candidates of
        [m] \<Rightarrow> Inr (ca_value m)
      | [] \<Rightarrow> Inl (ErrSentinel ErrAdapterNotFound)
      | ms \<Rightarrow> Inl (ErrWrap (''matched '' @ itoa (int (length ms)) @ '' adapters'') (ErrSentinel ErrAmbiguousAdapter)))"

definition selectionFault :: "string \<Rightarrow> go_error \<Rightarrow> go_error" where
  "selectionFault operation e =
     (if errors_is e ErrRuntimeNotFound \<or> errors_is e ErrAdapterNotFound
      then fault_Wrap FaultNotFound operation e else fault_Wrap FailedPrecondition operation e)"

text \<open>The registration is found again by the identifier of the selected Runtime, the last one of it.\<close>

definition registration_of :: "'w coordinator \<Rightarrow> string \<Rightarrow> 'w runtime_registration option" where
  "registration_of c i = map_of (rev (map (\<lambda>r. (ri_id (rr_info r), r)) (co_runtimes c))) i"

definition selectRuntime :: "'w coordinator \<Rightarrow> runtime_selector \<Rightarrow> go_error + 'w runtime_registration \<times> 'w provider" where
  "selectRuntime c s =
     (case SelectRuntime s (map rr_info (co_runtimes c)) of
        Inl e \<Rightarrow> Inl (selectionFault ''select Runtime'' e)
      | Inr selected \<Rightarrow>
          (case registration_of c (ri_id selected) of
             None \<Rightarrow> Inl (fault_New FailedPrecondition ''selected Runtime has no Provider'')
           | Some r \<Rightarrow>
               (case rr_provider r of
                  None \<Rightarrow> Inl (fault_New FailedPrecondition ''selected Runtime has no Provider'')
                | Some p \<Rightarrow> Inr (r, p))))"

definition selectWorkload :: "'w coordinator \<Rightarrow> workload_selector \<Rightarrow> string \<Rightarrow> go_error + 'w adapter" where
  "selectWorkload c s runtime_kind =
     (case co_implementations c of
        Some select \<Rightarrow>
          (case select (wsel_type s) (wsel_version s) runtime_kind of
             Inl e \<Rightarrow> Inl (selectionFault ''select Workload implementation'' e)
           | Inr a \<Rightarrow> Inr a)
      | None \<Rightarrow>
          (case Select s (map (\<lambda>w. \<lparr>ca_type = wr_type w, ca_version = wr_version w, ca_value = wr_adapter w\<rparr>)
                            (filter (\<lambda>w. wr_runtime_kind w = runtime_kind) (co_workloads c))) of
             Inl e \<Rightarrow> Inl (selectionFault ''select Workload'' e)
           | Inr None \<Rightarrow> Inl (fault_New FailedPrecondition ''selected Workload has no Adapter'')
           | Inr (Some a) \<Rightarrow> Inr a))"

section \<open>Evaluate\<close>

definition raise :: "go_error option \<Rightarrow> ('w, unit) prog" where
  "raise r = (case r of Some e \<Rightarrow> fail e | None \<Rightarrow> ok ())"

text \<open>\<open>x == nil\<close> and the failed type assertions: an absent collaborator is an error.\<close>

definition require :: "go_error \<Rightarrow> 'a option \<Rightarrow> ('w, 'a) prog" where
  "require e x = (case x of None \<Rightarrow> fail e | Some a \<Rightarrow> ok a)"

definition no_inventory_adapter :: go_error where
  "no_inventory_adapter = fault_New FailedPrecondition ''selected Workload does not support identity-based inventory''"

definition no_inventory_provider :: go_error where
  "no_inventory_provider = fault_New FailedPrecondition ''selected Runtime does not support Adapter-directed inventory''"

definition task_binder :: "'w coordinator \<Rightarrow> task_snapshot \<Rightarrow> 'w plan_bind \<Rightarrow> ('w, 'w plan_bind) prog" where
  "task_binder c task standard =
     (case co_binder_for_task c of
        None \<Rightarrow> ok standard
      | Some build \<Rightarrow>
          (case build task of
             Inl e \<Rightarrow> fail e
           | Inr b \<Rightarrow> require (fault_New FailedPrecondition ''environment plan binder is required'') b))"

text \<open>
  The digests and the canonical order of a bound plan. \<open>orderDesired\<close> returns for every plan,
  so the first case does not arise.
\<close>

definition seal_plan :: "exec_lib \<Rightarrow> plan \<Rightarrow> resolved_environment \<Rightarrow> executable_plan \<Rightarrow> go_error + executable_plan" where
  "seal_plan L compiled resolved bound =
     (if dg_executable_hash (ep_digests bound) \<noteq> [] \<or> dg_binding_revision (ep_digests bound) \<noteq> []
      then Inl (fault_New InternalFault ''plan binder must not set Coordinator-owned execution digests'')
      else
        (let d = ep_digests bound;
             d = (if dg_compiled_hash d = [] then d\<lparr>dg_compiled_hash := pl_compiled_hash compiled\<rparr> else d) in
         case orderDesired (ep_objects bound) of
           None \<Rightarrow> Inl (GoPanic ''orderDesired does not return'')
         | Some (Inl e) \<Rightarrow> Inl e
         | Some (Inr ordered) \<Rightarrow>
             (case executableHash L (bound\<lparr>ep_digests := d, ep_objects := ordered\<rparr>) of
                Inl e \<Rightarrow> Inl e
              | Inr h \<Rightarrow>
                  (case BindingRevision (xl_encode_bindings L) (xl_sha256 L) resolved of
                     Inl e \<Rightarrow> Inl e
                   | Inr revision \<Rightarrow>
                       Inr (bound\<lparr>ep_objects := ordered,
                              ep_digests := d\<lparr>dg_executable_hash := h, dg_binding_revision := revision\<rparr>\<rparr>)))))"

definition bind_plan ::
    "'w coordinator \<Rightarrow> task_snapshot \<Rightarrow> runtime_info \<Rightarrow> 'w adapter \<Rightarrow> ('w, executable_plan) prog" where
  "bind_plan c task rt adapter =
     (case (co_resolver c, co_binder c) of
        (Some resolve, Some bind0) \<Rightarrow>
          seq (ad_compile adapter \<lparr>cr_task = task, cr_runtime = rt\<rparr>) (\<lambda>p.
          let compiled = p\<lparr>pl_environment := pl_environment p @ ts_environment task\<rparr> in
          seq (resolve \<lparr>rq_task = ts_identity task, rq_runtime = rt, rq_requirements = pl_environment compiled,
                        rq_targets = pl_targets compiled\<rparr>) (\<lambda>resolved.
          seq (task_binder c task bind0) (\<lambda>bind.
          seq (bind \<lparr>br_runtime = rt, br_plan = compiled, br_environment = resolved\<rparr>) (\<lambda>bound.
          give (seal_plan (co_lib c) compiled resolved bound)))))
      | _ \<Rightarrow> fail (fault_New FailedPrecondition ''environment resolver and plan binder are required''))"

definition list_inventory ::
    "task_identity \<Rightarrow> carrier_selector \<Rightarrow> runtime_info \<Rightarrow> 'w provider \<Rightarrow> 'w adapter \<Rightarrow> desired_object list \<Rightarrow>
     ('w, object_candidate list \<times> (managed_object_query \<Rightarrow> ('w, object_snapshot) prog)) prog" where
  "list_inventory identity carrier rt p adapter objects =
     seq (require no_inventory_adapter (ad_inventory adapter)) (\<lambda>inventory.
     seq (require no_inventory_provider (pv_list_candidates p)) (\<lambda>list.
     seq (inventory \<lparr>iv_task = identity, iv_runtime = rt, iv_carrier = carrier\<rparr>) (\<lambda>candidates.
     seq (ad_info adapter) (\<lambda>info.
     seq (raise (validateIncarnationAdoptionCapabilities candidates (ty_capabilities info) (ri_capabilities rt))) (\<lambda>_.
     seq (raise (validateReconcileProfileCapabilities objects (ty_capabilities info) (ri_capabilities rt))) (\<lambda>_.
     ok (candidates, list)))))))"

definition observe_state ::
    "'w coordinator \<Rightarrow> task_snapshot \<Rightarrow> 'w runtime_registration \<Rightarrow> 'w provider \<Rightarrow> 'w adapter \<Rightarrow> executable_plan \<Rightarrow>
     ('w, evaluation) prog" where
  "observe_state c task r p adapter ep =
     seq (list_inventory (ts_identity task) (ts_carrier_selector task) (rr_info r) p adapter (ep_objects ep)) (\<lambda>(candidates, list).
     seq (list \<lparr>mq_task = ts_identity task, mq_candidates = candidates\<rparr>) (\<lambda>managed.
     seq (give (diff (co_lib c) \<lparr>di_task = task, di_runtime_id = ri_id (rr_info r), di_plan = ep, di_managed = managed,
                  di_comparator = rr_comparator r\<rparr>)) (\<lambda>(operations, roots, orphans).
     seq (pv_list_instances p \<lparr>iq_task = ts_identity task, iq_workloads = roots,
            iq_roots = id_roots (ep_discovery ep), iq_options = id_options (ep_discovery ep)\<rparr>) (\<lambda>instances.
     seq (ad_observe adapter \<lparr>orq_task = task, orq_plan = ep, orq_objects = managed, orq_instances = instances\<rparr>) (\<lambda>seen.
     ok \<lparr>ev_runtime = rr_info r, ev_plan = ep, ev_managed = managed, ev_instances = instances, ev_observation = seen,
         ev_operations = operations, ev_orphans = orphans, ev_roots = roots,
         ev_cleanup_complete = cleanupComplete task ep managed\<rparr>)))))"

definition Evaluate :: "'w coordinator \<Rightarrow> task_snapshot \<Rightarrow> ('w, evaluation) prog" where
  "Evaluate c task =
     seq (give (selectRuntime c (ts_runtime_selector task))) (\<lambda>(r, p).
     seq (give (selectWorkload c (ts_workload_selector task) (ri_kind (rr_info r)))) (\<lambda>adapter.
     seq (bind_plan c task (rr_info r) adapter) (\<lambda>ep.
     observe_state c task r p adapter ep)))"

section \<open>Reconcile\<close>

definition executionRevision :: "exec_lib \<Rightarrow> task_snapshot \<Rightarrow> evaluation \<Rightarrow> execution_revision" where
  "executionRevision L task ev =
     \<lparr>er_runtime_id = ri_id (ev_runtime ev), er_runtime_kind = ri_kind (ev_runtime ev),
      er_workload_type = wsel_type (ts_workload_selector task), er_workload_version = wsel_version (ts_workload_selector task),
      er_compiled_digest = canonicalDigest (xl_sha256 L) (dg_compiled_hash (ep_digests (ev_plan ev))),
      er_executable_digest = canonicalDigest (xl_sha256 L) (dg_executable_hash (ep_digests (ev_plan ev))),
      er_binding_revision = dg_binding_revision (ep_digests (ev_plan ev))\<rparr>"

definition apply_of :: "exec_lib \<Rightarrow> task_snapshot \<Rightarrow> evaluation \<Rightarrow> operation \<Rightarrow> desired_object \<Rightarrow> apply_request" where
  "apply_of L task ev x d =
     \<lparr>ap_idempotency_key = op_key x, ap_task = ts_identity task, ap_desired = d, ap_current = op_current x,
      ap_proven_owners = map ob_ref (sn_objects (ev_managed ev)), ap_revision = executionRevision L task ev\<rparr>"

definition delete_of :: "task_snapshot \<Rightarrow> operation \<Rightarrow> object_ref \<Rightarrow> delete_request" where
  "delete_of task x ref = \<lparr>dr_idempotency_key = op_key x, dr_task = ts_identity task, dr_ref = ref\<rparr>"

definition perform_operation ::
    "exec_lib \<Rightarrow> task_snapshot \<Rightarrow> evaluation \<Rightarrow> 'w provider \<Rightarrow> apply_result list \<times> object_ref list \<Rightarrow> operation \<Rightarrow>
     ('w, apply_result list \<times> object_ref list) prog" where
  "perform_operation L task ev p acc x =
     (if op_kind x = OperationCreate \<or> op_kind x = OperationUpdate then
        (case op_desired x of
           None \<Rightarrow> fail (fault_New InternalFault ''Apply operation has no desired object'')
         | Some d \<Rightarrow> seq (pv_apply p (apply_of L task ev x d)) (\<lambda>r. ok (fst acc @ [r], snd acc)))
      else if op_kind x = OperationDelete then
        (case op_current x of
           None \<Rightarrow> fail (fault_New InternalFault ''Delete operation has no current object'')
         | Some ref \<Rightarrow> seq (pv_delete p (delete_of task x ref)) (\<lambda>_. ok (fst acc, snd acc @ [ref])))
      else fail (fault_New InternalFault (''unknown execution operation '' @ quoted (op_kind x))))"

definition Reconcile :: "'w coordinator \<Rightarrow> task_snapshot \<Rightarrow> ('w, reconcile_result) prog" where
  "Reconcile c task =
     seq (Evaluate c task) (\<lambda>ev.
     seq (give (selectRuntime c (ts_runtime_selector task))) (\<lambda>(r, p).
     seq (fold_prog (perform_operation (co_lib c) task ev p) ([], []) (ev_operations ev)) (\<lambda>(applied, deleted).
     seq (if ev_operations ev \<noteq> [] then Evaluate c task else ok ev) (\<lambda>ev'.
     ok \<lparr>rs_evaluation = ev', rs_applied = applied, rs_deleted = deleted,
         rs_revision = executionRevision (co_lib c) task ev\<rparr>))))"

section \<open>CleanupTask\<close>

definition claimed_selector ::
    "'w provider \<Rightarrow> task_identity \<Rightarrow> workload_selector \<Rightarrow> ('w, workload_selector) prog" where
  "claimed_selector p task s =
     (if wsel_type s = [] \<or> wsel_version s = [] then
        seq (require (fault_New FailedPrecondition
               ''legacy claim has no frozen Workload identity and Runtime cannot recover it'')
             (pv_claimed_workload p)) (\<lambda>claimed.
        seq (claimed task) (\<lambda>(t, v). ok \<lparr>wsel_type = t, wsel_version = v\<rparr>))
      else ok s)"

definition cleanup_one ::
    "exec_lib \<Rightarrow> task_identity \<Rightarrow> string \<Rightarrow> 'w provider \<Rightarrow> (string \<times> object_candidate) list \<Rightarrow> string \<Rightarrow>
     object_ref list \<Rightarrow> runtime_object \<Rightarrow> ('w, object_ref list) prog" where
  "cleanup_one L task runtime_id p deletable delete_key deleted x =
     (case map_of deletable (runtime_key x) of
        None \<Rightarrow> ok deleted
      | Some candidate \<Rightarrow>
          (if CandidateKey candidate \<noteq> delete_key then ok deleted
           else seq (pv_delete p \<lparr>dr_idempotency_key = cleanupOperationKey L task runtime_id (ob_ref x),
                                  dr_task = task, dr_ref = ob_ref x\<rparr>) (\<lambda>_. ok (deleted @ [ob_ref x]))))"

definition CleanupTask ::
    "'w coordinator \<Rightarrow> task_identity \<Rightarrow> runtime_selector \<Rightarrow> workload_selector \<Rightarrow> carrier_selector \<Rightarrow>
     ('w, cleanup_result) prog" where
  "CleanupTask c task rsel wsel csel =
     seq (give (selectRuntime c rsel)) (\<lambda>(r, p).
     seq (claimed_selector p task wsel) (\<lambda>selector.
     seq (give (selectWorkload c selector (ri_kind (rr_info r)))) (\<lambda>adapter.
     seq (list_inventory task csel (rr_info r) p adapter []) (\<lambda>(candidates, list).
     seq (list \<lparr>mq_task = task, mq_candidates = candidates\<rparr>) (\<lambda>managed.
     seq (give (cleanupCandidates candidates managed)) (\<lambda>deletable.
     seq (fold_prog (cleanup_one (co_lib c) task (ri_id (rr_info r)) p deletable
            (lastPresentCleanupCandidate candidates managed)) [] (sn_objects managed)) (\<lambda>deleted.
     if deleted = [] then ok \<lparr>cu_managed = managed, cu_deleted = [], cu_complete = (deletable = [])\<rparr>
     else
       seq (list \<lparr>mq_task = task, mq_candidates = candidates\<rparr>) (\<lambda>fresh.
       seq (give (cleanupCandidates candidates fresh)) (\<lambda>left.
       ok \<lparr>cu_managed = fresh, cu_deleted = deleted, cu_complete = (left = [])\<rparr>)))))))))"

section \<open>ObserveRoot\<close>

definition empty_plan :: executable_plan where
  "empty_plan =
     \<lparr>ep_digests = \<lparr>dg_compiled_hash = [], dg_executable_hash = [], dg_binding_revision = []\<rparr>, ep_objects = [],
      ep_discovery = \<lparr>id_roots = [], id_options = None\<rparr>\<rparr>"

definition ObserveRoot :: "'w coordinator \<Rightarrow> task_snapshot \<Rightarrow> object_ref \<Rightarrow> ('w, observe_result) prog" where
  "ObserveRoot c task root =
     seq (give (selectRuntime c (ts_runtime_selector task))) (\<lambda>(r, p).
     seq (give (selectWorkload c (ts_workload_selector task) (ri_kind (rr_info r)))) (\<lambda>adapter.
     seq (pv_get p root) (\<lambda>x.
     seq (pv_list_instances p \<lparr>iq_task = ts_identity task, iq_workloads = [ob_ref x], iq_roots = [''workload''],
            iq_options = None\<rparr>) (\<lambda>instances.
     seq (ad_observe adapter \<lparr>orq_task = task, orq_plan = empty_plan,
            orq_objects = \<lparr>sn_revision = [], sn_objects = [x]\<rparr>, orq_instances = instances\<rparr>) (\<lambda>seen.
     ok \<lparr>or_runtime = rr_info r, or_object = x, or_instances = instances, or_observation = seen\<rparr>)))))"

end
