(* ===== verification/Host.thy ===== *)
theory Host
  imports Coordinator Ownership
begin

text \<open>
  The Task host (\<open>execution/host\<close>): status intents and their merge (\<open>status.go\<close>), the
  fenced status writer, the registry of implementations (\<open>registry.go\<close>), the JSON patches
  that claim and release a Task, \<open>cleanup\<close> and \<open>Reconcile\<close> (\<open>host.go\<close>). The management API,
  the executor, the lifecycle and the decoder are records and functions that the host is given;
  \<open>None\<close> is a nil interface, and using one panics. A Go function that returns a result beside an
  error returns both here: the pair of the result and an optional error.
\<close>

section \<open>Contracts\<close>

record retry_directive =
  rd_class :: string
  rd_after :: int

record condition_mutation =
  cm_condition :: condition
  cm_remove :: bool

record status_intent =
  si_task_uid :: string
  si_generation :: int
  si_phase :: string
  si_message_set :: bool
  si_message :: string
  si_nodes_set :: bool
  si_nodes :: "string go_slice"
  si_conditions :: "condition_mutation list"
  si_priority :: int
  si_reason_code :: string

record host_result =
  hr_outcome :: string
  hr_retry :: retry_directive
  hr_reason :: string
  hr_status :: "status_intent option"

abbreviation OutcomeSucceeded :: string where "OutcomeSucceeded \<equiv> ''Succeeded''"
abbreviation OutcomeWaitingForChange :: string where "OutcomeWaitingForChange \<equiv> ''WaitingForChange''"
abbreviation OutcomeRetrying :: string where "OutcomeRetrying \<equiv> ''Retrying''"
abbreviation OutcomeCleanupInProgress :: string where "OutcomeCleanupInProgress \<equiv> ''CleanupInProgress''"
abbreviation OutcomeBlocked :: string where "OutcomeBlocked \<equiv> ''Blocked''"
abbreviation OutcomeDropped :: string where "OutcomeDropped \<equiv> ''Dropped''"

abbreviation RetryNone :: string where "RetryNone \<equiv> ''None''"
abbreviation RetryOnChange :: string where "RetryOnChange \<equiv> ''OnChange''"
abbreviation RetryConflict :: string where "RetryConflict \<equiv> ''Conflict''"
abbreviation RetryTransient :: string where "RetryTransient \<equiv> ''Transient''"
abbreviation RetryInProgress :: string where "RetryInProgress \<equiv> ''InProgress''"

abbreviation LifecycleProceed :: string where "LifecycleProceed \<equiv> ''Proceed''"
abbreviation LifecycleCleanup :: string where "LifecycleCleanup \<equiv> ''Cleanup''"
abbreviation LifecycleWait :: string where "LifecycleWait \<equiv> ''Wait''"
abbreviation LifecycleBlock :: string where "LifecycleBlock \<equiv> ''Block''"

abbreviation StatusPriorityWorkload :: int where "StatusPriorityWorkload \<equiv> 11"
abbreviation StatusPriorityInvalid :: int where "StatusPriorityInvalid \<equiv> 12"
abbreviation StatusPriorityLifecycle :: int where "StatusPriorityLifecycle \<equiv> 13"

record 'w lifecycle_decision =
  ld_action :: string
  ld_reason :: string
  ld_status :: "status_intent option"
  ld_after_status :: "('w, unit) prog option"
  ld_retry :: retry_directive
  ld_after_cleanup :: string
  ld_after_cleanup_status :: "status_intent option"

text \<open>\<open>BeforeReconcile\<close> gets a pointer to the Task in memory, so it returns that Task too.\<close>

record 'w lifecycle =
  lc_before :: "task \<Rightarrow> ('w, 'w lifecycle_decision \<times> task) prog"
  lc_after :: "task \<Rightarrow> task_snapshot \<Rightarrow> ('w, status_intent option) prog"

record 'w executor =
  ex_reconcile :: "task_snapshot \<Rightarrow> ('w, reconcile_result) prog"
  ex_cleanup :: "task_identity \<Rightarrow> workload_selector \<Rightarrow> carrier_selector \<Rightarrow> ('w, cleanup_result) prog"
  ex_observe_root :: "task_snapshot \<Rightarrow> object_ref \<Rightarrow> ('w, observe_result) prog"

record implementation_key =
  ik_type :: string
  ik_version :: string
  ik_runtime_kind :: string

record eligibility =
  el_matches :: "task \<Rightarrow> bool"
  el_validation :: "task \<Rightarrow> string"

record 'w host_bundle =
  bu_selector :: runtime_selector
  bu_decoder :: "(task \<Rightarrow> go_error + task_snapshot) option"
  bu_executor :: "'w executor option"
  bu_select :: "(implementation_key \<Rightarrow> go_error + 'w adapter) option"
  bu_lifecycle :: "'w lifecycle option"
  bu_status_from_reconcile :: "(reconcile_result \<Rightarrow> task_snapshot \<Rightarrow> status_intent option) option"
  bu_after_execution :: "(task_snapshot \<Rightarrow> reconcile_result \<Rightarrow> ('w, unit) prog) option"

section \<open>JSON patches of Task metadata\<close>

datatype patch_value = PatchString string | PatchStrings "string list" | PatchObject "(string \<times> string) list"

record jsonPatchOperation =
  po_op :: string
  po_path :: string
  po_value :: "patch_value option"

text \<open>The management API: a successful \<open>Patch\<close> returns the object as the server now has it.\<close>

record 'w task_api =
  ta_get :: "string \<Rightarrow> string \<Rightarrow> ('w, task) prog"
  ta_patch :: "task \<Rightarrow> jsonPatchOperation list \<Rightarrow> ('w, task) prog"
  ta_patch_status :: "task \<Rightarrow> task \<Rightarrow> ('w, unit) prog"

record 'w host =
  ho_tasks :: "'w task_api option"
  ho_bundle :: "'w host_bundle"
  ho_eligibility :: "eligibility option"
  ho_status :: "(task \<Rightarrow> status_intent \<Rightarrow> ('w, task) prog) option"
  ho_claimant :: string

abbreviation TaskFinalizer :: string where "TaskFinalizer \<equiv> ''rlark.io/agent-cleanup''"
abbreviation TaskClaimantAnnotation :: string where "TaskClaimantAnnotation \<equiv> ''rlark.io/management-task-claimant''"
abbreviation TaskClaimedWorkloadTypeAnnotation :: string where
  "TaskClaimedWorkloadTypeAnnotation \<equiv> ''execution.rlark.io/claimed-workload-type''"
abbreviation TaskClaimedWorkloadVersionAnnotation :: string where
  "TaskClaimedWorkloadVersionAnnotation \<equiv> ''execution.rlark.io/claimed-workload-version''"
abbreviation TaskClaimedCarrierTypeAnnotation :: string where
  "TaskClaimedCarrierTypeAnnotation \<equiv> ''execution.rlark.io/claimed-carrier-type''"
abbreviation TaskClaimedCarrierVersionAnnotation :: string where
  "TaskClaimedCarrierVersionAnnotation \<equiv> ''execution.rlark.io/claimed-carrier-version''"
abbreviation legacyTaskClaimedDomainAnnotation :: string where
  "legacyTaskClaimedDomainAnnotation \<equiv> ''rlark.io/management-task-claimed-domain''"

text \<open>\<open>strings.NewReplacer("~", "~0", "/", "~1")\<close>.\<close>

fun escapeJSONPointer :: "string \<Rightarrow> string" where
  "escapeJSONPointer [] = []"
| "escapeJSONPointer (c # s) =
     (if c = CHR ''~'' then ''~0'' else if c = CHR ''/'' then ''~1'' else [c]) @ escapeJSONPointer s"

definition annotation_path :: "string \<Rightarrow> string" where
  "annotation_path k = ''/metadata/annotations/'' @ escapeJSONPointer k"

definition finalizer_path :: "string \<Rightarrow> string" where
  "finalizer_path s = ''/metadata/finalizers/'' @ s"

definition test_version :: "task \<Rightarrow> jsonPatchOperation" where
  "test_version t =
     \<lparr>po_op = ''test'', po_path = ''/metadata/resourceVersion'',
      po_value = Some (PatchString (om_resource_version (t_meta t)))\<rparr>"

definition add_annotation :: "string \<Rightarrow> string \<Rightarrow> jsonPatchOperation" where
  "add_annotation k v = \<lparr>po_op = ''add'', po_path = annotation_path k, po_value = Some (PatchString v)\<rparr>"

text \<open>Freezing a selector: only when neither half is there and both are known.\<close>

definition freeze_selector :: "task \<Rightarrow> string \<Rightarrow> string \<Rightarrow> string \<Rightarrow> string \<Rightarrow> jsonPatchOperation list" where
  "freeze_selector t type_key version_key type version =
     (if annotation (t_meta t) type_key = [] \<and> annotation (t_meta t) version_key = [] \<and> type \<noteq> [] \<and> version \<noteq> []
      then [add_annotation type_key type, add_annotation version_key version] else [])"

definition persistClaimPatch ::
    "task \<Rightarrow> string \<Rightarrow> workload_selector \<Rightarrow> carrier_selector \<Rightarrow> bool \<Rightarrow> jsonPatchOperation list" where
  "persistClaimPatch t claimant w c add =
     [test_version t] @
     (if om_annotations (t_meta t) = None
      then [\<lparr>po_op = ''add'', po_path = ''/metadata/annotations'', po_value = Some (PatchObject [])\<rparr>] else []) @
     [add_annotation TaskClaimantAnnotation claimant] @
     freeze_selector t TaskClaimedWorkloadTypeAnnotation TaskClaimedWorkloadVersionAnnotation (wsel_type w) (wsel_version w) @
     freeze_selector t TaskClaimedCarrierTypeAnnotation TaskClaimedCarrierVersionAnnotation (csel_type c) (csel_version c) @
     (if add \<and> TaskFinalizer \<notin> set (elems (om_finalizers (t_meta t)))
      then (if om_finalizers (t_meta t) = None
            then [\<lparr>po_op = ''add'', po_path = ''/metadata/finalizers'', po_value = Some (PatchStrings [TaskFinalizer])\<rparr>]
            else [\<lparr>po_op = ''add'', po_path = finalizer_path ''-'', po_value = Some (PatchString TaskFinalizer)\<rparr>])
      else [])"

fun remove_finalizer_at :: "nat \<Rightarrow> string list \<Rightarrow> jsonPatchOperation list" where
  "remove_finalizer_at i [] = []"
| "remove_finalizer_at i (f # fs) =
     (if f = TaskFinalizer
      then [\<lparr>po_op = ''test'', po_path = finalizer_path (itoa (int i)), po_value = Some (PatchString TaskFinalizer)\<rparr>,
            \<lparr>po_op = ''remove'', po_path = finalizer_path (itoa (int i)), po_value = None\<rparr>]
      else remove_finalizer_at (i + 1) fs)"

definition remove_annotation :: "task \<Rightarrow> string \<Rightarrow> jsonPatchOperation list" where
  "remove_annotation t k =
     (if mget (om_annotations (t_meta t)) k \<noteq> None
      then [\<lparr>po_op = ''remove'', po_path = annotation_path k, po_value = None\<rparr>] else [])"

definition releaseClaimPatch :: "task \<Rightarrow> jsonPatchOperation list" where
  "releaseClaimPatch t =
     [test_version t] @ remove_finalizer_at 0 (elems (om_finalizers (t_meta t))) @
     concat (map (remove_annotation t)
       [TaskClaimantAnnotation, legacyTaskClaimedDomainAnnotation, TaskClaimedWorkloadTypeAnnotation,
        TaskClaimedWorkloadVersionAnnotation, TaskClaimedCarrierTypeAnnotation, TaskClaimedCarrierVersionAnnotation])"

section \<open>Status\<close>

definition stale :: "string \<Rightarrow> int \<Rightarrow> status_intent \<Rightarrow> bool" where
  "stale uid generation i \<longleftrightarrow>
     (si_task_uid i \<noteq> [] \<and> si_task_uid i \<noteq> uid) \<or> (si_generation i \<noteq> 0 \<and> si_generation i \<noteq> generation)"

definition merge_equal :: "status_intent \<Rightarrow> status_intent \<Rightarrow> status_intent" where
  "merge_equal m i =
     (let m = (if si_phase i \<noteq> [] then m\<lparr>si_phase := si_phase i\<rparr> else m);
          m = (if si_message_set i then m\<lparr>si_message_set := True, si_message := si_message i\<rparr> else m);
          m = (if si_nodes_set i then m\<lparr>si_nodes_set := True, si_nodes := si_nodes i\<rparr> else m);
          m = m\<lparr>si_conditions := si_conditions m @ si_conditions i\<rparr>
      in if si_reason_code i \<noteq> [] then m\<lparr>si_reason_code := si_reason_code i\<rparr> else m)"

definition merge_intent :: "string \<Rightarrow> int \<Rightarrow> status_intent option \<Rightarrow> status_intent \<Rightarrow> status_intent option" where
  "merge_intent uid generation merged i =
     (if stale uid generation i then merged
      else case merged of
        None \<Rightarrow> Some i
      | Some m \<Rightarrow>
          (if si_priority i > si_priority m then Some i
           else if si_priority i < si_priority m then Some m
           else Some (merge_equal m i)))"

definition MergeStatusIntents :: "string \<Rightarrow> int \<Rightarrow> status_intent list \<Rightarrow> status_intent option" where
  "MergeStatusIntents uid generation intents =
     map_option (\<lambda>m.
         let m = (if si_task_uid m = [] then m\<lparr>si_task_uid := uid\<rparr> else m)
         in if si_generation m = 0 then m\<lparr>si_generation := generation\<rparr> else m)
       (foldl (merge_intent uid generation) None intents)"

text \<open>\<open>apimeta.SetStatusCondition\<close> and \<open>RemoveStatusCondition\<close>.\<close>

record condition_lib =
  cl_set :: "condition list \<Rightarrow> condition \<Rightarrow> condition list"
  cl_remove :: "condition list \<Rightarrow> string \<Rightarrow> condition list"

definition mutate_condition :: "condition_lib \<Rightarrow> int \<Rightarrow> condition list \<Rightarrow> condition_mutation \<Rightarrow> condition list" where
  "mutate_condition L generation cs m =
     (if cm_remove m then cl_remove L cs (cn_type (cm_condition m))
      else cl_set L cs
        (if cn_observed_generation (cm_condition m) = 0
         then (cm_condition m)\<lparr>cn_observed_generation := generation\<rparr> else cm_condition m))"

definition desired_status :: "condition_lib \<Rightarrow> task \<Rightarrow> status_intent \<Rightarrow> task_status" where
  "desired_status L t i =
     (let s = t_status t;
          s = (if si_phase i \<noteq> [] then s\<lparr>tk_phase := si_phase i\<rparr> else s);
          s = (if si_message_set i then s\<lparr>tk_message := si_message i\<rparr> else s);
          s = (if si_nodes_set i then s\<lparr>tk_observed_nodes := si_nodes i\<rparr> else s);
          s = (if tk_phase s = PhaseStopped then s\<lparr>tk_pull_progress := None, tk_events := None\<rparr> else s);
          s = s\<lparr>tk_observed_generation := om_generation (t_meta t)\<rparr>
      in s\<lparr>tk_conditions := foldl (mutate_condition L (om_generation (t_meta t))) (tk_conditions s) (si_conditions i)\<rparr>)"

definition KubernetesStatusWriter_WriteStatus ::
    "condition_lib \<Rightarrow> 'w task_api option \<Rightarrow> task \<Rightarrow> status_intent \<Rightarrow> ('w, task) prog" where
  "KubernetesStatusWriter_WriteStatus L api t i =
     (case api of
        None \<Rightarrow> fail (ErrText ''management client is required'')
      | Some a \<Rightarrow>
          (if stale (om_uid (t_meta t)) (om_generation (t_meta t)) i then ok t
           else if t_status t = desired_status L t i then ok t
           else seq (wrap ''patch Task status'' (ta_patch_status a (t\<lparr>t_status := desired_status L t i\<rparr>) t))
                  (\<lambda>_. ok (t\<lparr>t_status := desired_status L t i\<rparr>))))"

definition IntentForTask :: "task \<Rightarrow> string \<Rightarrow> string \<Rightarrow> string go_slice \<Rightarrow> int \<Rightarrow> status_intent" where
  "IntentForTask t phase message nodes priority =
     \<lparr>si_task_uid = om_uid (t_meta t), si_generation = om_generation (t_meta t), si_phase = phase,
      si_message_set = True, si_message = message, si_nodes_set = True, si_nodes = nodes, si_conditions = [],
      si_priority = priority, si_reason_code = []\<rparr>"

definition ConditionIntent :: "task \<Rightarrow> condition \<Rightarrow> bool \<Rightarrow> int \<Rightarrow> status_intent" where
  "ConditionIntent t c remove priority =
     \<lparr>si_task_uid = om_uid (t_meta t), si_generation = om_generation (t_meta t), si_phase = [],
      si_message_set = False, si_message = [], si_nodes_set = False, si_nodes = None,
      si_conditions = [\<lparr>cm_condition = c, cm_remove = remove\<rparr>], si_priority = priority, si_reason_code = []\<rparr>"

end
