(* ===== verification/Host_Reconcile.thy ===== *)
theory Host_Reconcile
  imports Host
begin

text \<open>
  The state machine of the Task host: \<open>ShouldReconcile\<close>, \<open>cleanup\<close> and \<open>Reconcile\<close> of
  \<open>execution/host/host.go\<close>, cut at the numbered steps of the source, \<open>Validate\<close>, the registry of
  implementations and the executor over the Coordinator. The Task in memory is passed on
  explicitly. Observability is left out, as in the Coordinator; the lock around a run is the
  theory \<open>Keyed_Locks\<close>.
\<close>

section \<open>Results beside errors\<close>

type_synonym 'w outcome = "('w, host_result \<times> go_error option) prog"

definition retry :: "string \<Rightarrow> retry_directive" where
  "retry class = \<lparr>rd_class = class, rd_after = 0\<rparr>"

definition result :: "string \<Rightarrow> string \<Rightarrow> string \<Rightarrow> host_result" where
  "result kind class reason = \<lparr>hr_outcome = kind, hr_retry = retry class, hr_reason = reason, hr_status = None\<rparr>"

definition finish :: "host_result \<Rightarrow> 'w outcome" where
  "finish r = ok (r, None)"

definition failed :: "host_result \<Rightarrow> go_error \<Rightarrow> 'w outcome" where
  "failed r e = ok (r, Some e)"

text \<open>\<open>a, err := m; if err != nil { return ... }\<close>.\<close>

definition check :: "('w, 'a) prog \<Rightarrow> (go_error \<Rightarrow> 'w outcome) \<Rightarrow> ('a \<Rightarrow> 'w outcome) \<Rightarrow> 'w outcome" where
  "check m h f = seq (attempt m) (\<lambda>x. case x of Inl e \<Rightarrow> h e | Inr a \<Rightarrow> f a)"

definition nil_pointer :: go_error where
  "nil_pointer = GoPanic ''invalid memory address or nil pointer dereference''"

definition retrying :: "string \<Rightarrow> go_error \<Rightarrow> 'w outcome" where
  "retrying class e = failed (result OutcomeRetrying class []) e"

definition waiting :: "string \<Rightarrow> 'w outcome" where
  "waiting reason = finish (result OutcomeWaitingForChange RetryOnChange reason)"

definition retryResult :: "go_error \<Rightarrow> host_result" where
  "retryResult e = result OutcomeRetrying (if is_conflict e then RetryConflict else RetryTransient) []"

definition ErrImplementationNotFound :: go_error where
  "ErrImplementationNotFound = ErrWrap ''workload runtime implementation not found'' (ErrSentinel ErrAdapterNotFound)"

text \<open>\<open>errors.Is(err, ErrImplementationNotFound)\<close>: that wrapper is a value of its own in the chain.\<close>

fun is_implementation_not_found :: "go_error \<Rightarrow> bool" where
  "is_implementation_not_found (ErrWrap m e) \<longleftrightarrow> ErrWrap m e = ErrImplementationNotFound \<or> is_implementation_not_found e"
| "is_implementation_not_found (ErrFault c m (Some e)) \<longleftrightarrow> is_implementation_not_found e"
| "is_implementation_not_found _ \<longleftrightarrow> False"

section \<open>Claims\<close>

definition claimed_task :: "task \<Rightarrow> bool" where
  "claimed_task t \<longleftrightarrow> TaskFinalizer \<in> set (elems (om_finalizers (t_meta t)))"

definition isClaimant :: "'w host \<Rightarrow> task \<Rightarrow> bool" where
  "isClaimant h t =
     (let claimant = annotation (t_meta t) TaskClaimantAnnotation in
      claimant = ho_claimant h \<or>
      (let parts = go_split (CHR ''/'') claimant; want = go_split (CHR ''/'') (ho_claimant h) in
       length parts = 3 \<and> length want = 2 \<and> parts ! 0 = want ! 0 \<and> parts ! 1 = want ! 1))"

definition claimedWorkloadSelector :: "task \<Rightarrow> workload_selector" where
  "claimedWorkloadSelector t =
     \<lparr>wsel_type = annotation (t_meta t) TaskClaimedWorkloadTypeAnnotation,
      wsel_version = annotation (t_meta t) TaskClaimedWorkloadVersionAnnotation\<rparr>"

definition validatedClaimedWorkloadSelector :: "task \<Rightarrow> go_error + workload_selector" where
  "validatedClaimedWorkloadSelector t =
     (let s = claimedWorkloadSelector t in
      if (wsel_type s = []) \<noteq> (wsel_version s = []) then Inl (ErrText ''claimed Workload selector is incomplete'') else Inr s)"

definition claimedCarrierSelector :: "task \<Rightarrow> carrier_selector" where
  "claimedCarrierSelector t =
     \<lparr>csel_type = annotation (t_meta t) TaskClaimedCarrierTypeAnnotation,
      csel_version = annotation (t_meta t) TaskClaimedCarrierVersionAnnotation\<rparr>"

definition validatedClaimedCarrierSelector :: "task \<Rightarrow> go_error + carrier_selector" where
  "validatedClaimedCarrierSelector t =
     (let s = claimedCarrierSelector t in
      if (csel_type s = []) \<noteq> (csel_version s = []) then Inl (ErrText ''claimed carrier selector is incomplete'') else Inr s)"

definition classifyMetadataPatchError :: "'w task_api \<Rightarrow> task \<Rightarrow> go_error \<Rightarrow> ('w, go_error) prog" where
  "classifyMetadataPatchError api t e =
     (if is_conflict e \<or> \<not> is_invalid e then ok e
      else seq (attempt (ta_get api (om_namespace (t_meta t)) (om_name (t_meta t)))) (\<lambda>r.
        case r of
          Inl _ \<Rightarrow> ok e
        | Inr current \<Rightarrow>
            (if om_resource_version (t_meta current) = om_resource_version (t_meta t) then ok e
             else ok (ErrKube Conflict))))"

definition patch_metadata ::
    "'w task_api \<Rightarrow> string \<Rightarrow> task \<Rightarrow> jsonPatchOperation list \<Rightarrow> ('w, task) prog" where
  "patch_metadata api msg t ops =
     on_err (ta_patch api t ops) (\<lambda>e. seq (classifyMetadataPatchError api t e) (\<lambda>e'. fail (ErrWrap msg e')))"

definition persistClaim ::
    "'w host \<Rightarrow> task \<Rightarrow> workload_selector \<Rightarrow> carrier_selector \<Rightarrow> bool \<Rightarrow> ('w, task) prog" where
  "persistClaim h t w c add =
     seq (require nil_pointer (ho_tasks h)) (\<lambda>api.
     patch_metadata api ''persist Task claim'' t (persistClaimPatch t (ho_claimant h) w c add))"

definition implementation_key_of :: "'w host_bundle \<Rightarrow> task_snapshot \<Rightarrow> implementation_key" where
  "implementation_key_of b s =
     \<lparr>ik_type = wsel_type (ts_workload_selector s), ik_version = wsel_version (ts_workload_selector s),
      ik_runtime_kind = rs_kind (bu_selector b)\<rparr>"

definition decodeRegisteredTask :: "'w host \<Rightarrow> task \<Rightarrow> ('w, task_snapshot) prog" where
  "decodeRegisteredTask h t =
     (let b = ho_bundle h in
      seq (require nil_pointer (bu_decoder b)) (\<lambda>decode.
      seq (give (decode t)) (\<lambda>s.
      seq (require nil_pointer (bu_select b)) (\<lambda>select.
      seq (give (select (implementation_key_of b s))) (\<lambda>_. ok s)))))"

definition ShouldReconcile :: "'w host \<Rightarrow> task option \<Rightarrow> bool" where
  "ShouldReconcile h task =
     (case (task, ho_eligibility h) of
        (Some t, Some el) \<Rightarrow>
          ho_claimant h \<noteq> [] \<and>
          (if \<not> claimed_task t then el_matches el t
           else if annotation (t_meta t) TaskClaimantAnnotation \<noteq> [] then isClaimant h t
           else om_deletion (t_meta t) \<noteq> None \<or> (el_matches el t \<and> el_validation el t = []))
      | _ \<Rightarrow> False)"

section \<open>Cleanup\<close>

definition host_identity :: "task \<Rightarrow> task_identity" where
  "host_identity t =
     \<lparr>ti_logical = \<lparr>lt_namespace = om_namespace (t_meta t), lt_name = om_name (t_meta t)\<rparr>,
      ti_object_uid = om_uid (t_meta t), ti_generation = om_generation (t_meta t)\<rparr>"

definition host_blocked :: "string \<Rightarrow> go_error \<Rightarrow> 'w outcome" where
  "host_blocked reason e = failed (result OutcomeBlocked RetryOnChange reason) e"

definition cleanup_selector :: "'w host \<Rightarrow> task \<Rightarrow> workload_selector \<Rightarrow> (workload_selector \<Rightarrow> 'w outcome) \<Rightarrow> 'w outcome" where
  "cleanup_selector h t s f =
     (if wsel_type s = [] \<and> wsel_version s = [] \<and> om_deletion (t_meta t) \<noteq> None
      then check (decodeRegisteredTask h t)
             (\<lambda>e. host_blocked ''LegacyCleanupSelectorUnavailable'' (ErrWrap ''recover deleting legacy Task Workload selector'' e))
             (\<lambda>snapshot. f (ts_workload_selector snapshot))
      else f s)"

definition cleanup_carrier :: "'w host \<Rightarrow> task \<Rightarrow> carrier_selector \<Rightarrow> (carrier_selector \<Rightarrow> 'w outcome) \<Rightarrow> 'w outcome" where
  "cleanup_carrier h t s f =
     (if csel_type s = [] \<and> csel_version s = []
      then check (decodeRegisteredTask h t)
             (\<lambda>e. host_blocked ''CleanupCarrierSelectorUnavailable'' (ErrWrap ''recover deleting Task carrier selector'' e))
             (\<lambda>snapshot. f (ts_carrier_selector snapshot))
      else f s)"

definition release_claim :: "'w host \<Rightarrow> task \<Rightarrow> 'w outcome" where
  "release_claim h t =
     check (seq (require nil_pointer (ho_tasks h)) (\<lambda>api.
            on_err (ta_patch api t (releaseClaimPatch t)) (\<lambda>e.
              seq (classifyMetadataPatchError api t e) fail)))
       (\<lambda>e. failed (retryResult e) (ErrWrap ''release Task claim'' e))
       (\<lambda>_. finish (result OutcomeSucceeded RetryNone ''CleanupComplete''))"

definition run_cleanup :: "'w host \<Rightarrow> task \<Rightarrow> bool \<Rightarrow> workload_selector \<Rightarrow> carrier_selector \<Rightarrow> 'w outcome" where
  "run_cleanup h t drop_claim selector carrier =
     seq (require nil_pointer (bu_executor (ho_bundle h))) (\<lambda>executor.
     check (ex_cleanup executor (host_identity t) selector carrier) (retrying RetryTransient) (\<lambda>res.
       if \<not> cu_complete res
       then finish (result OutcomeCleanupInProgress RetryInProgress ''WaitingForRuntimeCleanup'')
       else if drop_claim then release_claim h t
       else finish (result OutcomeSucceeded RetryNone ''CleanupComplete'')))"

definition cleanup :: "'w host \<Rightarrow> task \<Rightarrow> bool \<Rightarrow> 'w outcome" where
  "cleanup h t drop_claim =
     check (give (validatedClaimedWorkloadSelector t)) (host_blocked ''ClaimedWorkloadSelectorIncomplete'') (\<lambda>s.
     cleanup_selector h t s (\<lambda>selector.
     check (give (validatedClaimedCarrierSelector t)) (host_blocked ''ClaimedCarrierSelectorIncomplete'') (\<lambda>cs.
     cleanup_carrier h t cs (run_cleanup h t drop_claim selector))))"

section \<open>Reconcile\<close>

definition persist_status :: "'w host \<Rightarrow> task \<Rightarrow> status_intent \<Rightarrow> ('w, task) prog" where
  "persist_status h t i = seq (require nil_pointer (ho_status h)) (\<lambda>writer. writer t i)"

definition opt_status :: "'w host \<Rightarrow> task \<Rightarrow> status_intent option \<Rightarrow> ('w, task) prog" where
  "opt_status h t i = (case i of None \<Rightarrow> ok t | Some i \<Rightarrow> persist_status h t i)"

text \<open>Steps 6 and 7: execute, and project the result into one status write.\<close>

definition after_execution :: "'w host \<Rightarrow> task_snapshot \<Rightarrow> reconcile_result \<Rightarrow> ('w, unit) prog" where
  "after_execution h s res =
     (case bu_after_execution (ho_bundle h) of
        None \<Rightarrow> ok ()
      | Some f \<Rightarrow> (\<lambda>w. (Inr (), snd (f s res w))))"

definition project_status :: "'w host \<Rightarrow> task \<Rightarrow> task_snapshot \<Rightarrow> reconcile_result \<Rightarrow> 'w outcome" where
  "project_status h t s res =
     (let intent = (case bu_status_from_reconcile (ho_bundle h) of None \<Rightarrow> None | Some f \<Rightarrow> f res s) in
      seq (require nil_pointer (bu_lifecycle (ho_bundle h))) (\<lambda>lifecycle.
      check (lc_after lifecycle t s) (retrying RetryTransient) (\<lambda>after.
      let merged = MergeStatusIntents (om_uid (t_meta t)) (om_generation (t_meta t))
                     (List.map_filter id [intent, after]) in
      check (opt_status h t merged) (retrying RetryConflict) (\<lambda>_.
      finish ((result OutcomeSucceeded RetryNone ''Reconciled'')\<lparr>hr_status := merged\<rparr>)))))"

definition execute :: "'w host \<Rightarrow> task \<Rightarrow> 'w outcome" where
  "execute h t =
     check (decodeRegisteredTask h t) (host_blocked []) (\<lambda>decoded.
     let snapshot = decoded\<lparr>ts_runtime_selector := bu_selector (ho_bundle h)\<rparr> in
     seq (require nil_pointer (bu_executor (ho_bundle h))) (\<lambda>executor.
     check (ex_reconcile executor snapshot) (retrying RetryTransient) (\<lambda>res.
     seq (after_execution h snapshot res) (\<lambda>_.
     project_status h t snapshot res))))"

text \<open>Step 5: the decision of the lifecycle.\<close>

definition decided :: "string \<Rightarrow> retry_directive \<Rightarrow> string \<Rightarrow> status_intent option \<Rightarrow> 'w outcome" where
  "decided kind r reason status = finish \<lparr>hr_outcome = kind, hr_retry = r, hr_reason = reason, hr_status = status\<rparr>"

definition lifecycle_cleanup :: "'w host \<Rightarrow> task \<Rightarrow> 'w lifecycle_decision \<Rightarrow> 'w outcome" where
  "lifecycle_cleanup h t d =
     (let reason = (if ld_reason d = [] then ''LifecycleCleanup'' else ld_reason d) in
      seq (cleanup h t False) (\<lambda>(cleaned, err).
      if err \<noteq> None \<or> hr_outcome cleaned \<noteq> OutcomeSucceeded
      then ok (if err = None then cleaned\<lparr>hr_reason := reason\<rparr> else cleaned, err)
      else check (opt_status h t (ld_after_cleanup_status d)) (retrying RetryConflict) (\<lambda>t.
        if ld_after_cleanup d = LifecycleWait
        then decided OutcomeWaitingForChange (retry RetryOnChange) reason (ld_after_cleanup_status d)
        else execute h t)))"

definition apply_decision :: "'w host \<Rightarrow> task \<Rightarrow> 'w lifecycle_decision \<Rightarrow> 'w outcome" where
  "apply_decision h t d =
     (if ld_action d = [] \<or> ld_action d = LifecycleProceed then execute h t
      else if ld_action d = LifecycleCleanup then lifecycle_cleanup h t d
      else if ld_action d = LifecycleWait
      then decided OutcomeWaitingForChange (ld_retry d) (if ld_reason d = [] then ''LifecycleWait'' else ld_reason d) (ld_status d)
      else if ld_action d = LifecycleBlock
      then decided OutcomeBlocked (ld_retry d) (if ld_reason d = [] then ''LifecycleBlocked'' else ld_reason d) (ld_status d)
      else failed \<lparr>hr_outcome = OutcomeBlocked, hr_retry = retry [], hr_reason = [], hr_status = None\<rparr>
             (ErrText (''unknown lifecycle action '' @ quoted (ld_action d))))"

definition run_lifecycle :: "'w host \<Rightarrow> task \<Rightarrow> 'w outcome" where
  "run_lifecycle h t =
     seq (require nil_pointer (bu_lifecycle (ho_bundle h))) (\<lambda>lifecycle.
     check (lc_before lifecycle t) (retrying RetryTransient) (\<lambda>(d, t).
     check (opt_status h t (ld_status d)) (retrying RetryConflict) (\<lambda>t.
     check (case ld_after_status d of None \<Rightarrow> ok () | Some effect \<Rightarrow> effect)
       (\<lambda>e. failed ((result OutcomeRetrying RetryTransient [])\<lparr>hr_status := ld_status d\<rparr>) e) (\<lambda>_.
     apply_decision h t d))))"

definition suspend :: "'w host \<Rightarrow> task \<Rightarrow> 'w outcome" where
  "suspend h t =
     seq (cleanup h t False) (\<lambda>(cleaned, err).
     if err \<noteq> None \<or> hr_outcome cleaned \<noteq> OutcomeSucceeded then ok (cleaned, err)
     else let intent = IntentForTask t PhaseStopped [] None StatusPriorityLifecycle in
       check (persist_status h t intent) (retrying RetryConflict) (\<lambda>_.
       decided OutcomeWaitingForChange (retry RetryOnChange) ''TaskSuspended'' (Some intent)))"

definition run_claimed :: "'w host \<Rightarrow> task \<Rightarrow> 'w outcome" where
  "run_claimed h t = (if sp_suspended (t_spec t) then suspend h t else run_lifecycle h t)"

text \<open>Step 4, for a Task that was claimed before: its frozen selectors must still be those of the Spec.\<close>

definition frozen_workload :: "'w host \<Rightarrow> task \<Rightarrow> task_snapshot \<Rightarrow> (task \<Rightarrow> 'w outcome) \<Rightarrow> 'w outcome" where
  "frozen_workload h t s f =
     check (give (validatedClaimedWorkloadSelector t)) (host_blocked ''ClaimedWorkloadSelectorIncomplete'') (\<lambda>frozen.
     if wsel_type frozen = []
     then check (persistClaim h t (ts_workload_selector s) (ts_carrier_selector s) False) (\<lambda>e. failed (retryResult e) e) f
     else if frozen \<noteq> ts_workload_selector s then waiting ''WorkloadSelectorChanged''
     else f t)"

definition frozen_carrier :: "'w host \<Rightarrow> task \<Rightarrow> task_snapshot \<Rightarrow> (task \<Rightarrow> 'w outcome) \<Rightarrow> 'w outcome" where
  "frozen_carrier h t s f =
     check (give (validatedClaimedCarrierSelector t)) (host_blocked ''ClaimedCarrierSelectorIncomplete'') (\<lambda>frozen.
     if csel_type frozen = []
     then check (persistClaim h t (ts_workload_selector s) (ts_carrier_selector s) False) (\<lambda>e. failed (retryResult e) e) f
     else if frozen \<noteq> ts_carrier_selector s then waiting ''CarrierSelectorChanged''
     else f t)"

definition claim_new :: "'w host \<Rightarrow> string \<Rightarrow> string \<Rightarrow> task \<Rightarrow> task_snapshot \<Rightarrow> 'w outcome" where
  "claim_new h ns name t s =
     check (persistClaim h t (ts_workload_selector s) (ts_carrier_selector s) True) (\<lambda>e. failed (retryResult e) e) (\<lambda>_.
     seq (require nil_pointer (ho_tasks h)) (\<lambda>api.
     check (ta_get api ns name)
       (\<lambda>e. if is_not_found e then finish (result OutcomeDropped [] ''TaskDeletedDuringClaim'')
            else failed (retryResult e) (ErrWrap ''read claimed Task'' e))
       (run_claimed h)))"

definition admit :: "'w host \<Rightarrow> string \<Rightarrow> string \<Rightarrow> task \<Rightarrow> bool \<Rightarrow> 'w outcome" where
  "admit h ns name t claimed =
     check (decodeRegisteredTask h t)
       (\<lambda>e. let reason = (if is_implementation_not_found e then ''ImplementationUnavailable'' else ''TaskDecodeFailed'')
            in waiting (if claimed then ''Claimed'' @ reason else reason))
       (\<lambda>s.
        if \<not> claimed then claim_new h ns name t s
        else if \<not> isClaimant h t then waiting ''ClaimedByOtherHost''
        else frozen_workload h t s (\<lambda>t. frozen_carrier h t s (run_claimed h)))"

text \<open>Step 3: deletion, and eligibility.\<close>

definition delete_task_resources :: "'w host \<Rightarrow> task \<Rightarrow> bool \<Rightarrow> 'w outcome" where
  "delete_task_resources h t is_claimant =
     (if \<not> is_claimant then waiting ''TaskNotClaimedByHost''
      else seq (cleanup h t True) (\<lambda>(r, err).
        ok (if err = None then r\<lparr>hr_reason := ''TaskDeletionCleanup''\<rparr> else r, err)))"

definition selector_changed :: "'w host \<Rightarrow> task \<Rightarrow> 'w outcome" where
  "selector_changed h t =
     (let intent = IntentForTask t (tk_phase (t_status t))
            ''Task Runtime selector changed after claim; restore the original Runtime or delete and recreate the Task''
            None StatusPriorityInvalid in
      check (persist_status h t intent) (retrying RetryConflict) (\<lambda>_.
      decided OutcomeWaitingForChange (retry RetryOnChange) ''RuntimeSelectorChanged'' (Some intent)))"

definition dispatch ::
    "'w host \<Rightarrow> string \<Rightarrow> string \<Rightarrow> task \<Rightarrow> bool \<Rightarrow> bool \<Rightarrow> bool \<Rightarrow> bool \<Rightarrow> string \<Rightarrow> 'w outcome" where
  "dispatch h ns name t claimed is_claimant changed matches validation =
     (if changed \<and> om_deletion (t_meta t) = None then selector_changed h t
      else if om_deletion (t_meta t) \<noteq> None then delete_task_resources h t is_claimant
      else if \<not> matches \<or> validation \<noteq> [] then waiting (if claimed then ''ClaimedTaskInvalid'' else ''TaskNotEligible'')
      else admit h ns name t claimed)"

text \<open>Steps 1 and 2: read, classify, and adopt an unambiguous legacy finalizer.\<close>

definition adopt_legacy :: "'w host \<Rightarrow> task \<Rightarrow> (task \<Rightarrow> 'w outcome) \<Rightarrow> 'w outcome" where
  "adopt_legacy h t f =
     seq (attempt (decodeRegisteredTask h t)) (\<lambda>decoded.
     let (w, c) = (case decoded of
            Inl _ \<Rightarrow> (\<lparr>wsel_type = [], wsel_version = []\<rparr>, \<lparr>csel_type = [], csel_version = []\<rparr>)
          | Inr s \<Rightarrow> (ts_workload_selector s, ts_carrier_selector s)) in
     check (persistClaim h t w c False) (retrying RetryConflict) f)"

definition classify :: "'w host \<Rightarrow> string \<Rightarrow> string \<Rightarrow> task \<Rightarrow> eligibility \<Rightarrow> 'w outcome" where
  "classify h ns name t el =
     (let claimed = claimed_task t;
          missing = (claimed \<and> annotation (t_meta t) TaskClaimantAnnotation = []);
          is_claimant = (claimed \<and> \<not> missing \<and> isClaimant h t);
          matches = el_matches el t;
          validation = el_validation el t;
          changed = (claimed \<and> \<not> missing \<and> is_claimant \<and> \<not> matches)
      in if missing \<and> (om_deletion (t_meta t) \<noteq> None \<or> (matches \<and> validation = []))
         then adopt_legacy h t (\<lambda>t. dispatch h ns name t True True changed matches validation)
         else dispatch h ns name t claimed is_claimant changed matches validation)"

definition Host_Reconcile :: "'w host \<Rightarrow> string \<Rightarrow> string \<Rightarrow> 'w outcome" where
  "Host_Reconcile h ns name =
     seq (require nil_pointer (ho_tasks h)) (\<lambda>api.
     check (ta_get api ns name)
       (\<lambda>e. if is_not_found e then finish (result OutcomeDropped [] ''TaskNotFound'') else retrying RetryTransient e)
       (\<lambda>t. seq (require nil_pointer (ho_eligibility h)) (classify h ns name t)))"

section \<open>Assembly\<close>

definition bundle_error :: "'w host_bundle \<Rightarrow> go_error option" where
  "bundle_error b =
     (if rs_id (bu_selector b) = [] \<or> rs_kind (bu_selector b) = [] then Some (ErrText ''bundle runtime ID and kind are required'')
      else if bu_decoder b = None then Some (ErrText ''bundle task decoder is required'')
      else if bu_executor b = None then Some (ErrText ''bundle executor is required'')
      else if bu_select b = None then Some (ErrText ''bundle implementation registry is required'')
      else if bu_lifecycle b = None then Some (ErrText ''bundle lifecycle is required'')
      else None)"

definition Host_Validate :: "'w host \<Rightarrow> go_error option" where
  "Host_Validate h =
     (if ho_tasks h = None then Some (ErrText ''management Task client is required'')
      else case bundle_error (ho_bundle h) of
        Some e \<Rightarrow> Some e
      | None \<Rightarrow>
          (if ho_eligibility h = None then Some (ErrText ''task eligibility is required'')
           else if ho_status h = None then Some (ErrText ''task status writer is required'')
           else if ho_claimant h = [] then Some (ErrText ''task claimant identity is required'')
           else let parts = go_split (CHR ''/'') (ho_claimant h) in
             if length parts \<noteq> 2 \<or> parts ! 0 = [] \<or> parts ! 1 = []
             then Some (ErrText ''task claimant identity must be namespace/runtime-kind'') else None))"

text \<open>The executor over a Coordinator, with the Runtime selection frozen.\<close>

definition not_configured :: go_error where
  "not_configured = ErrText ''coordinator executor is not configured''"

definition CoordinatorExecutor :: "'w coordinator option \<Rightarrow> runtime_selector \<Rightarrow> 'w executor" where
  "CoordinatorExecutor c s =
     \<lparr>ex_reconcile = (\<lambda>task. seq (require not_configured c) (\<lambda>co. Reconcile co (task\<lparr>ts_runtime_selector := s\<rparr>))),
      ex_cleanup = (\<lambda>task w carrier. seq (require not_configured c) (\<lambda>co. CleanupTask co task s w carrier)),
      ex_observe_root = (\<lambda>task root. seq (require not_configured c) (\<lambda>co. ObserveRoot co (task\<lparr>ts_runtime_selector := s\<rparr>) root))\<rparr>"

text \<open>The registry of implementations: every key at most once, and matching what its adapter advertises.\<close>

record 'w implementation_registration =
  im_key :: implementation_key
  im_adapter :: "'w adapter option"

record implementation_descriptor =
  id_key :: implementation_key
  id_info :: type_info

type_synonym 'w implementation_registry =
  "(implementation_key \<rightharpoonup> 'w adapter) \<times> implementation_descriptor list"

definition descriptor_key :: "implementation_descriptor \<Rightarrow> string" where
  "descriptor_key d = ik_runtime_kind (id_key d) @ nul @ ik_type (id_key d) @ nul @ ik_version (id_key d)"

definition register_implementation ::
    "'w implementation_registry \<Rightarrow> 'w implementation_registration \<Rightarrow> ('w, 'w implementation_registry) prog" where
  "register_implementation reg x =
     (let k = im_key x in
      if ik_type k = [] \<or> ik_version k = [] \<or> ik_runtime_kind k = []
      then fail (ErrText ''implementation key type, version, and Runtime kind are required'')
      else case im_adapter x of
        None \<Rightarrow> fail (ErrText ''implementation has no Adapter'')
      | Some a \<Rightarrow>
          (if fst reg k \<noteq> None then fail (ErrText ''duplicate implementation registration'')
           else seq (wrap ''describe implementation'' (ad_info a)) (\<lambda>info.
             if ty_id info \<noteq> ik_type k \<or> ty_version info \<noteq> ik_version k \<or> ik_runtime_kind k \<notin> set (ty_runtime_kinds info)
             then fail (ErrText ''implementation does not match Adapter info'')
             else ok ((fst reg)(k \<mapsto> a), snd reg @ [\<lparr>id_key = k, id_info = info\<rparr>]))))"

definition NewImplementationRegistry ::
    "'w implementation_registration list \<Rightarrow> ('w, 'w implementation_registry) prog" where
  "NewImplementationRegistry xs =
     seq (fold_prog register_implementation (Map.empty, []) xs) (\<lambda>(adapters, descriptors).
     ok (adapters, sort_key descriptor_key descriptors))"

definition registry_select :: "'w implementation_registry \<Rightarrow> implementation_key \<Rightarrow> go_error + 'w adapter" where
  "registry_select reg k =
     (case fst reg k of
        None \<Rightarrow> Inl (ErrWrap (''type='' @ quoted (ik_type k)) ErrImplementationNotFound)
      | Some a \<Rightarrow> Inr a)"

definition SelectImplementation ::
    "'w implementation_registry \<Rightarrow> string \<Rightarrow> string \<Rightarrow> string \<Rightarrow> go_error + 'w adapter" where
  "SelectImplementation reg t v kind = registry_select reg \<lparr>ik_type = t, ik_version = v, ik_runtime_kind = kind\<rparr>"

section \<open>The Kubernetes assembly\<close>

text \<open>
  \<open>controllers/task/lifecycle_kubernetes.go\<close>. \<open>EnsureImagePullSecrets\<close> creates Secrets and may edit
  the Pod template in memory; it is a parameter. \<open>getWorkloadNamespace\<close> is the namespace of the workload.
\<close>

definition kubernetesEligibility :: "string \<Rightarrow> eligibility" where
  "kubernetesEligibility agent_type =
     \<lparr>el_matches = (\<lambda>t. sp_runtime_kind (t_spec t) = agent_type),
      el_validation = (\<lambda>t.
        if wl_kind (sp_workload (t_spec t)) \<noteq> ''rlinf.io/ray'' \<or> wl_version (sp_workload (t_spec t)) \<noteq> ''v1''
        then ''Task has unsupported Kubernetes workload, skipping'' else [])\<rparr>"

definition kubernetesLifecycle :: "(task \<Rightarrow> pod_template \<Rightarrow> ('w, pod_template) prog) \<Rightarrow> 'w lifecycle" where
  "kubernetesLifecycle ensure_secrets =
     \<lparr>lc_before = (\<lambda>t.
        if \<not> sp_suspended (t_spec t) \<and> tk_phase (t_status t) = PhaseStopped
        then ok (\<lparr>ld_action = LifecycleWait, ld_reason = ''StoppedStatusReset'',
                  ld_status = Some (IntentForTask t PhasePending [] None StatusPriorityLifecycle), ld_after_status = None,
                  ld_retry = retry RetryOnChange, ld_after_cleanup = [], ld_after_cleanup_status = None\<rparr>, t)
        else case wl_template (sp_workload (t_spec t)) of
          None \<Rightarrow> fail (ErrText ''ray workload requires a Pod template'')
        | Some p \<Rightarrow>
            seq (wrap ''ensure image pull secrets'' (ensure_secrets t p)) (\<lambda>p'.
            ok (\<lparr>ld_action = LifecycleProceed, ld_reason = ''Ready'', ld_status = None, ld_after_status = None,
                 ld_retry = retry [], ld_after_cleanup = [], ld_after_cleanup_status = None\<rparr>,
                t\<lparr>t_spec := (t_spec t)\<lparr>sp_workload := (sp_workload (t_spec t))\<lparr>wl_template := Some p'\<rparr>\<rparr>\<rparr>))),
      lc_after = (\<lambda>t s. ok None)\<rparr>"

end
