(* ===== verification/Host_Claims.thy ===== *)
theory Host_Claims
  imports Host_Reconcile
begin

text \<open>
  What the metadata patches of the Task host do to a Task, with RFC 6902 as the meaning of a
  patch, and what the merge of status intents keeps.
\<close>

section \<open>JSON Patch on object metadata\<close>

fun unescapeJSONPointer :: "string \<Rightarrow> string" where
  "unescapeJSONPointer [] = []"
| "unescapeJSONPointer [c] = [c]"
| "unescapeJSONPointer (c # d # s) =
     (if c = CHR ''~'' \<and> d = CHR ''0'' then CHR ''~'' # unescapeJSONPointer s
      else if c = CHR ''~'' \<and> d = CHR ''1'' then CHR ''/'' # unescapeJSONPointer s
      else c # unescapeJSONPointer (d # s))"

lemma unescape_escape_Cons:
  "c \<noteq> CHR ''~'' \<Longrightarrow> unescapeJSONPointer (c # escapeJSONPointer s) = c # unescapeJSONPointer (escapeJSONPointer s)"
  by (cases "escapeJSONPointer s") simp_all

lemma unescape_escape [simp]: "unescapeJSONPointer (escapeJSONPointer s) = s"
  by (induction s) (simp_all add: unescape_escape_Cons)

definition after_prefix :: "string \<Rightarrow> string \<Rightarrow> string option" where
  "after_prefix p s = (if take (length p) s = p then Some (drop (length p) s) else None)"

lemma after_prefix_append [simp]: "after_prefix p (p @ s) = Some s"
  by (simp add: after_prefix_def)

definition position_of :: "string \<Rightarrow> 'a list \<Rightarrow> nat option" where
  "position_of s xs = find (\<lambda>i. itoa (int i) = s) [0..<length xs]"

definition patch_annotation :: "jsonPatchOperation \<Rightarrow> string \<Rightarrow> object_meta \<Rightarrow> object_meta option" where
  "patch_annotation x k m =
     (case om_annotations m of
        None \<Rightarrow> None
      | Some f \<Rightarrow>
          (case (po_op x = ''add'', po_op x = ''remove'', po_value x) of
             (True, _, Some (PatchString v)) \<Rightarrow> Some (m\<lparr>om_annotations := Some (f(k \<mapsto> v))\<rparr>)
           | (_, True, None) \<Rightarrow> (if f k = None then None else Some (m\<lparr>om_annotations := Some (f(k := None))\<rparr>))
           | _ \<Rightarrow> None))"

definition patch_finalizer :: "jsonPatchOperation \<Rightarrow> string \<Rightarrow> object_meta \<Rightarrow> object_meta option" where
  "patch_finalizer x s m =
     (case om_finalizers m of
        None \<Rightarrow> None
      | Some fs \<Rightarrow>
          (if s = ''-'' then
             (case (po_op x = ''add'', po_value x) of
                (True, Some (PatchString v)) \<Rightarrow> Some (m\<lparr>om_finalizers := Some (fs @ [v])\<rparr>) | _ \<Rightarrow> None)
           else case position_of s fs of
             None \<Rightarrow> None
           | Some i \<Rightarrow>
               (if po_op x = ''test'' then (if po_value x = Some (PatchString (fs ! i)) then Some m else None)
                else if po_op x = ''remove'' then Some (m\<lparr>om_finalizers := Some (take i fs @ drop (i + 1) fs)\<rparr>)
                else None)))"

definition patch_step :: "jsonPatchOperation \<Rightarrow> object_meta \<Rightarrow> object_meta option" where
  "patch_step x m =
     (if po_path x = ''/metadata/resourceVersion'' then
        (if po_op x = ''test'' \<and> po_value x = Some (PatchString (om_resource_version m)) then Some m else None)
      else if po_path x = ''/metadata/annotations'' then
        (case (po_op x = ''add'', po_value x) of
           (True, Some (PatchObject kvs)) \<Rightarrow> Some (m\<lparr>om_annotations := Some (map_of kvs)\<rparr>) | _ \<Rightarrow> None)
      else if po_path x = ''/metadata/finalizers'' then
        (case (po_op x = ''add'', po_value x) of
           (True, Some (PatchStrings fs)) \<Rightarrow> Some (m\<lparr>om_finalizers := Some fs\<rparr>) | _ \<Rightarrow> None)
      else case after_prefix ''/metadata/annotations/'' (po_path x) of
        Some k \<Rightarrow> patch_annotation x (unescapeJSONPointer k) m
      | None \<Rightarrow>
          (case after_prefix ''/metadata/finalizers/'' (po_path x) of
             Some s \<Rightarrow> patch_finalizer x s m | None \<Rightarrow> None))"

text \<open>A patch is atomic: it fails as a whole.\<close>

fun json_patch :: "jsonPatchOperation list \<Rightarrow> object_meta \<Rightarrow> object_meta option" where
  "json_patch [] m = Some m"
| "json_patch (x # xs) m = Option.bind (patch_step x m) (json_patch xs)"

lemma json_patch_append: "json_patch (xs @ ys) m = Option.bind (json_patch xs m) (json_patch ys)"
  by (induction xs arbitrary: m) (auto split: Option.bind_split)

lemma json_patch_seq: "json_patch xs m = Some m' \<Longrightarrow> json_patch ys m' = r \<Longrightarrow> json_patch (xs @ ys) m = r"
  by (simp add: json_patch_append)

lemma json_patch_one: "patch_step x m = Some m' \<Longrightarrow> json_patch [x] m = Some m'"
  by simp

lemma path_prefixes [simp]:
  "annotation_path k \<noteq> ''/metadata/resourceVersion''" "annotation_path k \<noteq> ''/metadata/annotations''"
  "annotation_path k \<noteq> ''/metadata/finalizers''"
  "after_prefix ''/metadata/annotations/'' (annotation_path k) = Some (escapeJSONPointer k)"
  unfolding annotation_path_def by (simp_all add: after_prefix_def)

lemma finalizer_prefixes [simp]:
  "finalizer_path s \<noteq> ''/metadata/resourceVersion''" "finalizer_path s \<noteq> ''/metadata/annotations''"
  "finalizer_path s \<noteq> ''/metadata/finalizers''"
  "after_prefix ''/metadata/annotations/'' (finalizer_path s) = None"
  "after_prefix ''/metadata/finalizers/'' (finalizer_path s) = Some s"
  unfolding finalizer_path_def by (simp_all add: after_prefix_def)

lemma test_version_step [simp]:
  "om_resource_version m = om_resource_version (t_meta t) \<Longrightarrow> patch_step (test_version t) m = Some m"
  by (simp add: patch_step_def test_version_def)

lemma add_annotation_step [simp]:
  "om_annotations m = Some f \<Longrightarrow> patch_step (add_annotation k v) m = Some (m\<lparr>om_annotations := Some (f(k \<mapsto> v))\<rparr>)"
  by (simp add: patch_step_def add_annotation_def patch_annotation_def)

text \<open>Only the empty result and two additions come out of \<open>freeze_selector\<close>.\<close>

definition frozen_annotations :: "task \<Rightarrow> string \<Rightarrow> string \<Rightarrow> string \<Rightarrow> string \<Rightarrow> (string \<rightharpoonup> string) \<Rightarrow> string \<rightharpoonup> string" where
  "frozen_annotations t k1 k2 v1 v2 f =
     (if freeze_selector t k1 k2 v1 v2 = [] then f else f(k1 \<mapsto> v1, k2 \<mapsto> v2))"

lemma freeze_patch:
  "json_patch (freeze_selector t k1 k2 v1 v2) (m\<lparr>om_annotations := Some f\<rparr>) =
     Some (m\<lparr>om_annotations := Some (frozen_annotations t k1 k2 v1 v2 f)\<rparr>)"
  by (auto simp: freeze_selector_def frozen_annotations_def)

text \<open>Decimal numbers are read back: different indices have different paths.\<close>

lemma itoa_index: "itoa (int i) = itoa (int j) \<longleftrightarrow> i = j" "itoa (int i) \<noteq> ''-''"
proof -
  show "itoa (int i) = itoa (int j) \<longleftrightarrow> i = j"
    by (simp add: itoa_def, metis nat_digits_value)
  show "itoa (int i) \<noteq> ''-''"
    using nat_digits_first [of i] by (auto simp: itoa_def)
qed

lemma find_after: "find P xs = None \<Longrightarrow> find P (xs @ ys) = find P ys"
  by (induction xs) (auto split: if_splits)

lemma position_of_index:
  assumes "i < length xs"
  shows "position_of (itoa (int i)) xs = Some i"
proof -
  have "(\<lambda>j. itoa (int j) = itoa (int i)) = (\<lambda>j. j = i)" by (rule ext) (rule itoa_index(1))
  moreover have "[0..<length xs] = [0..<i] @ i # [Suc i..<length xs]"
    using assms by (metis le_add1 less_imp_add_positive upt_add_eq_append upt_conv_Cons zero_le)
  moreover have "find (\<lambda>j. j = i) [0..<i] = None" by (auto simp: find_None_iff)
  then have "find (\<lambda>j. j = i) ([0..<i] @ i # ys) = Some i" for ys by (simp add: find_after)
  ultimately show ?thesis unfolding position_of_def by simp
qed

lemma remove_finalizer_patch:
  assumes "om_finalizers m = Some (pre @ fs)" and "length pre = i" and "TaskFinalizer \<notin> set pre"
  shows "json_patch (remove_finalizer_at i fs) m = Some (m\<lparr>om_finalizers := Some (pre @ remove1 TaskFinalizer fs)\<rparr>)"
  using assms
proof (induction fs arbitrary: i pre)
  case Nil
  then show ?case by simp
next
  case (Cons f fs)
  show ?case
  proof (cases "f = TaskFinalizer")
    case True
    have pos: "position_of (itoa (int i)) (pre @ f # fs) = Some i"
      by (rule position_of_index) (use Cons.prems(2) in simp)
    have step: "patch_step \<lparr>po_op = k, po_path = finalizer_path (itoa (int i)), po_value = v\<rparr> m =
        patch_finalizer \<lparr>po_op = k, po_path = finalizer_path (itoa (int i)), po_value = v\<rparr> (itoa (int i)) m" for k v
      by (simp add: patch_step_def)
    show ?thesis
      using True Cons.prems pos itoa_index(2) [of i] by (simp add: step patch_finalizer_def nth_append)
  next
    case False
    with Cons.IH [of "pre @ [f]" "i + 1"] Cons.prems show ?thesis by simp
  qed
qed

lemma remove_annotations_patch:
  assumes "om_annotations (t_meta t) = Some f" and "distinct ks"
    and "om_annotations m = Some g" and "\<forall>k \<in> set ks. g k = f k"
  shows "json_patch (concat (map (remove_annotation t) ks)) m = Some (m\<lparr>om_annotations := Some (g |` (- set ks))\<rparr>)"
  using assms(2-)
proof (induction ks arbitrary: m g)
  case Nil
  then show ?case by simp
next
  case (Cons k ks)
  show ?case
  proof (cases "f k")
    case None
    with Cons assms(1) have "remove_annotation t k = []" "g k = None" by (simp_all add: remove_annotation_def)
    then have "g |` (- set ks) = g |` (- set (k # ks))" by (auto simp: fun_eq_iff restrict_map_def)
    with Cons \<open>remove_annotation t k = []\<close> show ?thesis by simp
  next
    case (Some v)
    have step: "patch_step \<lparr>po_op = ''remove'', po_path = annotation_path k, po_value = None\<rparr> m =
        Some (m\<lparr>om_annotations := Some (g(k := None))\<rparr>)"
      using Some Cons.prems by (simp add: patch_step_def patch_annotation_def)
    have removed: "remove_annotation t k = [\<lparr>po_op = ''remove'', po_path = annotation_path k, po_value = None\<rparr>]"
      using Some assms(1) by (simp add: remove_annotation_def)
    have rest: "(g(k := None)) |` (- set ks) = g |` (- set (k # ks))" by (auto simp: fun_eq_iff restrict_map_def)
    have "json_patch (concat (map (remove_annotation t) ks)) (m\<lparr>om_annotations := Some (g(k := None))\<rparr>) =
        Some (m\<lparr>om_annotations := Some (g(k := None)), om_annotations := Some ((g(k := None)) |` (- set ks))\<rparr>)"
      by (rule Cons.IH) (use Cons.prems in auto)
    then have ih: "json_patch (concat (map (remove_annotation t) ks)) (m\<lparr>om_annotations := Some (g(k := None))\<rparr>) =
        Some (m\<lparr>om_annotations := Some (g |` (- set (k # ks)))\<rparr>)"
      unfolding rest by simp
    show ?thesis
      unfolding list.map concat.simps removed by (rule json_patch_seq [OF json_patch_one [OF step] ih])
  qed
qed

abbreviation claim_keys :: "string list" where
  "claim_keys \<equiv> [TaskClaimantAnnotation, legacyTaskClaimedDomainAnnotation, TaskClaimedWorkloadTypeAnnotation,
     TaskClaimedWorkloadVersionAnnotation, TaskClaimedCarrierTypeAnnotation, TaskClaimedCarrierVersionAnnotation]"

lemma release_patch:
  assumes "om_annotations (t_meta t) = Some f"
  shows "json_patch (releaseClaimPatch t) (t_meta t) =
    Some ((t_meta t)\<lparr>om_annotations := Some (f |` (- set claim_keys)),
       om_finalizers := map_option (remove1 TaskFinalizer) (om_finalizers (t_meta t))\<rparr>)"
proof -
  let ?m = "t_meta t"
  have fin: "json_patch (remove_finalizer_at 0 (elems (om_finalizers ?m))) ?m =
      Some (?m\<lparr>om_finalizers := map_option (remove1 TaskFinalizer) (om_finalizers ?m)\<rparr>)"
    using remove_finalizer_patch [of ?m "[]" "elems (om_finalizers ?m)" 0] by (cases "om_finalizers ?m") simp_all
  have ann: "json_patch (concat (map (remove_annotation t) claim_keys)) (?m\<lparr>om_finalizers := x\<rparr>) =
      Some (?m\<lparr>om_finalizers := x, om_annotations := Some (f |` (- set claim_keys))\<rparr>)" for x
    by (rule remove_annotations_patch [OF assms]) (use assms in simp_all)
  show ?thesis
    unfolding releaseClaimPatch_def json_patch_append by (simp add: fin ann del: concat.simps list.map)
qed

lemma persist_patch:
  assumes "A0 = (entries (om_annotations (t_meta t)))(TaskClaimantAnnotation \<mapsto> claimant)"
    and "A1 = frozen_annotations t TaskClaimedWorkloadTypeAnnotation TaskClaimedWorkloadVersionAnnotation (wsel_type w) (wsel_version w) A0"
    and "A2 = frozen_annotations t TaskClaimedCarrierTypeAnnotation TaskClaimedCarrierVersionAnnotation (csel_type c) (csel_version c) A1"
  shows "json_patch (persistClaimPatch t claimant w c add) (t_meta t) =
    Some ((t_meta t)\<lparr>om_annotations := Some A2,
      om_finalizers := (if claimed_task t \<or> \<not> add then om_finalizers (t_meta t)
                        else Some (elems (om_finalizers (t_meta t)) @ [TaskFinalizer]))\<rparr>)"
proof -
  let ?m = "t_meta t"
  let ?add = "if om_annotations ?m = None
      then [\<lparr>po_op = ''add'', po_path = ''/metadata/annotations'', po_value = Some (PatchObject [])\<rparr>] else []"
  have start: "json_patch (?add @ [add_annotation TaskClaimantAnnotation claimant]) ?m = Some (?m\<lparr>om_annotations := Some A0\<rparr>)"
  proof (cases "om_annotations ?m")
    case None
    then show ?thesis by (simp add: assms(1) patch_step_def [of "\<lparr>po_op = ''add'', po_path = ''/metadata/annotations'', po_value = Some (PatchObject [])\<rparr>"])
  next
    case (Some f)
    then show ?thesis by (simp add: assms(1))
  qed
  have fin: "json_patch (if add \<and> TaskFinalizer \<notin> set (elems (om_finalizers ?m))
      then (if om_finalizers ?m = None
            then [\<lparr>po_op = ''add'', po_path = ''/metadata/finalizers'', po_value = Some (PatchStrings [TaskFinalizer])\<rparr>]
            else [\<lparr>po_op = ''add'', po_path = finalizer_path ''-'', po_value = Some (PatchString TaskFinalizer)\<rparr>])
      else []) (?m\<lparr>om_annotations := x\<rparr>) =
    Some (?m\<lparr>om_annotations := x, om_finalizers := (if claimed_task t \<or> \<not> add then om_finalizers ?m
                        else Some (elems (om_finalizers ?m) @ [TaskFinalizer]))\<rparr>)" for x
  proof (cases "om_finalizers ?m")
    case None
    then show ?thesis by (simp add: claimed_task_def patch_step_def)
  next
    case (Some fs)
    then show ?thesis by (auto simp: claimed_task_def patch_step_def patch_finalizer_def)
  qed
  have assoc: "persistClaimPatch t claimant w c add =
      [test_version t] @ (?add @ [add_annotation TaskClaimantAnnotation claimant]) @
      freeze_selector t TaskClaimedWorkloadTypeAnnotation TaskClaimedWorkloadVersionAnnotation (wsel_type w) (wsel_version w) @
      freeze_selector t TaskClaimedCarrierTypeAnnotation TaskClaimedCarrierVersionAnnotation (csel_type c) (csel_version c) @
      (if add \<and> TaskFinalizer \<notin> set (elems (om_finalizers ?m))
      then (if om_finalizers ?m = None
            then [\<lparr>po_op = ''add'', po_path = ''/metadata/finalizers'', po_value = Some (PatchStrings [TaskFinalizer])\<rparr>]
            else [\<lparr>po_op = ''add'', po_path = finalizer_path ''-'', po_value = Some (PatchString TaskFinalizer)\<rparr>])
      else [])"
    unfolding persistClaimPatch_def by simp
  show ?thesis
    unfolding assoc assms(3)
    by (rule json_patch_seq [OF json_patch_one [OF test_version_step [OF refl]]], rule json_patch_seq [OF start],
        rule json_patch_seq [OF freeze_patch], rule json_patch_seq [OF freeze_patch], unfold assms(2), rule fin)
qed

lemma frozen_annotations_other:
  "k \<noteq> k1 \<Longrightarrow> k \<noteq> k2 \<Longrightarrow> frozen_annotations t k1 k2 v1 v2 f k = f k"
  by (simp add: frozen_annotations_def)

lemma frozen_selector:
  assumes "f k1 = entries (om_annotations (t_meta t)) k1" and "f k2 = entries (om_annotations (t_meta t)) k2" and "k1 \<noteq> k2"
  shows "map_str (frozen_annotations t k1 k2 v1 v2 f) k1 = (if freeze_selector t k1 k2 v1 v2 = [] then annotation (t_meta t) k1 else v1)"
    and "map_str (frozen_annotations t k1 k2 v1 v2 f) k2 = (if freeze_selector t k1 k2 v1 v2 = [] then annotation (t_meta t) k2 else v2)"
  using assms by (simp_all add: frozen_annotations_def map_str_def mread_def mget_entries)

lemma restrict_frozen:
  "k1 \<in> K \<Longrightarrow> k2 \<in> K \<Longrightarrow> frozen_annotations t k1 k2 v1 v2 f |` (- K) = f |` (- K)"
  by (auto simp: frozen_annotations_def fun_eq_iff restrict_map_def)

lemma test_version_fails:
  "json_patch (test_version t # xs) m = None \<or> om_resource_version m = om_resource_version (t_meta t)"
  by (simp add: test_version_def patch_step_def)

text \<open>
  C8. The claim patch, applied to the Task it was made from, records the Host finalizer, the
  claimant and both selectors, and never changes a selector that is already frozen (in full or in
  part); the release patch of the claimed Task takes back exactly the claim: every other annotation
  and finalizer is as it was before the claim. Both patches fail as a whole on any other version.
\<close>

theorem claim_release_roundtrip:
  fixes t :: task
  defines "frozen m \<equiv> (claimedWorkloadSelector (t\<lparr>t_meta := m\<rparr>), claimedCarrierSelector (t\<lparr>t_meta := m\<rparr>))"
  shows "\<exists>m1 m2. json_patch (persistClaimPatch t claimant w c True) (t_meta t) = Some m1 \<and>
    json_patch (releaseClaimPatch (t\<lparr>t_meta := m1\<rparr>)) m1 = Some m2 \<and>
    claimed_task (t\<lparr>t_meta := m1\<rparr>) \<and> annotation m1 TaskClaimantAnnotation = claimant \<and>
    fst (frozen m1) = (if claimedWorkloadSelector t = \<lparr>wsel_type = [], wsel_version = []\<rparr> \<and> wsel_type w \<noteq> [] \<and> wsel_version w \<noteq> []
       then w else claimedWorkloadSelector t) \<and>
    snd (frozen m1) = (if claimedCarrierSelector t = \<lparr>csel_type = [], csel_version = []\<rparr> \<and> csel_type c \<noteq> [] \<and> csel_version c \<noteq> []
       then c else claimedCarrierSelector t) \<and>
    entries (om_annotations m2) = entries (om_annotations (t_meta t)) |` (- set claim_keys) \<and>
    elems (om_finalizers m2) = (if claimed_task t then remove1 TaskFinalizer (elems (om_finalizers (t_meta t)))
       else elems (om_finalizers (t_meta t))) \<and>
    m2 = (t_meta t)\<lparr>om_annotations := om_annotations m2, om_finalizers := om_finalizers m2\<rparr> \<and>
    (\<forall>m. json_patch (persistClaimPatch t claimant w c True) m = None \<or> om_resource_version m = om_resource_version (t_meta t)) \<and>
    (\<forall>m. json_patch (releaseClaimPatch t) m = None \<or> om_resource_version m = om_resource_version (t_meta t))"
proof -
  let ?f = "entries (om_annotations (t_meta t))"
  let ?W = "frozen_annotations t TaskClaimedWorkloadTypeAnnotation TaskClaimedWorkloadVersionAnnotation (wsel_type w) (wsel_version w)"
  let ?C = "frozen_annotations t TaskClaimedCarrierTypeAnnotation TaskClaimedCarrierVersionAnnotation (csel_type c) (csel_version c)"
  let ?A = "?C (?W (?f(TaskClaimantAnnotation \<mapsto> claimant)))"
  let ?m1 = "(t_meta t)\<lparr>om_annotations := Some ?A,
      om_finalizers := (if claimed_task t then om_finalizers (t_meta t)
                        else Some (elems (om_finalizers (t_meta t)) @ [TaskFinalizer]))\<rparr>"
  let ?m2 = "?m1\<lparr>om_annotations := Some (?A |` (- set claim_keys)),
      om_finalizers := map_option (remove1 TaskFinalizer) (om_finalizers ?m1)\<rparr>"
  have persist: "json_patch (persistClaimPatch t claimant w c True) (t_meta t) = Some ?m1"
    using persist_patch [OF refl refl refl, of t claimant w c True] by simp
  have release: "json_patch (releaseClaimPatch (t\<lparr>t_meta := ?m1\<rparr>)) ?m1 = Some ?m2"
    using release_patch [of "t\<lparr>t_meta := ?m1\<rparr>" ?A] by simp
  have kept: "?A |` (- set claim_keys) = ?f |` (- set claim_keys)"
    by (simp add: restrict_frozen)
  have W: "map_str ?A TaskClaimedWorkloadTypeAnnotation = map_str (?W (?f(TaskClaimantAnnotation \<mapsto> claimant))) TaskClaimedWorkloadTypeAnnotation"
    "map_str ?A TaskClaimedWorkloadVersionAnnotation = map_str (?W (?f(TaskClaimantAnnotation \<mapsto> claimant))) TaskClaimedWorkloadVersionAnnotation"
    by (simp_all add: map_str_def frozen_annotations_other)
  have workload: "claimedWorkloadSelector (t\<lparr>t_meta := ?m1\<rparr>) =
      (if claimedWorkloadSelector t = \<lparr>wsel_type = [], wsel_version = []\<rparr> \<and> wsel_type w \<noteq> [] \<and> wsel_version w \<noteq> []
       then w else claimedWorkloadSelector t)"
    unfolding claimedWorkloadSelector_def
    by (simp add: W frozen_selector) (auto simp: freeze_selector_def)
  have carrier: "claimedCarrierSelector (t\<lparr>t_meta := ?m1\<rparr>) =
      (if claimedCarrierSelector t = \<lparr>csel_type = [], csel_version = []\<rparr> \<and> csel_type c \<noteq> [] \<and> csel_version c \<noteq> []
       then c else claimedCarrierSelector t)"
    unfolding claimedCarrierSelector_def
    by (simp add: frozen_selector frozen_annotations_other) (auto simp: freeze_selector_def)
  have claimant: "map_str ?A TaskClaimantAnnotation = claimant"
    by (simp add: map_str_def frozen_annotations_other)
  have fin: "elems (map_option (remove1 TaskFinalizer) (om_finalizers ?m1)) =
      (if claimed_task t then remove1 TaskFinalizer (elems (om_finalizers (t_meta t))) else elems (om_finalizers (t_meta t)))"
    by (cases "om_finalizers (t_meta t)") (auto simp: claimed_task_def remove1_append)
  have versions: "json_patch (persistClaimPatch t claimant w c True) m = None \<or> om_resource_version m = om_resource_version (t_meta t)"
    "json_patch (releaseClaimPatch t) m = None \<or> om_resource_version m = om_resource_version (t_meta t)" for m
    unfolding persistClaimPatch_def releaseClaimPatch_def append_Cons append_Nil by (rule test_version_fails)+
  show ?thesis
    using persist release kept workload carrier claimant fin versions
    by (intro exI [of _ ?m1] exI [of _ ?m2]) (simp add: frozen_def claimed_task_def)
qed

section \<open>Merging status intents\<close>

definition current_intents :: "string \<Rightarrow> int \<Rightarrow> status_intent list \<Rightarrow> status_intent list" where
  "current_intents uid generation intents = filter (\<lambda>i. \<not> stale uid generation i) intents"

text \<open>The reference: of the intents for this incarnation, those of the highest priority.\<close>

definition top_intents :: "string \<Rightarrow> int \<Rightarrow> status_intent list \<Rightarrow> status_intent list" where
  "top_intents uid generation intents =
     (let cur = current_intents uid generation intents
      in filter (\<lambda>i. si_priority i = Max (si_priority ` set cur)) cur)"

definition last_nonempty :: "string list \<Rightarrow> string" where
  "last_nonempty xs = (case filter (\<lambda>s. s \<noteq> []) xs of [] \<Rightarrow> [] | ys \<Rightarrow> last ys)"

lemma merge_equal_fields [simp]:
  "si_priority (merge_equal m i) = si_priority m" "si_task_uid (merge_equal m i) = si_task_uid m"
  "si_generation (merge_equal m i) = si_generation m"
  "si_conditions (merge_equal m i) = si_conditions m @ si_conditions i"
  "si_phase (merge_equal m i) = (if si_phase i = [] then si_phase m else si_phase i)"
  "si_message (merge_equal m i) = (if si_message_set i then si_message i else si_message m)"
  "si_message_set (merge_equal m i) \<longleftrightarrow> si_message_set m \<or> si_message_set i"
  by (simp_all add: merge_equal_def Let_def)

lemma top_intents_snoc:
  assumes "\<not> stale uid g x"
  shows "top_intents uid g (xs @ [x]) =
    (case top_intents uid g xs of
       [] \<Rightarrow> [x]
     | m # ms \<Rightarrow> (if si_priority m < si_priority x then [x] else if si_priority x < si_priority m then m # ms else (m # ms) @ [x]))"
proof (cases "current_intents uid g xs = []")
  case True
  with assms show ?thesis by (simp add: top_intents_def Let_def current_intents_def)
next
  case False
  let ?cur = "current_intents uid g xs" and ?P = "si_priority ` set (current_intents uid g xs)"
  have cur: "current_intents uid g (xs @ [x]) = ?cur @ [x]" using assms by (simp add: current_intents_def)
  have fin: "finite ?P" "?P \<noteq> {}" using False by simp_all
  have top: "top_intents uid g xs = filter (\<lambda>i. si_priority i = Max ?P) ?cur" by (simp add: top_intents_def Let_def)
  from Max_in [OF fin] obtain i where "i \<in> set ?cur" "si_priority i = Max ?P" by auto
  then have "i \<in> set (top_intents uid g xs)" unfolding top by simp
  then obtain m ms where m: "top_intents uid g xs = m # ms" by (cases "top_intents uid g xs") auto
  then have "m \<in> set (filter (\<lambda>i. si_priority i = Max ?P) ?cur)" unfolding top by simp
  then have Mm: "si_priority m = Max ?P" by simp
  have le: "\<And>j. j \<in> set ?cur \<Longrightarrow> si_priority j \<le> Max ?P" using fin by simp
  have "Max (si_priority ` set (?cur @ [x])) = max (si_priority x) (Max ?P)"
    using Max_insert [OF fin, of "si_priority x"] by simp
  then have new: "top_intents uid g (xs @ [x]) = filter (\<lambda>i. si_priority i = max (si_priority x) (Max ?P)) ?cur @
      (if Max ?P \<le> si_priority x then [x] else [])"
    by (simp only: top_intents_def Let_def cur filter_append) (simp add: max_def)
  consider "Max ?P < si_priority x" | "si_priority x < Max ?P" | "si_priority x = Max ?P" by linarith
  then show ?thesis
  proof cases
    case 1
    have "si_priority j \<noteq> si_priority x" if "j \<in> set ?cur" for j using le [OF that] 1 by linarith
    then have "filter (\<lambda>i. si_priority i = si_priority x) ?cur = []"
      unfolding filter_empty_conv by blast
    with 1 new m Mm show ?thesis by (simp add: max_def)
  next
    case 2
    with new m Mm top show ?thesis by (simp add: max_def)
  next
    case 3
    with new m Mm top show ?thesis by simp
  qed
qed

lemma foldl_merge_priority: "si_priority (foldl merge_equal m ms) = si_priority m"
  by (induction ms arbitrary: m) simp_all

lemma merge_intents_fold:
  "foldl (merge_intent uid g) None intents =
     (case top_intents uid g intents of [] \<Rightarrow> None | m # ms \<Rightarrow> Some (foldl merge_equal m ms))"
proof (induction intents rule: rev_induct)
  case Nil
  then show ?case by (simp add: top_intents_def Let_def current_intents_def)
next
  case (snoc x xs)
  show ?case
  proof (cases "stale uid g x")
    case True
    then have "top_intents uid g (xs @ [x]) = top_intents uid g xs"
      by (simp add: top_intents_def Let_def current_intents_def)
    with snoc True show ?thesis by (simp add: merge_intent_def)
  next
    case False
    show ?thesis
      using snoc top_intents_snoc [OF False, of xs] False
      by (auto simp: merge_intent_def foldl_merge_priority split: list.split)
  qed
qed

lemma top_intents_idem: "top_intents uid g (top_intents uid g intents) = top_intents uid g intents"
proof (cases "top_intents uid g intents")
  case Nil
  then show ?thesis by (simp add: top_intents_def Let_def current_intents_def)
next
  case (Cons m ms)
  let ?cur = "current_intents uid g intents"
  have p: "\<And>i. i \<in> set (m # ms) \<Longrightarrow> \<not> stale uid g i \<and> si_priority i = Max (si_priority ` set ?cur)"
    unfolding Cons [symmetric] by (auto simp: top_intents_def Let_def current_intents_def)
  then have "current_intents uid g (m # ms) = m # ms" by (simp add: current_intents_def)
  moreover have "si_priority ` set (m # ms) = {Max (si_priority ` set ?cur)}" using p by auto
  ultimately have "top_intents uid g (m # ms) = m # ms"
    unfolding top_intents_def Let_def using p by (simp only: filter_id_conv) simp
  then show ?thesis unfolding Cons .
qed

lemma foldl_merge_fields:
  "si_conditions (foldl merge_equal m ms) = concat (map si_conditions (m # ms))"
  "si_phase (foldl merge_equal m ms) = last_nonempty (map si_phase (m # ms))"
  "si_message_set (foldl merge_equal m ms) \<longleftrightarrow> (\<exists>i \<in> set (m # ms). si_message_set i)"
  "si_task_uid (foldl merge_equal m ms) = si_task_uid m" "si_generation (foldl merge_equal m ms) = si_generation m"
proof -
  show "si_phase (foldl merge_equal m ms) = last_nonempty (map si_phase (m # ms))"
    by (induction ms rule: rev_induct) (auto simp: last_nonempty_def split: list.splits)
qed (induction ms arbitrary: m; auto)+

text \<open>
  C32. \<open>MergeStatusIntents\<close> is the merge of the intents of the highest priority that are for this
  incarnation and generation, in their order: stale and lower intents have no effect wherever they
  stand. The phase is the last one set, all conditions are kept, and the result is fenced to the
  Task; there is none exactly when every intent is stale.
\<close>

theorem merge_status_intents:
  "MergeStatusIntents uid g intents = MergeStatusIntents uid g (top_intents uid g intents) \<and>
   (case MergeStatusIntents uid g intents of
      None \<Rightarrow> filter (\<lambda>i. \<not> stale uid g i) intents = []
    | Some m \<Rightarrow>
        top_intents uid g intents \<noteq> [] \<and>
        si_phase m = last_nonempty (map si_phase (top_intents uid g intents)) \<and>
        si_conditions m = concat (map si_conditions (top_intents uid g intents)) \<and>
        si_message_set m = (\<exists>i \<in> set (top_intents uid g intents). si_message_set i) \<and>
        \<not> stale uid g m \<and> si_task_uid m = uid \<and> si_generation m = g)"
proof (rule conjI)
  show "MergeStatusIntents uid g intents = MergeStatusIntents uid g (top_intents uid g intents)"
    unfolding MergeStatusIntents_def merge_intents_fold top_intents_idem ..
  show "case MergeStatusIntents uid g intents of
      None \<Rightarrow> filter (\<lambda>i. \<not> stale uid g i) intents = []
    | Some m \<Rightarrow>
        top_intents uid g intents \<noteq> [] \<and>
        si_phase m = last_nonempty (map si_phase (top_intents uid g intents)) \<and>
        si_conditions m = concat (map si_conditions (top_intents uid g intents)) \<and>
        si_message_set m = (\<exists>i \<in> set (top_intents uid g intents). si_message_set i) \<and>
        \<not> stale uid g m \<and> si_task_uid m = uid \<and> si_generation m = g"
  proof (cases "top_intents uid g intents")
    case Nil
    have "current_intents uid g intents = []"
    proof (rule ccontr)
      assume "current_intents uid g intents \<noteq> []"
      then have "Max (si_priority ` set (current_intents uid g intents)) \<in> si_priority ` set (current_intents uid g intents)"
        by simp
      with Nil show False by (auto simp: top_intents_def Let_def filter_empty_conv)
    qed
    with Nil show ?thesis by (simp add: MergeStatusIntents_def merge_intents_fold current_intents_def)
  next
    case (Cons m ms)
    then have "m \<in> set (top_intents uid g intents)" by simp
    then have "\<not> stale uid g m" by (simp add: top_intents_def Let_def current_intents_def)
    then have "si_task_uid m = [] \<or> si_task_uid m = uid" "si_generation m = 0 \<or> si_generation m = g"
      by (auto simp: stale_def)
    then show ?thesis
      by (auto simp: MergeStatusIntents_def merge_intents_fold Cons Let_def foldl_merge_fields stale_def)
  qed
qed

end
