(* ===== verification/Coordinator_Safety.thy ===== *)
theory Coordinator_Safety
  imports Coordinator
begin

text \<open>
  What the coordinator may do to the outside world. Invariants of the world are carried
  through its programs by \<open>keeps\<close>; the hypotheses are about the collaborators only:
  reading operations keep the invariant, and \<open>Apply\<close> and \<open>Delete\<close> keep it for the requests
  that a theorem names. That the programs keep it then says which requests they send.
\<close>

section \<open>Collaborators that only read\<close>

abbreviation kept :: "('w \<Rightarrow> bool) \<Rightarrow> ('w, 'a) prog \<Rightarrow> bool" where
  "kept I m \<equiv> keeps I m (\<lambda>_. True) (\<lambda>_. True)"

definition provider_reads :: "('w \<Rightarrow> bool) \<Rightarrow> 'w provider \<Rightarrow> bool" where
  "provider_reads I p \<longleftrightarrow>
     (\<forall>ref. kept I (pv_get p ref)) \<and> (\<forall>q. kept I (pv_list_instances p q)) \<and>
     (\<forall>list q. pv_list_candidates p = Some list \<longrightarrow> kept I (list q)) \<and>
     (\<forall>claimed t. pv_claimed_workload p = Some claimed \<longrightarrow> kept I (claimed t))"

definition adapter_reads :: "('w \<Rightarrow> bool) \<Rightarrow> 'w adapter \<Rightarrow> bool" where
  "adapter_reads I a \<longleftrightarrow>
     kept I (ad_info a) \<and> (\<forall>q. kept I (ad_compile a q)) \<and> (\<forall>q. kept I (ad_observe a q)) \<and>
     (\<forall>inventory q. ad_inventory a = Some inventory \<longrightarrow> kept I (inventory q))"

definition reads_keep :: "('w \<Rightarrow> bool) \<Rightarrow> 'w coordinator \<Rightarrow> bool" where
  "reads_keep I c \<longleftrightarrow>
     (\<forall>s r p. selectRuntime c s = Inr (r, p) \<longrightarrow> provider_reads I p) \<and>
     (\<forall>s k a. selectWorkload c s k = Inr a \<longrightarrow> adapter_reads I a) \<and>
     (\<forall>resolve q. co_resolver c = Some resolve \<longrightarrow> kept I (resolve q)) \<and>
     (\<forall>bind q. co_binder c = Some bind \<longrightarrow> kept I (bind q)) \<and>
     (\<forall>build t bind q. co_binder_for_task c = Some build \<and> build t = Inr (Some bind) \<longrightarrow> kept I (bind q))"

lemma reads_keepD:
  assumes "reads_keep I c"
  shows "selectRuntime c s = Inr (r, p) \<Longrightarrow> provider_reads I p"
    and "selectWorkload c w k = Inr a \<Longrightarrow> adapter_reads I a"
    and "co_resolver c = Some resolve \<Longrightarrow> kept I (resolve q)"
    and "co_binder c = Some bind \<Longrightarrow> kept I (bind q')"
    and "co_binder_for_task c = Some build \<Longrightarrow> build t = Inr (Some bind) \<Longrightarrow> kept I (bind q')"
  using assms unfolding reads_keep_def by blast+

lemma provider_readsD:
  assumes "provider_reads I p"
  shows "kept I (pv_get p ref)" and "kept I (pv_list_instances p q)"
    and "pv_list_candidates p = Some list \<Longrightarrow> kept I (list q')"
    and "pv_claimed_workload p = Some claimed \<Longrightarrow> kept I (claimed t)"
  using assms unfolding provider_reads_def by blast+

lemma adapter_readsD:
  assumes "adapter_reads I a"
  shows "kept I (ad_info a)" and "kept I (ad_compile a q)" and "kept I (ad_observe a q')"
    and "ad_inventory a = Some inventory \<Longrightarrow> kept I (inventory q'')"
  using assms unfolding adapter_reads_def by blast+

lemma keeps_raise: "keeps I (raise r) (\<lambda>_. r = None) (\<lambda>_. True)"
  by (cases r) (auto simp: raise_def intro: keeps_ok keeps_fail)

lemma keeps_require: "keeps I (require e x) (\<lambda>a. x = Some a) (\<lambda>_. True)"
  by (cases x) (auto simp: require_def intro: keeps_ok keeps_fail)

lemma keeps_given: "keeps I (give r) (\<lambda>a. r = Inr a) (\<lambda>_. True)"
  by (rule keeps_give) simp_all

section \<open>Evaluate\<close>




lemma keeps_list_inventory:
  assumes a: "adapter_reads I adapter"
    and inv: "\<And>inventory q. ad_inventory adapter = Some inventory \<Longrightarrow> keeps I (inventory q) C (\<lambda>_. True)"
  shows "keeps I (list_inventory identity carrier rt p adapter objects)
     (\<lambda>(candidates, list). C candidates \<and> pv_list_candidates p = Some list) (\<lambda>_. True)"
  unfolding list_inventory_def
proof (rule keeps_seq [OF keeps_require], rule keeps_seq [OF keeps_require])
  fix inventory list
  assume i: "ad_inventory adapter = Some inventory" and list: "pv_list_candidates p = Some list"
  show "keeps I
     (seq (inventory \<lparr>iv_task = identity, iv_runtime = rt, iv_carrier = carrier\<rparr>) (\<lambda>candidates.
      seq (ad_info adapter) (\<lambda>info.
      seq (raise (validateIncarnationAdoptionCapabilities candidates (ty_capabilities info) (ri_capabilities rt))) (\<lambda>_.
      seq (raise (validateReconcileProfileCapabilities objects (ty_capabilities info) (ri_capabilities rt))) (\<lambda>_.
      ok (candidates, list))))))
     (\<lambda>(candidates, list). C candidates \<and> pv_list_candidates p = Some list) (\<lambda>_. True)"
    by (rule keeps_seq [OF inv [OF i]], rule keeps_seq_any [OF adapter_readsD(1) [OF a]],
        rule keeps_seq [OF keeps_raise], rule keeps_seq [OF keeps_raise]) (simp add: keeps_ok list)
qed





text \<open>Targeted observation only reads.\<close>

lemma keeps_ObserveRoot:
  assumes reads: "reads_keep I c"
  shows "kept I (ObserveRoot c task root)"
  unfolding ObserveRoot_def
proof (rule keeps_seq [OF keeps_given], clarify, rule keeps_seq [OF keeps_given])
  fix r p adapter
  assume sel: "selectRuntime c (ts_runtime_selector task) = Inr (r, p)"
    and a: "selectWorkload c (ts_workload_selector task) (ri_kind (rr_info r)) = Inr adapter"
  note p = reads_keepD(1) [OF reads sel] and a = reads_keepD(2) [OF reads a]
  show "kept I (seq (pv_get p root) (\<lambda>x.
     seq (pv_list_instances p \<lparr>iq_task = ts_identity task, iq_workloads = [ob_ref x], iq_roots = [''workload''],
            iq_options = None\<rparr>) (\<lambda>instances.
     seq (ad_observe adapter \<lparr>orq_task = task, orq_plan = empty_plan,
            orq_objects = \<lparr>sn_revision = [], sn_objects = [x]\<rparr>, orq_instances = instances\<rparr>) (\<lambda>seen.
     ok \<lparr>or_runtime = rr_info r, or_object = x, or_instances = instances, or_observation = seen\<rparr>))))"
    by (rule keeps_seq_any [OF provider_readsD(1) [OF p]], rule keeps_seq_any [OF provider_readsD(2) [OF p]],
        rule keeps_seq_any [OF adapter_readsD(3) [OF a]]) (rule keeps_ok, rule TrueI)
qed

section \<open>Reconcile\<close>








section \<open>CleanupTask\<close>

abbreviation present_keys :: "object_snapshot \<Rightarrow> string set" where
  "present_keys managed \<equiv> runtime_key ` set (sn_objects managed)"

text \<open>Only the last declared candidate that is present may be deleted: dependants go first.\<close>

definition cleanup_permitted ::
    "object_candidate list \<Rightarrow> object_snapshot \<Rightarrow> task_identity \<Rightarrow> delete_request \<Rightarrow> bool" where
  "cleanup_permitted cands managed task q \<longleftrightarrow>
     dr_task q = task \<and>
     (\<exists>x \<in> set (sn_objects managed). \<exists>pre c post. dr_ref q = ob_ref x \<and> cands = pre @ c # post \<and>
        oc_lifecycle c = LifecycleDeleteOnTaskCleanup \<and> oc_name c \<noteq> [] \<and> CandidateKey c = runtime_key x \<and>
        (\<forall>c' \<in> set post. oc_lifecycle c' = LifecycleDeleteOnTaskCleanup \<longrightarrow> CandidateKey c' \<notin> present_keys managed))"

definition cleanup_finished :: "object_candidate list \<Rightarrow> object_snapshot \<Rightarrow> bool" where
  "cleanup_finished cands managed \<longleftrightarrow>
     (\<forall>c \<in> set cands. oc_lifecycle c = LifecycleDeleteOnTaskCleanup \<longrightarrow> CandidateKey c \<notin> present_keys managed)"

lemma declared_candidates_spec:
  assumes "declared_candidates m cs = Inr m'"
  shows "(\<forall>c \<in> set cs. oc_lifecycle c = LifecycleDeleteOnTaskCleanup \<longrightarrow> CandidateKey c \<noteq> []) \<and>
    (\<forall>k c. m' k = Some c \<longleftrightarrow> m k = Some c \<or>
       (c \<in> set cs \<and> oc_lifecycle c = LifecycleDeleteOnTaskCleanup \<and> CandidateKey c = k))"
  using assms
proof (induction cs arbitrary: m)
  case (Cons c cs)
  show ?case
  proof (cases "oc_lifecycle c = LifecycleDeleteOnTaskCleanup")
    case False
    with Cons show ?thesis by auto
  next
    case True
    with Cons.prems have new: "m (CandidateKey c) = None" "CandidateKey c \<noteq> []"
      and rest: "declared_candidates (m(CandidateKey c \<mapsto> c)) cs = Inr m'"
      by (auto split: if_splits)
    from Cons.IH [OF rest] new True show ?thesis by (auto split: if_splits)
  qed
qed simp

lemma map_of_map_filter_keys:
  "map_of (List.map_filter (\<lambda>k. map_option (Pair k) (f k)) ks) k = (if k \<in> set ks then f k else None)"
  by (induction ks) (auto simp: map_filter_simps split: option.split)

lemma cleanupCandidates_spec:
  assumes "cleanupCandidates cands managed = Inr deletable"
  shows "map_of deletable k = Some c \<longleftrightarrow>
      k \<in> present_keys managed \<and> c \<in> set cands \<and> oc_lifecycle c = LifecycleDeleteOnTaskCleanup \<and> CandidateKey c = k"
    and "deletable = [] \<longleftrightarrow> cleanup_finished cands managed"
    and "c \<in> set cands \<Longrightarrow> oc_lifecycle c = LifecycleDeleteOnTaskCleanup \<Longrightarrow> CandidateKey c \<noteq> []"
proof -
  from assms obtain declared where d: "declared_candidates Map.empty cands = Inr declared"
    and del: "deletable = List.map_filter (\<lambda>k. map_option (Pair k) (declared k)) (remdups (map runtime_key (sn_objects managed)))"
    by (auto simp: cleanupCandidates_def split: sum.splits)
  note spec = declared_candidates_spec [OF d]
  show entry: "map_of deletable k = Some c \<longleftrightarrow>
      k \<in> present_keys managed \<and> c \<in> set cands \<and> oc_lifecycle c = LifecycleDeleteOnTaskCleanup \<and> CandidateKey c = k" for k c
    unfolding del map_of_map_filter_keys using spec by (simp add: image_iff)
  have "deletable = [] \<longleftrightarrow> (\<forall>k c. map_of deletable k \<noteq> Some c)"
    by (cases deletable) (auto intro: exI [of _ "fst (hd deletable)"])
  also have "\<dots> \<longleftrightarrow> cleanup_finished cands managed"
    unfolding entry cleanup_finished_def by blast
  finally show "deletable = [] \<longleftrightarrow> cleanup_finished cands managed" .
  show "c \<in> set cands \<Longrightarrow> oc_lifecycle c = LifecycleDeleteOnTaskCleanup \<Longrightarrow> CandidateKey c \<noteq> []"
    using spec by blast
qed

lemma find_first: "find P xs = Some x \<Longrightarrow> \<exists>ys zs. xs = ys @ x # zs \<and> P x \<and> (\<forall>y \<in> set ys. \<not> P y)"
proof (induction xs)
  case (Cons a xs)
  show ?case
  proof (cases "P a")
    case True
    with Cons.prems show ?thesis by (intro exI [of _ "[]"] exI [of _ xs]) simp
  next
    case False
    with Cons obtain ys zs where "xs = ys @ x # zs" "P x" "\<forall>y \<in> set ys. \<not> P y" by auto
    with False show ?thesis by (intro exI [of _ "a # ys"] exI [of _ zs]) simp
  qed
qed simp

lemma lastPresent_spec:
  assumes "lastPresentCleanupCandidate cands managed = k" and "k \<noteq> []"
  shows "\<exists>pre c post. cands = pre @ c # post \<and> oc_lifecycle c = LifecycleDeleteOnTaskCleanup \<and> CandidateKey c = k \<and>
    k \<in> present_keys managed \<and>
    (\<forall>c' \<in> set post. oc_lifecycle c' = LifecycleDeleteOnTaskCleanup \<longrightarrow> CandidateKey c' \<notin> present_keys managed)"
proof -
  let ?P = "\<lambda>c. oc_lifecycle c = LifecycleDeleteOnTaskCleanup \<and> CandidateKey c \<in> present_keys managed"
  from assms obtain c where c: "find ?P (rev cands) = Some c" "CandidateKey c = k"
    by (auto simp: lastPresentCleanupCandidate_def split: option.splits)
  from find_first [OF c(1)] obtain ys zs where split: "rev cands = ys @ c # zs" "?P c" "\<forall>y \<in> set ys. \<not> ?P y"
    by blast
  have "cands = rev zs @ c # rev ys" using arg_cong [OF split(1), of rev] by simp
  with split(2,3) c(2) show ?thesis by (intro exI [of _ "rev zs"] exI [of _ c] exI [of _ "rev ys"]) auto
qed

lemma lastPresent_none: "lastPresentCleanupCandidate cands managed = [] \<Longrightarrow>
    (\<And>c. c \<in> set cands \<Longrightarrow> oc_lifecycle c = LifecycleDeleteOnTaskCleanup \<Longrightarrow> CandidateKey c \<noteq> []) \<Longrightarrow>
    cleanup_finished cands managed"
  by (auto simp: lastPresentCleanupCandidate_def cleanup_finished_def find_None_iff split: option.splits dest!: find_SomeD)

lemma CandidateKey_exact: "CandidateKey c \<noteq> [] \<Longrightarrow> oc_name c \<noteq> []"
  by (simp add: CandidateKey_def split: if_splits)

definition chosen :: "(string \<times> object_candidate) list \<Rightarrow> string \<Rightarrow> runtime_object \<Rightarrow> bool" where
  "chosen deletable key x \<longleftrightarrow> (\<exists>c. map_of deletable (runtime_key x) = Some c \<and> CandidateKey c = key)"

lemma chosen_permitted:
  assumes "cleanupCandidates cands managed = Inr deletable" and "x \<in> set (sn_objects managed)"
    and "chosen deletable (lastPresentCleanupCandidate cands managed) x" and "dr_task q = task" and "dr_ref q = ob_ref x"
  shows "cleanup_permitted cands managed task q"
proof -
  note spec = cleanupCandidates_spec [OF assms(1)]
  from assms(3) obtain c where c: "map_of deletable (runtime_key x) = Some c"
    "CandidateKey c = lastPresentCleanupCandidate cands managed" by (auto simp: chosen_def)
  from c(1) have key: "CandidateKey c = runtime_key x" and ne: "CandidateKey c \<noteq> []"
    unfolding spec(1) using spec(3) by blast+
  from lastPresent_spec [OF c(2) [symmetric] ne] obtain pre c' post where
    "cands = pre @ c' # post" "oc_lifecycle c' = LifecycleDeleteOnTaskCleanup" "CandidateKey c' = CandidateKey c"
    "\<forall>c' \<in> set post. oc_lifecycle c' = LifecycleDeleteOnTaskCleanup \<longrightarrow> CandidateKey c' \<notin> present_keys managed" by blast
  with assms(2,4,5) key ne CandidateKey_exact [of c'] show ?thesis
    unfolding cleanup_permitted_def by (intro conjI bexI [of _ x] exI [of _ pre] exI [of _ c'] exI [of _ post]) auto
qed

lemma chosen_none:
  assumes "cleanupCandidates cands managed = Inr deletable"
    and "\<forall>x \<in> set (sn_objects managed). \<not> chosen deletable (lastPresentCleanupCandidate cands managed) x"
  shows "cleanup_finished cands managed"
proof (cases "lastPresentCleanupCandidate cands managed = []")
  case True
  with lastPresent_none cleanupCandidates_spec(3) [OF assms(1)] show ?thesis by blast
next
  case False
  from lastPresent_spec [OF refl False] obtain pre c post where "cands = pre @ c # post" "oc_lifecycle c = LifecycleDeleteOnTaskCleanup"
    "lastPresentCleanupCandidate cands managed \<in> present_keys managed"
    and c: "CandidateKey c = lastPresentCleanupCandidate cands managed" by blast
  moreover from this(3) obtain x where c: "CandidateKey c = lastPresentCleanupCandidate cands managed"
    "x \<in> set (sn_objects managed)" "runtime_key x = lastPresentCleanupCandidate cands managed" using c by auto
  ultimately have "map_of deletable (runtime_key x) = Some c"
    unfolding cleanupCandidates_spec(1) [OF assms(1)] by auto
  with c assms(2) show ?thesis by (auto simp: chosen_def)
qed

lemma keeps_cleanup_all:
  assumes "\<And>x k. x \<in> set xs \<Longrightarrow> chosen deletable key x \<Longrightarrow>
      kept I (pv_delete p \<lparr>dr_idempotency_key = k, dr_task = task, dr_ref = ob_ref x\<rparr>)"
  shows "keeps I (fold_prog (cleanup_one L task rid p deletable key) acc xs)
     (\<lambda>deleted. deleted = acc @ map ob_ref (filter (chosen deletable key) xs)) (\<lambda>_. True)"
  using assms
proof (induction xs arbitrary: acc)
  case Nil
  then show ?case by (simp add: keeps_ok)
next
  case (Cons x xs)
  have "keeps I (cleanup_one L task rid p deletable key acc x)
      (\<lambda>d. d = acc @ map ob_ref (filter (chosen deletable key) [x])) (\<lambda>_. True)"
  proof (cases "chosen deletable key x")
    case False
    then show ?thesis by (auto simp: cleanup_one_def chosen_def keeps_ok split: option.split)
  next
    case True
    have del: "kept I (pv_delete p \<lparr>dr_idempotency_key = cleanupOperationKey L task rid (ob_ref x), dr_task = task, dr_ref = ob_ref x\<rparr>)"
      by (rule Cons.prems [OF _ True]) simp
    have run: "cleanup_one L task rid p deletable key acc x =
        seq (pv_delete p \<lparr>dr_idempotency_key = cleanupOperationKey L task rid (ob_ref x), dr_task = task, dr_ref = ob_ref x\<rparr>)
          (\<lambda>_. ok (acc @ [ob_ref x]))"
      using True by (auto simp: cleanup_one_def chosen_def)
    show ?thesis unfolding run by (rule keeps_seq_any [OF del], rule keeps_ok) (simp add: True)
  qed
  then show ?case
    unfolding fold_prog.simps
    by (rule keeps_seq) (rule keeps_weaken [OF Cons.IH [OF Cons.prems]], auto)
qed

lemma keeps_claimed_selector:
  assumes p: "provider_reads I p"
  shows "kept I (claimed_selector p task s)"
proof (cases "wsel_type s = [] \<or> wsel_version s = []")
  case True
  show ?thesis
    unfolding claimed_selector_def if_P [OF True]
  proof (rule keeps_seq [OF keeps_require])
    fix claimed
    assume c: "pv_claimed_workload p = Some claimed"
    show "kept I (seq (claimed task) (\<lambda>(t, v). ok \<lparr>wsel_type = t, wsel_version = v\<rparr>))"
      by (rule keeps_seq_any [OF provider_readsD(4) [OF p c]]) (auto intro: keeps_ok)
  qed
qed (simp add: claimed_selector_def keeps_ok)

definition cleanup_tail ::
    "'w coordinator \<Rightarrow> task_identity \<Rightarrow> string \<Rightarrow> 'w provider \<Rightarrow> (managed_object_query \<Rightarrow> ('w, object_snapshot) prog) \<Rightarrow>
     object_candidate list \<Rightarrow> ('w, cleanup_result) prog" where
  "cleanup_tail c task rid p list candidates =
     seq (list \<lparr>mq_task = task, mq_candidates = candidates\<rparr>) (\<lambda>managed.
     seq (give (cleanupCandidates candidates managed)) (\<lambda>deletable.
     seq (fold_prog (cleanup_one (co_lib c) task rid p deletable
            (lastPresentCleanupCandidate candidates managed)) [] (sn_objects managed)) (\<lambda>deleted.
     if deleted = [] then ok \<lparr>cu_managed = managed, cu_deleted = [], cu_complete = (deletable = [])\<rparr>
     else
       seq (list \<lparr>mq_task = task, mq_candidates = candidates\<rparr>) (\<lambda>fresh.
       seq (give (cleanupCandidates candidates fresh)) (\<lambda>left.
       ok \<lparr>cu_managed = fresh, cu_deleted = deleted, cu_complete = (left = [])\<rparr>)))))"

lemma keeps_cleanup_tail:
  assumes list: "\<And>q. keeps I (list q) S (\<lambda>_. True)"
    and del: "\<And>managed q. S managed \<Longrightarrow> cleanup_permitted cands managed task q \<Longrightarrow> kept I (pv_delete p q)"
  shows "keeps I (cleanup_tail c task rid p list cands)
     (\<lambda>res. S (cu_managed res) \<and> (cu_complete res \<longleftrightarrow> cleanup_finished cands (cu_managed res)) \<and>
        (cu_deleted res = [] \<longrightarrow> cu_complete res)) (\<lambda>_. True)" (is "keeps I _ ?Q _")
  unfolding cleanup_tail_def
proof (rule keeps_seq [OF list], rule keeps_seq [OF keeps_given])
  fix managed deletable
  assume S: "S managed" and deletable: "cleanupCandidates cands managed = Inr deletable"
  let ?key = "lastPresentCleanupCandidate cands managed"
  have all: "keeps I (fold_prog (cleanup_one (co_lib c) task rid p deletable ?key) [] (sn_objects managed))
     (\<lambda>deleted. deleted = [] @ map ob_ref (filter (chosen deletable ?key) (sn_objects managed))) (\<lambda>_. True)"
  proof (rule keeps_cleanup_all, rule del [OF S])
    fix x k
    assume "x \<in> set (sn_objects managed)" "chosen deletable ?key x"
    then show "cleanup_permitted cands managed task \<lparr>dr_idempotency_key = k, dr_task = task, dr_ref = ob_ref x\<rparr>"
      by (rule chosen_permitted [OF deletable]) simp_all
  qed
  show "keeps I (seq (fold_prog (cleanup_one (co_lib c) task rid p deletable ?key) [] (sn_objects managed)) (\<lambda>deleted.
     if deleted = [] then ok \<lparr>cu_managed = managed, cu_deleted = [], cu_complete = (deletable = [])\<rparr>
     else
       seq (list \<lparr>mq_task = task, mq_candidates = cands\<rparr>) (\<lambda>fresh.
       seq (give (cleanupCandidates cands fresh)) (\<lambda>left.
       ok \<lparr>cu_managed = fresh, cu_deleted = deleted, cu_complete = (left = [])\<rparr>)))) ?Q (\<lambda>_. True)"
  proof (rule keeps_seq [OF all], rule keeps_if)
    fix deleted :: "object_ref list"
    assume "deleted = [] @ map ob_ref (filter (chosen deletable ?key) (sn_objects managed))" and "deleted = []"
    then have "cleanup_finished cands managed" by (intro chosen_none [OF deletable]) (simp add: filter_empty_iff)
    then show "keeps I (ok \<lparr>cu_managed = managed, cu_deleted = [], cu_complete = (deletable = [])\<rparr>) ?Q (\<lambda>_. True)"
      using S cleanupCandidates_spec(2) [OF deletable] by (simp add: keeps_ok)
  next
    fix deleted :: "object_ref list"
    assume "deleted \<noteq> []"
    then show "keeps I (seq (list \<lparr>mq_task = task, mq_candidates = cands\<rparr>) (\<lambda>fresh.
       seq (give (cleanupCandidates cands fresh)) (\<lambda>left.
       ok \<lparr>cu_managed = fresh, cu_deleted = deleted, cu_complete = (left = [])\<rparr>))) ?Q (\<lambda>_. True)"
      by (intro keeps_seq [OF list] keeps_seq [OF keeps_given] keeps_ok) (simp add: cleanupCandidates_spec(2))
  qed
qed

text \<open>
  C2. \<open>CleanupTask\<close> deletes only what the Workload inventory declares: each request names an object
  of the snapshot just read whose key is the exact key of a \<open>DeleteOnTaskCleanup\<close> candidate, and
  no later such candidate is still present, so that dependants go before what they depend on. It
  reports completion exactly when no declared candidate is in the last snapshot it read, and
  a run that deletes nothing is complete.
\<close>

theorem cleanup_deletes_declared:
  assumes reads: "reads_keep I c" and start: "I w"
    and inventory: "\<And>s k a inventory q. selectWorkload c s k = Inr a \<Longrightarrow> ad_inventory a = Some inventory \<Longrightarrow>
      keeps I (inventory q) (\<lambda>x. x = cands) (\<lambda>_. True)"
    and snapshots: "\<And>r p list q. selectRuntime c rsel = Inr (r, p) \<Longrightarrow> pv_list_candidates p = Some list \<Longrightarrow>
      keeps I (list q) S (\<lambda>_. True)"
    and delete: "\<And>r p managed q. selectRuntime c rsel = Inr (r, p) \<Longrightarrow> S managed \<Longrightarrow>
      cleanup_permitted cands managed task q \<Longrightarrow> keeps I (pv_delete p q) (\<lambda>_. True) (\<lambda>_. True)"
  shows "I (snd (CleanupTask c task rsel wsel csel w)) \<and>
    (\<forall>res. fst (CleanupTask c task rsel wsel csel w) = Inr res \<longrightarrow>
       S (cu_managed res) \<and>
       (cu_complete res \<longleftrightarrow> (\<forall>x \<in> set cands. oc_lifecycle x = LifecycleDeleteOnTaskCleanup \<longrightarrow>
          CandidateKey x \<notin> runtime_key ` set (sn_objects (cu_managed res)))) \<and>
       (cu_deleted res = [] \<longrightarrow> cu_complete res))"
proof -
  have "keeps I (CleanupTask c task rsel wsel csel)
     (\<lambda>res. S (cu_managed res) \<and> (cu_complete res \<longleftrightarrow> cleanup_finished cands (cu_managed res)) \<and>
        (cu_deleted res = [] \<longrightarrow> cu_complete res)) (\<lambda>_. True)"
    unfolding CleanupTask_def cleanup_tail_def [symmetric]
  proof (rule keeps_seq [OF keeps_given], clarify)
    fix r p
    assume sel: "selectRuntime c rsel = Inr (r, p)"
    note p = reads_keepD(1) [OF reads sel]
    have tail: "keeps I (case x of (candidates, list) \<Rightarrow> cleanup_tail c task (ri_id (rr_info r)) p list candidates)
       (\<lambda>res. S (cu_managed res) \<and> (cu_complete res \<longleftrightarrow> cleanup_finished cands (cu_managed res)) \<and>
        (cu_deleted res = [] \<longrightarrow> cu_complete res)) (\<lambda>_. True)"
      if "case x of (candidates, list) \<Rightarrow> candidates = cands \<and> pv_list_candidates p = Some list" for x
      using that keeps_cleanup_tail [OF snapshots [OF sel] delete [OF sel]] by (auto split: prod.splits)
    show "keeps I (seq (claimed_selector p task wsel) (\<lambda>selector.
        seq (give (selectWorkload c selector (ri_kind (rr_info r)))) (\<lambda>adapter.
        seq (list_inventory task csel (rr_info r) p adapter []) (\<lambda>(candidates, list).
        cleanup_tail c task (ri_id (rr_info r)) p list candidates))))
       (\<lambda>res. S (cu_managed res) \<and> (cu_complete res \<longleftrightarrow> cleanup_finished cands (cu_managed res)) \<and>
        (cu_deleted res = [] \<longrightarrow> cu_complete res)) (\<lambda>_. True)"
    proof (rule keeps_seq_any [OF keeps_claimed_selector [OF p]], rule keeps_seq [OF keeps_given])
      fix selector adapter
      assume a: "selectWorkload c selector (ri_kind (rr_info r)) = Inr adapter"
      have li: "keeps I (list_inventory task csel (rr_info r) p adapter [])
         (\<lambda>(candidates, list). candidates = cands \<and> pv_list_candidates p = Some list) (\<lambda>_. True)"
        by (rule keeps_list_inventory [OF reads_keepD(2) [OF reads a]]) (rule inventory [OF a])
      show "keeps I (seq (list_inventory task csel (rr_info r) p adapter []) (\<lambda>(candidates, list).
          cleanup_tail c task (ri_id (rr_info r)) p list candidates))
         (\<lambda>res. S (cu_managed res) \<and> (cu_complete res \<longleftrightarrow> cleanup_finished cands (cu_managed res)) \<and>
          (cu_deleted res = [] \<longrightarrow> cu_complete res)) (\<lambda>_. True)"
        by (rule keeps_seq [OF li]) (rule tail)
    qed
  qed
  from keeps_run [OF this start] show ?thesis
    unfolding cleanup_finished_def by (auto split: sum.splits)
qed

section \<open>A concrete coordinator\<close>

text \<open>One Runtime that holds one object until it is deleted; the world is the list of deletions.\<close>

definition coordinator_runtime :: runtime_info where
  "coordinator_runtime = \<lparr>ri_id = ''r1'', ri_kind = ''k'', ri_capabilities = [CapabilityReconcileProfiles]\<rparr>"

definition demo_candidate :: object_candidate where
  "demo_candidate =
     \<lparr>oc_kind = plain_kind ''Pod'', oc_namespace = [], oc_name = ''a'', oc_labels = [],
      oc_ownership = \<lparr>ro_scope = ''LogicalTask'', ro_owner_key = ''owner'', ro_incarnation_policy = []\<rparr>,
      oc_lifecycle = LifecycleDeleteOnTaskCleanup\<rparr>"

definition demo_list :: "managed_object_query \<Rightarrow> (object_ref list, object_snapshot) prog" where
  "demo_list _ w = (Inr \<lparr>sn_revision = [], sn_objects = filter (\<lambda>x. ob_ref x \<notin> set w) [present_object ''a'']\<rparr>, w)"

definition demo_provider :: "object_ref list provider" where
  "demo_provider =
     \<lparr>pv_get = (\<lambda>_. ok (present_object ''a'')), pv_apply = (\<lambda>_. fail (ErrText ''read-only'')),
      pv_delete = (\<lambda>q. modify (\<lambda>w. w @ [dr_ref q])),
      pv_list_instances = (\<lambda>_. ok \<lparr>is_revision = [], is_instances = []\<rparr>),
      pv_list_candidates = Some demo_list, pv_claimed_workload = None\<rparr>"

definition demo_adapter :: "object_ref list adapter" where
  "demo_adapter =
     \<lparr>ad_info = ok \<lparr>ty_id = ''w'', ty_version = ''v1'', ty_runtime_kinds = [''k''], ty_capabilities = [CapabilityReconcileProfiles]\<rparr>,
      ad_compile = (\<lambda>_. ok \<lparr>pl_adapter_id = ''w'', pl_adapter_version = ''v1'', pl_compiled_hash = [],
        pl_objects = [named_object ''a''], pl_environment = [], pl_targets = [], pl_units = [], pl_processes = [],
        pl_discovery = \<lparr>id_roots = [''a''], id_options = None\<rparr>\<rparr>),
      ad_observe = (\<lambda>_. ok \<lparr>obs_phase = [], obs_reason = [], obs_message = []\<rparr>),
      ad_inventory = Some (\<lambda>_. ok [demo_candidate])\<rparr>"

definition demo_bind :: "object_ref list plan_bind" where
  "demo_bind q =
     ok \<lparr>ep_digests = \<lparr>dg_compiled_hash = [], dg_executable_hash = [], dg_binding_revision = []\<rparr>,
         ep_objects = pl_objects (br_plan q), ep_discovery = pl_discovery (br_plan q)\<rparr>"

definition demo_coordinator :: "object_ref list coordinator" where
  "demo_coordinator =
     \<lparr>co_runtimes = [\<lparr>rr_info = coordinator_runtime, rr_provider = Some demo_provider, rr_comparator = None\<rparr>],
      co_workloads = [\<lparr>wr_type = ''w'', wr_version = ''v1'', wr_runtime_kind = ''k'', wr_adapter = Some demo_adapter\<rparr>],
      co_implementations = None,
      co_resolver = Some (\<lambda>q. ok \<lparr>rv_task = rq_task q, rv_bindings = []\<rparr>),
      co_binder = Some demo_bind, co_binder_for_task = None, co_lib = demo_lib\<rparr>"

definition demo_log :: "object_ref list \<Rightarrow> bool" where
  "demo_log w = list_all (\<lambda>ref. ref = ob_ref (present_object ''a'')) w"

lemma demo_selectRuntime: "selectRuntime demo_coordinator s = Inr (r, p) \<Longrightarrow> p = demo_provider"
  by (auto simp: selectRuntime_def registration_of_def demo_coordinator_def split: sum.splits option.splits if_splits)

lemma demo_selectWorkload: "selectWorkload demo_coordinator s k = Inr a \<Longrightarrow> a = demo_adapter"
  by (auto simp: selectWorkload_def Select_def demo_coordinator_def split: sum.splits option.splits if_splits)

lemma demo_list_keeps:
  "keeps demo_log (demo_list q) (\<lambda>m. set (sn_objects m) \<subseteq> {present_object ''a''}) (\<lambda>_. True)"
  by (auto simp: keeps_def wp_def demo_list_def)

lemma demo_delete_keeps: "dr_ref q = ob_ref (present_object ''a'') \<Longrightarrow> kept demo_log (pv_delete demo_provider q)"
  by (simp add: demo_provider_def keeps_def wp_modify demo_log_def)

lemma demo_reads: "reads_keep demo_log demo_coordinator"
proof -
  have "provider_reads demo_log demo_provider"
    using keeps_weaken [OF demo_list_keeps, of "\<lambda>_. True" "\<lambda>_. True"]
    by (simp add: provider_reads_def demo_provider_def keeps_ok)
  moreover have "adapter_reads demo_log demo_adapter"
    by (auto simp: adapter_reads_def demo_adapter_def keeps_ok)
  ultimately show ?thesis
    unfolding reads_keep_def
    by (auto dest!: demo_selectRuntime demo_selectWorkload) (auto simp: demo_coordinator_def demo_bind_def keeps_ok)
qed


lemma demo_deletes:
  assumes "S = (\<lambda>m. set (sn_objects m) \<subseteq> {present_object ''a''})" and "S managed" and "cleanup_permitted cands managed task q"
  shows "kept demo_log (pv_delete demo_provider q)"
  using assms by (intro demo_delete_keeps) (auto simp: cleanup_permitted_def)


theorem cleanup_deletes_declared_witness:
  "demo_log (snd (CleanupTask demo_coordinator (ts_identity (demo_snapshot True)) (ts_runtime_selector (demo_snapshot True))
     (ts_workload_selector (demo_snapshot True)) (ts_carrier_selector (demo_snapshot True)) [])) \<and>
   CleanupTask demo_coordinator (ts_identity (demo_snapshot True)) (ts_runtime_selector (demo_snapshot True))
     (ts_workload_selector (demo_snapshot True)) (ts_carrier_selector (demo_snapshot True)) [] =
   (Inr \<lparr>cu_managed = \<lparr>sn_revision = [], sn_objects = []\<rparr>, cu_deleted = [ob_ref (present_object ''a'')], cu_complete = True\<rparr>,
    [ob_ref (present_object ''a'')])"
proof (rule conjI)
  have start: "demo_log []" by (simp add: demo_log_def)
  show "demo_log (snd (CleanupTask demo_coordinator (ts_identity (demo_snapshot True)) (ts_runtime_selector (demo_snapshot True))
     (ts_workload_selector (demo_snapshot True)) (ts_carrier_selector (demo_snapshot True)) []))"
  proof (rule cleanup_deletes_declared [where cands = "[demo_candidate]" and S = "\<lambda>m. set (sn_objects m) \<subseteq> {present_object ''a''}", THEN conjunct1])
    show "reads_keep demo_log demo_coordinator" by (rule demo_reads)
    show "demo_log []" by (rule start)
    show "keeps demo_log (inventory q) (\<lambda>x. x = [demo_candidate]) (\<lambda>_. True)"
      if "selectWorkload demo_coordinator s k = Inr a" "ad_inventory a = Some inventory" for s k a inventory q
      using demo_selectWorkload [OF that(1)] that(2) by (auto simp: demo_adapter_def keeps_ok)
    show "keeps demo_log (list q) (\<lambda>m. set (sn_objects m) \<subseteq> {present_object ''a''}) (\<lambda>_. True)"
      if "selectRuntime demo_coordinator (ts_runtime_selector (demo_snapshot True)) = Inr (r, p)" "pv_list_candidates p = Some list" for r p list q
      using demo_selectRuntime [OF that(1)] that(2) demo_list_keeps by (auto simp: demo_provider_def)
    show "kept demo_log (pv_delete p q)"
      if "selectRuntime demo_coordinator (ts_runtime_selector (demo_snapshot True)) = Inr (r, p)"
        "set (sn_objects managed) \<subseteq> {present_object ''a''}"
        "cleanup_permitted [demo_candidate] managed (ts_identity (demo_snapshot True)) q" for r p managed q
      using demo_selectRuntime [OF that(1)] demo_deletes [OF refl that(2,3)] by simp
  qed
  show "CleanupTask demo_coordinator (ts_identity (demo_snapshot True)) (ts_runtime_selector (demo_snapshot True))
     (ts_workload_selector (demo_snapshot True)) (ts_carrier_selector (demo_snapshot True)) [] =
   (Inr \<lparr>cu_managed = \<lparr>sn_revision = [], sn_objects = []\<rparr>, cu_deleted = [ob_ref (present_object ''a'')], cu_complete = True\<rparr>,
    [ob_ref (present_object ''a'')])"
    by code_simp
qed

end
