(* ===== verification/Host_Safety.thy ===== *)
theory Host_Safety
  imports Host_Claims Coordinator_Safety
begin

text \<open>
  What a run of the Task host may do. Three predicates of the world carry the argument: \<open>I\<close>, what
  must stay true; \<open>C\<close>, that the Task is claimed by this Host in the management API; \<open>D\<close>, that
  the Runtime has reported the Task's objects absent. The hypotheses are about the collaborators.
\<close>

section \<open>Rules\<close>

lemma wp_check [wp_simps]:
  "wp (check m h f) Q E s \<longleftrightarrow>
     wp m (\<lambda>a. wp (f a) Q E) (\<lambda>e s'. if is_panic e then E e s' else wp (h e) Q E s') s"
  by (simp add: check_def wp_seq wp_attempt wp_sum)

lemma wp_results [wp_simps]:
  "wp (finish r) Q E s \<longleftrightarrow> Q (r, None) s" "wp (failed r e) Q E s \<longleftrightarrow> Q (r, Some e) s"
  by (simp_all add: finish_def failed_def wp_ok)

lemma keeps_check:
  assumes "keeps I m P (\<lambda>_. True)" and "\<And>e. kept I (h e)" and "\<And>a. P a \<Longrightarrow> kept I (f a)"
  shows "kept I (check m h f)"
  unfolding keeps_def wp_check
proof (intro allI impI, rule wp_mono [OF keepsD [OF assms(1)]])
  fix e s
  assume "I s \<and> True"
  then show "if is_panic e then I s \<and> True else wp (h e) (\<lambda>a s. I s \<and> True) (\<lambda>e s. I s \<and> True) s"
    using keepsD [OF assms(2)] by simp
qed (use keepsD [OF assms(3)] in auto)

lemma keeps_results [simp, intro]:
  "kept I (finish r)" "kept I (failed r e)" "kept I (waiting reason)" "kept I (host_blocked reason e)"
  "kept I (retrying reason e)" "kept I (decided k d reason st)"
  by (simp_all add: keeps_def wp_simps waiting_def host_blocked_def retrying_def decided_def)

lemma decode_run: "decodeRegisteredTask h t w = (fst (decodeRegisteredTask h t w), w)"
  by (simp add: decodeRegisteredTask_def Let_def require_def run_defs split: option.split sum.split)

definition registered :: "'w host \<Rightarrow> task \<Rightarrow> task_snapshot \<Rightarrow> bool" where
  "registered h t s \<longleftrightarrow>
     (\<exists>decode select a. bu_decoder (ho_bundle h) = Some decode \<and> decode t = Inr s \<and>
        bu_select (ho_bundle h) = Some select \<and> select (implementation_key_of (ho_bundle h) s) = Inr a)"

lemma keeps_decode: "keeps I (decodeRegisteredTask h t) (registered h t) (\<lambda>_. True)"
  by (auto simp: decodeRegisteredTask_def Let_def require_def registered_def keeps_def wp_simps
      split: option.split sum.split)

section \<open>A Task of another Host\<close>

text \<open>
  C9. A Task that carries the Host finalizer and the claim of another Host is only read: nothing in
  the world changes after the read, whatever its Spec, eligibility or deletion, and the run waits
  for a change without an error.
\<close>

theorem foreign_task_untouched:
  assumes "ho_tasks h = Some api" and "ho_eligibility h = Some el" and "ta_get api ns name w = (Inr t, w')"
    and "claimed_task t" and "annotation (t_meta t) TaskClaimantAnnotation \<noteq> []" and "\<not> isClaimant h t"
  shows "snd (Host_Reconcile h ns name w) = w' \<and>
    (case fst (Host_Reconcile h ns name w) of
       Inl e \<Rightarrow> is_panic e
     | Inr (r, err) \<Rightarrow> err = None \<and> hr_outcome r = OutcomeWaitingForChange \<and> hr_retry r = retry RetryOnChange)"
proof -
  have "Host_Reconcile h ns name w = dispatch h ns name t True False False (el_matches el t) (el_validation el t) w'"
    using assms by (simp add: Host_Reconcile_def require_def check_def run_defs classify_def)
  moreover have "wp (dispatch h ns name t True False False (el_matches el t) (el_validation el t))
     (\<lambda>(r, err) w. w = w' \<and> err = None \<and> hr_outcome r = OutcomeWaitingForChange \<and> hr_retry r = retry RetryOnChange)
     (\<lambda>e w. w = w' \<and> is_panic e) w'"
  proof -
    have "wp (decodeRegisteredTask h t) (\<lambda>_ w. w = w') (\<lambda>_ w. w = w') w'"
      unfolding wp_def by (subst decode_run) (simp split: sum.split)
    then show ?thesis
      by (auto simp: dispatch_def delete_task_resources_def admit_def waiting_def result_def wp_simps assms Let_def
          elim!: wp_mono)
  qed
  ultimately show ?thesis by (auto simp: wp_def split: sum.splits prod.splits)
qed

section \<open>Effects happen only under the claim\<close>

definition claimed_by :: "'w host \<Rightarrow> task \<Rightarrow> bool" where
  "claimed_by h t \<longleftrightarrow> claimed_task t \<and> annotation (t_meta t) TaskClaimantAnnotation \<noteq> [] \<and> isClaimant h t"

text \<open>
  The management API: a Task read with this Host's claim is claimed; a successful claim patch
  claims it; the release patch is only safe once the Runtime is clean.
\<close>

definition api_respects :: "'w host \<Rightarrow> 'w task_api \<Rightarrow> ('w \<Rightarrow> bool) \<Rightarrow> ('w \<Rightarrow> bool) \<Rightarrow> ('w \<Rightarrow> bool) \<Rightarrow> bool" where
  "api_respects h api I C D \<longleftrightarrow>
     (\<forall>ns n w. I w \<longrightarrow> wp (ta_get api ns n) (\<lambda>t w'. I w' \<and> (C w \<or> claimed_by h t \<longrightarrow> C w')) (\<lambda>_ w'. I w' \<and> (C w \<longrightarrow> C w')) w) \<and>
     (\<forall>t ws cs add w. I w \<and> (add \<or> claimed_task t) \<longrightarrow>
        wp (ta_patch api t (persistClaimPatch t (ho_claimant h) ws cs add)) (\<lambda>t' w'. I w' \<and> C w' \<and> claimed_by h t')
          (\<lambda>_ w'. I w' \<and> (C w \<longrightarrow> C w')) w) \<and>
     (\<forall>t w. I w \<and> D w \<longrightarrow> wp (ta_patch api t (releaseClaimPatch t)) (\<lambda>_. I) (\<lambda>_. I) w)"

text \<open>The cleanup of a Task goes to the frozen Workload, or to the decoded one of a legacy claim being deleted.\<close>

definition cleans :: "'w host \<Rightarrow> task \<Rightarrow> workload_selector \<Rightarrow> bool" where
  "cleans h t sel \<longleftrightarrow>
     sel = claimedWorkloadSelector t \<or>
     (claimedWorkloadSelector t = \<lparr>wsel_type = [], wsel_version = []\<rparr> \<and> om_deletion (t_meta t) \<noteq> None \<and>
      (\<exists>s. registered h t s \<and> sel = ts_workload_selector s))"

definition executor_respects :: "'w host \<Rightarrow> 'w executor \<Rightarrow> ('w \<Rightarrow> bool) \<Rightarrow> ('w \<Rightarrow> bool) \<Rightarrow> ('w \<Rightarrow> bool) \<Rightarrow> bool" where
  "executor_respects h ex I C D \<longleftrightarrow>
     (\<forall>t s. registered h t s \<and> \<not> sp_suspended (t_spec t) \<longrightarrow>
        kept (\<lambda>w. I w \<and> C w) (ex_reconcile ex (s\<lparr>ts_runtime_selector := bu_selector (ho_bundle h)\<rparr>))) \<and>
     (\<forall>t sel carrier w. cleans h t sel \<and> I w \<and> C w \<longrightarrow>
        wp (ex_cleanup ex (host_identity t) sel carrier) (\<lambda>r w'. I w' \<and> C w' \<and> (cu_complete r \<longrightarrow> D w'))
          (\<lambda>_ w'. I w' \<and> C w') w)"

text \<open>The lifecycle and the status writer never touch the claim, and keep Spec and suspension.\<close>

definition status_respects :: "(task \<Rightarrow> status_intent \<Rightarrow> ('w, task) prog) \<Rightarrow> ('w \<Rightarrow> bool) \<Rightarrow> bool" where
  "status_respects writer J \<longleftrightarrow> (\<forall>t i. keeps J (writer t i) (\<lambda>t'. t_spec t' = t_spec t) (\<lambda>_. True))"

definition lifecycle_respects :: "'w lifecycle \<Rightarrow> ('w \<Rightarrow> bool) \<Rightarrow> bool" where
  "lifecycle_respects lc J \<longleftrightarrow>
     (\<forall>t. keeps J (lc_before lc t) (\<lambda>(d, t'). sp_suspended (t_spec t') = sp_suspended (t_spec t) \<and>
        (\<forall>effect. ld_after_status d = Some effect \<longrightarrow> kept J effect)) (\<lambda>_. True)) \<and>
     (\<forall>t s. kept J (lc_after lc t s))"

definition collaborators_respect :: "'w host \<Rightarrow> ('w \<Rightarrow> bool) \<Rightarrow> ('w \<Rightarrow> bool) \<Rightarrow> ('w \<Rightarrow> bool) \<Rightarrow> bool" where
  "collaborators_respect h I C D \<longleftrightarrow>
     (\<forall>api. ho_tasks h = Some api \<longrightarrow> api_respects h api I C D) \<and>
     (\<forall>ex. bu_executor (ho_bundle h) = Some ex \<longrightarrow> executor_respects h ex I C D) \<and>
     (\<forall>writer. ho_status h = Some writer \<longrightarrow> status_respects writer (\<lambda>w. I w \<and> C w)) \<and>
     (\<forall>lc. bu_lifecycle (ho_bundle h) = Some lc \<longrightarrow> lifecycle_respects lc (\<lambda>w. I w \<and> C w)) \<and>
     (\<forall>f s r. bu_after_execution (ho_bundle h) = Some f \<longrightarrow> kept (\<lambda>w. I w \<and> C w) (f s r))"

lemma collaborators_respectD:
  assumes "collaborators_respect h I C D"
  shows "ho_tasks h = Some api \<Longrightarrow> api_respects h api I C D"
    and "bu_executor (ho_bundle h) = Some ex \<Longrightarrow> executor_respects h ex I C D"
    and "ho_status h = Some writer \<Longrightarrow> status_respects writer (\<lambda>w. I w \<and> C w)"
    and "bu_lifecycle (ho_bundle h) = Some lc \<Longrightarrow> lifecycle_respects lc (\<lambda>w. I w \<and> C w)"
    and "bu_after_execution (ho_bundle h) = Some f \<Longrightarrow> kept (\<lambda>w. I w \<and> C w) (f s r)"
  using assms unfolding collaborators_respect_def by blast+

lemma api_respectsD:
  assumes "api_respects h api I C D"
  shows "I w \<Longrightarrow> wp (ta_get api ns n) (\<lambda>t w'. I w' \<and> (C w \<or> claimed_by h t \<longrightarrow> C w')) (\<lambda>_ w'. I w' \<and> (C w \<longrightarrow> C w')) w"
    and "I w \<Longrightarrow> add \<or> claimed_task t \<Longrightarrow>
      wp (ta_patch api t (persistClaimPatch t (ho_claimant h) ws cs add)) (\<lambda>t' w'. I w' \<and> C w' \<and> claimed_by h t') (\<lambda>_ w'. I w' \<and> (C w \<longrightarrow> C w')) w"
    and "I w \<Longrightarrow> D w \<Longrightarrow> wp (ta_patch api t (releaseClaimPatch t)) (\<lambda>_. I) (\<lambda>_. I) w"
  using assms unfolding api_respects_def by blast+

lemma keeps_opt_status:
  assumes "collaborators_respect h I C D"
  shows "keeps (\<lambda>w. I w \<and> C w) (persist_status h t i) (\<lambda>t'. t_spec t' = t_spec t) (\<lambda>_. True)"
    and "keeps (\<lambda>w. I w \<and> C w) (opt_status h t oi) (\<lambda>t'. t_spec t' = t_spec t) (\<lambda>_. True)"
proof -
  show writes: "keeps (\<lambda>w. I w \<and> C w) (persist_status h t i) (\<lambda>t'. t_spec t' = t_spec t) (\<lambda>_. True)" for i
    unfolding persist_status_def
    by (rule keeps_seq [OF keeps_require])
       (use collaborators_respectD(3) [OF assms] in \<open>auto simp: status_respects_def\<close>)
  show "keeps (\<lambda>w. I w \<and> C w) (opt_status h t oi) (\<lambda>t'. t_spec t' = t_spec t) (\<lambda>_. True)"
    by (cases oi) (simp_all add: opt_status_def keeps_ok writes)
qed

lemma keeps_execute:
  assumes col: "collaborators_respect h I C D" and active: "\<not> sp_suspended (t_spec t)"
  shows "kept (\<lambda>w. I w \<and> C w) (execute h t)"
  unfolding execute_def Let_def
proof (rule keeps_check [OF keeps_decode], simp, rule keeps_seq [OF keeps_require])
  fix s ex
  assume s: "registered h t s" and ex: "bu_executor (ho_bundle h) = Some ex"
  let ?J = "\<lambda>w. I w \<and> C w" and ?s = "s\<lparr>ts_runtime_selector := bu_selector (ho_bundle h)\<rparr>"
  have run: "kept ?J (ex_reconcile ex ?s)"
    using collaborators_respectD(2) [OF col ex] s active unfolding executor_respects_def by blast
  have after: "kept ?J (after_execution h ?s res)" for res
  proof (cases "bu_after_execution (ho_bundle h)")
    case (Some f)
    from keeps_run [OF collaborators_respectD(5) [OF col Some, of ?s res]]
    have "?J w \<Longrightarrow> ?J (snd (f ?s res w))" for w by blast
    with Some show ?thesis by (simp add: after_execution_def keeps_def wp_def)
  qed (simp add: after_execution_def keeps_ok)
  have project: "kept ?J (project_status h t ?s res)" for res
    unfolding project_status_def Let_def
  proof (rule keeps_seq [OF keeps_require], rule keeps_check)
    fix lc
    assume "bu_lifecycle (ho_bundle h) = Some lc"
    from collaborators_respectD(4) [OF col this] show "kept ?J (lc_after lc t ?s)"
      unfolding lifecycle_respects_def by blast
  qed (simp, rule keeps_check [OF keeps_opt_status(2) [OF col]], simp_all)
  show "kept ?J (check (ex_reconcile ex ?s) (retrying RetryTransient) (\<lambda>res.
     seq (after_execution h ?s res) (\<lambda>_. project_status h t ?s res)))"
    by (rule keeps_check [OF run], simp, rule keeps_seq_any [OF after project])
qed

lemma wp_decode:
  "wp (decodeRegisteredTask h t) (\<lambda>s w'. w' = w \<and> registered h t s) (\<lambda>_ w'. w' = w) w"
proof -
  have "wp (decodeRegisteredTask h t) (\<lambda>_ w'. w' = w) (\<lambda>_ w'. w' = w) w"
    unfolding wp_def by (subst decode_run) (simp split: sum.split)
  moreover have "wp (decodeRegisteredTask h t) (\<lambda>s _. True \<and> registered h t s) (\<lambda>_ _. True \<and> True) w"
    by (rule keepsD [OF keeps_decode]) simp
  ultimately show ?thesis by (rule wp_mono [OF wp_conj]) simp_all
qed

lemma wp_decode_then:
  assumes "\<And>s. registered h t s \<Longrightarrow> wp (f s) Q E w" and "\<And>e. no_panic e \<Longrightarrow> wp (g e) Q E w" and "\<And>e. E e w"
  shows "wp (check (decodeRegisteredTask h t) g f) Q E w"
  unfolding wp_check by (rule wp_mono [OF wp_decode]) (use assms in auto)

lemma wp_release_claim:
  assumes "collaborators_respect h I C D" and "I w" and "D w"
  shows "wp (release_claim h t) (\<lambda>_. I) (\<lambda>_. I) w"
proof (cases "ho_tasks h")
  case None
  with assms show ?thesis by (simp add: release_claim_def require_def wp_simps nil_pointer_def)
next
  case (Some api)
  note api = collaborators_respectD(1) [OF assms(1) Some]
  have get: "wp (ta_get api ns n) (\<lambda>_. I) (\<lambda>_. I) w" if "I w" for ns n w
    by (rule wp_mono [OF api_respectsD(1) [OF api that]]) auto
  have classify: "wp (classifyMetadataPatchError api t e) (\<lambda>_. I) (\<lambda>_. I) w" if "I w" for e w
    using that by (auto simp: classifyMetadataPatchError_def wp_simps intro!: wp_mono [OF get [OF that]])
  show ?thesis
    unfolding release_claim_def Some require_def option.case wp_simps
    by (rule wp_mono [OF api_respectsD(3) [OF api assms(2,3)]])
       (auto simp: wp_simps intro!: wp_mono [OF classify])
qed

lemma wp_run_cleanup:
  assumes col: "collaborators_respect h I C D" and w: "I w" "C w" and sel: "cleans h t sel"
  shows "wp (run_cleanup h t b sel carrier) (\<lambda>_ w'. I w' \<and> (b \<or> C w')) (\<lambda>_ w'. I w' \<and> (b \<or> C w')) w"
proof (cases "bu_executor (ho_bundle h)")
  case None
  with w show ?thesis by (simp add: run_cleanup_def require_def wp_simps)
next
  case (Some ex)
  let ?P = "\<lambda>w'. I w' \<and> (b \<or> C w')"
  have last: "wp (if \<not> cu_complete res then finish (result OutcomeCleanupInProgress RetryInProgress ''WaitingForRuntimeCleanup'')
      else if b then release_claim h t else finish (result OutcomeSucceeded RetryNone ''CleanupComplete'')) (\<lambda>_. ?P) (\<lambda>_. ?P) w'"
    if "I w' \<and> C w' \<and> (cu_complete res \<longrightarrow> D w')" for res w'
    using that wp_release_claim [OF col, of w'] by (auto simp: wp_simps elim!: wp_mono)
  from collaborators_respectD(2) [OF col Some] sel w
  have run: "wp (ex_cleanup ex (host_identity t) sel carrier) (\<lambda>r w'. I w' \<and> C w' \<and> (cu_complete r \<longrightarrow> D w')) (\<lambda>_ w'. I w' \<and> C w') w"
    unfolding executor_respects_def by blast
  show ?thesis
    unfolding run_cleanup_def Some require_def option.case wp_seq wp_ok wp_check
    by (rule wp_mono [OF run], rule last) (auto simp: retrying_def wp_simps)
qed

lemma wp_cleanup:
  assumes col: "collaborators_respect h I C D" and w: "I w" "C w"
  shows "wp (cleanup h t b) (\<lambda>_ w'. I w' \<and> (b \<or> C w')) (\<lambda>_ w'. I w' \<and> (b \<or> C w')) w"
proof -
  define P where "P = (\<lambda>w'. I w' \<and> (b \<or> C w'))"
  have here: "P w" using w by (simp add: P_def)
  have stop: "wp (host_blocked reason e) (\<lambda>_. P) (\<lambda>_. P) w" for reason e
    using here by (simp add: host_blocked_def wp_simps)
  have run: "wp (run_cleanup h t b sel carrier) (\<lambda>_. P) (\<lambda>_. P) w" if "cleans h t sel" for sel carrier
    unfolding P_def by (rule wp_run_cleanup [OF col w that])
  have carried: "wp (check (give (validatedClaimedCarrierSelector t)) (host_blocked ''ClaimedCarrierSelectorIncomplete'')
      (\<lambda>cs. cleanup_carrier h t cs (run_cleanup h t b sel))) (\<lambda>_. P) (\<lambda>_. P) w" if "cleans h t sel" for sel
    unfolding wp_check wp_give cleanup_carrier_def
    using here by (auto simp: stop run [OF that] split: sum.split intro!: wp_decode_then)
  have "wp (cleanup h t b) (\<lambda>_. P) (\<lambda>_. P) w"
  proof (cases "validatedClaimedWorkloadSelector t")
    case (Inl e)
    then show ?thesis using here stop by (simp add: cleanup_def wp_check wp_give)
  next
    case (Inr sel)
    then have sel: "sel = claimedWorkloadSelector t" by (auto simp: validatedClaimedWorkloadSelector_def Let_def split: if_splits)
    have direct: "cleans h t sel" by (simp add: cleans_def sel)
    have legacy: "cleans h t (ts_workload_selector s)"
      if "registered h t s" "wsel_type sel = []" "wsel_version sel = []" "om_deletion (t_meta t) \<noteq> None" for s
      using that by (auto simp: cleans_def sel intro!: exI [of _ s])
    have "wp (cleanup_selector h t sel (\<lambda>sel'. check (give (validatedClaimedCarrierSelector t)) (host_blocked ''ClaimedCarrierSelectorIncomplete'')
        (\<lambda>cs. cleanup_carrier h t cs (run_cleanup h t b sel')))) (\<lambda>_. P) (\<lambda>_. P) w"
    proof (cases "wsel_type sel = [] \<and> wsel_version sel = [] \<and> om_deletion (t_meta t) \<noteq> None")
      case True
      show ?thesis
        unfolding cleanup_selector_def if_P [OF True]
        by (rule wp_decode_then [OF _ stop here]) (rule carried [OF legacy], use True in simp_all)
    next
      case False
      then show ?thesis unfolding cleanup_selector_def if_not_P [OF False] by (intro carried direct)
    qed
    then show ?thesis using Inr by (simp add: cleanup_def wp_check [of "give r" for r] wp_give del: wp_check)
  qed
  then show ?thesis unfolding P_def .
qed

lemma keeps_cleanup:
  assumes "collaborators_respect h I C D"
  shows "kept (\<lambda>w. I w \<and> C w) (cleanup h t False)"
  unfolding keeps_def using wp_cleanup [OF assms, where b = False] by (auto elim!: wp_mono)

lemma keeps_suspend:
  assumes col: "collaborators_respect h I C D"
  shows "kept (\<lambda>w. I w \<and> C w) (suspend h t)"
  unfolding suspend_def Let_def
  by (rule keeps_seq_any [OF keeps_cleanup [OF col]], rule keeps_prod, rule keeps_if)
     (auto intro: keeps_ok keeps_check [OF keeps_opt_status(1) [OF col]])

lemma keeps_lifecycle_cleanup:
  assumes col: "collaborators_respect h I C D" and active: "\<not> sp_suspended (t_spec t)"
  shows "kept (\<lambda>w. I w \<and> C w) (lifecycle_cleanup h t d)"
  unfolding lifecycle_cleanup_def Let_def
  by (rule keeps_seq_any [OF keeps_cleanup [OF col]], rule keeps_prod, rule keeps_if, rule keeps_ok, rule TrueI,
      rule keeps_check [OF keeps_opt_status(2) [OF col]], simp, rule keeps_if)
     (use keeps_execute [OF col] active in auto)

lemma keeps_apply_decision:
  assumes "collaborators_respect h I C D" and "\<not> sp_suspended (t_spec t)"
  shows "kept (\<lambda>w. I w \<and> C w) (apply_decision h t d)"
  unfolding apply_decision_def
  by (intro keeps_if keeps_execute [OF assms] keeps_lifecycle_cleanup [OF assms] keeps_results)

lemma keeps_run_claimed:
  assumes col: "collaborators_respect h I C D"
  shows "kept (\<lambda>w. I w \<and> C w) (run_claimed h t)"
proof (cases "sp_suspended (t_spec t)")
  case True
  then show ?thesis by (simp add: run_claimed_def keeps_suspend [OF col])
next
  case False
  let ?J = "\<lambda>w. I w \<and> C w"
  have "kept ?J (run_lifecycle h t)"
    unfolding run_lifecycle_def
  proof (rule keeps_seq [OF keeps_require])
    fix lc
    assume "bu_lifecycle (ho_bundle h) = Some lc"
    from collaborators_respectD(4) [OF col this]
    have before: "keeps ?J (lc_before lc t) (\<lambda>(d, t'). sp_suspended (t_spec t') = sp_suspended (t_spec t) \<and>
        (\<forall>effect. ld_after_status d = Some effect \<longrightarrow> kept ?J effect)) (\<lambda>_. True)"
      unfolding lifecycle_respects_def by blast
    have rest: "kept ?J (check (opt_status h t' (ld_status d)) (retrying RetryConflict) (\<lambda>t.
       check (case ld_after_status d of None \<Rightarrow> ok () | Some effect \<Rightarrow> effect)
         (\<lambda>e. failed ((result OutcomeRetrying RetryTransient [])\<lparr>hr_status := ld_status d\<rparr>) e) (\<lambda>_. apply_decision h t d)))"
      if "\<not> sp_suspended (t_spec t')" "\<forall>effect. ld_after_status d = Some effect \<longrightarrow> kept ?J effect" for d t'
    proof (rule keeps_check [OF keeps_opt_status(2) [OF col]], simp, rule keeps_check [where P = "\<lambda>_. True"])
      fix t2 :: task
      assume "t_spec t2 = t_spec t'"
      with that(1) show "kept ?J (apply_decision h t2 d)" by (intro keeps_apply_decision [OF col]) simp
      show "kept ?J (case ld_after_status d of None \<Rightarrow> ok () | Some effect \<Rightarrow> effect)"
        using that(2) by (auto intro: keeps_ok split: option.split)
    qed simp
    show "kept ?J (check (lc_before lc t) (retrying RetryTransient) (\<lambda>(d, t).
       check (opt_status h t (ld_status d)) (retrying RetryConflict) (\<lambda>t.
       check (case ld_after_status d of None \<Rightarrow> ok () | Some effect \<Rightarrow> effect)
         (\<lambda>e. failed ((result OutcomeRetrying RetryTransient [])\<lparr>hr_status := ld_status d\<rparr>) e) (\<lambda>_. apply_decision h t d))))"
      by (rule keeps_check [OF before]) (use rest False in auto)
  qed
  with False show ?thesis by (simp add: run_claimed_def)
qed

lemma wp_persistClaim:
  assumes col: "collaborators_respect h I C D" and w: "I w" and t: "add \<or> claimed_task t"
  shows "wp (persistClaim h t ws cs add) (\<lambda>t' w'. I w' \<and> C w' \<and> claimed_by h t') (\<lambda>_ w'. I w' \<and> (C w \<longrightarrow> C w')) w"
proof (cases "ho_tasks h")
  case None
  with w show ?thesis by (simp add: persistClaim_def require_def wp_simps)
next
  case (Some api)
  note api = collaborators_respectD(1) [OF col Some]
  have classify: "wp (classifyMetadataPatchError api t e) (\<lambda>_ w'. I w' \<and> (C w \<longrightarrow> C w')) (\<lambda>_ w'. I w' \<and> (C w \<longrightarrow> C w')) w1"
    if "I w1 \<and> (C w \<longrightarrow> C w1)" for e w1
  proof -
    have w1: "I w1" using that by simp
    show ?thesis
    proof (cases "is_conflict e \<or> \<not> is_invalid e")
      case True
      with that show ?thesis by (simp add: classifyMetadataPatchError_def wp_ok)
    next
      case False
      show ?thesis
        unfolding classifyMetadataPatchError_def if_not_P [OF False] wp_seq wp_attempt
        by (rule wp_mono [OF api_respectsD(1) [OF api w1]]) (use that in \<open>auto simp: wp_simps\<close>)
    qed
  qed
  show ?thesis
    unfolding persistClaim_def Some require_def option.case wp_seq wp_ok patch_metadata_def wp_on_err
    by (rule wp_mono [OF api_respectsD(2) [OF api w t]])
       (auto simp: wp_simps intro!: wp_mono [OF classify])
qed

lemma keeps_persistClaim:
  assumes "collaborators_respect h I C D" and "add \<or> claimed_task t"
  shows "keeps (\<lambda>w. I w \<and> C w) (persistClaim h t ws cs add) (claimed_by h) (\<lambda>_. True)"
  unfolding keeps_def
proof (intro allI impI)
  fix w
  assume w: "I w \<and> C w"
  show "wp (persistClaim h t ws cs add) (\<lambda>a w. (I w \<and> C w) \<and> claimed_by h a) (\<lambda>e w. (I w \<and> C w) \<and> True) w"
    by (rule wp_mono [OF wp_persistClaim [OF assms(1) conjunct1 [OF w] assms(2)]]) (use w in auto)
qed

lemma keeps_frozen:
  assumes col: "collaborators_respect h I C D" and t: "claimed_task t"
  shows "kept (\<lambda>w. I w \<and> C w) (frozen_workload h t s (\<lambda>t. frozen_carrier h t s (run_claimed h)))"
proof -
  let ?J = "\<lambda>w. I w \<and> C w"
  have carrier: "kept ?J (frozen_carrier h t s (run_claimed h))" if "claimed_task t" for t
    unfolding frozen_carrier_def
    by (rule keeps_check [OF keeps_given], simp, intro keeps_if keeps_results keeps_run_claimed [OF col],
        rule keeps_check [OF keeps_persistClaim [OF col]]) (use that keeps_run_claimed [OF col] in auto)
  show ?thesis
    unfolding frozen_workload_def
    by (rule keeps_check [OF keeps_given], simp, intro keeps_if keeps_results carrier [OF t],
        rule keeps_check [OF keeps_persistClaim [OF col]]) (use t carrier in \<open>auto simp: claimed_by_def\<close>)
qed

lemma wp_keeps:
  assumes "kept (\<lambda>w. I w \<and> C w) m" and "I w" and "C w"
  shows "wp m (\<lambda>_. I) (\<lambda>_. I) w"
  using keepsD [OF assms(1), of w] assms(2,3) by (auto elim!: wp_mono)

lemma wp_claim_new:
  assumes col: "collaborators_respect h I C D" and w: "I w"
  shows "wp (claim_new h ns name t s) (\<lambda>_. I) (\<lambda>_. I) w"
proof (cases "ho_tasks h")
  case None
  then have "wp (persistClaim h t ws cs True) Q (\<lambda>e w'. is_panic e \<and> w' = w) w" for ws cs Q
    by (simp add: persistClaim_def require_def nil_pointer_def wp_simps)
  then show ?thesis unfolding claim_new_def wp_check by (rule wp_mono) (use w in auto)
next
  case (Some api)
  note api = collaborators_respectD(1) [OF col Some]
  have rest: "wp (check (ta_get api ns name)
       (\<lambda>e. if is_not_found e then finish (result OutcomeDropped [] ''TaskDeletedDuringClaim'')
            else failed (retryResult e) (ErrWrap ''read claimed Task'' e))
       (run_claimed h)) (\<lambda>_. I) (\<lambda>_. I) w'" if "I w'" "C w'" for w'
    unfolding wp_check
    by (rule wp_mono [OF api_respectsD(1) [OF api that(1)]])
       (use that wp_keeps [OF keeps_run_claimed [OF col]] in \<open>auto simp: wp_simps\<close>)
  show ?thesis
    unfolding claim_new_def wp_check [of "persistClaim h t a b c" for a b c] Some require_def option.case wp_seq wp_ok
    by (rule wp_mono [OF wp_persistClaim [OF col w]]) (use rest in \<open>auto simp: wp_results\<close>)
qed

lemma wp_admit:
  assumes col: "collaborators_respect h I C D" and w: "I w"
    and claim: "claimed \<Longrightarrow> claimed_task t \<and> annotation (t_meta t) TaskClaimantAnnotation \<noteq> []"
    and known: "claimed_by h t \<Longrightarrow> C w"
  shows "wp (admit h ns name t claimed) (\<lambda>_. I) (\<lambda>_. I) w"
  unfolding admit_def
proof (rule wp_decode_then)
  fix s
  show "wp (if \<not> claimed then claim_new h ns name t s
        else if \<not> isClaimant h t then waiting ''ClaimedByOtherHost''
        else frozen_workload h t s (\<lambda>t. frozen_carrier h t s (run_claimed h))) (\<lambda>_. I) (\<lambda>_. I) w"
  proof (cases "claimed \<and> isClaimant h t")
    case True
    with claim known have "claimed_task t" "C w" by (auto simp: claimed_by_def)
    with True wp_keeps [OF keeps_frozen [OF col] w] show ?thesis by simp
  next
    case False
    with wp_claim_new [OF col w] w show ?thesis by (auto simp: waiting_def wp_simps)
  qed
qed (use w in \<open>simp_all add: waiting_def wp_simps Let_def\<close>)

lemma wp_dispatch:
  assumes col: "collaborators_respect h I C D" and w: "I w"
    and claim: "claimed \<Longrightarrow> matches \<Longrightarrow> validation = [] \<Longrightarrow> om_deletion (t_meta t) = None \<Longrightarrow>
      claimed_task t \<and> annotation (t_meta t) TaskClaimantAnnotation \<noteq> []"
    and known: "claimed_by h t \<or> is_claimant \<or> changed \<Longrightarrow> C w"
  shows "wp (dispatch h ns name t claimed is_claimant changed matches validation) (\<lambda>_. I) (\<lambda>_. I) w"
proof -
  have sel: "wp (selector_changed h t) (\<lambda>_. I) (\<lambda>_. I) w" if "C w"
    unfolding selector_changed_def Let_def
    by (rule wp_keeps [OF keeps_check [OF keeps_opt_status(1) [OF col]] w that]) simp_all
  have del: "wp (delete_task_resources h t is_claimant) (\<lambda>_. I) (\<lambda>_. I) w"
    using w known wp_cleanup [OF col w, of t True]
    by (auto simp: delete_task_resources_def waiting_def wp_simps elim!: wp_mono)
  have adm: "wp (admit h ns name t claimed) (\<lambda>_. I) (\<lambda>_. I) w"
    if "matches" "validation = []" "om_deletion (t_meta t) = None"
    by (rule wp_admit [OF col w]) (use claim known that in auto)
  show ?thesis
    unfolding dispatch_def wp_if using sel del adm known w by (auto simp: waiting_def wp_results)
qed

lemma wp_classify:
  assumes col: "collaborators_respect h I C D" and w: "I w" and known: "claimed_by h t \<Longrightarrow> C w"
  shows "wp (classify h ns name t el) (\<lambda>_. I) (\<lambda>_. I) w"
proof -
  let ?missing = "claimed_task t \<and> annotation (t_meta t) TaskClaimantAnnotation = []"
  have adopt: "wp (adopt_legacy h t (\<lambda>t'. dispatch h ns name t' True True False (el_matches el t) (el_validation el t)))
      (\<lambda>_. I) (\<lambda>_. I) w" if "claimed_task t"
  proof -
    have go: "wp (check (persistClaim h t ws cs False) (retrying RetryConflict)
        (\<lambda>t'. dispatch h ns name t' True True False (el_matches el t) (el_validation el t))) (\<lambda>_. I) (\<lambda>_. I) w" for ws cs
      unfolding wp_check
      by (rule wp_mono [OF wp_persistClaim [OF col w]])
         (use that in \<open>auto simp: retrying_def wp_simps claimed_by_def intro!: wp_dispatch [OF col]\<close>)
    show ?thesis
      unfolding adopt_legacy_def wp_seq wp_attempt
      by (rule wp_mono [OF wp_decode]) (use w go in \<open>auto simp: Let_def split: if_splits\<close>)
  qed
  show ?thesis
    unfolding classify_def Let_def wp_if
  proof (rule if_split [THEN iffD2], intro conjI impI)
    assume a: "?missing \<and> (om_deletion (t_meta t) \<noteq> None \<or> el_matches el t \<and> el_validation el t = [])"
    then have "(claimed_task t \<and> \<not> ?missing \<and> (claimed_task t \<and> \<not> ?missing \<and> isClaimant h t) \<and> \<not> el_matches el t) = False" by blast
    with adopt a show "wp (adopt_legacy h t (\<lambda>t'. dispatch h ns name t' True True
        (claimed_task t \<and> \<not> ?missing \<and> (claimed_task t \<and> \<not> ?missing \<and> isClaimant h t) \<and> \<not> el_matches el t)
        (el_matches el t) (el_validation el t))) (\<lambda>_. I) (\<lambda>_. I) w" by simp
  next
    assume "\<not> (?missing \<and> (om_deletion (t_meta t) \<noteq> None \<or> el_matches el t \<and> el_validation el t = []))"
    then show "wp (dispatch h ns name t (claimed_task t) (claimed_task t \<and> \<not> ?missing \<and> isClaimant h t)
        (claimed_task t \<and> \<not> ?missing \<and> (claimed_task t \<and> \<not> ?missing \<and> isClaimant h t) \<and> \<not> el_matches el t)
        (el_matches el t) (el_validation el t)) (\<lambda>_. I) (\<lambda>_. I) w"
      by (intro wp_dispatch [OF col w]) (use known in \<open>auto simp: claimed_by_def\<close>)
  qed
qed

text \<open>
  C3. A run of the Task host makes Runtime effects only while the Task is claimed by this Host, and
  gives the claim up only when the Runtime has reported its objects absent. With \<open>C\<close> for "claimed",
  \<open>D\<close> for "clean" and \<open>I\<close> for what must stay true: the executor is asked to keep \<open>I\<close> only in
  worlds where \<open>C\<close> holds, for registered snapshots of Tasks that are not suspended and for the
  frozen Workload; the release patch only where \<open>D\<close> holds. Then every run, whatever it finds and
  wherever it fails, ends with \<open>I\<close>.
\<close>

theorem host_effects_under_claim:
  assumes "collaborators_respect h I C D" and "I w"
  shows "I (snd (Host_Reconcile h ns name w))"
proof (cases "ho_tasks h")
  case None
  with assms show ?thesis by (simp add: Host_Reconcile_def require_def run_defs)
next
  case (Some api)
  note api = collaborators_respectD(1) [OF assms(1) Some]
  have "wp (Host_Reconcile h ns name) (\<lambda>_. I) (\<lambda>_. I) w"
    unfolding Host_Reconcile_def Some require_def option.case wp_seq wp_ok wp_check
  proof (rule wp_mono [OF api_respectsD(1) [OF api assms(2)]])
    fix t w'
    assume "I w' \<and> (C w \<or> claimed_by h t \<longrightarrow> C w')"
    then show "wp (case ho_eligibility h of None \<Rightarrow> fail nil_pointer | Some a \<Rightarrow> ok a)
       (\<lambda>a. wp (classify h ns name t a) (\<lambda>_. I) (\<lambda>_. I)) (\<lambda>_. I) w'"
      by (auto simp: wp_ok wp_fail split: option.split intro!: wp_classify [OF assms(1)])
  qed (auto simp: retrying_def wp_simps)
  then show ?thesis by (auto simp: wp_def split: prod.splits sum.splits)
qed

section \<open>A concrete Host\<close>

text \<open>
  The management API holds one Task and applies JSON patches to the version they were made from
  (metadata of one version are the same);
  the Runtime notes an execution without a claim and a release without a cleanup.
\<close>

record demo_world =
  dw_task :: task
  dw_clean :: bool
  dw_executed :: nat
  dw_bad :: bool

definition host_meta :: "time option \<Rightarrow> object_meta" where
  "host_meta deletion =
     \<lparr>om_name = ''t'', om_namespace = ''ns'', om_uid = ''u'', om_resource_version = ''1'', om_generation = 1,
      om_labels = None, om_annotations = Some [TaskClaimantAnnotation \<mapsto> ''ns/k'', TaskClaimedWorkloadTypeAnnotation \<mapsto> ''w'',
        TaskClaimedWorkloadVersionAnnotation \<mapsto> ''v1'', TaskClaimedCarrierTypeAnnotation \<mapsto> ''c'',
        TaskClaimedCarrierVersionAnnotation \<mapsto> ''v1''],
      om_finalizers = Some [TaskFinalizer], om_controller = None, om_deletion = deletion\<rparr>"

definition host_task :: "time option \<Rightarrow> task" where
  "host_task deletion =
     \<lparr>t_meta = host_meta deletion,
      t_spec = \<lparr>sp_role = [], sp_downstream_name = [], sp_suspended = False, sp_node_selector = None, sp_runtime_kind = ''k'',
        sp_runtime_name = [], sp_workload = \<lparr>wl_kind = ''w'', wl_version = ''v1'', wl_parameters = RawBlank,
          wl_carrier = \<lparr>wc_type = ''c'', wc_version = ''v1'', wc_parameters = RawBlank\<rparr>, wl_template = None\<rparr>,
        sp_environments = None, sp_tags = None\<rparr>,
      t_status = \<lparr>tk_phase = PhasePending, tk_observed_generation = 0, tk_observed_nodes = None, tk_conditions = [],
        tk_message = [], tk_pull_progress = None, tk_events = None\<rparr>\<rparr>"

definition demo_api :: "demo_world task_api" where
  "demo_api =
     \<lparr>ta_get = (\<lambda>ns n. reading dw_task),
      ta_patch = (\<lambda>t ops w.
        if om_resource_version (t_meta t) \<noteq> om_resource_version (t_meta (dw_task w)) then (Inl (ErrKube Conflict), w)
        else case json_patch ops (t_meta t) of
          None \<Rightarrow> (Inl (ErrKube InvalidObject), w)
        | Some m \<Rightarrow>
            (Inr (t\<lparr>t_meta := m\<rparr>),
             w\<lparr>dw_task := (dw_task w)\<lparr>t_meta := m\<rparr>,
               dw_bad := dw_bad w \<or> (claimed_task (dw_task w) \<and> TaskFinalizer \<notin> set (elems (om_finalizers m)) \<and> \<not> dw_clean w)\<rparr>)),
      ta_patch_status = (\<lambda>t t'. ok ())\<rparr>"

definition demo_reconciled :: reconcile_result where
  "demo_reconciled =
     \<lparr>rs_evaluation = \<lparr>ev_runtime = coordinator_runtime, ev_plan = empty_plan, ev_managed = \<lparr>sn_revision = [], sn_objects = []\<rparr>,
        ev_instances = \<lparr>is_revision = [], is_instances = []\<rparr>, ev_observation = \<lparr>obs_phase = [], obs_reason = [], obs_message = []\<rparr>,
        ev_operations = [], ev_orphans = [], ev_roots = [], ev_cleanup_complete = False\<rparr>,
      rs_applied = [], rs_deleted = [],
      rs_revision = \<lparr>er_runtime_id = [], er_runtime_kind = [], er_workload_type = [], er_workload_version = [],
        er_compiled_digest = [], er_executable_digest = [], er_binding_revision = []\<rparr>\<rparr>"

definition host_claims :: "task \<Rightarrow> bool" where
  "host_claims t \<longleftrightarrow> claimed_task t \<and>
     (let a = annotation (t_meta t) TaskClaimantAnnotation; parts = go_split (CHR ''/'') a in
      a = ''ns/k'' \<or> (length parts = 3 \<and> parts ! 0 = ''ns'' \<and> parts ! 1 = ''k''))"

definition demo_executor :: "demo_world executor" where
  "demo_executor =
     \<lparr>ex_reconcile = (\<lambda>s w. (Inr demo_reconciled,
        w\<lparr>dw_executed := dw_executed w + 1, dw_clean := False, dw_bad := dw_bad w \<or> \<not> host_claims (dw_task w)\<rparr>)),
      ex_cleanup = (\<lambda>i s c w. (Inr \<lparr>cu_managed = \<lparr>sn_revision = [], sn_objects = []\<rparr>, cu_deleted = [], cu_complete = True\<rparr>,
        w\<lparr>dw_clean := True, dw_bad := dw_bad w \<or> \<not> host_claims (dw_task w)\<rparr>)),
      ex_observe_root = (\<lambda>s r. fail (ErrText ''absent''))\<rparr>"

definition host_decode :: "task \<Rightarrow> go_error + task_snapshot" where
  "host_decode t =
     Inr ((demo_snapshot (om_deletion (t_meta t) \<noteq> None))\<lparr>ts_workload_selector := \<lparr>wsel_type = ''w'', wsel_version = ''v1''\<rparr>,
       ts_carrier_selector := \<lparr>csel_type = ''c'', csel_version = ''v1''\<rparr>\<rparr>)"

definition demo_lifecycle :: "demo_world lifecycle" where
  "demo_lifecycle =
     \<lparr>lc_before = (\<lambda>t. ok (\<lparr>ld_action = LifecycleProceed, ld_reason = [], ld_status = None, ld_after_status = None,
        ld_retry = retry [], ld_after_cleanup = [], ld_after_cleanup_status = None\<rparr>, t)),
      lc_after = (\<lambda>t s. ok None)\<rparr>"

definition demo_unclaimed :: "object_meta \<Rightarrow> object_meta" where
  "demo_unclaimed m = m\<lparr>om_annotations := Some Map.empty, om_finalizers := None\<rparr>"

definition demo_host :: "demo_world host" where
  "demo_host =
     \<lparr>ho_tasks = Some demo_api,
      ho_bundle = \<lparr>bu_selector = \<lparr>rs_id = ''r1'', rs_kind = ''k''\<rparr>, bu_decoder = Some host_decode,
        bu_executor = Some demo_executor, bu_select = Some (\<lambda>k. Inr \<lparr>ad_info = fail (ErrText []),
          ad_compile = (\<lambda>_. fail (ErrText [])), ad_observe = (\<lambda>_. fail (ErrText [])), ad_inventory = None\<rparr>),
        bu_lifecycle = Some demo_lifecycle, bu_status_from_reconcile = None, bu_after_execution = None\<rparr>,
      ho_eligibility = Some \<lparr>el_matches = (\<lambda>t. sp_runtime_kind (t_spec t) = ''k''), el_validation = (\<lambda>t. [])\<rparr>,
      ho_status = Some (\<lambda>t i. ok t), ho_claimant = ''ns/k''\<rparr>"

definition demo_start :: "bool \<Rightarrow> demo_world" where
  "demo_start deleting =
     \<lparr>dw_task = (host_task (if deleting then Some 1 else None))\<lparr>t_meta := (if deleting then host_meta (Some 1)
        else demo_unclaimed (host_meta None))\<rparr>, dw_clean = False, dw_executed = 0, dw_bad = False\<rparr>"

lemma demo_host_simps [simp]:
  "ho_tasks demo_host = Some demo_api" "ho_claimant demo_host = ''ns/k''" "bu_executor (ho_bundle demo_host) = Some demo_executor"
  "ho_status demo_host = Some (\<lambda>t i. ok t)" "bu_lifecycle (ho_bundle demo_host) = Some demo_lifecycle"
  "bu_after_execution (ho_bundle demo_host) = None"
  by (simp_all add: demo_host_def)

lemma go_split_claimant: "go_split (CHR ''/'') ''ns/k'' = [''ns'', ''k'']"
  by code_simp

lemma host_claims: "claimed_by demo_host t \<Longrightarrow> host_claims t"
  by (auto simp: claimed_by_def host_claims_def isClaimant_def Let_def go_split_claimant)

lemma demo_claim_patch:
  assumes "add \<or> claimed_task t"
  obtains m where "json_patch (persistClaimPatch t ''ns/k'' ws cs add) (t_meta t) = Some m"
    and "TaskFinalizer \<in> set (elems (om_finalizers m))" and "\<And>t. claimed_by demo_host (t\<lparr>t_meta := m\<rparr>)"
proof -
  obtain m where m: "json_patch (persistClaimPatch t ''ns/k'' ws cs add) (t_meta t) = Some m"
    and a: "om_annotations m = Some (frozen_annotations t TaskClaimedCarrierTypeAnnotation TaskClaimedCarrierVersionAnnotation (csel_type cs) (csel_version cs)
      (frozen_annotations t TaskClaimedWorkloadTypeAnnotation TaskClaimedWorkloadVersionAnnotation (wsel_type ws) (wsel_version ws)
        ((entries (om_annotations (t_meta t)))(TaskClaimantAnnotation \<mapsto> ''ns/k''))))"
    and f: "om_finalizers m = (if claimed_task t \<or> \<not> add then om_finalizers (t_meta t)
       else Some (elems (om_finalizers (t_meta t)) @ [TaskFinalizer]))"
    using persist_patch [OF refl refl refl, of t "''ns/k''" ws cs add] by simp
  have fin: "TaskFinalizer \<in> set (elems (om_finalizers m))" using f assms by (auto simp: claimed_task_def)
  have "annotation m TaskClaimantAnnotation = ''ns/k''"
    by (simp add: a map_str_def frozen_annotations_other)
  with m fin show ?thesis by (intro that) (auto simp: claimed_by_def claimed_task_def isClaimant_def)
qed

lemma demo_respects:
  "collaborators_respect demo_host (\<lambda>w. \<not> dw_bad w) (\<lambda>w. claimed_by demo_host (dw_task w)) dw_clean"
proof -
  have api: "api_respects demo_host demo_api (\<lambda>w. \<not> dw_bad w) (\<lambda>w. claimed_by demo_host (dw_task w)) dw_clean"
    unfolding api_respects_def
  proof (intro conjI allI impI)
    fix t :: task and ws cs add and w :: demo_world
    assume w: "\<not> dw_bad w \<and> (add \<or> claimed_task t)"
    then have "add \<or> claimed_task t" by simp
    then obtain m where "json_patch (persistClaimPatch t ''ns/k'' ws cs add) (t_meta t) = Some m"
      "TaskFinalizer \<in> set (elems (om_finalizers m))" "\<And>t. claimed_by demo_host (t\<lparr>t_meta := m\<rparr>)"
      by (rule demo_claim_patch) blast
    with w show "wp (ta_patch demo_api t (persistClaimPatch t (ho_claimant demo_host) ws cs add))
        (\<lambda>t' w'. \<not> dw_bad w' \<and> claimed_by demo_host (dw_task w') \<and> claimed_by demo_host t')
        (\<lambda>_ w'. \<not> dw_bad w' \<and> (claimed_by demo_host (dw_task w) \<longrightarrow> claimed_by demo_host (dw_task w'))) w"
      by (simp add: demo_api_def wp_def)
  qed (auto simp: demo_api_def wp_def run_defs split: option.split)
  have ex: "executor_respects demo_host demo_executor (\<lambda>w. \<not> dw_bad w) (\<lambda>w. claimed_by demo_host (dw_task w)) dw_clean"
    by (auto simp: executor_respects_def demo_executor_def keeps_def wp_def dest: host_claims)
  have lc: "lifecycle_respects demo_lifecycle J" for J
    by (auto simp: lifecycle_respects_def demo_lifecycle_def keeps_def wp_ok)
  have st: "status_respects (\<lambda>t i. ok t) J" for J
    by (simp add: status_respects_def keeps_def wp_ok)
  show ?thesis using api ex lc st by (simp add: collaborators_respect_def)
qed


lemma demo_runs:
  "(let w = snd (Host_Reconcile demo_host ''ns'' ''t'' (demo_start False)) in dw_executed w = 1 \<and> claimed_task (dw_task w))"
  "(let w = snd (Host_Reconcile demo_host ''ns'' ''t'' (demo_start True)) in dw_clean w \<and> \<not> claimed_task (dw_task w))"
  by code_simp+

theorem host_effects_under_claim_witness:
  "(let w = snd (Host_Reconcile demo_host ''ns'' ''t'' (demo_start False)) in
      \<not> dw_bad w \<and> dw_executed w = 1 \<and> claimed_task (dw_task w)) \<and>
   (let w = snd (Host_Reconcile demo_host ''ns'' ''t'' (demo_start True)) in
      \<not> dw_bad w \<and> dw_clean w \<and> \<not> claimed_task (dw_task w))"
  using host_effects_under_claim [OF demo_respects, of "demo_start False" "''ns''" "''t''"]
    host_effects_under_claim [OF demo_respects, of "demo_start True" "''ns''" "''t''"] demo_runs
  by (simp add: demo_start_def Let_def)

definition demo_foreign :: demo_world where
  "demo_foreign =
     (demo_start True)\<lparr>dw_task := (host_task None)\<lparr>t_meta := (host_meta None)
        \<lparr>om_annotations := Some [TaskClaimantAnnotation \<mapsto> ''other/k'']\<rparr>\<rparr>\<rparr>"

lemma demo_foreign_facts:
  "claimed_task (dw_task demo_foreign)" "annotation (t_meta (dw_task demo_foreign)) TaskClaimantAnnotation \<noteq> []"
  "\<not> isClaimant demo_host (dw_task demo_foreign)"
  by code_simp+

lemma demo_foreign_read: "ta_get demo_api ''ns'' ''t'' demo_foreign = (Inr (dw_task demo_foreign), demo_foreign)"
  by (simp add: demo_api_def run_defs)

theorem foreign_task_untouched_witness:
  "snd (Host_Reconcile demo_host ''ns'' ''t'' demo_foreign) = demo_foreign"
  by (rule conjunct1 [OF foreign_task_untouched
        [OF _ _ demo_foreign_read demo_foreign_facts]])
     (simp_all add: demo_host_def)

end
