(* ===== verification/Trigger.thy ===== *)
theory Trigger
  imports Exec_Types "HOL-Library.Mapping"
begin

text \<open>
  The accumulator of reconciliation hints (\<open>agent/execution/trigger/trigger.go\<close>): hints for a
  Task are merged into one pending set, the caller keeps a work queue of Task keys, and
  \<open>Merge\<close>, \<open>Take\<close>, \<open>Done\<close> and \<open>WakeupFailed\<close> tell it when a key must join the queue. Every
  operation runs under one mutex, so an execution is a sequence of whole operations: the
  relation \<open>trigger_step\<close>, with the caller's queue and, as ghost state, the hints that no
  batch has delivered yet.
\<close>

section \<open>The data\<close>

record trigger_key =
  tk_namespace :: string
  tk_name :: string

abbreviation DesiredState :: string where "DesiredState \<equiv> ''DesiredState''"
abbreviation RuntimeState :: string where "RuntimeState \<equiv> ''RuntimeState''"
abbreviation Periodic :: string where "Periodic \<equiv> ''Periodic''"

record trigger =
  tr_key :: trigger_key
  tr_kind :: string
  tr_runtime_id :: string
  tr_object_uid :: string
  tr_generation :: int
  tr_root :: "object_ref option"

record trigger_set =
  se_key :: trigger_key
  se_kinds :: "string set"
  se_runtime_id :: string
  se_object_uid :: string
  se_generation :: int
  se_roots :: "object_ref list"
  se_full :: bool

datatype merge_status = MergeCoalesced | MergeEnqueue | MergeSaturated

record merge_result =
  mr_status :: merge_status
  mr_fallback :: "trigger_set option"

record trigger_config =
  tc_max_keys :: int
  tc_max_roots :: int

record entry =
  en_pending :: trigger_set
  en_processing :: bool
  en_queued :: bool

record accumulator =
  ac_max_keys :: int
  ac_max_roots :: int
  ac_entries :: "(trigger_key, entry) mapping"

definition Key_Validate :: "trigger_key \<Rightarrow> go_error option" where
  "Key_Validate k =
     (if tk_namespace k = [] \<or> tk_name k = []
      then Some (ErrText ''trigger Task namespace and name are required'') else None)"

definition Key_String :: "trigger_key \<Rightarrow> string" where
  "Key_String k = tk_namespace k @ ''/'' @ tk_name k"

definition Set_Has :: "trigger_set \<Rightarrow> string \<Rightarrow> bool" where
  "Set_Has s kind \<longleftrightarrow> kind \<in> se_kinds s"

definition NewAccumulator :: "trigger_config \<Rightarrow> accumulator" where
  "NewAccumulator config =
     \<lparr>ac_max_keys = (if tc_max_keys config \<le> 0 then 10000 else tc_max_keys config),
      ac_max_roots = (if tc_max_roots config \<le> 0 then 16 else tc_max_roots config),
      ac_entries = Mapping.empty\<rparr>"

section \<open>Merging one hint\<close>

definition emptySet :: "trigger_key \<Rightarrow> trigger_set" where
  "emptySet key =
     \<lparr>se_key = key, se_kinds = {}, se_runtime_id = [], se_object_uid = [], se_generation = 0,
      se_roots = [], se_full = False\<rparr>"

definition setEmpty :: "trigger_set \<Rightarrow> bool" where
  "setEmpty s \<longleftrightarrow> se_kinds s = {} \<and> se_object_uid s = [] \<and> se_generation s = 0 \<and>
     se_runtime_id s = [] \<and> se_roots s = [] \<and> \<not> se_full s"

definition sameRoot :: "object_ref \<Rightarrow> object_ref \<Rightarrow> bool" where
  "sameRoot l r \<longleftrightarrow> rf_runtime_id l = rf_runtime_id r \<and> rf_id l = rf_id r \<and>
     rf_namespace l = rf_namespace r \<and> rf_name l = rf_name r \<and> rf_uid l = rf_uid r"

definition merge_kind :: "trigger \<Rightarrow> trigger_set \<Rightarrow> trigger_set" where
  "merge_kind v s =
     (let s' = s\<lparr>se_kinds := insert (tr_kind v) (se_kinds s)\<rparr>
      in if tr_kind v = DesiredState \<or> tr_kind v = Periodic \<or> tr_kind v = []
         then s'\<lparr>se_full := True\<rparr> else s')"

definition merge_uid :: "trigger \<Rightarrow> trigger_set \<Rightarrow> trigger_set" where
  "merge_uid v s =
     (if se_object_uid s = [] then s\<lparr>se_object_uid := tr_object_uid v\<rparr>
      else if tr_object_uid v \<noteq> [] \<and> se_object_uid s \<noteq> tr_object_uid v then s\<lparr>se_full := True\<rparr>
      else s)"

definition merge_generation :: "trigger \<Rightarrow> trigger_set \<Rightarrow> trigger_set" where
  "merge_generation v s =
     (if (tr_object_uid v = [] \<or> se_object_uid s = tr_object_uid v) \<and> se_generation s < tr_generation v
      then s\<lparr>se_generation := tr_generation v\<rparr> else s)"

definition merge_runtime :: "trigger \<Rightarrow> trigger_set \<Rightarrow> trigger_set" where
  "merge_runtime v s =
     (if se_runtime_id s = [] then s\<lparr>se_runtime_id := tr_runtime_id v\<rparr>
      else if tr_runtime_id v \<noteq> [] \<and> se_runtime_id s \<noteq> tr_runtime_id v then s\<lparr>se_full := True\<rparr>
      else s)"

definition merge_root :: "trigger \<Rightarrow> int \<Rightarrow> trigger_set \<Rightarrow> trigger_set" where
  "merge_root v maxRoots s =
     (case tr_root v of
        None \<Rightarrow> s
      | Some root \<Rightarrow>
          (if se_full s then s
           else if \<exists>x \<in> set (se_roots s). sameRoot x root then s
           else if maxRoots \<le> int (length (se_roots s)) then s\<lparr>se_roots := [], se_full := True\<rparr>
           else s\<lparr>se_roots := se_roots s @ [root]\<rparr>))"

definition mergeSet :: "trigger_set \<Rightarrow> trigger \<Rightarrow> int \<Rightarrow> trigger_set" where
  "mergeSet s v maxRoots =
     (let s' = merge_runtime v (merge_generation v (merge_uid v (merge_kind v s)));
          s'' = (if se_full s' \<and> \<not> se_full s then s'\<lparr>se_roots := []\<rparr> else s')
      in merge_root v maxRoots s'')"

text \<open>A copy of the map and the slice; a value has no aliases.\<close>

definition cloneSet :: "trigger_set \<Rightarrow> trigger_set" where
  "cloneSet s = s\<lparr>se_kinds := se_kinds s, se_roots := se_roots s\<rparr>"

section \<open>The operations\<close>

definition Accumulator_Merge :: "trigger \<Rightarrow> accumulator \<Rightarrow> merge_result \<times> accumulator" where
  "Accumulator_Merge v a =
     (let k = tr_key v;
          add = (\<lambda>e. let e' = e\<lparr>en_pending := mergeSet (en_pending e) v (ac_max_roots a)\<rparr> in
             if en_processing e' \<or> en_queued e'
             then (\<lparr>mr_status = MergeCoalesced, mr_fallback = None\<rparr>,
                   a\<lparr>ac_entries := Mapping.update k e' (ac_entries a)\<rparr>)
             else (\<lparr>mr_status = MergeEnqueue, mr_fallback = None\<rparr>,
                   a\<lparr>ac_entries := Mapping.update k (e'\<lparr>en_queued := True\<rparr>) (ac_entries a)\<rparr>))
      in case Mapping.lookup (ac_entries a) k of
           Some e \<Rightarrow> add e
         | None \<Rightarrow>
             (if ac_max_keys a \<le> int (Mapping.size (ac_entries a))
              then (\<lparr>mr_status = MergeSaturated,
                     mr_fallback = Some ((mergeSet (emptySet k) v (ac_max_roots a))\<lparr>se_roots := [], se_full := True\<rparr>)\<rparr>, a)
              else add \<lparr>en_pending = emptySet k, en_processing = False, en_queued = False\<rparr>))"

text \<open>\<open>None\<close> is the code's \<open>Set{}, false\<close>.\<close>

definition Accumulator_Take :: "trigger_key \<Rightarrow> accumulator \<Rightarrow> trigger_set option \<times> accumulator" where
  "Accumulator_Take k a =
     (case Mapping.lookup (ac_entries a) k of
        None \<Rightarrow> (None, a)
      | Some e \<Rightarrow>
          (if en_processing e then (None, a)
           else (Some (cloneSet (en_pending e)),
                 a\<lparr>ac_entries := Mapping.update k
                    \<lparr>en_pending = emptySet k, en_processing = True, en_queued = False\<rparr> (ac_entries a)\<rparr>)))"

definition Accumulator_Done :: "trigger_key \<Rightarrow> accumulator \<Rightarrow> bool \<times> accumulator" where
  "Accumulator_Done k a =
     (case Mapping.lookup (ac_entries a) k of
        None \<Rightarrow> (False, a)
      | Some e \<Rightarrow>
          (if \<not> en_processing e then (False, a)
           else if setEmpty (en_pending e)
           then (False, a\<lparr>ac_entries := Mapping.delete k (ac_entries a)\<rparr>)
           else if en_queued e
           then (False, a\<lparr>ac_entries := Mapping.update k (e\<lparr>en_processing := False\<rparr>) (ac_entries a)\<rparr>)
           else (True, a\<lparr>ac_entries := Mapping.update k (e\<lparr>en_processing := False, en_queued := True\<rparr>) (ac_entries a)\<rparr>)))"

definition Accumulator_WakeupFailed :: "trigger_key \<Rightarrow> accumulator \<Rightarrow> bool \<times> accumulator" where
  "Accumulator_WakeupFailed k a =
     (case Mapping.lookup (ac_entries a) k of
        None \<Rightarrow> (False, a)
      | Some e \<Rightarrow>
          (if en_processing e \<or> \<not> en_queued e then (False, a)
           else (True, a\<lparr>ac_entries := Mapping.update k (e\<lparr>en_queued := False\<rparr>) (ac_entries a)\<rparr>)))"

section \<open>What a merged set promises\<close>

text \<open>
  A hint is covered by a set that requires a full reconciliation; otherwise the set is about
  the hint's incarnation and Runtime, is at least as new, and holds its root.
\<close>

definition covers :: "trigger_set \<Rightarrow> trigger \<Rightarrow> bool" where
  "covers s v \<longleftrightarrow> tr_kind v \<in> se_kinds s \<and>
     (se_full s \<or>
      (tr_kind v \<notin> {DesiredState, Periodic, []} \<and>
       tr_object_uid v \<in> {[], se_object_uid s} \<and> tr_runtime_id v \<in> {[], se_runtime_id s} \<and>
       tr_generation v \<le> se_generation s \<and>
       (\<forall>r. tr_root v = Some r \<longrightarrow> (\<exists>x \<in> set (se_roots s). sameRoot x r))))"

definition set_bounded :: "int \<Rightarrow> trigger_set \<Rightarrow> bool" where
  "set_bounded m s \<longleftrightarrow> int (length (se_roots s)) \<le> m \<and> (se_full s \<longrightarrow> se_roots s = [])"

definition mergeable :: "trigger \<Rightarrow> trigger_set \<Rightarrow> bool" where
  "mergeable v s \<longleftrightarrow> tr_kind v \<notin> {DesiredState, Periodic, []} \<and>
     (se_object_uid s = [] \<or> tr_object_uid v \<in> {[], se_object_uid s}) \<and>
     (se_runtime_id s = [] \<or> tr_runtime_id v \<in> {[], se_runtime_id s})"

abbreviation merged_fields :: "trigger \<Rightarrow> trigger_set \<Rightarrow> trigger_set" where
  "merged_fields v s \<equiv> merge_runtime v (merge_generation v (merge_uid v (merge_kind v s)))"

lemma merged_fields_simps:
  "se_key (merged_fields v s) = se_key s"
  "se_kinds (merged_fields v s) = insert (tr_kind v) (se_kinds s)"
  "se_object_uid (merged_fields v s) = (if se_object_uid s = [] then tr_object_uid v else se_object_uid s)"
  "se_runtime_id (merged_fields v s) = (if se_runtime_id s = [] then tr_runtime_id v else se_runtime_id s)"
  "se_roots (merged_fields v s) = se_roots s"
  "se_full (merged_fields v s) \<longleftrightarrow> se_full s \<or> \<not> mergeable v s"
  by (auto simp: merge_runtime_def merge_generation_def merge_uid_def merge_kind_def mergeable_def Let_def)

lemma merged_fields_generation:
  "se_generation s \<le> se_generation (merged_fields v s)"
  "mergeable v s \<Longrightarrow> tr_generation v \<le> se_generation (merged_fields v s)"
  by (auto simp: merge_runtime_def merge_generation_def merge_uid_def merge_kind_def mergeable_def Let_def)

lemma merge_root_simps [simp]:
  "se_key (merge_root v m s) = se_key s"
  "se_kinds (merge_root v m s) = se_kinds s"
  "se_object_uid (merge_root v m s) = se_object_uid s"
  "se_runtime_id (merge_root v m s) = se_runtime_id s"
  "se_generation (merge_root v m s) = se_generation s"
  by (simp_all add: merge_root_def split: option.split)

lemma mergeSet_simps [simp]:
  "se_key (mergeSet s v m) = se_key s"
  "se_kinds (mergeSet s v m) = insert (tr_kind v) (se_kinds s)"
  by (simp_all add: mergeSet_def Let_def merged_fields_simps)

lemma merge_root_full: "se_full s \<Longrightarrow> merge_root v m s = s"
  by (simp add: merge_root_def split: option.split)

text \<open>Merging either requires a full reconciliation, with no roots kept, or extends the set.\<close>

lemma mergeSet_cases:
  assumes "se_full s \<longrightarrow> se_roots s = []"
  obtains (full) "se_full (mergeSet s v m)" "se_roots (mergeSet s v m) = []"
    | (more) "\<not> se_full (mergeSet s v m)" "\<not> se_full s" "mergeable v s"
        "se_object_uid (mergeSet s v m) = (if se_object_uid s = [] then tr_object_uid v else se_object_uid s)"
        "se_runtime_id (mergeSet s v m) = (if se_runtime_id s = [] then tr_runtime_id v else se_runtime_id s)"
        "se_generation s \<le> se_generation (mergeSet s v m)" "tr_generation v \<le> se_generation (mergeSet s v m)"
        "set (se_roots s) \<subseteq> set (se_roots (mergeSet s v m))"
        "int (length (se_roots s)) \<le> m \<Longrightarrow> int (length (se_roots (mergeSet s v m))) \<le> m"
        "\<forall>r. tr_root v = Some r \<longrightarrow> (\<exists>x \<in> set (se_roots (mergeSet s v m)). sameRoot x r)"
proof (cases "se_full (merged_fields v s)")
  case True
  have "merge_root v m t = t" if "se_full t" for t using that by (rule merge_root_full)
  with True assms have "se_full (mergeSet s v m)" "se_roots (mergeSet s v m) = []"
    by (auto simp: mergeSet_def Let_def merged_fields_simps)
  then show thesis by (rule full)
next
  case False
  then have ms: "mergeSet s v m = merge_root v m (merged_fields v s)"
    by (simp add: mergeSet_def Let_def)
  have same: "sameRoot r r" for r by (simp add: sameRoot_def)
  have ok: "mergeable v s" "\<not> se_full s" using False by (simp_all add: merged_fields_simps)
  show thesis
  proof (cases "se_full (mergeSet s v m)")
    case True
    with False have "se_roots (mergeSet s v m) = []"
      unfolding ms by (auto simp: merge_root_def split: option.splits if_splits)
    with True show thesis by (rule full)
  next
    case False
    show thesis
    proof (rule more [OF False ok(2) ok(1)])
      show "set (se_roots s) \<subseteq> set (se_roots (mergeSet s v m))"
        using False unfolding ms by (auto simp: merge_root_def merged_fields_simps split: option.splits if_splits)
      show "\<forall>r. tr_root v = Some r \<longrightarrow> (\<exists>x \<in> set (se_roots (mergeSet s v m)). sameRoot x r)"
        using False same unfolding ms by (auto simp: merge_root_def split: option.splits if_splits)
      show "int (length (se_roots (mergeSet s v m))) \<le> m" if "int (length (se_roots s)) \<le> m"
        using False that unfolding ms by (auto simp: merge_root_def merged_fields_simps split: option.splits if_splits)
    qed (use ok merged_fields_generation in \<open>simp_all add: ms merged_fields_simps\<close>)
  qed
qed

lemma mergeSet_bounded: "0 < m \<Longrightarrow> set_bounded m s \<Longrightarrow> set_bounded m (mergeSet s v m)"
  unfolding set_bounded_def by (rule mergeSet_cases [of s v m]) auto

lemma mergeSet_covers_new: "set_bounded m s \<Longrightarrow> covers (mergeSet s v m) v"
proof -
  assume "set_bounded m s"
  then have "se_full s \<longrightarrow> se_roots s = []" by (simp add: set_bounded_def)
  then show ?thesis
  proof (cases rule: mergeSet_cases [of s v m, consumes 1, case_names full more])
    case full
    then show ?thesis by (simp add: covers_def)
  next
    case more
    then show ?thesis by (auto simp: covers_def mergeable_def)
  qed
qed

lemma mergeSet_covers_old:
  assumes "set_bounded m s" and old: "covers s u"
  shows "covers (mergeSet s v m) u"
proof -
  from assms(1) have "se_full s \<longrightarrow> se_roots s = []" by (simp add: set_bounded_def)
  then show ?thesis
  proof (cases rule: mergeSet_cases [of s v m, consumes 1, case_names full more])
    case full
    with old show ?thesis by (simp add: covers_def)
  next
    case more
    from old more(2) have u: "tr_kind u \<notin> {DesiredState, Periodic, []}" "tr_kind u \<in> se_kinds s"
      "tr_object_uid u \<in> {[], se_object_uid s}" "tr_runtime_id u \<in> {[], se_runtime_id s}"
      "tr_generation u \<le> se_generation s"
      "\<forall>r. tr_root u = Some r \<longrightarrow> (\<exists>x \<in> set (se_roots s). sameRoot x r)"
      by (auto simp: covers_def)
    from u(3) more(4) have "tr_object_uid u \<in> {[], se_object_uid (mergeSet s v m)}" by auto
    moreover from u(4) more(5) have "tr_runtime_id u \<in> {[], se_runtime_id (mergeSet s v m)}" by auto
    moreover from u(6) more(8) have "\<forall>r. tr_root u = Some r \<longrightarrow> (\<exists>x \<in> set (se_roots (mergeSet s v m)). sameRoot x r)"
      by blast
    ultimately show ?thesis using u(1,2,5) more(6) by (simp add: covers_def)
  qed
qed

section \<open>The accumulator with its caller\<close>

text \<open>
  The caller's side: \<open>sy_queue\<close> holds the keys that wait in the work queue, \<open>sy_owed\<close> the
  hints merged for a key since its last batch, \<open>sy_failed\<close> the keys whose wake-up could not be
  delivered. A saturated \<open>Merge\<close> hands its hint back in the fallback set.
\<close>

record trigger_sys =
  sy_acc :: accumulator
  sy_queue :: "trigger_key set"
  sy_owed :: "trigger_key \<Rightarrow> trigger list"
  sy_failed :: "trigger_key set"

definition trigger_init :: "trigger_config \<Rightarrow> trigger_sys" where
  "trigger_init config =
     \<lparr>sy_acc = NewAccumulator config, sy_queue = {}, sy_owed = (\<lambda>_. []), sy_failed = {}\<rparr>"

definition after_merge :: "trigger \<Rightarrow> merge_result \<Rightarrow> accumulator \<Rightarrow> trigger_sys \<Rightarrow> trigger_sys" where
  "after_merge v r a s =
     (let k = tr_key v; owe = (sy_owed s)(k := sy_owed s k @ [v]) in
      case mr_status r of
        MergeSaturated \<Rightarrow> s\<lparr>sy_acc := a\<rparr>
      | MergeCoalesced \<Rightarrow> s\<lparr>sy_acc := a, sy_owed := owe\<rparr>
      | MergeEnqueue \<Rightarrow> s\<lparr>sy_acc := a, sy_owed := owe, sy_queue := insert k (sy_queue s),
                          sy_failed := sy_failed s - {k}\<rparr>)"

inductive trigger_step :: "trigger_sys \<Rightarrow> trigger_sys \<Rightarrow> bool" where
  hint: "Accumulator_Merge v (sy_acc s) = (r, a) \<Longrightarrow> trigger_step s (after_merge v r a s)"
| take_batch: "k \<in> sy_queue s \<Longrightarrow> Accumulator_Take k (sy_acc s) = (Some batch, a) \<Longrightarrow>
     trigger_step s (s\<lparr>sy_acc := a, sy_queue := sy_queue s - {k}, sy_owed := (sy_owed s)(k := [])\<rparr>)"
| take_nothing: "k \<in> sy_queue s \<Longrightarrow> Accumulator_Take k (sy_acc s) = (None, a) \<Longrightarrow>
     trigger_step s (s\<lparr>sy_acc := a, sy_queue := sy_queue s - {k}\<rparr>)"
| finish: "Accumulator_Done k (sy_acc s) = (again, a) \<Longrightarrow>
     trigger_step s (s\<lparr>sy_acc := a, sy_queue := (if again then insert k (sy_queue s) else sy_queue s)\<rparr>)"
| wakeup_failed: "k \<in> sy_queue s \<Longrightarrow> Accumulator_WakeupFailed k (sy_acc s) = (done, a) \<Longrightarrow>
     trigger_step s (s\<lparr>sy_acc := a, sy_queue := sy_queue s - {k}, sy_failed := insert k (sy_failed s)\<rparr>)"

inductive_cases trigger_stepE: "trigger_step s t"

definition entry_ok :: "int \<Rightarrow> bool \<Rightarrow> trigger list \<Rightarrow> bool \<Rightarrow> trigger_key \<Rightarrow> entry \<Rightarrow> bool" where
  "entry_ok m queue owed failed k e \<longleftrightarrow>
     se_key (en_pending e) = k \<and> set_bounded m (en_pending e) \<and>
     (\<forall>v \<in> set owed. covers (en_pending e) v) \<and>
     \<not> (en_processing e \<and> en_queued e) \<and> (en_queued e \<longleftrightarrow> queue) \<and>
     (en_processing e \<or> \<not> setEmpty (en_pending e)) \<and>
     (en_processing e \<or> en_queued e \<or> failed)"

definition key_ok :: "trigger_sys \<Rightarrow> trigger_key \<Rightarrow> bool" where
  "key_ok s k \<longleftrightarrow>
     (case Mapping.lookup (ac_entries (sy_acc s)) k of
        None \<Rightarrow> k \<notin> sy_queue s \<and> sy_owed s k = []
      | Some e \<Rightarrow> entry_ok (ac_max_roots (sy_acc s)) (k \<in> sy_queue s) (sy_owed s k) (k \<in> sy_failed s) k e)"

definition acc_bounded :: "accumulator \<Rightarrow> bool" where
  "acc_bounded a \<longleftrightarrow> 0 < ac_max_keys a \<and> 0 < ac_max_roots a \<and> finite (Mapping.keys (ac_entries a)) \<and>
     int (Mapping.size (ac_entries a)) \<le> ac_max_keys a"

definition sys_inv :: "trigger_sys \<Rightarrow> bool" where
  "sys_inv s \<longleftrightarrow> acc_bounded (sy_acc s) \<and> (\<forall>k. key_ok s k)"

lemma sys_inv_init: "sys_inv (trigger_init config)"
  by (simp add: sys_inv_def trigger_init_def key_ok_def acc_bounded_def NewAccumulator_def lookup_empty)

lemma empty_set_facts: "set_bounded m (emptySet k) \<longleftrightarrow> 0 \<le> m" "se_key (emptySet k) = k" "setEmpty (emptySet k)"
  by (simp_all add: set_bounded_def emptySet_def setEmpty_def)

lemma covers_not_empty: "covers s v \<Longrightarrow> \<not> setEmpty s"
  by (auto simp: covers_def setEmpty_def)

text \<open>An operation on one key leaves every other key as it was.\<close>

lemma acc_bounded_update:
  "acc_bounded a \<Longrightarrow> k \<in> Mapping.keys (ac_entries a) \<or> int (Mapping.size (ac_entries a)) < ac_max_keys a \<Longrightarrow>
   acc_bounded (a\<lparr>ac_entries := Mapping.update k e (ac_entries a)\<rparr>)"
  by (auto simp: acc_bounded_def size_update)

lemma acc_bounded_delete: "acc_bounded a \<Longrightarrow> acc_bounded (a\<lparr>ac_entries := Mapping.delete k (ac_entries a)\<rparr>)"
  by (auto simp: acc_bounded_def size_delete)

lemma lookup_in_keys: "Mapping.lookup m k = Some e \<Longrightarrow> k \<in> Mapping.keys m"
  by (simp add: keys_is_none_rep)

definition same_elsewhere :: "trigger_key \<Rightarrow> trigger_sys \<Rightarrow> trigger_sys \<Rightarrow> bool" where
  "same_elsewhere k s t \<longleftrightarrow> ac_max_roots (sy_acc t) = ac_max_roots (sy_acc s) \<and>
     (\<forall>k'. k' \<noteq> k \<longrightarrow> Mapping.lookup (ac_entries (sy_acc t)) k' = Mapping.lookup (ac_entries (sy_acc s)) k' \<and>
        (k' \<in> sy_queue t \<longleftrightarrow> k' \<in> sy_queue s) \<and> sy_owed t k' = sy_owed s k' \<and>
        (k' \<in> sy_failed t \<longleftrightarrow> k' \<in> sy_failed s))"

lemma sys_inv_at:
  assumes "sys_inv s" and "same_elsewhere k s t" and "acc_bounded (sy_acc t)" and "key_ok t k"
  shows "sys_inv t"
proof -
  have "key_ok t k'" if "k' \<noteq> k" for k'
  proof -
    from assms(2) that have eqs: "ac_max_roots (sy_acc t) = ac_max_roots (sy_acc s)"
      "Mapping.lookup (ac_entries (sy_acc t)) k' = Mapping.lookup (ac_entries (sy_acc s)) k'"
      "(k' \<in> sy_queue t) = (k' \<in> sy_queue s)" "sy_owed t k' = sy_owed s k'"
      "(k' \<in> sy_failed t) = (k' \<in> sy_failed s)"
      unfolding same_elsewhere_def by blast+
    from assms(1) have "key_ok s k'" by (simp add: sys_inv_def)
    then show ?thesis unfolding key_ok_def eqs .
  qed
  with assms(3,4) show ?thesis unfolding sys_inv_def by metis
qed

lemma sys_inv_acc: "sys_inv s \<Longrightarrow> acc_bounded (sy_acc s)"
  by (simp add: sys_inv_def)

lemma sys_inv_entry:
  assumes "sys_inv s" and "Mapping.lookup (ac_entries (sy_acc s)) k = Some e"
  shows "entry_ok (ac_max_roots (sy_acc s)) (k \<in> sy_queue s) (sy_owed s k) (k \<in> sy_failed s) k e"
  using assms by (auto simp: sys_inv_def key_ok_def split: option.splits dest: spec [of _ k])

lemma sys_inv_no_entry:
  assumes "sys_inv s" and "Mapping.lookup (ac_entries (sy_acc s)) k = None"
  shows "k \<notin> sy_queue s \<and> sy_owed s k = []"
  using assms by (auto simp: sys_inv_def key_ok_def split: option.splits dest: spec [of _ k])

text \<open>\<open>Merge\<close>, from the entry it finds or makes.\<close>

lemma entry_ok_merge:
  assumes "entry_ok m q owed failed (tr_key v) e" and "0 < m"
    and "e' = e\<lparr>en_pending := mergeSet (en_pending e) v m\<rparr>"
  shows "en_processing e' \<or> en_queued e' \<Longrightarrow> entry_ok m q (owed @ [v]) failed (tr_key v) e'"
    and "\<not> en_processing e' \<Longrightarrow> entry_ok m True (owed @ [v]) failed' (tr_key v) (e'\<lparr>en_queued := True\<rparr>)"
proof -
  have bounded: "set_bounded m (mergeSet (en_pending e) v m)"
    using mergeSet_bounded [OF assms(2)] assms(1) by (simp add: entry_ok_def)
  have cov: "\<forall>u \<in> set (owed @ [v]). covers (mergeSet (en_pending e) v m) u"
    using mergeSet_covers_new mergeSet_covers_old assms(1) by (simp add: entry_ok_def)
  then have "\<not> setEmpty (mergeSet (en_pending e) v m)" using covers_not_empty by auto
  with bounded cov assms show
    "en_processing e' \<or> en_queued e' \<Longrightarrow> entry_ok m q (owed @ [v]) failed (tr_key v) e'"
    "\<not> en_processing e' \<Longrightarrow> entry_ok m True (owed @ [v]) failed' (tr_key v) (e'\<lparr>en_queued := True\<rparr>)"
    by (auto simp: entry_ok_def)
qed

lemma sys_inv_merge_entry:
  assumes inv: "sys_inv s" and "k = tr_key v"
    and e: "entry_ok (ac_max_roots (sy_acc s)) (k \<in> sy_queue s) (sy_owed s k) (k \<in> sy_failed s) k e"
    and room: "k \<in> Mapping.keys (ac_entries (sy_acc s)) \<or>
       int (Mapping.size (ac_entries (sy_acc s))) < ac_max_keys (sy_acc s)"
    and e': "e' = e\<lparr>en_pending := mergeSet (en_pending e) v (ac_max_roots (sy_acc s))\<rparr>"
    and res: "(r, a) = (if en_processing e' \<or> en_queued e'
             then (\<lparr>mr_status = MergeCoalesced, mr_fallback = None\<rparr>,
                   (sy_acc s)\<lparr>ac_entries := Mapping.update k e' (ac_entries (sy_acc s))\<rparr>)
             else (\<lparr>mr_status = MergeEnqueue, mr_fallback = None\<rparr>,
                   (sy_acc s)\<lparr>ac_entries := Mapping.update k (e'\<lparr>en_queued := True\<rparr>) (ac_entries (sy_acc s))\<rparr>))"
  shows "sys_inv (after_merge v r a s)"
proof -
  have pos: "0 < ac_max_roots (sy_acc s)" using sys_inv_acc [OF inv] by (simp add: acc_bounded_def)
  have bounded: "acc_bounded ((sy_acc s)\<lparr>ac_entries := Mapping.update k x (ac_entries (sy_acc s))\<rparr>)" for x
    by (rule acc_bounded_update [OF sys_inv_acc [OF inv] room])
  note m = entry_ok_merge [OF e [unfolded assms(2)] pos e']
  show ?thesis
  proof (cases "en_processing e' \<or> en_queued e'")
    case True
    with res have r: "r = \<lparr>mr_status = MergeCoalesced, mr_fallback = None\<rparr>"
      "a = (sy_acc s)\<lparr>ac_entries := Mapping.update k e' (ac_entries (sy_acc s))\<rparr>" by simp_all
    have "entry_ok (ac_max_roots (sy_acc s)) (k \<in> sy_queue s) (sy_owed s k @ [v]) (k \<in> sy_failed s) k e'"
      using m(1) [OF True] True assms(2) by (auto simp: entry_ok_def)
    then have "key_ok (after_merge v r a s) k"
      by (simp add: key_ok_def after_merge_def r assms(2) Let_def)
    moreover have "same_elsewhere k s (after_merge v r a s)"
      by (auto simp: same_elsewhere_def after_merge_def r assms(2) Let_def lookup_update')
    ultimately show ?thesis
      using sys_inv_at [OF inv, of k] bounded by (simp add: after_merge_def r Let_def)
  next
    case False
    with res have r: "r = \<lparr>mr_status = MergeEnqueue, mr_fallback = None\<rparr>"
      "a = (sy_acc s)\<lparr>ac_entries := Mapping.update k (e'\<lparr>en_queued := True\<rparr>) (ac_entries (sy_acc s))\<rparr>" by simp_all
    have "entry_ok (ac_max_roots (sy_acc s)) True (sy_owed s k @ [v]) False k (e'\<lparr>en_queued := True\<rparr>)"
      using m(2) False assms(2) by simp
    then have "key_ok (after_merge v r a s) k"
      by (simp add: key_ok_def after_merge_def r assms(2) Let_def)
    moreover have "same_elsewhere k s (after_merge v r a s)"
      by (auto simp: same_elsewhere_def after_merge_def r assms(2) Let_def lookup_update')
    ultimately show ?thesis
      using sys_inv_at [OF inv, of k] bounded by (simp add: after_merge_def r Let_def)
  qed
qed

lemma sys_inv_merge:
  assumes inv: "sys_inv s" and run: "Accumulator_Merge v (sy_acc s) = (r, a)"
  shows "sys_inv (after_merge v r a s)"
proof (cases "Mapping.lookup (ac_entries (sy_acc s)) (tr_key v)")
  case (Some e)
  show ?thesis
    by (rule sys_inv_merge_entry [OF inv refl sys_inv_entry [OF inv Some] _ refl])
       (use run Some lookup_in_keys [OF Some] in \<open>simp_all add: Accumulator_Merge_def Let_def\<close>)
next
  case None
  let ?e = "\<lparr>en_pending = emptySet (tr_key v), en_processing = False, en_queued = False\<rparr>"
  show ?thesis
  proof (cases "ac_max_keys (sy_acc s) \<le> int (Mapping.size (ac_entries (sy_acc s)))")
    case True
    with run None have "mr_status r = MergeSaturated" "a = sy_acc s"
      by (auto simp: Accumulator_Merge_def Let_def)
    with inv show ?thesis by (simp add: after_merge_def Let_def)
  next
    case False
    have fresh: "tr_key v \<notin> sy_queue s" "sy_owed s (tr_key v) = []"
      using sys_inv_no_entry [OF inv None] by simp_all
    have pos: "0 < ac_max_roots (sy_acc s)" using sys_inv_acc [OF inv] by (simp add: acc_bounded_def)
    \<comment> \<open>the empty entry is not yet a good one: only its merged form is\<close>
    let ?e' = "?e\<lparr>en_pending := mergeSet (emptySet (tr_key v)) v (ac_max_roots (sy_acc s)), en_queued := True\<rparr>"
    from run None False have r: "mr_status r = MergeEnqueue"
      "a = (sy_acc s)\<lparr>ac_entries := Mapping.update (tr_key v) ?e' (ac_entries (sy_acc s))\<rparr>"
      by (auto simp: Accumulator_Merge_def Let_def)
    have e0: "set_bounded (ac_max_roots (sy_acc s)) (emptySet (tr_key v))" using pos by (simp add: empty_set_facts)
    have "covers (mergeSet (emptySet (tr_key v)) v (ac_max_roots (sy_acc s))) v"
      by (rule mergeSet_covers_new [OF e0])
    with mergeSet_bounded [OF pos e0] covers_not_empty
    have "entry_ok (ac_max_roots (sy_acc s)) True [v] False (tr_key v) ?e'"
      by (auto simp: entry_ok_def empty_set_facts)
    then have "key_ok (after_merge v r a s) (tr_key v)"
      using fresh by (simp add: key_ok_def after_merge_def r Let_def)
    moreover have "same_elsewhere (tr_key v) s (after_merge v r a s)"
      by (auto simp: same_elsewhere_def after_merge_def r Let_def lookup_update')
    moreover have "acc_bounded (sy_acc (after_merge v r a s))"
      using acc_bounded_update [OF sys_inv_acc [OF inv]] False by (simp add: after_merge_def r Let_def)
    ultimately show ?thesis using sys_inv_at [OF inv] by blast
  qed
qed

text \<open>
  A key taken from the queue always yields a batch: a queued key has an entry that is not
  being processed.
\<close>

lemma take_spec:
  assumes inv: "sys_inv s" and k: "k \<in> sy_queue s"
  obtains e where "Mapping.lookup (ac_entries (sy_acc s)) k = Some e" "\<not> en_processing e" "en_queued e"
    and "Accumulator_Take k (sy_acc s) =
       (Some (en_pending e), (sy_acc s)\<lparr>ac_entries := Mapping.update k
          \<lparr>en_pending = emptySet k, en_processing = True, en_queued = False\<rparr> (ac_entries (sy_acc s))\<rparr>)"
proof -
  from sys_inv_no_entry [OF inv, of k] k obtain e where e: "Mapping.lookup (ac_entries (sy_acc s)) k = Some e"
    by fastforce
  with sys_inv_entry [OF inv e] k have "\<not> en_processing e" "en_queued e" by (auto simp: entry_ok_def)
  with e show thesis by (intro that) (simp_all add: Accumulator_Take_def cloneSet_def)
qed

lemma sys_inv_take:
  assumes inv: "sys_inv s" and k: "k \<in> sy_queue s" and run: "Accumulator_Take k (sy_acc s) = (batch, a)"
  shows "sys_inv (s\<lparr>sy_acc := a, sy_queue := sy_queue s - {k}, sy_owed := (sy_owed s)(k := [])\<rparr>)" (is "sys_inv ?t")
    and "batch \<noteq> None"
proof -
  from take_spec [OF inv k] obtain e where e: "Mapping.lookup (ac_entries (sy_acc s)) k = Some e"
    and take: "Accumulator_Take k (sy_acc s) = (Some (en_pending e), (sy_acc s)\<lparr>ac_entries := Mapping.update k
          \<lparr>en_pending = emptySet k, en_processing = True, en_queued = False\<rparr> (ac_entries (sy_acc s))\<rparr>)"
    by blast
  with run have a: "a = (sy_acc s)\<lparr>ac_entries := Mapping.update k
          \<lparr>en_pending = emptySet k, en_processing = True, en_queued = False\<rparr> (ac_entries (sy_acc s))\<rparr>"
    and "batch = Some (en_pending e)" by simp_all
  then show "batch \<noteq> None" by simp
  have "0 < ac_max_roots (sy_acc s)" using sys_inv_acc [OF inv] by (simp add: acc_bounded_def)
  then have "key_ok ?t k" by (simp add: key_ok_def entry_ok_def a empty_set_facts)
  moreover have "same_elsewhere k s ?t" by (auto simp: same_elsewhere_def a lookup_update')
  moreover have "acc_bounded (sy_acc ?t)"
    using acc_bounded_update [OF sys_inv_acc [OF inv]] lookup_in_keys [OF e] by (simp add: a)
  ultimately show "sys_inv ?t" using sys_inv_at [OF inv] by blast
qed

lemma sys_inv_done:
  assumes inv: "sys_inv s" and run: "Accumulator_Done k (sy_acc s) = (again, a)"
  shows "sys_inv (s\<lparr>sy_acc := a, sy_queue := (if again then insert k (sy_queue s) else sy_queue s)\<rparr>)" (is "sys_inv ?t")
proof (cases "\<exists>e. Mapping.lookup (ac_entries (sy_acc s)) k = Some e \<and> en_processing e")
  case False
  with run have "again = False" "a = sy_acc s"
    by (auto simp: Accumulator_Done_def split: option.splits)
  with inv show ?thesis by simp
next
  case True
  then obtain e where e: "Mapping.lookup (ac_entries (sy_acc s)) k = Some e" and p: "en_processing e" by blast
  note ok = sys_inv_entry [OF inv e]
  from ok p have q: "\<not> en_queued e" "k \<notin> sy_queue s" by (auto simp: entry_ok_def)
  show ?thesis
  proof (cases "setEmpty (en_pending e)")
    case True
    with run e p have a: "again = False" "a = (sy_acc s)\<lparr>ac_entries := Mapping.delete k (ac_entries (sy_acc s))\<rparr>"
      by (auto simp: Accumulator_Done_def)
    have "sy_owed s k = []"
      using ok True covers_not_empty unfolding entry_ok_def by (cases "sy_owed s k") auto
    with q have "key_ok ?t k" by (simp add: key_ok_def a)
    moreover have "same_elsewhere k s ?t" by (auto simp: same_elsewhere_def a)
    moreover have "acc_bounded (sy_acc ?t)" using acc_bounded_delete [OF sys_inv_acc [OF inv]] by (simp add: a)
    ultimately show ?thesis using sys_inv_at [OF inv] by blast
  next
    case False
    with run e p q have a: "again = True"
      "a = (sy_acc s)\<lparr>ac_entries := Mapping.update k (e\<lparr>en_processing := False, en_queued := True\<rparr>) (ac_entries (sy_acc s))\<rparr>"
      by (auto simp: Accumulator_Done_def)
    have "key_ok ?t k" using ok False by (auto simp: key_ok_def entry_ok_def a)
    moreover have "same_elsewhere k s ?t" by (auto simp: same_elsewhere_def a lookup_update')
    moreover have "acc_bounded (sy_acc ?t)"
      using acc_bounded_update [OF sys_inv_acc [OF inv]] lookup_in_keys [OF e] by (simp add: a)
    ultimately show ?thesis using sys_inv_at [OF inv] by blast
  qed
qed

lemma sys_inv_wakeup_failed:
  assumes inv: "sys_inv s" and k: "k \<in> sy_queue s" and run: "Accumulator_WakeupFailed k (sy_acc s) = (done, a)"
  shows "sys_inv (s\<lparr>sy_acc := a, sy_queue := sy_queue s - {k}, sy_failed := insert k (sy_failed s)\<rparr>)" (is "sys_inv ?t")
proof -
  from take_spec [OF inv k] obtain e where e: "Mapping.lookup (ac_entries (sy_acc s)) k = Some e"
    and p: "\<not> en_processing e" "en_queued e" by blast
  with run have a: "a = (sy_acc s)\<lparr>ac_entries := Mapping.update k (e\<lparr>en_queued := False\<rparr>) (ac_entries (sy_acc s))\<rparr>"
    by (auto simp: Accumulator_WakeupFailed_def)
  have "key_ok ?t k" using sys_inv_entry [OF inv e] p by (auto simp: key_ok_def entry_ok_def a)
  moreover have "same_elsewhere k s ?t" by (auto simp: same_elsewhere_def a lookup_update')
  moreover have "acc_bounded (sy_acc ?t)"
    using acc_bounded_update [OF sys_inv_acc [OF inv]] lookup_in_keys [OF e] by (simp add: a)
  ultimately show ?thesis using sys_inv_at [OF inv] by blast
qed

lemma sys_inv_step: "trigger_step s t \<Longrightarrow> sys_inv s \<Longrightarrow> sys_inv t"
proof (induction rule: trigger_step.induct)
  case (take_nothing k s a)
  then show ?case using sys_inv_take(2) by blast
next
  case (finish k s again a)
  show ?case by (rule sys_inv_done [OF finish(2) finish(1)])
qed (auto intro: sys_inv_merge sys_inv_take(1) sys_inv_done sys_inv_wakeup_failed)

lemma sys_inv_reachable: "trigger_step\<^sup>*\<^sup>* (trigger_init config) s \<Longrightarrow> sys_inv s"
  by (induction rule: rtranclp_induct) (auto intro: sys_inv_init sys_inv_step)

section \<open>The properties\<close>

text \<open>
  C12. In every reachable state the accumulator holds at most \<open>MaxKeys\<close> entries; none is queued
  while it is processed, an idle entry has hints to deliver, a set has at most
  \<open>MaxRootsPerKey\<close> roots, and none once it requires a full reconciliation.
\<close>

theorem accumulator_invariant:
  assumes "trigger_step\<^sup>*\<^sup>* (trigger_init config) s"
  shows "int (Mapping.size (ac_entries (sy_acc s))) \<le> ac_max_keys (sy_acc s) \<and>
    (\<forall>k e. Mapping.lookup (ac_entries (sy_acc s)) k = Some e \<longrightarrow>
       \<not> (en_processing e \<and> en_queued e) \<and> (en_processing e \<or> \<not> setEmpty (en_pending e)) \<and>
       int (length (se_roots (en_pending e))) \<le> ac_max_roots (sy_acc s) \<and>
       (se_full (en_pending e) \<longrightarrow> se_roots (en_pending e) = []))"
proof -
  note inv = sys_inv_reachable [OF assms]
  have "entry_ok (ac_max_roots (sy_acc s)) (k \<in> sy_queue s) (sy_owed s k) (k \<in> sy_failed s) k e"
    if "Mapping.lookup (ac_entries (sy_acc s)) k = Some e" for k e
    using sys_inv_entry [OF inv that] .
  with sys_inv_acc [OF inv] show ?thesis unfolding acc_bounded_def entry_ok_def set_bounded_def by blast
qed

definition demo_hint :: "string \<Rightarrow> string \<Rightarrow> trigger" where
  "demo_hint kind uid =
     \<lparr>tr_key = \<lparr>tk_namespace = ''ns'', tk_name = ''task''\<rparr>, tr_kind = kind, tr_runtime_id = ''k8s'',
      tr_object_uid = uid, tr_generation = 1, tr_root = None\<rparr>"

definition demo_sys :: trigger_sys where
  "demo_sys =
     (let v = demo_hint RuntimeState ''u1''; s = trigger_init \<lparr>tc_max_keys = 0, tc_max_roots = 0\<rparr>;
          (r, a) = Accumulator_Merge v (sy_acc s)
      in after_merge v r a s)"

lemma demo_sys_reachable: "trigger_step\<^sup>*\<^sup>* (trigger_init \<lparr>tc_max_keys = 0, tc_max_roots = 0\<rparr>) demo_sys"
  unfolding demo_sys_def Let_def by (auto split: prod.split intro: r_into_rtranclp trigger_step.hint)

abbreviation demo_key :: trigger_key where
  "demo_key \<equiv> \<lparr>tk_namespace = ''ns'', tk_name = ''task''\<rparr>"

definition demo_entry :: entry where
  "demo_entry =
     \<lparr>en_pending = mergeSet (emptySet demo_key) (demo_hint RuntimeState ''u1'') 16, en_processing = False, en_queued = True\<rparr>"

lemma demo_sys_entry:
  "Mapping.lookup (ac_entries (sy_acc demo_sys)) demo_key = Some demo_entry"
  "demo_key \<in> sy_queue demo_sys" "sy_owed demo_sys demo_key = [demo_hint RuntimeState ''u1'']"
  by (simp_all add: demo_sys_def demo_entry_def demo_hint_def trigger_init_def NewAccumulator_def
      Accumulator_Merge_def after_merge_def Let_def)

theorem accumulator_invariant_witness:
  "Mapping.lookup (ac_entries (sy_acc demo_sys)) demo_key = Some demo_entry \<and>
   int (Mapping.size (ac_entries (sy_acc demo_sys))) \<le> ac_max_keys (sy_acc demo_sys) \<and>
   \<not> (en_processing demo_entry \<and> en_queued demo_entry) \<and> \<not> setEmpty (en_pending demo_entry) \<and>
   int (length (se_roots (en_pending demo_entry))) \<le> ac_max_roots (sy_acc demo_sys)"
proof -
  have "\<not> en_processing demo_entry" by (simp add: demo_entry_def)
  with accumulator_invariant [OF demo_sys_reachable] demo_sys_entry(1) show ?thesis by blast
qed

text \<open>
  C11. No hint is lost: in every reachable state a hint that no batch has delivered is covered
  by the pending set of its key, and its key waits in the queue, is being processed, or had a
  failed wake-up, after which the next \<open>Merge\<close> asks for the queue again. A key taken from the
  queue always yields a batch, and the batch covers every hint outstanding for the key: it
  requires a full reconciliation, or all of them concern its incarnation and Runtime and it
  holds their roots.
\<close>

theorem no_hint_lost:
  assumes "trigger_step\<^sup>*\<^sup>* (trigger_init config) s"
  shows "(\<forall>k. \<forall>v \<in> set (sy_owed s k). \<exists>e. Mapping.lookup (ac_entries (sy_acc s)) k = Some e \<and>
            covers (en_pending e) v \<and> (k \<in> sy_queue s \<or> en_processing e \<or> k \<in> sy_failed s)) \<and>
         (\<forall>k \<in> sy_queue s. \<exists>batch a. Accumulator_Take k (sy_acc s) = (Some batch, a) \<and> se_key batch = k \<and>
            (\<forall>v \<in> set (sy_owed s k). covers batch v)) \<and>
         (\<forall>v e. Mapping.lookup (ac_entries (sy_acc s)) (tr_key v) = Some e \<and> \<not> en_processing e \<and>
            tr_key v \<notin> sy_queue s \<longrightarrow> mr_status (fst (Accumulator_Merge v (sy_acc s))) = MergeEnqueue)"
proof (intro conjI allI ballI impI)
  note inv = sys_inv_reachable [OF assms]
  fix k v
  assume v: "v \<in> set (sy_owed s k)"
  then obtain e where e: "Mapping.lookup (ac_entries (sy_acc s)) k = Some e"
    using sys_inv_no_entry [OF inv, of k] by fastforce
  with sys_inv_entry [OF inv e] v show "\<exists>e. Mapping.lookup (ac_entries (sy_acc s)) k = Some e \<and>
      covers (en_pending e) v \<and> (k \<in> sy_queue s \<or> en_processing e \<or> k \<in> sy_failed s)"
    unfolding entry_ok_def by blast
next
  note inv = sys_inv_reachable [OF assms]
  fix k
  assume k: "k \<in> sy_queue s"
  from take_spec [OF inv k] obtain e a where "Mapping.lookup (ac_entries (sy_acc s)) k = Some e"
    and "Accumulator_Take k (sy_acc s) = (Some (en_pending e), a)" by metis
  with sys_inv_entry [OF inv, of k e] show "\<exists>batch a. Accumulator_Take k (sy_acc s) = (Some batch, a) \<and>
      se_key batch = k \<and> (\<forall>v \<in> set (sy_owed s k). covers batch v)"
    unfolding entry_ok_def by blast
next
  note inv = sys_inv_reachable [OF assms]
  fix v :: trigger and e
  assume e: "Mapping.lookup (ac_entries (sy_acc s)) (tr_key v) = Some e \<and> \<not> en_processing e \<and> tr_key v \<notin> sy_queue s"
  with sys_inv_entry [OF inv, of "tr_key v" e] have "\<not> en_queued e" by (simp add: entry_ok_def)
  with e show "mr_status (fst (Accumulator_Merge v (sy_acc s))) = MergeEnqueue"
    by (simp add: Accumulator_Merge_def Let_def)
qed

theorem no_hint_lost_witness:
  "(\<exists>e. Mapping.lookup (ac_entries (sy_acc demo_sys)) demo_key = Some e \<and>
      covers (en_pending e) (demo_hint RuntimeState ''u1'')) \<and>
   (\<exists>batch a. Accumulator_Take demo_key (sy_acc demo_sys) = (Some batch, a) \<and> se_key batch = demo_key \<and>
      covers batch (demo_hint RuntimeState ''u1''))"
proof -
  have "demo_hint RuntimeState ''u1'' \<in> set (sy_owed demo_sys demo_key)" by (simp add: demo_sys_entry(3))
  with no_hint_lost [OF demo_sys_reachable] demo_sys_entry(2) show ?thesis by blast
qed

end
