(* ===== verification/IP_Pool.thy ===== *)
theory IP_Pool
  imports Prelude
begin

unbundle bit_operations_syntax

text \<open>
  The address pool of a Domain (\<open>controllermanager/domain/ippool.go\<close>): the usable range of a
  CIDR prefix, marking and allocation. Addresses are the values of Go's \<open>netip.Addr\<close>, with the
  bits as machine words; the text forms of addresses and prefixes are a parameter, of which only
  the round trip through text is used. The scan of \<open>Allocate\<close> has no bound of its own, so it is a
  partial function, and the lemmas show that it ends on every pool that \<open>NewIPPool\<close> makes.
\<close>

section \<open>Addresses\<close>

text \<open>\<open>NoAddr\<close> is the zero \<open>netip.Addr\<close>; an IPv6 address may carry a zone.\<close>

datatype addr = NoAddr | Addr4 "32 word" | Addr6 "128 word" string

record prefix =
  pf_addr :: addr
  pf_bits :: nat

record netip =
  ni_parse_prefix :: "string \<Rightarrow> go_error + prefix"
  ni_parse_addr :: "string \<Rightarrow> addr option"
  ni_string :: "addr \<Rightarrow> string"

fun is4 :: "addr \<Rightarrow> bool" where
  "is4 (Addr4 _) = True"
| "is4 _ = False"

text \<open>\<open>Next\<close> and \<open>Prev\<close>: the zero \<open>Addr\<close> beyond either end.\<close>

fun addr_next :: "addr \<Rightarrow> addr" where
  "addr_next NoAddr = NoAddr"
| "addr_next (Addr4 w) = (if w + 1 = 0 then NoAddr else Addr4 (w + 1))"
| "addr_next (Addr6 w z) = (if w + 1 = 0 then NoAddr else Addr6 (w + 1) z)"

fun addr_prev :: "addr \<Rightarrow> addr" where
  "addr_prev NoAddr = NoAddr"
| "addr_prev (Addr4 w) = (if w = 0 then NoAddr else Addr4 (w - 1))"
| "addr_prev (Addr6 w z) = (if w = 0 then NoAddr else Addr6 (w - 1) z)"

definition clear_low :: "nat \<Rightarrow> 'a::len word \<Rightarrow> 'a word" where
  "clear_low h w = push_bit h (drop_bit h w)"

definition masked :: "prefix \<Rightarrow> prefix" where
  "masked p =
     (case pf_addr p of
        NoAddr \<Rightarrow> p
      | Addr4 w \<Rightarrow> p\<lparr>pf_addr := Addr4 (clear_low (32 - pf_bits p) w)\<rparr>
      | Addr6 w z \<Rightarrow> p\<lparr>pf_addr := Addr6 (clear_low (128 - pf_bits p) w) []\<rparr>)"

definition contains :: "prefix \<Rightarrow> addr \<Rightarrow> bool" where
  "contains p a =
     (case (pf_addr p, a) of
        (Addr4 x, Addr4 y) \<Rightarrow> drop_bit (32 - pf_bits p) x = drop_bit (32 - pf_bits p) y
      | (Addr6 x _, Addr6 y z) \<Rightarrow> z = [] \<and> drop_bit (128 - pf_bits p) x = drop_bit (128 - pf_bits p) y
      | _ \<Rightarrow> False)"

section \<open>The pool\<close>

record ip_pool =
  pl_cidr :: string
  pl_prefix :: prefix
  pl_first :: addr
  pl_last :: addr
  pl_allocated :: "string set"

text \<open>\<open>As16\<close> and \<open>AddrFrom16\<close>: sixteen bytes, the highest first.\<close>

definition as16 :: "128 word \<Rightarrow> 8 word list" where
  "as16 w = map (\<lambda>i. ucast (drop_bit (8 * (15 - i)) w)) [0..<16]"

definition from16 :: "8 word list \<Rightarrow> 128 word" where
  "from16 bs = foldl (\<lambda>acc b. push_bit 8 acc OR ucast b) 0 bs"

text \<open>The loop of \<open>lastAddr\<close> for IPv6 goes from the last byte to the first.\<close>

fun fill_host :: "nat \<Rightarrow> 8 word list \<Rightarrow> 8 word list" where
  "fill_host h [] = []"
| "fill_host h (b # bs) =
     (if h = 0 then b # bs
      else if h \<ge> 8 then 0xFF # fill_host (h - 8) bs
      else (b OR (push_bit h 1 - 1)) # bs)"

definition lastAddr :: "prefix \<Rightarrow> addr" where
  "lastAddr p =
     (case pf_addr p of
        NoAddr \<Rightarrow> NoAddr
      | Addr4 w \<Rightarrow> Addr4 (w OR drop_bit (pf_bits p) 0xFFFFFFFF)
      | Addr6 w z \<Rightarrow> Addr6 (from16 (rev (fill_host (128 - pf_bits p) (rev (as16 w))))) [])"

definition NewIPPool :: "netip \<Rightarrow> string \<Rightarrow> go_error + ip_pool" where
  "NewIPPool T cidr =
     (if cidr = [] then Inl (ErrText ''CIDR cannot be empty'')
      else case ni_parse_prefix T cidr of
        Inl e \<Rightarrow> Inl (ErrWrap (''invalid CIDR '' @ quoted cidr) e)
      | Inr parsed \<Rightarrow>
          (let p = masked parsed;
               first = pf_addr p;
               last = lastAddr p;
               bits = pf_bits p
           in Inr \<lparr>pl_cidr = cidr, pl_prefix = p,
                pl_first = (if is4 first then (if bits < 31 then addr_next first else first)
                            else if bits < 127 then addr_next first else first),
                pl_last = (if is4 first \<and> bits < 31 then addr_prev last else last),
                pl_allocated = {}\<rparr>))"

definition MarkAllocated :: "netip \<Rightarrow> ip_pool \<Rightarrow> string \<Rightarrow> ip_pool" where
  "MarkAllocated T p ip =
     (case ni_parse_addr T ip of
        None \<Rightarrow> p
      | Some a \<Rightarrow> if \<not> contains (pl_prefix p) a then p else p\<lparr>pl_allocated := insert ip (pl_allocated p)\<rparr>)"

definition isAutoAssignable :: "addr \<Rightarrow> bool" where
  "isAutoAssignable a =
     (case a of Addr4 w \<Rightarrow> (let octet = take_bit 8 w in octet \<noteq> 0 \<and> octet \<noteq> 255) | _ \<Rightarrow> True)"

definition exhausted :: "ip_pool \<Rightarrow> go_error" where
  "exhausted p = ErrText (''no available IP in pool '' @ pl_cidr p)"

partial_function (option) scan :: "netip \<Rightarrow> ip_pool \<Rightarrow> addr \<Rightarrow> (go_error + string) option" where
  "scan T p cur =
     (if isAutoAssignable cur \<and> ni_string T cur \<notin> pl_allocated p then Some (Inr (ni_string T cur))
      else if cur = pl_last p then Some (Inl (exhausted p))
      else scan T p (addr_next cur))"

declare scan.simps [simp del, code]

definition Allocate :: "netip \<Rightarrow> ip_pool \<Rightarrow> ((go_error + string) \<times> ip_pool) option" where
  "Allocate T p =
     map_option (\<lambda>r. (r, case r of Inl _ \<Rightarrow> p | Inr ip \<Rightarrow> p\<lparr>pl_allocated := insert ip (pl_allocated p)\<rparr>))
       (scan T p (pl_first p))"

definition PrefixLength :: "ip_pool \<Rightarrow> nat" where
  "PrefixLength p = pf_bits (pl_prefix p)"

section \<open>Ranges of words\<close>

text \<open>What the code relies on: a parsed prefix is well-formed, and text is read back.\<close>

definition valid_prefix :: "prefix \<Rightarrow> bool" where
  "valid_prefix p =
     (case pf_addr p of NoAddr \<Rightarrow> False | Addr4 _ \<Rightarrow> pf_bits p \<le> 32 | Addr6 _ z \<Rightarrow> z = [] \<and> pf_bits p \<le> 128)"

definition netip_ok :: "netip \<Rightarrow> bool" where
  "netip_ok T \<longleftrightarrow>
     (\<forall>s p. ni_parse_prefix T s = Inr p \<longrightarrow> valid_prefix p) \<and>
     (\<forall>s e. ni_parse_prefix T s = Inl e \<longrightarrow> no_panic e) \<and>
     (\<forall>w. ni_parse_addr T (ni_string T (Addr4 w)) = Some (Addr4 w)) \<and>
     (\<forall>w. ni_parse_addr T (ni_string T (Addr6 w [])) = Some (Addr6 w []))"

lemma unat_bound: "unat (w :: 'a::len word) < 2 ^ LENGTH('a)"
  by (rule unsigned_less)

lemma unat_drop_bit_div: "unat (drop_bit h w) = unat w div 2 ^ h"
  unfolding unat_drop_bit_eq by (rule drop_bit_eq_div)

lemma unat_clear_low: "unat (clear_low h w) = unat w div 2 ^ h * 2 ^ h"
proof -
  have "unat (clear_low h w) = take_bit LENGTH('a) (push_bit h (unat (drop_bit h (w :: 'a::len word))))"
    unfolding clear_low_def by (simp add: unsigned_push_bit_eq del: unat_drop_bit_eq)
  moreover have "unat w div 2 ^ h * 2 ^ h < 2 ^ LENGTH('a)"
    using unsigned_less [of w] by (rule order.strict_trans1 [OF div_times_less_eq_dividend])
  ultimately show ?thesis by (simp only: unat_drop_bit_div push_bit_eq_mult take_bit_nat_eq_self)
qed

lemma drop_bit_word_eq: "drop_bit h x = drop_bit h y \<longleftrightarrow> unat x div 2 ^ h = unat y div 2 ^ h"
  by (simp only: word_unat_eq_iff unat_drop_bit_div)

lemma unat_mask: "h \<le> LENGTH('a) \<Longrightarrow> unat (mask h :: 'a::len word) = 2 ^ h - 1"
proof -
  assume h: "h \<le> LENGTH('a)"
  have "int (unat (mask h :: 'a word)) = mask (min LENGTH('a) h)" by (simp only: uint_mask_eq [symmetric]) simp
  also have "\<dots> = int (2 ^ h - 1)" using h by (simp add: min_def mask_eq_exp_minus_1 of_nat_diff)
  finally show ?thesis by linarith
qed

lemma block_bound:
  fixes w :: "'a::len word"
  assumes "h \<le> LENGTH('a)"
  shows "unat (clear_low h w) + 2 ^ h \<le> 2 ^ LENGTH('a)"
proof -
  obtain d where d: "LENGTH('a) = h + d" using assms le_Suc_ex by blast
  have "unat w < 2 ^ h * 2 ^ d" using unsigned_less [of w] by (simp add: d power_add)
  then have "unat w div 2 ^ h < 2 ^ d" by (simp add: less_mult_imp_div_less mult.commute)
  then have "Suc (unat w div 2 ^ h) * 2 ^ h \<le> 2 ^ d * 2 ^ h" by (intro mult_le_mono1) simp
  then show ?thesis by (simp add: unat_clear_low d power_add algebra_simps)
qed

lemma unat_fill_low:
  fixes w :: "'a::len word"
  assumes "h \<le> LENGTH('a)"
  shows "unat (clear_low h w OR mask h) = unat (clear_low h w) + (2 ^ h - 1)"
proof -
  have "clear_low h w OR mask h = clear_low h w + mask h"
    by (rule disjunctive_add [symmetric]) (auto simp: clear_low_def bit_simps)
  moreover have "unat (clear_low h w) + (2 ^ h - 1) < 2 ^ LENGTH('a)"
  proof -
    have "0 < (2 :: nat) ^ h" by simp
    with block_bound [OF assms, of w] show ?thesis by linarith
  qed
  ultimately show ?thesis by (simp add: unat_word_ariths(1) unat_mask [OF assms])
qed

lemma host_mask4: "b \<le> 32 \<Longrightarrow> drop_bit b (0xFFFFFFFF :: 32 word) = mask (32 - b)"
proof -
  assume b: "b \<le> 32"
  have "(0xFFFFFFFF :: 32 word) = mask 32" by (simp add: mask_eq_exp_minus_1)
  moreover have "drop_bit b (mask 32 :: 32 word) = mask (32 - b)"
    by (rule bit_word_eqI) (use b in \<open>auto simp: bit_drop_bit_eq bit_mask_iff\<close>)
  ultimately show ?thesis by simp
qed

lemma in_block:
  fixes w x :: "'a::len word"
  assumes "h \<le> LENGTH('a)"
  shows "drop_bit h (clear_low h w) = drop_bit h x \<longleftrightarrow>
    unat (clear_low h w) \<le> unat x \<and> unat x \<le> unat (clear_low h w OR mask h)"
proof -
  have "k = n div 2 ^ h \<longleftrightarrow> k * 2 ^ h \<le> n \<and> n \<le> k * 2 ^ h + (2 ^ h - 1)" for n k :: nat
  proof -
    have "0 < (2 :: nat) ^ h" by simp
    then have "k = n div 2 ^ h \<longleftrightarrow> k \<le> n div 2 ^ h \<and> n div 2 ^ h < Suc k" by auto
    also have "\<dots> \<longleftrightarrow> k * 2 ^ h \<le> n \<and> n < Suc k * 2 ^ h"
      by (simp add: less_eq_div_iff_mult_less_eq div_less_iff_less_mult)
    also have "\<dots> \<longleftrightarrow> k * 2 ^ h \<le> n \<and> n \<le> k * 2 ^ h + (2 ^ h - 1)"
      using \<open>0 < (2 :: nat) ^ h\<close> by (simp only: mult_Suc) linarith
    finally show ?thesis .
  qed
  from this [of "unat w div 2 ^ h" "unat x"] show ?thesis
    unfolding drop_bit_word_eq unat_fill_low [OF assms] unat_clear_low by simp
qed


section \<open>The last IPv6 address\<close>

lemma bit_from16:
  "length bs \<le> 16 \<Longrightarrow> bit (from16 bs) n \<longleftrightarrow> n < 8 * length bs \<and> bit (bs ! (length bs - 1 - n div 8)) (n mod 8)"
proof (induction bs arbitrary: n rule: rev_induct)
  case Nil
  then show ?case by (simp add: from16_def)
next
  case (snoc b bs)
  have step: "from16 (bs @ [b]) = push_bit 8 (from16 bs) OR ucast b" by (simp add: from16_def)
  show ?case
  proof (cases "n < 8")
    case True
    then show ?thesis unfolding step by (simp add: bit_simps nth_append)
  next
    case False
    then have n: "n div 8 = Suc ((n - 8) div 8)" "n mod 8 = (n - 8) mod 8"
      by (simp_all add: le_div_geq le_mod_geq)
    have b: "\<not> bit b n" using False bit_imp_le_length [of b n] by auto
    show ?thesis
      unfolding step using False snoc.prems snoc.IH [of "n - 8"] b
      by (auto simp: bit_simps n nth_append less_imp_le)
  qed
qed

lemma fill_host_nth:
  "length (fill_host h bs) = length bs"
  "i < length bs \<Longrightarrow> k < 8 \<Longrightarrow> bit (fill_host h bs ! i) k \<longleftrightarrow> bit (bs ! i) k \<or> 8 * i + k < h"
proof (induction h bs arbitrary: i rule: fill_host.induct)
  case (2 h b bs)
  { case 1 then show ?case using 2 by simp }
  { case 2
    have low: "bit (b OR (push_bit h 1 - 1)) k \<longleftrightarrow> bit b k \<or> k < h" if "h < 8"
    proof -
      have "(push_bit h 1 - 1 :: 8 word) = mask h" by (simp add: mask_eq_exp_minus_1 push_bit_of_1)
      then show ?thesis using \<open>k < 8\<close> by (simp add: bit_simps)
    qed
    show ?case
    proof (cases i)
      case 0
      have "bit (0xFF :: 8 word) k" using \<open>k < 8\<close>
      proof -
        have "(0xFF :: 8 word) = mask 8" by (simp add: mask_eq_exp_minus_1)
        show ?thesis unfolding \<open>0xFF = mask 8\<close> bit_mask_iff using \<open>k < 8\<close> by simp
      qed
      with 0 low \<open>k < 8\<close> show ?thesis by auto
    next
      case (Suc j)
      with 2 "2.IH"(2) [of j] show ?thesis by auto
    qed }
qed simp_all

lemma last_address6: "h \<le> 128 \<Longrightarrow> from16 (rev (fill_host h (rev (as16 w)))) = w OR mask h"
proof (rule bit_word_eqI)
  fix n
  assume h: "h \<le> 128" and "n < LENGTH(128)"
  then have n: "n < 128" "n div 8 < 16" by auto
  let ?F = "fill_host h (rev (as16 w))"
  have len: "length ?F = 16" by (simp add: fill_host_nth(1) as16_def)
  have "rev (as16 w) ! (n div 8) = ucast (drop_bit (8 * (n div 8)) w)"
  proof -
    have "rev (as16 w) ! i = ucast (drop_bit (8 * i) w)" if "i < 16" for i
    proof -
      have "[0..<16] ! (15 - i) = 15 - i" by (rule trans [OF nth_upt]) simp_all
      with that show ?thesis by (simp add: as16_def rev_nth)
    qed
    then show ?thesis using n by blast
  qed
  then have byte: "bit (rev (as16 w) ! (n div 8)) (n mod 8) \<longleftrightarrow> bit w n"
    by (simp add: bit_simps)
  have "bit (from16 (rev ?F)) n \<longleftrightarrow> bit (?F ! (n div 8)) (n mod 8)"
    using n len by (simp add: bit_from16 rev_nth)
  also have "\<dots> \<longleftrightarrow> bit w n \<or> n < h"
    using n byte by (subst fill_host_nth(2)) (simp_all add: as16_def)
  finally show "bit (from16 (rev ?F)) n \<longleftrightarrow> bit (w OR mask h) n" using n by (simp add: bit_simps)
qed

section \<open>Usable addresses\<close>

text \<open>The addresses from the first to the last of a pool, and those that the scan hands out.\<close>

definition pool_addrs :: "ip_pool \<Rightarrow> addr list" where
  "pool_addrs p =
     (case (pl_first p, pl_last p) of
        (Addr4 a, Addr4 b) \<Rightarrow> map (\<lambda>n. Addr4 (word_of_nat n)) [unat a ..< Suc (unat b)]
      | (Addr6 a _, Addr6 b _) \<Rightarrow> map (\<lambda>n. Addr6 (word_of_nat n) []) [unat a ..< Suc (unat b)]
      | _ \<Rightarrow> [])"

text \<open>
  The usable addresses of a masked prefix: all of it, without the network and broadcast addresses of an
  IPv4 prefix shorter than 31 bits and the subnet-router anycast address of an IPv6 prefix shorter
  than 127 bits.
\<close>

definition usable :: "prefix \<Rightarrow> addr \<Rightarrow> bool" where
  "usable p a \<longleftrightarrow> contains p a \<and>
     (if is4 a then pf_bits p \<ge> 31 \<or> (a \<noteq> pf_addr p \<and> a \<noteq> lastAddr p)
      else pf_bits p \<ge> 127 \<or> a \<noteq> pf_addr p)"

text \<open>A scan over a chain of successors that ends at the last address looks at each of them once.\<close>

fun chain :: "addr list \<Rightarrow> bool" where
  "chain (a # b # xs) \<longleftrightarrow> b = addr_next a \<and> chain (b # xs)"
| "chain _ \<longleftrightarrow> True"

lemma scan_chain:
  assumes "chain xs" and "xs \<noteq> []" and "last xs = pl_last p" and "distinct xs"
  shows "scan T p (hd xs) =
    Some (case find (\<lambda>a. isAutoAssignable a \<and> ni_string T a \<notin> pl_allocated p) xs of
            None \<Rightarrow> Inl (exhausted p) | Some a \<Rightarrow> Inr (ni_string T a))"
  using assms
proof (induction xs rule: chain.induct)
  case (1 a b xs)
  have "a \<noteq> pl_last p" 
  proof -
    have "pl_last p \<in> set (b # xs)" using last_in_set [of "b # xs"] 1(4) by (simp split: if_splits)
    then show ?thesis using 1(5) by auto
  qed
  moreover have "addr_next a = b" using 1(2) by simp
  ultimately have step: "scan T p a = (if isAutoAssignable a \<and> ni_string T a \<notin> pl_allocated p then Some (Inr (ni_string T a)) else scan T p b)"
    using scan.simps [of T p a] by simp
  have "scan T p b = Some (case find (\<lambda>a. isAutoAssignable a \<and> ni_string T a \<notin> pl_allocated p) (b # xs) of
      None \<Rightarrow> Inl (exhausted p) | Some a \<Rightarrow> Inr (ni_string T a))"
  proof -
    have "chain (b # xs)" using iffD1 [OF chain.simps(1) 1(2)] by (rule conjunct2)
    moreover have "last (b # xs) = pl_last p" using 1(4) by simp
    moreover have "distinct (b # xs)" using 1(5) by simp
    ultimately show ?thesis using 1(1) [OF _ list.distinct(2)] unfolding list.sel by blast
  qed
  then show ?case using step by (simp del: find.simps add: find.simps(2) [of _ a])
qed (simp_all add: scan.simps)

lemma chain_words:
  "(\<And>n. l \<le> n \<Longrightarrow> Suc n < u \<Longrightarrow> addr_next (f n) = f (Suc n)) \<Longrightarrow> chain (map f [l ..< u])"
proof (induction "u - l" arbitrary: l)
  case (Suc k)
  show ?case
  proof (cases "Suc l < u")
    case True
    then have "[l ..< u] = l # Suc l # [Suc (Suc l) ..< u]" by (simp add: upt_conv_Cons)
    moreover have "chain (map f [Suc l ..< u])" using Suc by (intro Suc.hyps(1)) auto
    ultimately show ?thesis using True Suc.prems [of l] by (simp add: upt_conv_Cons)
  next
    case False
    with Suc show ?thesis by (cases "l < u") (auto simp: upt_conv_Cons)
  qed
qed simp

lemma word_range:
  fixes a b :: "'a::len word" and f :: "'a word \<Rightarrow> addr"
  assumes next_f: "\<And>w. w + 1 \<noteq> 0 \<Longrightarrow> addr_next (f w) = f (w + 1)" and inj_f: "inj f" and ab: "unat a \<le> unat b"
  defines "xs \<equiv> map (\<lambda>n. f (word_of_nat n)) [unat a ..< Suc (unat b)]"
  shows "chain xs \<and> xs \<noteq> [] \<and> hd xs = f a \<and> last xs = f b \<and> distinct xs \<and>
    set xs = f ` {w. unat a \<le> unat w \<and> unat w \<le> unat b}"
proof -
  have small: "unat (word_of_nat n :: 'a word) = n" if "n \<le> unat b" for n
    
  proof -
    have "n < 2 ^ LENGTH('a)" using that unat_bound [of b] by linarith
    then show ?thesis by (simp add: unsigned_of_nat take_bit_nat_eq_self)
  qed
  have "chain xs"
    unfolding xs_def
  proof (rule chain_words)
    fix n
    assume "Suc n < Suc (unat b)"
    then have "unat (word_of_nat (Suc n) :: 'a word) = Suc n" by (intro small) simp
    then have "(word_of_nat n + 1 :: 'a word) \<noteq> 0" by (metis of_nat_Suc add.commute unat_0 nat.distinct(1))
    then show "addr_next (f (word_of_nat n)) = f (word_of_nat (Suc n))" by (simp add: next_f add.commute)
  qed
  moreover have "distinct xs"
    unfolding xs_def distinct_map
  proof (intro conjI inj_onI)
    fix x y
    assume "x \<in> set [unat a..<Suc (unat b)]" "y \<in> set [unat a..<Suc (unat b)]" "f (word_of_nat x) = f (word_of_nat y)"
    then have "unat (word_of_nat x :: 'a word) = unat (word_of_nat y :: 'a word)" "x \<le> unat b" "y \<le> unat b"
      using inj_f by (auto dest: injD)
    then show "x = y" by (simp add: small)
  qed simp
  moreover have "set xs = f ` {w. unat a \<le> unat w \<and> unat w \<le> unat b}"
  proof -
    have "word_of_nat ` {unat a ..< Suc (unat b)} = {w :: 'a word. unat a \<le> unat w \<and> unat w \<le> unat b}"
    proof (intro equalityI subsetI)
      fix w :: "'a word"
      assume "w \<in> {w. unat a \<le> unat w \<and> unat w \<le> unat b}"
      then show "w \<in> word_of_nat ` {unat a ..< Suc (unat b)}" by (intro image_eqI [of _ _ "unat w"]) auto
    qed (auto simp: small)
    then show ?thesis unfolding xs_def set_map set_upt image_image [symmetric, of f word_of_nat] by (rule arg_cong)
  qed
  moreover have "hd xs = f a" using ab unfolding xs_def by (subst upt_conv_Cons) simp_all
  moreover have "last xs = f b" "xs \<noteq> []" using ab by (simp_all add: xs_def)
  ultimately show ?thesis by blast
qed

text \<open>The first and last addresses that remain when the ends of a block are cut off.\<close>

lemma block_ends:
  fixes w :: "'a::len word"
  assumes "h \<le> LENGTH('a)" and "2 \<le> h"
  defines "N \<equiv> clear_low h w" and "L \<equiv> clear_low h w OR mask h"
  shows "N + 1 \<noteq> 0" "unat (N + 1) = unat N + 1" "L \<noteq> 0" "unat (L - 1) = unat L - 1" "unat N + 3 \<le> unat L"
proof -
  have "(4 :: nat) \<le> 2 ^ h" using power_increasing [OF assms(2), of "2 :: nat"] by simp
  then show far: "unat N + 3 \<le> unat L" using unat_fill_low [OF assms(1), of w] by (simp add: N_def L_def)
  then have "unat N + 1 < 2 ^ LENGTH('a)" using unat_bound [of L] by linarith
  then show "unat (N + 1) = unat N + 1" by (simp add: unat_word_ariths(1))
  then show "N + 1 \<noteq> 0" by (metis add_is_0 one_neq_zero unat_0)
  show "L \<noteq> 0" using far by auto
  then show "unat (L - 1) = unat L - 1" by (simp add: unat_minus_one)
qed

text \<open>What \<open>NewIPPool\<close> makes, for each family.\<close>

lemma NewIPPool_cases:
  assumes T: "netip_ok T" and p: "NewIPPool T cidr = Inr p"
  obtains
    (v4) w b where "b \<le> 32" "pl_prefix p = \<lparr>pf_addr = Addr4 (clear_low (32 - b) w), pf_bits = b\<rparr>"
      "pl_first p = Addr4 (if b < 31 then clear_low (32 - b) w + 1 else clear_low (32 - b) w)"
      "pl_last p = Addr4 (if b < 31 then (clear_low (32 - b) w OR mask (32 - b)) - 1 else clear_low (32 - b) w OR mask (32 - b))"
      "lastAddr (pl_prefix p) = Addr4 (clear_low (32 - b) w OR mask (32 - b))"
  | (v6) w b where "b \<le> 128" "pl_prefix p = \<lparr>pf_addr = Addr6 (clear_low (128 - b) w) [], pf_bits = b\<rparr>"
      "pl_first p = Addr6 (if b < 127 then clear_low (128 - b) w + 1 else clear_low (128 - b) w) []"
      "pl_last p = Addr6 (clear_low (128 - b) w OR mask (128 - b)) []"
      "lastAddr (pl_prefix p) = Addr6 (clear_low (128 - b) w OR mask (128 - b)) []"
proof -
  obtain q where parsed: "ni_parse_prefix T cidr = Inr q" and "cidr \<noteq> []"
    using p by (auto simp: NewIPPool_def split: if_splits sum.splits)
  then have q: "valid_prefix q" using T by (auto simp: netip_ok_def)
  show ?thesis
  proof (cases "pf_addr q")
    case NoAddr
    with q show ?thesis by (simp add: valid_prefix_def)
  next
    case (Addr4 w)
    with q have b: "pf_bits q \<le> 32" by (simp add: valid_prefix_def)
    have ends: "clear_low (32 - pf_bits q) w + 1 \<noteq> 0" "clear_low (32 - pf_bits q) w OR mask (32 - pf_bits q) \<noteq> 0" if "pf_bits q < 31"
      using block_ends(1,3) [of "32 - pf_bits q" w] that by simp_all
    have m: "masked q = \<lparr>pf_addr = Addr4 (clear_low (32 - pf_bits q) w), pf_bits = pf_bits q\<rparr>"
      by (simp add: masked_def Addr4)
    then have last: "lastAddr (masked q) = Addr4 (clear_low (32 - pf_bits q) w OR mask (32 - pf_bits q))"
      using b by (simp add: lastAddr_def host_mask4)
    from p parsed \<open>cidr \<noteq> []\<close> have p': "pl_prefix p = masked q"
      "pl_first p = (if pf_bits q < 31 then addr_next (pf_addr (masked q)) else pf_addr (masked q))"
      "pl_last p = (if pf_bits q < 31 then addr_prev (lastAddr (masked q)) else lastAddr (masked q))"
      by (auto simp: NewIPPool_def Let_def m)
    show ?thesis
      by (rule v4 [OF b]) (use ends in \<open>auto simp: p' m last [unfolded m]\<close>)
  next
    case (Addr6 w z)
    with q have b: "pf_bits q \<le> 128" and "z = []" by (simp_all add: valid_prefix_def)
    have ends: "clear_low (128 - pf_bits q) w + 1 \<noteq> 0" if "pf_bits q < 127"
      using block_ends(1) [of "128 - pf_bits q" w] that by simp
    have m: "masked q = \<lparr>pf_addr = Addr6 (clear_low (128 - pf_bits q) w) [], pf_bits = pf_bits q\<rparr>"
      by (simp add: masked_def Addr6)
    then have last: "lastAddr (masked q) = Addr6 (clear_low (128 - pf_bits q) w OR mask (128 - pf_bits q)) []"
      by (simp add: lastAddr_def last_address6)
    from p parsed \<open>cidr \<noteq> []\<close> have p': "pl_prefix p = masked q"
      "pl_first p = (if pf_bits q < 127 then addr_next (pf_addr (masked q)) else pf_addr (masked q))"
      "pl_last p = lastAddr (masked q)"
      by (auto simp: NewIPPool_def Let_def m)
    show ?thesis
      by (rule v6 [OF b]) (use ends in \<open>auto simp: p' m last [unfolded m]\<close>)
  qed
qed

lemma pool_range:
  assumes T: "netip_ok T" and p: "NewIPPool T cidr = Inr p"
  shows "chain (pool_addrs p) \<and> pool_addrs p \<noteq> [] \<and> hd (pool_addrs p) = pl_first p \<and> last (pool_addrs p) = pl_last p \<and>
    distinct (pool_addrs p) \<and> set (pool_addrs p) = {a. usable (pl_prefix p) a}"
  using T p
proof (cases rule: NewIPPool_cases)
  case (v4 w b)
  let ?N = "clear_low (32 - b) w" and ?h = "32 - b"
  let ?L = "?N OR mask ?h"
  define lo where "lo = (if b < 31 then ?N + 1 else ?N)"
  define hi where "hi = (if b < 31 then ?L - 1 else ?L)"
  have ends: "b < 31 \<Longrightarrow> unat (?N + 1) = unat ?N + 1 \<and> unat (?L - 1) = unat ?L - 1 \<and> unat ?N + 3 \<le> unat ?L"
    using block_ends(2,4,5) [of ?h w] by simp
  have NL: "unat ?N \<le> unat ?L" by (subst unat_fill_low) (simp, rule le_add1)
  have le: "unat lo \<le> unat hi"
  proof (cases "b < 31")
    case True
    with ends have "unat (?N + 1) \<le> unat (?L - 1)" by linarith
    with True show ?thesis by (simp add: lo_def hi_def)
  qed (use NL in \<open>simp add: lo_def hi_def\<close>)
  note R = word_range [of Addr4, OF _ _ le]
  have xs: "pool_addrs p = map (\<lambda>n. Addr4 (word_of_nat n)) [unat lo ..< Suc (unat hi)]"
    using v4(3,4) by (simp add: pool_addrs_def lo_def hi_def)
  have "usable (pl_prefix p) a \<longleftrightarrow> a \<in> Addr4 ` {x. unat lo \<le> unat x \<and> unat x \<le> unat hi}" for a
  proof (cases a)
    case (Addr4 x)
    have "contains (pl_prefix p) a \<longleftrightarrow> unat ?N \<le> unat x \<and> unat x \<le> unat ?L"
      using in_block [of ?h w x] by (simp add: contains_def v4(2) Addr4)
    then have "usable (pl_prefix p) a \<longleftrightarrow> unat ?N \<le> unat x \<and> unat x \<le> unat ?L \<and> (b \<ge> 31 \<or> unat x \<noteq> unat ?N \<and> unat x \<noteq> unat ?L)"
      using v4(5) by (simp add: usable_def v4(2) Addr4 word_unat_eq_iff)
    also have "\<dots> \<longleftrightarrow> unat lo \<le> unat x \<and> unat x \<le> unat hi"
      using ends by (auto simp: lo_def hi_def)
    finally show ?thesis by (auto simp: Addr4)
  qed (auto simp: usable_def contains_def v4(2))
  then show ?thesis unfolding xs using R v4(3,4) by (auto simp: inj_def lo_def hi_def)
next
  case (v6 w b)
  let ?N = "clear_low (128 - b) w" and ?h = "128 - b"
  let ?L = "?N OR mask ?h"
  define lo where "lo = (if b < 127 then ?N + 1 else ?N)"
  have ends: "b < 127 \<Longrightarrow> unat (?N + 1) = unat ?N + 1 \<and> unat ?N + 3 \<le> unat ?L"
    using block_ends(2,5) [of ?h w] by simp
  have NL: "unat ?N \<le> unat ?L" by (subst unat_fill_low) (simp, rule le_add1)
  have le: "unat lo \<le> unat ?L" using ends NL by (auto simp: lo_def)
  note R = word_range [of "\<lambda>w. Addr6 w []", OF _ _ le]
  have xs: "pool_addrs p = map (\<lambda>n. Addr6 (word_of_nat n) []) [unat lo ..< Suc (unat ?L)]"
    using v6(3,4) by (simp add: pool_addrs_def lo_def)
  have "usable (pl_prefix p) a \<longleftrightarrow> a \<in> (\<lambda>w. Addr6 w []) ` {x. unat lo \<le> unat x \<and> unat x \<le> unat ?L}" for a
  proof (cases a)
    case (Addr6 x z)
    have "contains (pl_prefix p) a \<longleftrightarrow> z = [] \<and> unat ?N \<le> unat x \<and> unat x \<le> unat ?L"
      using in_block [of ?h w x] by (auto simp: contains_def v6(2) Addr6)
    then have "usable (pl_prefix p) a \<longleftrightarrow> z = [] \<and> unat ?N \<le> unat x \<and> unat x \<le> unat ?L \<and> (b \<ge> 127 \<or> unat x \<noteq> unat ?N)"
      by (auto simp: usable_def v6(2) Addr6 word_unat_eq_iff)
    also have "\<dots> \<longleftrightarrow> z = [] \<and> unat lo \<le> unat x \<and> unat x \<le> unat ?L"
      using ends by (auto simp: lo_def)
    finally show ?thesis by (auto simp: Addr6)
  qed (auto simp: usable_def contains_def v6(2))
  then show ?thesis unfolding xs using R v6(3,4) by (auto simp: inj_def lo_def)
qed

lemma allocate_pool:
  assumes "netip_ok T" and "NewIPPool T cidr = Inr new" and "p = new\<lparr>pl_allocated := taken\<rparr>"
  shows "Allocate T p = Some
      (case find (\<lambda>a. isAutoAssignable a \<and> ni_string T a \<notin> taken) (pool_addrs p) of
         None \<Rightarrow> (Inl (exhausted p), p)
       | Some a \<Rightarrow> (Inr (ni_string T a), p\<lparr>pl_allocated := insert (ni_string T a) taken\<rparr>))"
    and "distinct (pool_addrs p)" and "set (pool_addrs p) = {a. usable (pl_prefix p) a}"
proof -
  from pool_range [OF assms(1,2)] have R: "chain (pool_addrs p)" "pool_addrs p \<noteq> []" "hd (pool_addrs p) = pl_first p"
    "last (pool_addrs p) = pl_last p" "distinct (pool_addrs p)" "set (pool_addrs p) = {a. usable (pl_prefix p) a}"
    by (simp_all add: assms(3) pool_addrs_def)
  from scan_chain [OF R(1,2,4,5), of T] R(3)
  show "Allocate T p = Some
      (case find (\<lambda>a. isAutoAssignable a \<and> ni_string T a \<notin> taken) (pool_addrs p) of
         None \<Rightarrow> (Inl (exhausted p), p)
       | Some a \<Rightarrow> (Inr (ni_string T a), p\<lparr>pl_allocated := insert (ni_string T a) taken\<rparr>))"
    by (simp add: Allocate_def assms(3) split: option.split)
  show "distinct (pool_addrs p)" "set (pool_addrs p) = {a. usable (pl_prefix p) a}" by (rule R(5), rule R(6))
qed

text \<open>
  C24. Allocation returns: on a pool made from a CIDR, whatever has been marked since, the scan of
  \<open>Allocate\<close> ends, with the first usable address of the prefix (in address order, not ending in .0
  or .255 for IPv4) that is not taken, which is then taken, or with an error exactly when there is none.
\<close>

theorem allocate_returns:
  assumes "netip_ok T" and "NewIPPool T cidr = Inr new" and "p = new\<lparr>pl_allocated := taken\<rparr>"
  shows "Allocate T p = Some
      (case find (\<lambda>a. isAutoAssignable a \<and> ni_string T a \<notin> taken) (pool_addrs p) of
         None \<Rightarrow> (Inl (exhausted p), p)
       | Some a \<Rightarrow> (Inr (ni_string T a), p\<lparr>pl_allocated := insert (ni_string T a) taken\<rparr>)) \<and>
    distinct (pool_addrs p) \<and> set (pool_addrs p) = {a. usable (pl_prefix p) a}"
  using allocate_pool [OF assms] by blast

section \<open>Addresses as text, for concrete runs\<close>

text \<open>Dotted quads for IPv4; IPv6 addresses are written as one decimal number.\<close>

definition dotted :: "32 word \<Rightarrow> string" where
  "dotted w = go_join ''.'' (map nat_digits
     [nat (uint w div 16777216), nat (uint w div 65536 mod 256), nat (uint w div 256 mod 256), nat (uint w mod 256)])"

definition demo_parse_addr :: "string \<Rightarrow> addr option" where
  "demo_parse_addr s =
     (case map digits_value (go_split (CHR ''.'') s) of
        [a, b, c, d] \<Rightarrow> Some (Addr4 (word_of_int (((int a * 256 + int b) * 256 + int c) * 256 + int d)))
      | _ \<Rightarrow> (case go_split (CHR '':'') s of
                [_, x] \<Rightarrow> Some (Addr6 (word_of_nat (digits_value x)) []) | _ \<Rightarrow> None))"

definition demo_parse_prefix :: "string \<Rightarrow> go_error + prefix" where
  "demo_parse_prefix s =
     (case go_split (CHR ''/'') s of
        [a, b] \<Rightarrow>
          (case demo_parse_addr a of
             Some x \<Rightarrow>
               (let p = \<lparr>pf_addr = x, pf_bits = digits_value b\<rparr> in
                if digits_value b \<le> (if is4 x then 32 else 128) \<and> x \<noteq> NoAddr then Inr p else Inl (ErrText ''bits''))
           | None \<Rightarrow> Inl (ErrText ''address''))
      | _ \<Rightarrow> Inl (ErrText ''no slash''))"

definition demo_netip :: netip where
  "demo_netip =
     \<lparr>ni_parse_prefix = demo_parse_prefix, ni_parse_addr = demo_parse_addr,
      ni_string = (\<lambda>a. case a of NoAddr \<Rightarrow> ''invalid IP'' | Addr4 w \<Rightarrow> dotted w | Addr6 w z \<Rightarrow> CHR '':'' # nat_digits (unat w))\<rparr>"

lemma nat_digits_below: "c \<in> set (nat_digits n) \<Longrightarrow> of_char c < (58 :: nat)"
proof (induction n rule: nat_digits.induct)
  case (1 n)
  have "nat_digits n = (if n < 10 then [char_of (48 + n)] else nat_digits (n div 10) @ [char_of (48 + n mod 10)])"
    by (rule nat_digits.simps)
  with 1 show ?case by (auto split: if_splits)
qed

lemma digits_no_sep [simp]: "CHR ''.'' \<notin> set (nat_digits n)" "CHR '':'' \<notin> set (nat_digits n)"
  using nat_digits_chars [of "CHR ''.''" n] nat_digits_below [of "CHR '':''" n] by auto

lemma split_quad: "go_split (CHR ''.'') (go_join ''.'' (map nat_digits [a, b, c, d])) = map nat_digits [a, b, c, d]"
  by (simp add: go_split_append go_split_no_sep)

lemma quad_value:
  "(((n :: int) div 16777216 * 256 + n div 65536 mod 256) * 256 + n div 256 mod 256) * 256 + n mod 256 = n"
proof -
  have "n div 16777216 = n div 65536 div 256" "n div 65536 = n div 256 div 256"
    by (simp_all add: zdiv_zmult2_eq [symmetric])
  then have "n div 16777216 * 256 + n div 65536 mod 256 = n div 65536"
    "n div 65536 * 256 + n div 256 mod 256 = n div 256" "n div 256 * 256 + n mod 256 = n"
    by (simp_all only: div_mult_mod_eq)
  then show ?thesis by (simp only:)
qed

lemma dotted_back: "demo_parse_addr (dotted w) = Some (Addr4 w)"
proof -
  have "map digits_value (go_split (CHR ''.'') (dotted w)) =
      [nat (uint w div 16777216), nat (uint w div 65536 mod 256), nat (uint w div 256 mod 256), nat (uint w mod 256)]"
    unfolding dotted_def split_quad by (simp add: nat_digits_value)
  moreover have "int (nat (uint w div 16777216)) = uint w div 16777216"
    "int (nat (uint w div 65536 mod 256)) = uint w div 65536 mod 256"
    "int (nat (uint w div 256 mod 256)) = uint w div 256 mod 256" "int (nat (uint w mod 256)) = uint w mod 256"
    by (simp_all add: pos_imp_zdiv_nonneg_iff)
  ultimately show ?thesis by (simp only: demo_parse_addr_def list.case quad_value) simp
qed

lemma number_back: "demo_parse_addr (CHR '':'' # nat_digits (unat (w :: 128 word))) = Some (Addr6 w [])"
  by (simp add: demo_parse_addr_def go_split_no_sep nat_digits_value)

lemma demo_parse_addr_cases:
  "demo_parse_addr s = Some a \<Longrightarrow> (\<exists>w. a = Addr4 w) \<or> (\<exists>w. a = Addr6 w [])"
  by (auto simp: demo_parse_addr_def split: list.splits)

lemma demo_parse_prefix_cases:
  "(\<forall>p. demo_parse_prefix s = Inr p \<longrightarrow> valid_prefix p) \<and> (\<forall>e. demo_parse_prefix s = Inl e \<longrightarrow> no_panic e)"
  by (auto simp: demo_parse_prefix_def valid_prefix_def Let_def split: list.splits option.splits if_splits
      dest!: demo_parse_addr_cases)

lemma demo_netip_ok: "netip_ok demo_netip"
  unfolding netip_ok_def
  using demo_parse_prefix_cases by (simp add: demo_netip_def dotted_back number_back)

text \<open>A pool of six usable addresses with two taken, and one of two with both taken.\<close>

definition demo_pool :: "string \<Rightarrow> ip_pool" where
  "demo_pool cidr = projr (NewIPPool demo_netip cidr)"

lemma demo_pools:
  "demo_pool ''10.0.0.0/29'' =
     \<lparr>pl_cidr = ''10.0.0.0/29'', pl_prefix = \<lparr>pf_addr = Addr4 0x0A000000, pf_bits = 29\<rparr>,
      pl_first = Addr4 0x0A000001, pl_last = Addr4 0x0A000006, pl_allocated = {}\<rparr>"
  "demo_pool ''10.0.1.0/30'' =
     \<lparr>pl_cidr = ''10.0.1.0/30'', pl_prefix = \<lparr>pf_addr = Addr4 0x0A000100, pf_bits = 30\<rparr>,
      pl_first = Addr4 0x0A000101, pl_last = Addr4 0x0A000102, pl_allocated = {}\<rparr>"
  unfolding demo_pool_def by code_simp+

lemma demo_pools_new:
  "NewIPPool demo_netip ''10.0.0.0/29'' = Inr (demo_pool ''10.0.0.0/29'')"
  "NewIPPool demo_netip ''10.0.1.0/30'' = Inr (demo_pool ''10.0.1.0/30'')"
  unfolding demo_pools by code_simp+

theorem allocate_returns_witness:
  "map_option fst (Allocate demo_netip (demo_pool ''10.0.0.0/29''\<lparr>pl_allocated := {''10.0.0.1'', ''10.0.0.3''}\<rparr>)) =
     Some (Inr ''10.0.0.2'') \<and>
   map_option fst (Allocate demo_netip (demo_pool ''10.0.1.0/30''\<lparr>pl_allocated := {''10.0.1.1'', ''10.0.1.2''}\<rparr>)) =
     Some (Inl (ErrText ''no available IP in pool 10.0.1.0/30''))"
proof -
  note A = allocate_returns [OF demo_netip_ok demo_pools_new(1) refl, THEN conjunct1]
    allocate_returns [OF demo_netip_ok demo_pools_new(2) refl, THEN conjunct1]
  have xs: "pool_addrs (demo_pool ''10.0.0.0/29''\<lparr>pl_allocated := X\<rparr>) =
      map (Addr4 \<circ> word_of_int) [0x0A000001, 0x0A000002, 0x0A000003, 0x0A000004, 0x0A000005, 0x0A000006]"
    "pool_addrs (demo_pool ''10.0.1.0/30''\<lparr>pl_allocated := X\<rparr>) =
      map (Addr4 \<circ> word_of_int) [0x0A000101, 0x0A000102]" for X
    by (simp_all add: demo_pools pool_addrs_def)
  show ?thesis unfolding A unfolding xs unfolding demo_pools by code_simp
qed

end
