(* ===== verification/Domain_Controller.thy ===== *)
theory Domain_Controller
  imports IP_Pool Api_Types
begin

text \<open>
  The Domain controller (\<open>controllermanager/domain/domain_controller.go\<close> and \<open>signer.go\<close>): the
  allocation of addresses to the Pods of a Domain, the status it records, and the DomainPeer it
  keeps in every namespace that has Pods. The allocation (steps 3 to 6 of \<open>Reconcile\<close>, and the
  sorting of step 8) is a pure function of the status and the Pods. Go's order of \<open>range\<close> over a
  map is the argument \<open>ro\<close>, one permutation of the keys per loop. \<open>sort.Slice\<close> is not stable; here
  it is, which matters only for Pods with equal names.
\<close>

section \<open>Resources\<close>

record ip_allocation =
  al_ip :: string
  al_job :: string
  al_task :: string
  al_pod :: string

record domain_status =
  ds_observed_generation :: int
  ds_conditions :: "condition list"
  ds_allocations :: "ip_allocation list"

record domain =
  d_meta :: object_meta
  d_cidr :: string
  d_status :: domain_status

record pod =
  pd_meta :: object_meta
  pd_domain :: string
  pd_pod_namespace :: string
  pd_pod_name :: string
  pd_phase :: string
  pd_node :: string
  pd_ip :: string

record pod_info =
  pi_global :: string
  pi_namespace :: string
  pi_name :: string
  pi_uid :: string
  pi_node :: string
  pi_ip :: string
  pi_local_ip :: string

record domain_peer =
  dp_name :: string
  dp_namespace :: string
  dp_prefix_len :: int
  dp_pods :: "pod_info go_slice"
  dp_cert :: string
  dp_key :: string

abbreviation PodPhaseSucceeded :: string where "PodPhaseSucceeded \<equiv> ''Succeeded''"
abbreviation PodPhaseFailed :: string where "PodPhaseFailed \<equiv> ''Failed''"
abbreviation domainReasonCIDRValid :: string where "domainReasonCIDRValid \<equiv> ''CIDRValid''"
abbreviation domainReasonCIDRInvalid :: string where "domainReasonCIDRInvalid \<equiv> ''InvalidCIDR''"

section \<open>Allocation\<close>

text \<open>\<open>m[k] = append(m[k], v)\<close> on a map of slices, with the keys in the order of their insertion.\<close>

fun append_to :: "'k \<Rightarrow> 'v \<Rightarrow> ('k \<times> 'v list) list \<Rightarrow> ('k \<times> 'v list) list" where
  "append_to k v [] = [(k, [v])]"
| "append_to k v ((k', vs) # m) = (if k' = k then (k', vs @ [v]) # m else (k', vs) # append_to k v m)"

definition lookup :: "('k \<times> 'v list) list \<Rightarrow> 'k \<Rightarrow> 'v list" where
  "lookup m k = (case map_of m k of None \<Rightarrow> [] | Some vs \<Rightarrow> vs)"

text \<open>Step 3: the first allocation of every Pod.\<close>

definition first_allocations :: "ip_allocation list \<Rightarrow> (string \<times> ip_allocation) list" where
  "first_allocations = foldl (\<lambda>m a. if map_of m (al_pod a) = None then m @ [(al_pod a, a)] else m) []"

record grouping =
  gr_known :: "string set"
  gr_pods :: "(string \<times> pod_info list) list"
  gr_new :: "(string \<times> pod_info list) list"
  gr_reused_ips :: "string set"
  gr_reused :: "string \<rightharpoonup> string"
  gr_old :: "(string \<times> ip_allocation) list"
  gr_pool :: ip_pool

definition pod_key :: "string \<Rightarrow> string \<Rightarrow> string \<Rightarrow> string" where
  "pod_key ns pod_ns name = ns @ ''/'' @ pod_ns @ ''/'' @ name"

definition pod_info_of :: "pod \<Rightarrow> string \<Rightarrow> pod_info" where
  "pod_info_of p ip =
     \<lparr>pi_global = om_namespace (pd_meta p), pi_namespace = pd_pod_namespace p, pi_name = pd_pod_name p,
      pi_uid = om_name (pd_meta p), pi_node = pd_node p, pi_ip = ip, pi_local_ip = pd_ip p\<rparr>"

text \<open>Step 4: a Pod with a recorded address that no other Pod has taken in this pass keeps it.\<close>

definition place_pod :: "netip \<Rightarrow> grouping \<Rightarrow> pod \<Rightarrow> grouping" where
  "place_pod T g p =
     (let ns = om_namespace (pd_meta p);
          key = pod_key ns (pd_pod_namespace p) (pd_pod_name p)
      in case map_of (gr_old g) key of
           Some a \<Rightarrow>
             (if al_ip a \<notin> gr_reused_ips g
              then g\<lparr>gr_reused_ips := insert (al_ip a) (gr_reused_ips g),
                     gr_reused := (gr_reused g)(key \<mapsto> al_ip a),
                     gr_pods := append_to ns (pod_info_of p (al_ip a)) (gr_pods g),
                     gr_pool := MarkAllocated T (gr_pool g) (al_ip a),
                     gr_old := filter (\<lambda>(k, _). k \<noteq> key) (gr_old g)\<rparr>
              else g\<lparr>gr_new := append_to ns (pod_info_of p []) (gr_new g)\<rparr>)
         | None \<Rightarrow> g\<lparr>gr_new := append_to ns (pod_info_of p []) (gr_new g)\<rparr>)"

definition group_pod :: "netip \<Rightarrow> string \<Rightarrow> grouping \<Rightarrow> pod \<Rightarrow> grouping" where
  "group_pod T domain_name g p =
     (if pd_domain p \<noteq> domain_name then g
      else let g = g\<lparr>gr_known := insert (om_namespace (pd_meta p)) (gr_known g)\<rparr> in
        if pd_phase p = PodPhaseSucceeded \<or> pd_phase p = PodPhaseFailed then g
        else if pd_node p = [] \<or> pd_ip p = [] then g
        else place_pod T g p)"

text \<open>Step 5: which of the recorded allocations stay.\<close>

record keeping =
  kp_seen :: "string set"
  kp_expire :: int
  kp_kept :: "ip_allocation list"
  kp_pool :: ip_pool

definition keep_allocation :: "netip \<Rightarrow> (string \<rightharpoonup> string) \<Rightarrow> string set \<Rightarrow> keeping \<Rightarrow> ip_allocation \<Rightarrow> keeping" where
  "keep_allocation T reused reused_ips s a =
     (if al_pod a \<in> kp_seen s then s
      else let s = s\<lparr>kp_seen := insert (al_pod a) (kp_seen s)\<rparr> in
        case reused (al_pod a) of
          Some ip \<Rightarrow> (if al_ip a = ip then s\<lparr>kp_kept := kp_kept s @ [a]\<rparr> else s)
        | None \<Rightarrow>
            (if al_ip a \<in> reused_ips then s
             else if kp_expire s > 0 then s\<lparr>kp_expire := kp_expire s - 1\<rparr>
             else s\<lparr>kp_kept := kp_kept s @ [a], kp_pool := MarkAllocated T (kp_pool s) (al_ip a)\<rparr>))"

text \<open>Step 6: a fresh address for every other Pod. A scan that does not end has no value of its own.\<close>

definition does_not_return :: go_error where
  "does_not_return = GoPanic ''Allocate does not return''"

record assigning =
  as_pods :: "(string \<times> pod_info list) list"
  as_allocations :: "ip_allocation list"
  as_pool :: ip_pool

definition assign_pod :: "netip \<Rightarrow> string \<Rightarrow> assigning \<Rightarrow> pod_info \<Rightarrow> go_error + assigning" where
  "assign_pod T ns s p =
     (case Allocate T (as_pool s) of
        None \<Rightarrow> Inl does_not_return
      | Some (Inl e, _) \<Rightarrow> Inl e
      | Some (Inr ip, pool) \<Rightarrow>
          Inr \<lparr>as_pods = append_to ns (p\<lparr>pi_ip := ip\<rparr>) (as_pods s),
               as_allocations = as_allocations s @
                 [\<lparr>al_ip = ip, al_job = [], al_task = [], al_pod = pod_key ns (pi_namespace p) (pi_name p)\<rparr>],
               as_pool = pool\<rparr>)"

fun assign_all :: "netip \<Rightarrow> assigning \<Rightarrow> (string \<times> pod_info) list \<Rightarrow> go_error + assigning" where
  "assign_all T s [] = Inr s"
| "assign_all T s ((ns, p) # ps) =
     (case assign_pod T ns s p of Inl e \<Rightarrow> Inl e | Inr s' \<Rightarrow> assign_all T s' ps)"

record domain_pass =
  dr_allocations :: "ip_allocation list"
  dr_pods :: "pod_info list"
  dr_namespaces :: "string list"
  dr_known :: "string set"

definition pod_order :: "pod_info \<Rightarrow> string list" where
  "pod_order p = [pi_global p, pi_namespace p, pi_name p]"

definition group_pods :: "netip \<Rightarrow> ip_pool \<Rightarrow> string \<Rightarrow> ip_allocation list \<Rightarrow> pod list \<Rightarrow> grouping" where
  "group_pods T pool domain_name recorded pods =
     foldl (group_pod T domain_name)
       \<lparr>gr_known = {}, gr_pods = [], gr_new = [], gr_reused_ips = {}, gr_reused = Map.empty,
        gr_old = first_allocations recorded, gr_pool = pool\<rparr> pods"

definition keep_allocations :: "netip \<Rightarrow> grouping \<Rightarrow> ip_allocation list \<Rightarrow> keeping" where
  "keep_allocations T g recorded =
     foldl (keep_allocation T (gr_reused g) (gr_reused_ips g))
       \<lparr>kp_seen = {}, kp_expire = max 0 (int (length (gr_old g)) - 128), kp_kept = [], kp_pool = gr_pool g\<rparr> recorded"

definition pods_to_assign :: "(string list \<Rightarrow> string list) \<Rightarrow> grouping \<Rightarrow> (string \<times> pod_info) list" where
  "pods_to_assign order g = concat (map (\<lambda>ns. map (Pair ns) (lookup (gr_new g) ns)) (order (map fst (gr_new g))))"

definition allocate_domain ::
    "netip \<Rightarrow> (nat \<Rightarrow> string list \<Rightarrow> string list) \<Rightarrow> ip_pool \<Rightarrow> string \<Rightarrow> ip_allocation list \<Rightarrow> pod list \<Rightarrow>
      go_error + domain_pass" where
  "allocate_domain T ro pool domain_name recorded pods =
     (let g = group_pods T pool domain_name recorded pods;
          k = keep_allocations T g recorded
      in case assign_all T \<lparr>as_pods = gr_pods g, as_allocations = kp_kept k, as_pool = kp_pool k\<rparr> (pods_to_assign (ro 0) g) of
           Inl e \<Rightarrow> Inl e
         | Inr s \<Rightarrow>
             Inr \<lparr>dr_allocations = sort_key al_pod (as_allocations s),
                  dr_pods = sort_key pod_order (concat (map (lookup (as_pods s)) (ro 1 (map fst (as_pods s))))),
                  dr_namespaces = ro 2 (map fst (as_pods s)), dr_known = gr_known g\<rparr>)"

section \<open>Certificates\<close>

record signer =
  sg_done :: bool
  sg_client :: "nat option"

text \<open>
  The environment: the management API, the server that signs (a client is a number here), the
  check of a certificate (it reads the clock) and \<open>apimeta.SetStatusCondition\<close>.
\<close>

record 'w domain_env =
  de_get :: "string \<Rightarrow> ('w, domain) prog"
  de_list_pods :: "string \<Rightarrow> ('w, pod list) prog"
  de_update_status :: "domain \<Rightarrow> ('w, unit) prog"
  de_get_peer :: "string \<Rightarrow> string \<Rightarrow> ('w, domain_peer) prog"
  de_create_peer :: "domain_peer \<Rightarrow> ('w, unit) prog"
  de_update_peer :: "domain_peer \<Rightarrow> ('w, unit) prog"
  de_list_peers :: "('w, domain_peer list) prog"
  de_delete_peer :: "domain_peer \<Rightarrow> ('w, unit) prog"
  de_new_client :: "('w, nat option) prog"
  de_post_sign :: "nat \<Rightarrow> string \<Rightarrow> string \<Rightarrow> string \<Rightarrow> ('w, int \<times> (go_error + string \<times> string)) prog"
  de_cert_valid :: "string \<Rightarrow> string \<Rightarrow> 'w \<Rightarrow> bool"
  de_set_condition :: "condition list \<Rightarrow> condition \<Rightarrow> 'w \<Rightarrow> (bool \<times> condition list) \<times> 'w"

definition newSigner :: signer where
  "newSigner = \<lparr>sg_done = False, sg_client = None\<rparr>"

text \<open>\<open>sync.Once\<close>: only the first call makes a client. After an error the signer is not used again.\<close>

definition initClient :: "'w domain_env \<Rightarrow> signer \<Rightarrow> ('w, signer) prog" where
  "initClient env sg =
     (if sg_done sg then ok sg else seq (de_new_client env) (\<lambda>c. ok \<lparr>sg_done = True, sg_client = c\<rparr>))"

definition Sign :: "'w domain_env \<Rightarrow> signer \<Rightarrow> string \<Rightarrow> string \<Rightarrow> ('w, (string \<times> string) \<times> signer) prog" where
  "Sign env sg domain_id agent_id =
     seq (initClient env sg) (\<lambda>sg.
     case sg_client sg of
       None \<Rightarrow> fail (ErrText ''server client is not initialized'')
     | Some c \<Rightarrow>
         seq (wrap ''send sign request'' (de_post_sign env c ''domain'' agent_id domain_id)) (\<lambda>(code, body).
         if code \<noteq> 200 then fail (ErrText ''sign certificate failed with status: '')
         else seq (wrap ''failed to decode response'' (give body)) (\<lambda>cert_key. ok (cert_key, sg))))"

section \<open>Peers\<close>

definition createOrUpdateDomainPeer ::
    "'w domain_env \<Rightarrow> string \<Rightarrow> string \<Rightarrow> pod_info list \<Rightarrow> int \<Rightarrow> signer \<Rightarrow> ('w, signer) prog" where
  "createOrUpdateDomainPeer env domain_name ns pods prefix_len sg =
     seq (attempt (de_get_peer env domain_name ns)) (\<lambda>r. case r of
       Inl e \<Rightarrow>
         (if \<not> is_not_found e then fail e
          else seq (Sign env sg domain_name ns) (\<lambda>((cert, key), sg).
               seq (de_create_peer env \<lparr>dp_name = domain_name, dp_namespace = ns, dp_prefix_len = prefix_len,
                      dp_pods = Some pods, dp_cert = cert, dp_key = key\<rparr>) (\<lambda>_. ok sg)))
     | Inr peer \<Rightarrow>
         (let changed = (dp_prefix_len peer \<noteq> prefix_len \<or> dp_pods peer \<noteq> Some pods);
              peer = peer\<lparr>dp_prefix_len := prefix_len, dp_pods := Some pods\<rparr>
          in seq (reading (de_cert_valid env (dp_cert peer) (dp_key peer))) (\<lambda>valid.
             if valid then (if changed then seq (de_update_peer env peer) (\<lambda>_. ok sg) else ok sg)
             else seq (Sign env sg domain_name ns) (\<lambda>((cert, key), sg).
                  seq (de_update_peer env (peer\<lparr>dp_cert := cert, dp_key := key\<rparr>)) (\<lambda>_. ok sg)))))"

definition deleteDomainPeers :: "'w domain_env \<Rightarrow> string \<Rightarrow> ('w, unit) prog" where
  "deleteDomainPeers env domain_name =
     seq (de_list_peers env) (\<lambda>peers.
     fold_prog (\<lambda>_ peer. if dp_name peer \<noteq> domain_name then ok () else ignore_not_found (de_delete_peer env peer)) () peers)"

definition cleanupStaleDomainPeers :: "'w domain_env \<Rightarrow> string \<Rightarrow> string set \<Rightarrow> ('w, unit) prog" where
  "cleanupStaleDomainPeers env domain_name known =
     seq (de_list_peers env) (\<lambda>peers.
     fold_prog (\<lambda>_ peer.
         if dp_name peer \<noteq> domain_name then ok ()
         else if dp_namespace peer \<in> known then ok ()
         else ignore_not_found (de_delete_peer env peer)) () peers)"

section \<open>Reconcile\<close>

definition validated :: "domain \<Rightarrow> string \<Rightarrow> string \<Rightarrow> string \<Rightarrow> condition" where
  "validated d status reason message =
     \<lparr>cn_type = ConditionTypeValidated, cn_status = status, cn_reason = reason, cn_message = message,
      cn_observed_generation = om_generation (d_meta d), cn_transition = 0\<rparr>"

text \<open>Setting the condition and the observed generation; the flag is whether the status changed.\<close>

definition conclude :: "'w domain_env \<Rightarrow> domain \<Rightarrow> condition \<Rightarrow> ('w, bool \<times> domain) prog" where
  "conclude env d c = (\<lambda>w.
     let ((changed, conditions), w) = de_set_condition env (ds_conditions (d_status d)) c w
     in (Inr (changed \<or> ds_observed_generation (d_status d) \<noteq> om_generation (d_meta d),
              d\<lparr>d_status := (d_status d)\<lparr>ds_conditions := conditions, ds_observed_generation := om_generation (d_meta d)\<rparr>\<rparr>), w))"

definition markDomainInvalid :: "'w domain_env \<Rightarrow> domain \<Rightarrow> string \<Rightarrow> ('w, unit) prog" where
  "markDomainInvalid env d message =
     seq (conclude env d (validated d ''False'' domainReasonCIDRInvalid message)) (\<lambda>(changed, d).
     if \<not> changed then ok () else de_update_status env d)"

definition publish_peers :: "'w domain_env \<Rightarrow> string \<Rightarrow> domain_pass \<Rightarrow> int \<Rightarrow> ('w, unit) prog" where
  "publish_peers env domain_name r prefix_len =
     seq (fold_prog (\<lambda>sg ns. createOrUpdateDomainPeer env domain_name ns (dr_pods r) prefix_len sg) newSigner (dr_namespaces r))
       (\<lambda>_. cleanupStaleDomainPeers env domain_name (dr_known r))"

definition reconcile_domain :: "'w domain_env \<Rightarrow> netip \<Rightarrow> (nat \<Rightarrow> string list \<Rightarrow> string list) \<Rightarrow> domain \<Rightarrow> ip_pool \<Rightarrow> ('w, unit) prog" where
  "reconcile_domain env T ro d pool =
     seq (de_list_pods env (om_name (d_meta d))) (\<lambda>pods.
     seq (give (allocate_domain T ro pool (om_name (d_meta d)) (ds_allocations (d_status d)) pods)) (\<lambda>r.
     let moved = (ds_allocations (d_status d) \<noteq> dr_allocations r);
         d = d\<lparr>d_status := (d_status d)\<lparr>ds_allocations := dr_allocations r\<rparr>\<rparr> in
     seq (conclude env d (validated d ''True'' domainReasonCIDRValid [])) (\<lambda>(changed, d).
     seq (if moved \<or> changed then de_update_status env d else ok ()) (\<lambda>_.
     publish_peers env (om_name (d_meta d)) r (int (PrefixLength pool))))))"

definition domain_Reconcile :: "'w domain_env \<Rightarrow> netip \<Rightarrow> (nat \<Rightarrow> string list \<Rightarrow> string list) \<Rightarrow> string \<Rightarrow> ('w, unit) prog" where
  "domain_Reconcile env T ro name =
     seq (attempt (de_get env name)) (\<lambda>r. case r of
       Inl e \<Rightarrow> (if is_not_found e then deleteDomainPeers env name else fail e)
     | Inr d \<Rightarrow>
         (case NewIPPool T (d_cidr d) of
            Inl e \<Rightarrow> markDomainInvalid env d (error_text e)
          | Inr pool \<Rightarrow> reconcile_domain env T ro d pool))"

text \<open>The index and the watch of \<open>SetupWithManager\<close>.\<close>

definition pod_domain_index :: "pod \<Rightarrow> string list" where
  "pod_domain_index p = (if pd_domain p = [] then [] else [pd_domain p])"

end
