(* ===== verification/Domain_Safety.thy ===== *)
theory Domain_Safety
  imports Domain_Controller "HOL-Library.Multiset"
begin

text \<open>
  What the address allocation of a Domain guarantees: addresses in use are pairwise distinct and
  recorded, a Pod keeps its address, at most 128 unused records stay, and a second pass over the same
  Pods changes nothing.
\<close>

section \<open>Grouped lists\<close>

definition members :: "('k \<times> 'v list) list \<Rightarrow> 'v list" where
  "members m = concat (map snd m)"

lemma append_to_keys: "map fst (append_to k v m) = (if k \<in> fst ` set m then map fst m else map fst m @ [k])"
  by (induction k v m rule: append_to.induct) auto

lemma append_to_distinct [simp]: "distinct (map fst m) \<Longrightarrow> distinct (map fst (append_to k v m))"
  by (simp add: append_to_keys)

lemma append_to_members [simp]:
  "mset (members (append_to k v m)) = add_mset v (mset (members m))"
  "set (members (append_to k v m)) = insert v (set (members m))"
  "distinct (map f (members (append_to k v m))) \<longleftrightarrow> f v \<notin> f ` set (members m) \<and> distinct (map f (members m))"
  by (induction k v m rule: append_to.induct) (auto simp: members_def)

definition in_group :: "('k \<times> 'v list) list \<Rightarrow> 'k \<Rightarrow> 'v \<Rightarrow> bool" where
  "in_group m k v \<longleftrightarrow> (\<exists>vs. (k, vs) \<in> set m \<and> v \<in> set vs)"

lemma in_group_append [simp]: "in_group (append_to k v m) k' v' \<longleftrightarrow> in_group m k' v' \<or> (k' = k \<and> v' = v)"
  by (induction k v m rule: append_to.induct) (auto simp: in_group_def)

lemma in_group_lookup: "v \<in> set (lookup m k) \<Longrightarrow> in_group m k v"
  by (cases "map_of m k") (auto simp: lookup_def in_group_def dest: map_of_SomeD)

lemma in_group_members: "in_group m k v \<Longrightarrow> v \<in> set (members m)"
  by (force simp: in_group_def members_def)

lemma in_group_Nil [simp]: "\<not> in_group [] k v"
  by (simp add: in_group_def)

lemma members_Nil [simp]: "members [] = []"
  by (simp add: members_def)

lemma lookup_all: "distinct (map fst m) \<Longrightarrow> concat (map (lookup m) (map fst m)) = members m"
proof -
  assume "distinct (map fst m)"
  then have "lookup m (fst x) = snd x" if "x \<in> set m" for x
    using that by (cases x) (simp add: lookup_def)
  then have "map (lookup m) (map fst m) = map snd m" by simp
  then show ?thesis by (simp only: members_def)
qed

lemma mset_concat_map: "mset xs = mset ys \<Longrightarrow> mset (concat (map f xs)) = mset (concat (map f ys))"
proof -
  assume "mset xs = mset ys"
  then have "image_mset (mset \<circ> f) (mset xs) = image_mset (mset \<circ> f) (mset ys)" by simp
  then show ?thesis by (simp add: mset_concat sum_mset_sum_list [symmetric] multiset.map_comp)
qed

lemma lookup_ordered:
  assumes "distinct (map fst m)" and "mset ks = mset (map fst m)"
  shows "mset (concat (map (lookup m) ks)) = mset (members m)"
  using mset_concat_map [OF assms(2), of "lookup m"] lookup_all [OF assms(1)] by simp

section \<open>First allocations\<close>

abbreviation by_pod :: "ip_allocation list \<Rightarrow> (string \<times> ip_allocation) list" where
  "by_pod xs \<equiv> map (\<lambda>a. (al_pod a, a)) xs"

lemma first_allocations_snoc:
  "first_allocations (xs @ [a]) =
     (if map_of (first_allocations xs) (al_pod a) = None then first_allocations xs @ [(al_pod a, a)] else first_allocations xs)"
  by (simp add: first_allocations_def)

lemma first_allocations:
  "map_of (first_allocations xs) = map_of (by_pod xs)" "distinct (map fst (first_allocations xs))"
proof (induction xs rule: rev_induct)
  case (snoc a xs)
  { case 1 with snoc show ?case by (auto simp: first_allocations_snoc map_add_def fun_eq_iff split: option.splits) }
  { case 2 from snoc(2) show ?case by (auto simp: first_allocations_snoc map_of_eq_None_iff) }
qed (simp_all add: first_allocations_def)

lemma first_allocations_pod: "(k, a) \<in> set (first_allocations xs) \<Longrightarrow> al_pod a = k"
  by (induction xs rule: rev_induct) (auto simp: first_allocations_snoc split: if_splits, simp add: first_allocations_def)

section \<open>The pool\<close>

definition good_pool :: "netip \<Rightarrow> ip_pool \<Rightarrow> bool" where
  "good_pool T p \<longleftrightarrow> (\<exists>cidr new A. NewIPPool T cidr = Inr new \<and> p = new\<lparr>pl_allocated := A\<rparr>)"

text \<open>An address text that the pool cannot hand out: taken, or not an address of the prefix.\<close>

definition blocked :: "netip \<Rightarrow> ip_pool \<Rightarrow> string \<Rightarrow> bool" where
  "blocked T p s \<longleftrightarrow> s \<in> pl_allocated p \<or>
     (\<forall>a. ni_parse_addr T s = Some a \<longrightarrow> \<not> contains (pl_prefix p) a)"

lemma good_pool_update: "good_pool T p \<Longrightarrow> good_pool T (p\<lparr>pl_allocated := A\<rparr>)"
  unfolding good_pool_def by (elim exE conjE) (auto intro!: exI)

lemma good_pool_new: "NewIPPool T cidr = Inr p \<Longrightarrow> good_pool T p"
  unfolding good_pool_def by (intro exI [of _ cidr] exI [of _ p] exI [of _ "pl_allocated p"]) simp

lemma MarkAllocated [simp]:
  "good_pool T p \<Longrightarrow> good_pool T (MarkAllocated T p s)" "blocked T (MarkAllocated T p s) s"
  "blocked T p t \<Longrightarrow> blocked T (MarkAllocated T p s) t"
  by (auto simp: MarkAllocated_def blocked_def good_pool_update split: option.split)

lemma Allocate_fresh:
  assumes T: "netip_ok T" and "good_pool T p"
  obtains (full) "Allocate T p = Some (Inl (exhausted p), p)"
  | (fresh) s where "Allocate T p = Some (Inr s, p\<lparr>pl_allocated := insert s (pl_allocated p)\<rparr>)" and "\<not> blocked T p s"
proof -
  obtain cidr new A where new: "NewIPPool T cidr = Inr new" and p: "p = new\<lparr>pl_allocated := A\<rparr>"
    using assms(2) by (auto simp: good_pool_def)
  note A = allocate_pool [OF T new p]
  show ?thesis
  proof (cases "find (\<lambda>a. isAutoAssignable a \<and> ni_string T a \<notin> A) (pool_addrs p)")
    case None
    then show ?thesis using A(1) by (intro full) simp
  next
    case (Some a)
    then have "a \<in> set (pool_addrs p)" and free: "ni_string T a \<notin> A" by (auto dest: find_SomeD)
    then have in_pool: "contains (pl_prefix p) a" using A(3) by (simp add: usable_def)
    then have "ni_parse_addr T (ni_string T a) = Some a"
      using T by (cases a) (auto simp: netip_ok_def contains_def split: addr.splits)
    then have "\<not> blocked T p (ni_string T a)" using free in_pool by (simp add: blocked_def p)
    then show ?thesis using A(1) Some by (intro fresh [of "ni_string T a"]) (simp_all add: p)
  qed
qed

section \<open>Step 4\<close>

abbreviation info_key :: "pod_info \<Rightarrow> string" where
  "info_key p \<equiv> pod_key (pi_global p) (pi_namespace p) (pi_name p)"

definition scheduled :: "string \<Rightarrow> pod \<Rightarrow> bool" where
  "scheduled n p \<longleftrightarrow> pd_domain p = n \<and> pd_phase p \<noteq> PodPhaseSucceeded \<and> pd_phase p \<noteq> PodPhaseFailed \<and>
     pd_node p \<noteq> [] \<and> pd_ip p \<noteq> []"

abbreviation key_of :: "pod \<Rightarrow> string" where
  "key_of p \<equiv> pod_key (om_namespace (pd_meta p)) (pd_pod_namespace p) (pd_pod_name p)"

text \<open>What holds while Pods are grouped; \<open>fa\<close> is the first allocation of every Pod.\<close>

definition grouped :: "netip \<Rightarrow> (string \<times> ip_allocation) list \<Rightarrow> grouping \<Rightarrow> bool" where
  "grouped T fa g \<longleftrightarrow>
     (\<forall>k ip. gr_reused g k = Some ip \<longrightarrow> (\<exists>a. map_of fa k = Some a \<and> al_ip a = ip)) \<and>
     gr_reused_ips g = ran (gr_reused g) \<and> inj_on (gr_reused g) (dom (gr_reused g)) \<and>
     gr_old g = filter (\<lambda>(k, _). gr_reused g k = None) fa \<and>
     (\<forall>k ip. gr_reused g k = Some ip \<longrightarrow> k \<in> info_key ` set (members (gr_pods g))) \<and>
     (\<forall>p \<in> set (members (gr_pods g)). gr_reused g (info_key p) = Some (pi_ip p)) \<and>
     distinct (map info_key (members (gr_pods g))) \<and>
     (\<forall>p \<in> set (members (gr_new g)). \<forall>a. map_of fa (info_key p) = Some a \<longrightarrow>
        gr_reused g (info_key p) \<noteq> None \<or> al_ip a \<in> gr_reused_ips g) \<and>
     distinct (map fst (gr_pods g)) \<and> distinct (map fst (gr_new g)) \<and>
     (\<forall>ns p. in_group (gr_pods g) ns p \<or> in_group (gr_new g) ns p \<longrightarrow> pi_global p = ns) \<and>
     good_pool T (gr_pool g) \<and> (\<forall>ip \<in> gr_reused_ips g. blocked T (gr_pool g) ip)"

lemma map_of_filter: "map_of (filter (\<lambda>(k, _). P k) xs) k = (if P k then map_of xs k else None)"
  by (induction xs) auto

lemma grouped_new:
  assumes g: "grouped T fa g" and new: "map_of (gr_old g) (key_of p) = None \<or>
    (\<exists>a. map_of (gr_old g) (key_of p) = Some a \<and> al_ip a \<in> gr_reused_ips g)"
  shows "grouped T fa (g\<lparr>gr_new := append_to (om_namespace (pd_meta p)) (pod_info_of p []) (gr_new g)\<rparr>)"
proof -
  have old: "gr_old g = filter (\<lambda>(k, _). gr_reused g k = None) fa" using g by (simp add: grouped_def)
  have "gr_reused g (key_of p) \<noteq> None \<or> al_ip a \<in> gr_reused_ips g" if "map_of fa (key_of p) = Some a" for a
    using new that by (auto simp: old map_of_filter split: if_splits)
  then show ?thesis using g by (auto simp: grouped_def pod_info_of_def)
qed

lemma grouped_reuse:
  assumes g: "grouped T fa g" and a: "map_of (gr_old g) (key_of p) = Some a" and free: "al_ip a \<notin> gr_reused_ips g"
  shows "grouped T fa (g\<lparr>gr_reused_ips := insert (al_ip a) (gr_reused_ips g),
      gr_reused := (gr_reused g)(key_of p \<mapsto> al_ip a),
      gr_pods := append_to (om_namespace (pd_meta p)) (pod_info_of p (al_ip a)) (gr_pods g),
      gr_pool := MarkAllocated T (gr_pool g) (al_ip a),
      gr_old := filter (\<lambda>(k, _). k \<noteq> key_of p) (gr_old g)\<rparr>)"
proof -
  have old: "gr_old g = filter (\<lambda>(k, _). gr_reused g k = None) fa" using g by (simp add: grouped_def)
  then have k: "gr_reused g (key_of p) = None" "map_of fa (key_of p) = Some a"
    using a by (auto simp: map_of_filter split: if_splits)
  have ran: "gr_reused_ips g = ran (gr_reused g)" and inj: "inj_on (gr_reused g) (dom (gr_reused g))"
    and keys: "\<forall>p \<in> set (members (gr_pods g)). gr_reused g (info_key p) = Some (pi_ip p)"
    using g by (simp_all add: grouped_def)
  have "filter (\<lambda>(k, _). k \<noteq> key_of p) (gr_old g) = filter (\<lambda>(k, _). ((gr_reused g)(key_of p \<mapsto> al_ip a)) k = None) fa"
    unfolding old filter_filter by (rule filter_cong) (auto split: if_splits)
  moreover have "inj_on ((gr_reused g)(key_of p \<mapsto> al_ip a)) (insert (key_of p) (dom (gr_reused g)))"
    using inj free unfolding ran by (auto simp: inj_on_def ran_def dom_def)
  moreover have "info_key (pod_info_of p (al_ip a)) \<notin> info_key ` set (members (gr_pods g))"
    using keys k(1) by (auto simp: pod_info_of_def)
  moreover have "ran ((gr_reused g)(key_of p \<mapsto> al_ip a)) = insert (al_ip a) (gr_reused_ips g)"
    using k(1) by (simp add: ran)
  moreover have "\<forall>q \<in> set (members (gr_pods g)). ((gr_reused g)(key_of p \<mapsto> al_ip a)) (info_key q) = Some (pi_ip q)"
    using keys k(1) by auto
  ultimately show ?thesis
    using g k(2) unfolding grouped_def
    by (intro conjI) (auto simp: pod_info_of_def)
qed

lemma grouped_place: "grouped T fa g \<Longrightarrow> grouped T fa (place_pod T g p)"
  unfolding place_pod_def Let_def
  by (auto split: option.split intro!: grouped_new simp: grouped_reuse [unfolded Let_def])

lemma grouped_known [simp]: "grouped T fa (g\<lparr>gr_known := K\<rparr>) = grouped T fa g"
  by (simp add: grouped_def)

lemma grouped_step: "grouped T fa g \<Longrightarrow> grouped T fa (group_pod T n g p)"
  by (simp add: group_pod_def Let_def grouped_place)

lemma grouped_all:
  assumes "good_pool T pool"
  shows "grouped T (first_allocations recorded) (group_pods T pool n recorded pods)"
  unfolding group_pods_def
proof (induction pods rule: rev_induct)
  case Nil
  then show ?case using assms by (simp add: grouped_def)
qed (simp add: grouped_step)

text \<open>Every scheduled Pod is in exactly one of the two groups, in its namespace.\<close>

definition nameless :: "pod_info \<Rightarrow> pod_info" where
  "nameless p = p\<lparr>pi_ip := []\<rparr>"

lemma grouped_pods:
  "mset (map nameless (members (gr_pods (group_pods T pool n recorded pods)) @ members (gr_new (group_pods T pool n recorded pods)))) =
     mset (map (\<lambda>p. pod_info_of p []) (filter (scheduled n) pods))"
  unfolding group_pods_def
  by (induction pods rule: rev_induct)
     (auto simp: group_pod_def place_pod_def Let_def scheduled_def pod_info_of_def nameless_def split: option.split)

section \<open>Step 5\<close>

definition first_of :: "ip_allocation list \<Rightarrow> string \<rightharpoonup> ip_allocation" where
  "first_of xs = map_of (by_pod xs)"

definition unused_first :: "(string \<rightharpoonup> string) \<Rightarrow> ip_allocation list \<Rightarrow> int" where
  "unused_first reused xs = int (length (filter (\<lambda>(k, _). reused k = None) (first_allocations xs)))"

definition unused :: "(string \<rightharpoonup> string) \<Rightarrow> ip_allocation list \<Rightarrow> int" where
  "unused reused xs = int (length (filter (\<lambda>a. reused (al_pod a) = None) xs))"

definition kept_ok :: "netip \<Rightarrow> (string \<rightharpoonup> string) \<Rightarrow> string set \<Rightarrow> ip_pool \<Rightarrow> ip_allocation list \<Rightarrow> keeping \<Rightarrow> bool" where
  "kept_ok T reused ips pool xs s \<longleftrightarrow>
     kp_seen s = al_pod ` set xs \<and> distinct (map al_pod (kp_kept s)) \<and>
     (\<forall>a \<in> set (kp_kept s). first_of xs (al_pod a) = Some a) \<and>
     (\<forall>a \<in> set (kp_kept s). reused (al_pod a) \<in> {None, Some (al_ip a)}) \<and>
     (\<forall>a \<in> set (kp_kept s). reused (al_pod a) = None \<longrightarrow> al_ip a \<notin> ips \<and> blocked T (kp_pool s) (al_ip a)) \<and>
     (\<forall>a. first_of xs (al_pod a) = Some a \<and> reused (al_pod a) = Some (al_ip a) \<longrightarrow> a \<in> set (kp_kept s)) \<and>
     good_pool T (kp_pool s) \<and> (\<forall>ip. blocked T pool ip \<longrightarrow> blocked T (kp_pool s) ip)"

definition kept_few :: "(string \<rightharpoonup> string) \<Rightarrow> int \<Rightarrow> ip_allocation list \<Rightarrow> keeping \<Rightarrow> bool" where
  "kept_few reused budget xs s \<longleftrightarrow>
     kp_seen s = al_pod ` set xs \<and> 0 \<le> kp_expire s \<and> (0 < kp_expire s \<longrightarrow> unused reused (kp_kept s) = 0) \<and>
     unused reused (kp_kept s) + (budget - kp_expire s) \<le> unused_first reused xs"

lemma first_of_None: "first_of xs k = None \<longleftrightarrow> k \<notin> al_pod ` set xs"
  by (simp add: first_of_def map_of_eq_None_iff image_image)

lemma first_of_snoc:
  "first_of (xs @ [a]) = (if al_pod a \<in> al_pod ` set xs then first_of xs else (first_of xs)(al_pod a \<mapsto> a))"
proof -
  have "first_of (xs @ [a]) k = (case first_of xs k of None \<Rightarrow> if k = al_pod a then Some a else None | Some b \<Rightarrow> Some b)" for k
    by (simp add: first_of_def map_add_def split: option.split)
  then show ?thesis using first_of_None [of xs "al_pod a"] by (auto simp: fun_eq_iff split: option.split)
qed

lemma first_ofD: "first_of xs k = Some a \<Longrightarrow> a \<in> set xs \<and> al_pod a = k"
  by (auto simp: first_of_def dest: map_of_SomeD)

lemma unused_first_snoc:
  "unused_first reused (xs @ [a]) =
     unused_first reused xs + (if al_pod a \<notin> al_pod ` set xs \<and> reused (al_pod a) = None then 1 else 0)"
proof -
  have "map_of (first_allocations xs) k = None \<longleftrightarrow> k \<notin> al_pod ` set xs" for k
    using first_of_None [of xs k] by (simp add: first_allocations(1) first_of_def)
  then show ?thesis by (simp add: unused_first_def first_allocations_snoc)
qed

lemma kept_expire [simp]: "kept_ok T reused ips pool xs (s\<lparr>kp_expire := n\<rparr>) = kept_ok T reused ips pool xs s"
  by (simp add: kept_ok_def)

lemma kept_seen:
  assumes "kept_ok T reused ips pool xs s" and "al_pod a \<in> al_pod ` set xs"
  shows "kept_ok T reused ips pool (xs @ [a]) s"
  using assms unfolding kept_ok_def first_of_snoc by (simp add: insert_absorb)

lemma kept_okD:
  assumes "kept_ok T reused ips pool xs s"
  shows "kp_seen s = al_pod ` set xs" "distinct (map al_pod (kp_kept s))" "good_pool T (kp_pool s)"
    and "b \<in> set (kp_kept s) \<Longrightarrow> first_of xs (al_pod b) = Some b"
    and "b \<in> set (kp_kept s) \<Longrightarrow> reused (al_pod b) \<in> {None, Some (al_ip b)}"
    and "b \<in> set (kp_kept s) \<Longrightarrow> reused (al_pod b) = None \<Longrightarrow> al_ip b \<notin> ips \<and> blocked T (kp_pool s) (al_ip b)"
    and "first_of xs (al_pod b) = Some b \<Longrightarrow> reused (al_pod b) = Some (al_ip b) \<Longrightarrow> b \<in> set (kp_kept s)"
    and "blocked T pool ip \<Longrightarrow> blocked T (kp_pool s) ip"
  using assms unfolding kept_ok_def by blast+

lemma kept_add:
  assumes s: "kept_ok T reused ips pool xs s" and new: "al_pod a \<notin> al_pod ` set xs"
    and kept: "add = [] \<and> reused (al_pod a) \<noteq> Some (al_ip a) \<or> add = [a] \<and> reused (al_pod a) \<in> {None, Some (al_ip a)}"
    and free: "add = [a] \<Longrightarrow> reused (al_pod a) = None \<Longrightarrow> al_ip a \<notin> ips \<and> blocked T pool' (al_ip a)"
    and good: "good_pool T pool'" and mono: "\<And>ip. blocked T (kp_pool s) ip \<Longrightarrow> blocked T pool' ip"
  shows "kept_ok T reused ips pool (xs @ [a])
    (s\<lparr>kp_seen := insert (al_pod a) (kp_seen s), kp_kept := kp_kept s @ add, kp_pool := pool'\<rparr>)"
proof -
  note S = kept_okD [OF s]
  have fresh: "al_pod b \<noteq> al_pod a" if "b \<in> set (kp_kept s)" for b
    using first_ofD [OF S(4) [OF that]] new by (metis image_eqI)
  have first: "first_of (xs @ [a]) = (first_of xs)(al_pod a \<mapsto> a)" using new by (simp add: first_of_snoc)
  have add: "set add \<subseteq> {a}" using kept by auto
  show ?thesis
    unfolding kept_ok_def first
  proof (intro conjI ballI allI impI; (elim conjE)?)
    show "distinct (map al_pod (kp_kept (s\<lparr>kp_seen := insert (al_pod a) (kp_seen s), kp_kept := kp_kept s @ add, kp_pool := pool'\<rparr>)))"
      using S(2) fresh kept by force
  next
    fix b
    assume "b \<in> set (kp_kept (s\<lparr>kp_seen := insert (al_pod a) (kp_seen s), kp_kept := kp_kept s @ add, kp_pool := pool'\<rparr>))"
    then consider "b \<in> set (kp_kept s)" | "b = a" "add = [a]" using add kept by auto
    note b = this
    show "((first_of xs)(al_pod a \<mapsto> a)) (al_pod b) = Some b" using b S(4) fresh by cases auto
    show "reused (al_pod b) \<in> {None, Some (al_ip b)}" using b S(5) kept by cases auto
    show "al_ip b \<notin> ips" if "reused (al_pod b) = None" using b S(6) free that by cases auto
    show "blocked T (kp_pool (s\<lparr>kp_seen := insert (al_pod a) (kp_seen s), kp_kept := kp_kept s @ add, kp_pool := pool'\<rparr>)) (al_ip b)"
      if "reused (al_pod b) = None" using b S(6) free mono that by cases auto
  next
    fix b
    assume b: "((first_of xs)(al_pod a \<mapsto> a)) (al_pod b) = Some b" "reused (al_pod b) = Some (al_ip b)"
    show "b \<in> set (kp_kept (s\<lparr>kp_seen := insert (al_pod a) (kp_seen s), kp_kept := kp_kept s @ add, kp_pool := pool'\<rparr>))"
    proof (cases "al_pod b = al_pod a")
      case True
      with b(1) have "b = a" by simp
      with b(2) kept have "add = [a]" by auto
      then show ?thesis using \<open>b = a\<close> by simp
    next
      case False
      with b S(7) show ?thesis by simp
    qed
  qed (use S(1,3,8) good mono in simp_all)
qed

lemma kept_step:
  assumes s: "kept_ok T reused ips pool xs s"
  shows "kept_ok T reused ips pool (xs @ [a]) (keep_allocation T reused ips s a)"
proof -
  have seen: "kp_seen s = al_pod ` set xs" and good: "good_pool T (kp_pool s)" using s by (simp_all add: kept_ok_def)
  show ?thesis
  proof (cases "al_pod a \<in> al_pod ` set xs")
    case True
    then show ?thesis using kept_seen [OF s] by (simp add: keep_allocation_def seen)
  next
    case False
    have skip: "reused (al_pod a) \<noteq> Some (al_ip a) \<Longrightarrow>
        kept_ok T reused ips pool (xs @ [a]) (s\<lparr>kp_seen := insert (al_pod a) (kp_seen s), kp_expire := n\<rparr>)" for n
      using kept_add [OF s False, of "[]" "kp_pool s"] good by simp
    have keep: "reused (al_pod a) = Some (al_ip a) \<Longrightarrow>
        kept_ok T reused ips pool (xs @ [a]) (s\<lparr>kp_seen := insert (al_pod a) (kp_seen s), kp_kept := kp_kept s @ [a]\<rparr>)"
      using kept_add [OF s False, of "[a]" "kp_pool s"] good by simp
    have mark: "reused (al_pod a) = None \<Longrightarrow> al_ip a \<notin> ips \<Longrightarrow>
        kept_ok T reused ips pool (xs @ [a]) (s\<lparr>kp_seen := insert (al_pod a) (kp_seen s), kp_kept := kp_kept s @ [a],
          kp_pool := MarkAllocated T (kp_pool s) (al_ip a)\<rparr>)"
      using kept_add [OF s False, of "[a]" "MarkAllocated T (kp_pool s) (al_ip a)"] good by simp
    show ?thesis
      using skip skip [of "kp_expire s"] keep mark False unfolding keep_allocation_def Let_def
      by (auto simp: seen split: option.split)
  qed
qed

lemma few_step:
  assumes "kept_few reused budget xs s"
  shows "kept_few reused budget (xs @ [a]) (keep_allocation T reused ips s a)"
proof -
  have seen: "kp_seen s = al_pod ` set xs" using assms by (simp add: kept_few_def)
  show ?thesis
    using assms
    by (cases "al_pod a \<in> al_pod ` set xs"; cases "reused (al_pod a)")
      (auto simp: keep_allocation_def seen kept_few_def unused_first_snoc unused_def Let_def)
qed

lemma kept_all:
  assumes "good_pool T (gr_pool g)"
  shows "kept_ok T (gr_reused g) (gr_reused_ips g) (gr_pool g) recorded (keep_allocations T g recorded)"
  unfolding keep_allocations_def
proof (induction recorded rule: rev_induct)
  case Nil
  then show ?case using assms by (simp add: kept_ok_def first_of_def)
next
  case (snoc a xs)
  from kept_step [OF this, of a] show ?case by simp
qed

lemma few_all: "kept_few (gr_reused g) (max 0 (int (length (gr_old g)) - 128)) recorded (keep_allocations T g recorded)"
  unfolding keep_allocations_def
proof (induction recorded rule: rev_induct)
  case Nil
  then show ?case by (simp add: kept_few_def unused_def unused_first_def first_allocations_def)
next
  case (snoc a xs)
  from few_step [OF this, where T = T and ips = "gr_reused_ips g" and a = a] show ?case by simp
qed

section \<open>Step 6\<close>

definition assigned :: "netip \<Rightarrow> assigning \<Rightarrow> bool" where
  "assigned T s \<longleftrightarrow> good_pool T (as_pool s) \<and> (\<forall>a \<in> set (as_allocations s). blocked T (as_pool s) (al_ip a)) \<and>
     (\<forall>p \<in> set (members (as_pods s)). \<exists>a \<in> set (as_allocations s). al_pod a = info_key p \<and> al_ip a = pi_ip p) \<and>
     distinct (map pi_ip (members (as_pods s))) \<and> distinct (map fst (as_pods s)) \<and>
     (\<forall>ns p. in_group (as_pods s) ns p \<longrightarrow> pi_global p = ns)"

lemma assignedI:
  assumes "good_pool T (as_pool s)" and "\<And>a. a \<in> set (as_allocations s) \<Longrightarrow> blocked T (as_pool s) (al_ip a)"
    and "\<And>p. p \<in> set (members (as_pods s)) \<Longrightarrow> \<exists>a \<in> set (as_allocations s). al_pod a = info_key p \<and> al_ip a = pi_ip p"
    and "distinct (map pi_ip (members (as_pods s)))" and "distinct (map fst (as_pods s))"
    and "\<And>ns p. in_group (as_pods s) ns p \<Longrightarrow> pi_global p = ns"
  shows "assigned T s"
  using assms unfolding assigned_def by blast

lemma blocked_insert: "blocked T p s \<Longrightarrow> blocked T (p\<lparr>pl_allocated := insert t (pl_allocated p)\<rparr>) s"
  "blocked T (p\<lparr>pl_allocated := insert t (pl_allocated p)\<rparr>) t"
  by (simp_all add: blocked_def)

text \<open>
  One Pod: the pool is exhausted, or the Pod gets an address that no allocation has.
\<close>

lemma assign_one:
  assumes T: "netip_ok T" and s: "assigned T s" and ns: "pi_global p = ns"
  obtains (full) "assign_pod T ns s p = Inl (exhausted (as_pool s))"
  | (got) ip s' where "assign_pod T ns s p = Inr s'" and "assigned T s'" and "ip \<notin> al_ip ` set (as_allocations s)"
      and "as_allocations s' = as_allocations s @ [\<lparr>al_ip = ip, al_job = [], al_task = [], al_pod = info_key p\<rparr>]"
      and "as_pods s' = append_to ns (p\<lparr>pi_ip := ip\<rparr>) (as_pods s)" and "pl_cidr (as_pool s') = pl_cidr (as_pool s)"
proof -
  have good: "good_pool T (as_pool s)" using s by (simp add: assigned_def)
  show ?thesis
    using T good
  proof (cases rule: Allocate_fresh)
    case full
    then show ?thesis by (intro that(1)) (simp add: assign_pod_def)
  next
    case (fresh ip)
    let ?pool = "(as_pool s)\<lparr>pl_allocated := insert ip (pl_allocated (as_pool s))\<rparr>"
    let ?a = "\<lparr>al_ip = ip, al_job = [], al_task = [], al_pod = info_key p\<rparr>"
    let ?s = "\<lparr>as_pods = append_to ns (p\<lparr>pi_ip := ip\<rparr>) (as_pods s), as_allocations = as_allocations s @ [?a], as_pool = ?pool\<rparr>"
    have new: "ip \<notin> al_ip ` set (as_allocations s)" using s fresh(2) by (auto simp: assigned_def)
    have "ip \<notin> pi_ip ` set (members (as_pods s))"
    proof
      assume "ip \<in> pi_ip ` set (members (as_pods s))"
      then obtain q where q: "q \<in> set (members (as_pods s))" "pi_ip q = ip" by blast
      then obtain a where "a \<in> set (as_allocations s)" "al_ip a = pi_ip q" using s unfolding assigned_def by blast
      with q new show False by (metis image_eqI)
    qed
    then have distinct: "distinct (map pi_ip (members (as_pods ?s)))" using s by (simp add: assigned_def)
    have recorded: "\<exists>a \<in> set (as_allocations ?s). al_pod a = info_key q \<and> al_ip a = pi_ip q" if "q \<in> set (members (as_pods ?s))" for q
    proof (cases "q = p\<lparr>pi_ip := ip\<rparr>")
      case False
      with that have "q \<in> set (members (as_pods s))" by simp
      then obtain a where "a \<in> set (as_allocations s)" "al_pod a = info_key q" "al_ip a = pi_ip q"
        using s unfolding assigned_def by blast
      then show ?thesis by (intro bexI [of _ a] conjI) simp_all
    qed simp
    have global: "pi_global q = ns'" if "in_group (as_pods ?s) ns' q" for ns' q
    proof -
      have "in_group (as_pods s) ns' q \<Longrightarrow> pi_global q = ns'" using s unfolding assigned_def by blast
      with that ns show ?thesis by (auto simp del: in_group_append simp: in_group_append [of ns])
    qed
    have "assigned T ?s"
    proof (rule assignedI)
      show "blocked T (as_pool ?s) (al_ip a)" if "a \<in> set (as_allocations ?s)" for a
        using that s by (auto simp: assigned_def blocked_insert)
      show "good_pool T (as_pool ?s)" using good by (simp add: good_pool_update)
      show "distinct (map fst (as_pods ?s))" using s by (simp add: assigned_def)
    qed (rule recorded distinct global; assumption?)+
    moreover have "assign_pod T ns s p = Inr ?s" using fresh(1) ns by (simp add: assign_pod_def)
    ultimately show ?thesis using new by (intro that(2) [of ?s ip]) simp_all
  qed
qed

text \<open>
  All Pods: either some scan finds the pool exhausted, or the new allocations are one per Pod, with
  addresses that are pairwise distinct and that no earlier allocation has.
\<close>

lemma assign_run:
  assumes "netip_ok T" and "assigned T s" and "\<forall>(ns, p) \<in> set ps. pi_global p = ns"
  shows "assign_all T s ps = Inl (exhausted (as_pool s)) \<or>
    (\<exists>s' new. assign_all T s ps = Inr s' \<and> assigned T s' \<and> as_allocations s' = as_allocations s @ new \<and>
       map al_pod new = map (info_key \<circ> snd) ps \<and> distinct (map al_ip new) \<and>
       al_ip ` set new \<inter> al_ip ` set (as_allocations s) = {} \<and>
       mset (map nameless (members (as_pods s'))) = mset (map nameless (members (as_pods s) @ map snd ps)))"
  using assms(2,3)
proof (induction ps arbitrary: s)
  case Nil
  then show ?case by simp
next
  case (Cons x ps)
  obtain ns p where x: "x = (ns, p)" by (cases x)
  with Cons.prems have ns: "pi_global p = ns" by simp
  show ?case
    using assms(1) Cons.prems(1) ns
  proof (cases rule: assign_one)
    case full
    then show ?thesis by (simp add: x)
  next
    case (got ip s1)
    have rest: "\<forall>(ns, p) \<in> set ps. pi_global p = ns" using Cons.prems(2) by simp
    have same: "exhausted (as_pool s1) = exhausted (as_pool s)" by (simp add: exhausted_def got(6))
    from Cons.IH [OF got(2) rest] show ?thesis
    proof (elim disjE exE conjE)
      assume "assign_all T s1 ps = Inl (exhausted (as_pool s1))"
      then show ?thesis using got(1) same by (simp add: x)
    next
      fix s' new
      assume R: "assign_all T s1 ps = Inr s'" "assigned T s'" "as_allocations s' = as_allocations s1 @ new"
        "map al_pod new = map (info_key \<circ> snd) ps" "distinct (map al_ip new)"
        "al_ip ` set new \<inter> al_ip ` set (as_allocations s1) = {}"
        "mset (map nameless (members (as_pods s'))) = mset (map nameless (members (as_pods s1) @ map snd ps))"
      let ?new = "\<lparr>al_ip = ip, al_job = [], al_task = [], al_pod = info_key p\<rparr> # new"
      have "assign_all T s (x # ps) = Inr s'" "as_allocations s' = as_allocations s @ ?new"
        "map al_pod ?new = map (info_key \<circ> snd) (x # ps)"
        using R(1,3,4) got(1,4) by (simp_all add: x)
      moreover have "distinct (map al_ip ?new)" "al_ip ` set ?new \<inter> al_ip ` set (as_allocations s) = {}"
        using R(5,6) got(3,4) by auto
      moreover have "mset (map nameless (members (as_pods s'))) = mset (map nameless (members (as_pods s) @ map snd (x # ps)))"
        using R(7) got(5) by (simp add: x nameless_def)
      ultimately show ?thesis using R(2) by blast
    qed
  qed
qed

section \<open>A pass\<close>

text \<open>The state in which step 6 starts.\<close>

lemma reused_distinct:
  assumes "grouped T fa g"
  shows "distinct (map pi_ip (members (gr_pods g)))"
proof -
  let ?m = "members (gr_pods g)" and ?R = "\<lambda>k. the (gr_reused g k)"
  have R: "gr_reused g (info_key p) = Some (pi_ip p)" if "p \<in> set ?m" for p
    using assms that unfolding grouped_def by blast
  have inj: "inj_on (gr_reused g) (dom (gr_reused g))" and keys: "distinct (map info_key ?m)"
    using assms by (simp_all add: grouped_def)
  have "inj_on ?R (set (map info_key ?m))"
    by (rule inj_onI) (use R inj in \<open>force simp: inj_on_def dom_def\<close>)
  then have "distinct (map ?R (map info_key ?m))" using keys unfolding distinct_map [of ?R "map info_key ?m"] by (intro conjI)
  moreover have "map ?R (map info_key ?m) = map pi_ip ?m" using R by simp
  ultimately show ?thesis by (simp only:)
qed

lemma start_assigned:
  fixes n :: string and recorded :: "ip_allocation list" and pods :: "pod list"
  assumes "good_pool T pool"
  defines "g \<equiv> group_pods T pool n recorded pods"
  defines "k \<equiv> keep_allocations T g recorded"
  shows "assigned T \<lparr>as_pods = gr_pods g, as_allocations = kp_kept k, as_pool = kp_pool k\<rparr>"
proof -
  have g: "grouped T (first_allocations recorded) g" unfolding g_def by (rule grouped_all [OF assms(1)])
  then have "good_pool T (gr_pool g)" by (simp add: grouped_def)
  then have k: "kept_ok T (gr_reused g) (gr_reused_ips g) (gr_pool g) recorded k" unfolding k_def by (rule kept_all)
  note K = kept_okD [OF k]
  have reused: "a \<in> set (kp_kept k)" "al_ip a \<in> gr_reused_ips g"
    if "gr_reused g (al_pod a) = Some (al_ip a)" "first_of recorded (al_pod a) = Some a" for a
    using that K(7) g by (auto simp: grouped_def ran_def)
  show ?thesis
  proof (rule assignedI; unfold assigning.simps)
    show "blocked T (kp_pool k) (al_ip a)" if "a \<in> set (kp_kept k)" for a
    proof (cases "gr_reused g (al_pod a)")
      case None
      then show ?thesis using K(6) [OF that] by simp
    next
      case (Some ip)
      then have "gr_reused g (al_pod a) = Some (al_ip a)" using K(5) [OF that] by auto
      then have "blocked T (gr_pool g) (al_ip a)" using g by (auto simp: grouped_def ran_def)
      then show ?thesis by (rule K(8))
    qed
    show "\<exists>a \<in> set (kp_kept k). al_pod a = info_key p \<and> al_ip a = pi_ip p" if "p \<in> set (members (gr_pods g))" for p
    proof -
      have r: "gr_reused g (info_key p) = Some (pi_ip p)" using g that unfolding grouped_def by blast
      then obtain a where a: "map_of (first_allocations recorded) (info_key p) = Some a" "al_ip a = pi_ip p"
        using g unfolding grouped_def by blast
      then have f: "first_of recorded (info_key p) = Some a" by (simp add: first_allocations(1) first_of_def)
      then have "al_pod a = info_key p" by (auto dest: first_ofD)
      then show ?thesis using reused(1) [of a] r f a(2) by (intro bexI [of _ a] conjI) simp_all
    qed
    show "distinct (map pi_ip (members (gr_pods g)))" by (rule reused_distinct [OF g])
  qed (use g K(3) in \<open>auto simp: grouped_def\<close>)
qed

text \<open>Every permutation of the keys lists every member of a group once.\<close>

definition permutes :: "(nat \<Rightarrow> string list \<Rightarrow> string list) \<Rightarrow> bool" where
  "permutes ro \<longleftrightarrow> (\<forall>i xs. mset (ro i xs) = mset xs)"

lemma to_assign:
  assumes "permutes ro" and "grouped T fa g"
  shows "\<forall>(ns, p) \<in> set (pods_to_assign (ro 0) g). pi_global p = ns"
    and "mset (map snd (pods_to_assign (ro 0) g)) = mset (members (gr_new g))"
proof -
  have "pi_global p = ns" if "p \<in> set (lookup (gr_new g) ns)" for ns p
    using in_group_lookup [OF that] assms(2) unfolding grouped_def by blast
  then show "\<forall>(ns, p) \<in> set (pods_to_assign (ro 0) g). pi_global p = ns" by (auto simp: pods_to_assign_def)
  have "map snd (pods_to_assign (ro 0) g) = concat (map (lookup (gr_new g)) (ro 0 (map fst (gr_new g))))"
    by (simp add: pods_to_assign_def map_concat comp_def)
  then show "mset (map snd (pods_to_assign (ro 0) g)) = mset (members (gr_new g))"
    using lookup_ordered [of "gr_new g" "ro 0 (map fst (gr_new g))"] assms
    by (simp add: permutes_def grouped_def del: mset_map)
qed

text \<open>The shape of a pass, from which the properties follow.\<close>

lemma pass_shape:
  fixes n :: string and recorded :: "ip_allocation list" and pods :: "pod list"
  assumes T: "netip_ok T" and pool: "good_pool T pool" and ro: "permutes ro"
  defines "g \<equiv> group_pods T pool n recorded pods"
  defines "k \<equiv> keep_allocations T g recorded"
  shows "allocate_domain T ro pool n recorded pods = Inl (exhausted (kp_pool k)) \<or>
    (\<exists>r s new. allocate_domain T ro pool n recorded pods = Inr r \<and> assigned T s \<and>
       dr_allocations r = sort_key al_pod (kp_kept k @ new) \<and> as_allocations s = kp_kept k @ new \<and>
       mset (dr_pods r) = mset (members (as_pods s)) \<and> sorted (map pod_order (dr_pods r)) \<and>
       mset (map al_pod new) = mset (map info_key (members (gr_new g))) \<and> distinct (map al_ip new) \<and>
       al_ip ` set new \<inter> al_ip ` set (kp_kept k) = {} \<and>
       mset (map nameless (dr_pods r)) = mset (map (\<lambda>p. pod_info_of p []) (filter (scheduled n) pods)))"
proof -
  have g: "grouped T (first_allocations recorded) g" unfolding g_def by (rule grouped_all [OF pool])
  let ?s = "\<lparr>as_pods = gr_pods g, as_allocations = kp_kept k, as_pool = kp_pool k\<rparr>"
  have start: "assigned T ?s" unfolding k_def g_def by (rule start_assigned [OF pool])
  note todo = to_assign [OF ro g]
  from assign_run [OF T start todo(1)] show ?thesis
  proof (elim disjE exE conjE)
    assume "assign_all T ?s (pods_to_assign (ro 0) g) = Inl (exhausted (as_pool ?s))"
    then show ?thesis by (simp add: allocate_domain_def Let_def g_def [symmetric] k_def [symmetric])
  next
    fix s new
    assume R: "assign_all T ?s (pods_to_assign (ro 0) g) = Inr s" "assigned T s"
      "as_allocations s = as_allocations ?s @ new" "map al_pod new = map (info_key \<circ> snd) (pods_to_assign (ro 0) g)"
      "distinct (map al_ip new)" "al_ip ` set new \<inter> al_ip ` set (as_allocations ?s) = {}"
      "mset (map nameless (members (as_pods s))) =
         mset (map nameless (members (as_pods ?s) @ map snd (pods_to_assign (ro 0) g)))"
    obtain r where r: "allocate_domain T ro pool n recorded pods = Inr r"
      "dr_allocations r = sort_key al_pod (as_allocations s)"
      "dr_pods r = sort_key pod_order (concat (map (lookup (as_pods s)) (ro 1 (map fst (as_pods s)))))"
      using R(1) by (simp add: allocate_domain_def Let_def g_def [symmetric] k_def [symmetric])
    have "distinct (map fst (as_pods s))" using R(2) by (simp add: assigned_def)
    then have pods: "mset (dr_pods r) = mset (members (as_pods s))"
      using ro lookup_ordered [of "as_pods s" "ro 1 (map fst (as_pods s))"] by (simp add: r(3) permutes_def)
    have "mset (map al_pod new) = image_mset info_key (mset (map snd (pods_to_assign (ro 0) g)))"
      by (simp add: R(4) multiset.map_comp)
    also have "\<dots> = image_mset info_key (mset (members (gr_new g)))" by (simp only: todo(2))
    finally have keys: "mset (map al_pod new) = mset (map info_key (members (gr_new g)))" by simp
    have "mset (map nameless (dr_pods r)) = mset (map nameless (members (as_pods s)))" by (simp add: pods)
    also have "\<dots> = image_mset nameless (mset (members (gr_pods g)) + mset (map snd (pods_to_assign (ro 0) g)))"
      using R(7) by (simp add: multiset.map_comp)
    also have "\<dots> = mset (map nameless (members (gr_pods g) @ members (gr_new g)))" by (simp only: todo(2) [unfolded mset_map] mset_map mset_append image_mset_union map_append)
    finally have "mset (map nameless (dr_pods r)) = mset (map (\<lambda>p. pod_info_of p []) (filter (scheduled n) pods))"
      by (simp only: g_def grouped_pods)
    moreover have "sorted (map pod_order (dr_pods r))" by (simp add: r(3))
    ultimately show ?thesis using r(1,2) R(2,3,5,6) pods keys by auto
  qed
qed

text \<open>A pass that succeeds, with what each step left.\<close>

lemma pass_cases:
  assumes "netip_ok T" and "good_pool T pool" and "permutes ro" and "allocate_domain T ro pool n recorded pods = Inr r"
  obtains g k s new where "grouped T (first_allocations recorded) g" and "g = group_pods T pool n recorded pods"
    and "kept_ok T (gr_reused g) (gr_reused_ips g) (gr_pool g) recorded k" and "k = keep_allocations T g recorded"
    and "assigned T s" and "as_allocations s = kp_kept k @ new"
    and "dr_allocations r = sort_key al_pod (kp_kept k @ new)" and "mset (dr_pods r) = mset (members (as_pods s))"
    and "sorted (map pod_order (dr_pods r))" and "mset (map al_pod new) = mset (map info_key (members (gr_new g)))"
    and "distinct (map al_ip new)" and "al_ip ` set new \<inter> al_ip ` set (kp_kept k) = {}"
    and "mset (map nameless (dr_pods r)) = mset (map (\<lambda>p. pod_info_of p []) (filter (scheduled n) pods))"
proof -
  define g where "g = group_pods T pool n recorded pods"
  have g: "grouped T (first_allocations recorded) g" unfolding g_def by (rule grouped_all [OF assms(2)])
  then have k: "kept_ok T (gr_reused g) (gr_reused_ips g) (gr_pool g) recorded (keep_allocations T g recorded)"
    by (intro kept_all) (simp add: grouped_def)
  from pass_shape [OF assms(1-3), of n recorded pods] assms(4) show ?thesis
    unfolding g_def [symmetric]
    by (auto intro!: that [OF g g_def k refl])
qed

lemma active_groups:
  assumes "grouped T fa g" and "g = group_pods T pool n recorded pods"
    and "mset (map nameless (dr_pods r)) = mset (map (\<lambda>p. pod_info_of p []) (filter (scheduled n) pods))"
  shows "info_key ` set (dr_pods r) = dom (gr_reused g) \<union> info_key ` set (members (gr_new g))"
proof -
  have keys: "info_key (nameless p) = info_key p" for p by (simp add: nameless_def)
  have "info_key ` set (dr_pods r) = info_key ` nameless ` set (dr_pods r)" by (simp add: image_image keys)
  also have "\<dots> = info_key ` nameless ` set (members (gr_pods g) @ members (gr_new g))"
    using mset_eq_setD [OF trans [OF assms(3) grouped_pods [of T pool n recorded pods, symmetric]]] assms(2) by (simp add: image_Un)
  also have "\<dots> = info_key ` set (members (gr_pods g)) \<union> info_key ` set (members (gr_new g))"
    by (simp add: image_image keys image_Un)
  finally show ?thesis using assms(1) unfolding grouped_def by (auto simp: dom_def)
qed

lemma filter_length_mono:
  "(\<And>x. x \<in> set xs \<Longrightarrow> P x \<Longrightarrow> Q x) \<Longrightarrow> length (filter P xs) \<le> length (filter Q xs)"
  by (induction xs) (auto intro: le_SucI)

lemma distinct_of_mset: "mset xs = mset ys \<Longrightarrow> distinct xs = distinct ys"
  by (rule mset_eq_imp_distinct_iff)

lemma kept_ips_distinct:
  assumes k: "kept_ok T reused ips pool xs s" and xs: "distinct (map al_ip xs)"
  shows "distinct (map al_ip (kp_kept s))"
proof -
  note K = kept_okD [OF k]
  have "set (kp_kept s) \<subseteq> set xs" using K(4) by (blast dest: first_ofD)
  then have "inj_on al_ip (set (kp_kept s))" using xs by (auto simp: distinct_map intro: inj_on_subset)
  then show ?thesis using K(2) by (simp add: distinct_map)
qed

lemma pass_addresses:
  assumes "netip_ok T" and "good_pool T pool" and "permutes ro"
    and "allocate_domain T ro pool n recorded pods = Inr r"
  shows "distinct (map pi_ip (dr_pods r)) \<and>
    mset (map nameless (dr_pods r)) = mset (map (\<lambda>p. pod_info_of p []) (filter (scheduled n) pods)) \<and>
    (\<forall>p \<in> set (dr_pods r). \<exists>a \<in> set (dr_allocations r). al_pod a = info_key p \<and> al_ip a = pi_ip p) \<and>
    (distinct (map al_ip recorded) \<longrightarrow> distinct (map al_ip (dr_allocations r)))"
  using assms
proof (cases rule: pass_cases)
  case (1 g k s new)
  have "distinct (map pi_ip (dr_pods r)) = distinct (map pi_ip (members (as_pods s)))"
    by (rule distinct_of_mset) (simp add: 1(8))
  moreover have "distinct (map al_ip (dr_allocations r)) = distinct (map al_ip (kp_kept k @ new))"
    by (rule distinct_of_mset) (simp add: 1(7))
  moreover have "set (dr_pods r) = set (members (as_pods s))" using 1(8) by (rule mset_eq_setD)
  moreover have "set (dr_allocations r) = set (as_allocations s)" by (simp add: 1(6,7))
  moreover have "distinct (map al_ip (kp_kept k))" if "distinct (map al_ip recorded)"
    by (rule kept_ips_distinct [OF 1(3) that])
  ultimately show ?thesis using 1(5,11,12,13) unfolding assigned_def by auto
qed

text \<open>
  C7. The addresses of a Domain. Whatever the recorded allocations, and in whatever order the maps
  are ranged over, a pass that succeeds lists every scheduled Pod of the Domain exactly once, gives the
  listed Pods pairwise distinct addresses, and records the address of each; and if no two recorded
  allocations had the same address, the new ones do not either.
\<close>

theorem domain_addresses_distinct:
  assumes "netip_ok T" and "NewIPPool T cidr = Inr pool" and "permutes ro"
    and "allocate_domain T ro pool n recorded pods = Inr r"
  shows "distinct (map pi_ip (dr_pods r)) \<and>
    mset (map nameless (dr_pods r)) = mset (map (\<lambda>p. pod_info_of p []) (filter (scheduled n) pods)) \<and>
    (\<forall>p \<in> set (dr_pods r). \<exists>a \<in> set (dr_allocations r). al_pod a = info_key p \<and> al_ip a = pi_ip p) \<and>
    (distinct (map al_ip recorded) \<longrightarrow> distinct (map al_ip (dr_allocations r)))"
  using pass_addresses [OF assms(1) good_pool_new [OF assms(2)] assms(3,4)] .

lemma pass_unused:
  assumes "netip_ok T" and "good_pool T pool" and "permutes ro"
    and "allocate_domain T ro pool n recorded pods = Inr r"
  shows "length (filter (\<lambda>a. al_pod a \<notin> info_key ` set (dr_pods r)) (dr_allocations r)) \<le> 128"
  using assms
proof (cases rule: pass_cases)
  case (1 g k s new)
  let ?in = "\<lambda>a. al_pod a \<notin> info_key ` set (dr_pods r)"
  note active = active_groups [OF 1(1,2,13)]
  have "al_pod ` set new = info_key ` set (members (gr_new g))" using mset_eq_setD [OF 1(10)] by simp
  then have none: "filter ?in new = []" using active by (auto simp: filter_empty_conv)
  have "length (filter ?in (dr_allocations r)) = size (filter_mset ?in (mset (dr_allocations r)))"
    by (simp flip: mset_filter)
  also have "\<dots> = length (filter ?in (kp_kept k @ new))" by (simp add: 1(7) flip: mset_filter)
  also have "\<dots> = length (filter ?in (kp_kept k))" by (simp add: none)
  also have "\<dots> \<le> length (filter (\<lambda>a. gr_reused g (al_pod a) = None) (kp_kept k))"
    by (rule filter_length_mono) (use active in auto)
  finally have few: "int (length (filter ?in (dr_allocations r))) \<le> unused (gr_reused g) (kp_kept k)"
    by (simp add: unused_def)
  have "int (length (gr_old g)) = unused_first (gr_reused g) recorded" using 1(1) by (simp add: grouped_def unused_first_def)
  with few_all [of g recorded T] have "unused (gr_reused g) (kp_kept k) \<le> 128"
    unfolding 1(4) [symmetric] kept_few_def by linarith
  with few show ?thesis by simp
qed

text \<open>
  Of the allocations that no listed Pod uses, a pass keeps at most 128.
\<close>

theorem domain_unused_bounded:
  assumes "netip_ok T" and "NewIPPool T cidr = Inr pool" and "permutes ro"
    and "allocate_domain T ro pool n recorded pods = Inr r"
  shows "length (filter (\<lambda>a. al_pod a \<notin> info_key ` set (dr_pods r)) (dr_allocations r)) \<le> 128"
  using pass_unused [OF assms(1) good_pool_new [OF assms(2)] assms(3,4)] .

section \<open>Stability\<close>

text \<open>
  With distinct recorded addresses and distinct Pods, every scheduled Pod with a recorded address
  keeps it.
\<close>

lemma group_reuses:
  assumes ips: "inj_on al_ip (snd ` set fa)" and fa: "\<And>k a. map_of fa k = Some a \<Longrightarrow> al_pod a = k"
    and keys: "distinct (map key_of (filter (scheduled n) ps))" and pool: "good_pool T pool"
  defines "start \<equiv> \<lparr>gr_known = {}, gr_pods = [], gr_new = [], gr_reused_ips = {}, gr_reused = Map.empty,
        gr_old = fa, gr_pool = pool\<rparr>"
  shows "grouped T fa (foldl (group_pod T n) start ps) \<and>
    (\<forall>k. gr_reused (foldl (group_pod T n) start ps) k =
       (if k \<in> key_of ` set (filter (scheduled n) ps) then map_option al_ip (map_of fa k) else None))"
  using keys
proof (induction ps rule: rev_induct)
  case Nil
  then show ?case using pool by (simp add: start_def grouped_def)
next
  case (snoc p ps)
  let ?g = "foldl (group_pod T n) start ps"
  from snoc have g: "grouped T fa ?g" and R: "\<And>k. gr_reused ?g k =
      (if k \<in> key_of ` set (filter (scheduled n) ps) then map_option al_ip (map_of fa k) else None)"
    by (simp_all split: if_splits)
  have g': "grouped T fa (group_pod T n ?g p)" using g by (rule grouped_step)
  have old: "gr_old ?g = filter (\<lambda>(k, _). gr_reused ?g k = None) fa" using g by (simp add: grouped_def)
  show ?case
  proof (cases "scheduled n p")
    case False
    then have "gr_reused (group_pod T n ?g p) = gr_reused ?g"
      by (auto simp: group_pod_def scheduled_def Let_def)
    then show ?thesis using g' R False by simp
  next
    case True
    with snoc.prems have new: "key_of p \<notin> key_of ` set (filter (scheduled n) ps)" by simp
    then have none: "gr_reused ?g (key_of p) = None" using R by simp
    have step: "gr_reused (group_pod T n ?g p) =
        (case map_of fa (key_of p) of None \<Rightarrow> gr_reused ?g | Some a \<Rightarrow> (gr_reused ?g)(key_of p \<mapsto> al_ip a))"
    proof (cases "map_of fa (key_of p)")
      case None
      then show ?thesis using True none by (simp add: group_pod_def scheduled_def Let_def place_pod_def old map_of_filter)
    next
      case (Some a)
      have "al_ip a \<notin> gr_reused_ips ?g"
      proof
        assume "al_ip a \<in> gr_reused_ips ?g"
        then obtain k where "gr_reused ?g k = Some (al_ip a)" using g by (auto simp: grouped_def ran_def)
        then obtain b where b: "map_of fa k = Some b" "al_ip b = al_ip a" "k \<in> key_of ` set (filter (scheduled n) ps)"
          using R by (auto split: if_splits)
        have "a \<in> snd ` set fa" "b \<in> snd ` set fa" using Some b(1) by (force dest: map_of_SomeD)+
        with b(2) ips have "b = a" by (meson inj_onD)
        then have "k = key_of p" using fa [OF Some] fa [OF b(1)] by simp
        with b(3) new show False by simp
      qed
      then show ?thesis using True none Some
        by (simp add: group_pod_def scheduled_def Let_def place_pod_def old map_of_filter)
    qed
    show ?thesis using g' R True new by (auto simp: step split: option.split)
  qed
qed

lemma first_ips:
  assumes "distinct (map al_ip xs)"
  shows "inj_on al_ip (snd ` set (first_allocations xs))"
proof -
  have "snd ` set (first_allocations xs) \<subseteq> set xs"
    by (induction xs rule: rev_induct) (auto simp: first_allocations_snoc split: if_splits, simp add: first_allocations_def)
  then show ?thesis using assms by (auto simp: distinct_map intro: inj_on_subset)
qed

lemma pass_reuses:
  assumes ips: "distinct (map al_ip recorded)" and keys: "distinct (map key_of (filter (scheduled n) pods))"
    and pool: "good_pool T pool"
  shows "gr_reused (group_pods T pool n recorded pods) k =
    (if k \<in> key_of ` set (filter (scheduled n) pods) then map_option al_ip (first_of recorded k) else None)"
proof -
  have "map_of (first_allocations recorded) k = Some a \<Longrightarrow> al_pod a = k" for k a
    by (auto dest: map_of_SomeD first_allocations_pod)
  from group_reuses [OF first_ips [OF ips] this keys pool] show ?thesis
    by (simp add: group_pods_def first_allocations(1) first_of_def)
qed

lemma info_keys:
  assumes "mset (map nameless qs) = mset (map (\<lambda>p. pod_info_of p []) ps)"
  shows "mset (map info_key qs) = mset (map key_of ps)"
proof -
  have "info_key \<circ> nameless = info_key" "info_key \<circ> (\<lambda>p. pod_info_of p []) = key_of"
    by (simp_all add: fun_eq_iff nameless_def pod_info_of_def)
  then show ?thesis using arg_cong [OF assms, of "image_mset info_key"] by (simp add: multiset.map_comp)
qed

lemma groups_disjoint:
  fixes T :: netip and pool :: ip_pool and recorded :: "ip_allocation list"
  assumes "distinct (map key_of (filter (scheduled n) pods))"
  defines "g \<equiv> group_pods T pool n recorded pods"
  shows "distinct (map info_key (members (gr_pods g) @ members (gr_new g)))"
  using assms(1) distinct_of_mset [OF info_keys [OF grouped_pods [of T pool n recorded pods]]] unfolding g_def by blast

lemma active_keys:
  assumes "mset (map nameless (dr_pods r)) = mset (map (\<lambda>p. pod_info_of p []) (filter (scheduled n) pods))"
  shows "info_key ` set (dr_pods r) = key_of ` set (filter (scheduled n) pods)"
  using mset_eq_setD [OF info_keys [OF assms]] by simp

text \<open>
  C23. A Pod keeps its address. If the recorded allocations have distinct addresses, and no two scheduled
  Pods have the same name, then whatever Pods come and go, a scheduled Pod that has a recorded allocation
  is listed with the address of its first one.
\<close>

theorem pod_keeps_address:
  assumes "netip_ok T" and "NewIPPool T cidr = Inr pool" and "permutes ro"
    and "allocate_domain T ro pool n recorded pods = Inr r"
    and "distinct (map al_ip recorded)" and "distinct (map key_of (filter (scheduled n) pods))"
    and "p \<in> set pods" and "scheduled n p" and "first_of recorded (key_of p) = Some a"
  shows "\<exists>q \<in> set (dr_pods r). info_key q = key_of p \<and> pi_ip q = al_ip a"
  using assms(1) good_pool_new [OF assms(2)] assms(3,4)
proof (cases rule: pass_cases)
  case (1 g k s new)
  note K = kept_okD [OF 1(3)]
  have r: "gr_reused g (key_of p) = Some (al_ip a)"
    unfolding 1(2) pass_reuses [OF assms(5,6) good_pool_new [OF assms(2)]] using assms(7-9) by simp
  then have "key_of p \<in> info_key ` set (members (gr_pods g))" using 1(1) unfolding grouped_def by blast
  then have other: "key_of p \<notin> info_key ` set (members (gr_new g))"
    using groups_disjoint [OF assms(6), of T pool recorded] unfolding 1(2) by auto
  have "key_of p \<in> info_key ` set (dr_pods r)" unfolding active_keys [OF 1(13)] using assms(7,8) by simp
  then obtain q where q: "q \<in> set (dr_pods r)" "info_key q = key_of p" by (rule imageE) simp
  then have "q \<in> set (members (as_pods s))" using mset_eq_setD [OF 1(8)] by simp
  then obtain b where b: "b \<in> set (as_allocations s)" "al_pod b = info_key q" "al_ip b = pi_ip q"
    using 1(5) unfolding assigned_def by blast
  have "al_pod ` set new = info_key ` set (members (gr_new g))" using mset_eq_setD [OF 1(10)] by simp
  then have "b \<in> set (kp_kept k)" using b(1,2) q(2) other unfolding 1(6) by (metis Un_iff image_eqI set_append)
  from K(5) [OF this] r b(2,3) q show ?thesis by auto
qed

lemma keep_everything:
  assumes "distinct (map al_pod xs)" and "\<And>a. a \<in> set xs \<Longrightarrow> reused (al_pod a) \<in> {None, Some (al_ip a)}"
    and "\<And>a. a \<in> set xs \<Longrightarrow> reused (al_pod a) = None \<Longrightarrow> al_ip a \<notin> ips"
    and "kp_expire s = 0" and "al_pod ` set xs \<inter> kp_seen s = {}"
  shows "kp_kept (foldl (keep_allocation T reused ips) s xs) = kp_kept s @ xs"
  using assms
proof (induction xs arbitrary: s)
  case (Cons a xs)
  let ?s = "keep_allocation T reused ips s a"
  have s: "kp_kept ?s = kp_kept s @ [a] \<and> kp_expire ?s = 0 \<and> kp_seen ?s = insert (al_pod a) (kp_seen s)"
    using Cons.prems(2) [of a] Cons.prems(3) [of a] Cons.prems(4,5) by (auto simp: keep_allocation_def Let_def)
  have "kp_kept (foldl (keep_allocation T reused ips) ?s xs) = kp_kept ?s @ xs"
    by (rule Cons.IH) (use Cons.prems s in auto)
  with s show ?case by simp
qed simp

lemma sorted_by_distinct_keys:
  assumes "mset xs = mset ys" and "sorted (map f xs)" and "sorted (map f ys)" and "distinct (map f xs)"
  shows "xs = ys"
proof -
  have "sort_key f xs = ys" by (rule sort_key_inj_key_eq [OF assms(1) _ assms(3)]) (use assms(4) in \<open>simp add: distinct_map\<close>)
  then show ?thesis by (simp add: sort_key_id_if_sorted assms(2))
qed

lemma new_keys_fresh:
  assumes g: "grouped T (first_allocations recorded) g" and k: "kept_ok T (gr_reused g) (gr_reused_ips g) pool recorded k"
    and disjoint: "distinct (map info_key (members (gr_pods g) @ members (gr_new g)))"
    and a: "a \<in> set (kp_kept k)"
  shows "al_pod a \<notin> info_key ` set (members (gr_new g))"
proof
  assume "al_pod a \<in> info_key ` set (members (gr_new g))"
  then obtain p where p: "p \<in> set (members (gr_new g))" "info_key p = al_pod a" by (rule imageE) simp
  note K = kept_okD [OF k]
  have "map_of (first_allocations recorded) (info_key p) = Some a"
    using K(4) [OF a] by (simp add: p(2) first_allocations(1) first_of_def)
  then consider "gr_reused g (info_key p) \<noteq> None" | "gr_reused g (info_key p) = None" "al_ip a \<in> gr_reused_ips g"
    using g p(1) unfolding grouped_def by blast
  then show False
  proof cases
    case 1
    then have "info_key p \<in> info_key ` set (members (gr_pods g))" using g unfolding grouped_def by blast
    then show False using disjoint p(1) by auto
  next
    case 2
    then show False using K(6) [OF a] p(2) by simp
  qed
qed

text \<open>What a pass leaves, for the pass after it.\<close>

lemma pass_settled:
  assumes "netip_ok T" and "good_pool T pool" and "permutes ro"
    and "allocate_domain T ro pool n recorded pods = Inr r" and "distinct (map key_of (filter (scheduled n) pods))"
  shows "distinct (map al_pod (dr_allocations r))" and "sorted (map al_pod (dr_allocations r))"
    and "sorted (map pod_order (dr_pods r))"
    and "\<And>a q. a \<in> set (dr_allocations r) \<Longrightarrow> q \<in> set (dr_pods r) \<Longrightarrow> al_ip a = pi_ip q \<Longrightarrow> al_pod a = info_key q"
proof -
  note settled = assms(1-4)
  show "distinct (map al_pod (dr_allocations r))"
    using settled
  proof (cases rule: pass_cases)
    case (1 g k s new)
    note disjoint = groups_disjoint [OF assms(5), of T pool recorded, folded 1(2)]
    have "distinct (map al_pod new)" using distinct_of_mset [OF 1(10)] disjoint by simp
    moreover have "al_pod ` set new = info_key ` set (members (gr_new g))" using mset_eq_setD [OF 1(10)] by simp
    moreover have "distinct (map al_pod (kp_kept k))" by (rule kept_okD(2) [OF 1(3)])
    ultimately have "distinct (map al_pod (kp_kept k @ new))"
      using new_keys_fresh [OF 1(1,3) disjoint] by auto
    then show ?thesis using distinct_of_mset [of "map al_pod (dr_allocations r)" "map al_pod (kp_kept k @ new)"] 1(7) by simp
  qed
  show "sorted (map al_pod (dr_allocations r))" using settled by (cases rule: pass_cases) simp
  show "sorted (map pod_order (dr_pods r))" using settled by (cases rule: pass_cases) simp
  fix a q
  assume a: "a \<in> set (dr_allocations r)" and q: "q \<in> set (dr_pods r)" and ip: "al_ip a = pi_ip q"
  show "al_pod a = info_key q"
    using settled
  proof (cases rule: pass_cases)
    case (1 g k s new)
    note K = kept_okD [OF 1(3)]
    have "q \<in> set (members (as_pods s))" using q mset_eq_setD [OF 1(8)] by simp
    then obtain b where b: "b \<in> set (kp_kept k @ new)" "al_pod b = info_key q" "al_ip b = pi_ip q"
      using 1(5,6) unfolding assigned_def by force
    have a: "a \<in> set (kp_kept k @ new)" using a by (simp add: 1(7))
    have new: "inj_on al_ip (set new)" using 1(11) by (simp add: distinct_map)
    have inter: "x \<in> set new \<Longrightarrow> y \<in> set (kp_kept k) \<Longrightarrow> al_ip x \<noteq> al_ip y" for x y using 1(12) by blast
    show ?thesis
    proof (cases "a \<in> set new")
      case True
      then have "b \<in> set new" using b a ip inter [of a b] by auto
      with True new b ip have "a = b" by (metis inj_onD)
      then show ?thesis using b by simp
    next
      case False
      then have ak: "a \<in> set (kp_kept k)" using a by simp
      then have bk: "b \<in> set (kp_kept k)" using b ip inter [of b a] by auto
      have "al_pod b \<in> info_key ` set (dr_pods r)" using b(2) q by simp
      then have "gr_reused g (al_pod b) = Some (al_ip b)"
        using new_keys_fresh [OF 1(1,3) groups_disjoint [OF assms(5), of T pool recorded, folded 1(2)] bk] K(5) [OF bk]
        unfolding active_groups [OF 1(1,2,13)] by auto
      then have rb: "gr_reused g (al_pod b) = Some (al_ip a)" using b(3) ip by simp
      then have "al_ip a \<in> gr_reused_ips g" using 1(1) by (auto simp: grouped_def ran_def)
      then have "gr_reused g (al_pod a) = Some (al_ip a)" using K(5,6) [OF ak] by auto
      with rb 1(1) have "al_pod a = al_pod b" unfolding grouped_def inj_on_def by (metis domI)
      with b(2) show ?thesis by simp
    qed
  qed
qed

lemma first_of_distinct:
  "distinct (map al_pod xs) \<Longrightarrow> first_of xs k = Some a \<longleftrightarrow> a \<in> set xs \<and> al_pod a = k"
proof -
  assume "distinct (map al_pod xs)"
  then have "distinct (map fst (by_pod xs))" by (simp add: comp_def)
  then show ?thesis by (auto simp: first_of_def)
qed

lemma first_allocations_distinct: "distinct (map al_pod xs) \<Longrightarrow> first_allocations xs = by_pod xs"
proof (induction xs rule: rev_induct)
  case (snoc a xs)
  then have "first_of xs (al_pod a) = None" by (simp add: first_of_None)
  then show ?case using snoc by (simp add: first_allocations_snoc first_of_def)
qed (simp add: first_allocations_def)

lemma mset_by_nameless:
  assumes "mset (map nameless xs) = mset (map nameless ys)" and "\<And>q. q \<in> set xs \<union> set ys \<Longrightarrow> h (nameless q) = q"
  shows "mset xs = mset ys"
proof -
  have "map (h \<circ> nameless) zs = zs" if "set zs \<subseteq> set xs \<union> set ys" for zs
    by (rule map_idI) (use that assms(2) in auto)
  then show ?thesis using arg_cong [OF assms(1), of "image_mset h"] by (simp add: multiset.map_comp flip: mset_map)
qed

lemma pod_order_distinct: "distinct (map info_key xs) \<Longrightarrow> distinct (map pod_order xs)"
proof -
  have "map info_key xs = map (\<lambda>ks. pod_key (ks ! 0) (ks ! 1) (ks ! 2)) (map pod_order xs)" by (simp add: pod_order_def)
  moreover assume "distinct (map info_key xs)"
  ultimately show ?thesis using distinct_map [of "\<lambda>ks. pod_key (ks ! 0) (ks ! 1) (ks ! 2)" "map pod_order xs"] by (simp only:)
qed

text \<open>A pass from settled allocations, in which every scheduled Pod has one, changes nothing.\<close>

lemma settled_pass:
  assumes T: "netip_ok T" and good: "good_pool T pool" and ro: "permutes ro"
    and keys: "distinct (map key_of (filter (scheduled n) pods))"
    and R: "distinct (map al_pod R)" "distinct (map al_ip R)" "sorted (map al_pod R)"
    and all: "\<And>p. p \<in> set pods \<Longrightarrow> scheduled n p \<Longrightarrow> key_of p \<in> al_pod ` set R"
    and few: "length (filter (\<lambda>a. al_pod a \<notin> key_of ` set (filter (scheduled n) pods)) R) \<le> 128"
  obtains r where "allocate_domain T ro pool n R pods = Inr r" and "dr_allocations r = R"
    and "sorted (map pod_order (dr_pods r))"
    and "mset (map nameless (dr_pods r)) = mset (map (\<lambda>p. pod_info_of p []) (filter (scheduled n) pods))"
    and "\<forall>q \<in> set (dr_pods r). map_option al_ip (first_of R (info_key q)) = Some (pi_ip q)"
proof -
  let ?K = "key_of ` set (filter (scheduled n) pods)"
  define g where "g = group_pods T pool n R pods"
  have g: "grouped T (first_allocations R) g" unfolding g_def by (rule grouped_all [OF good])
  have reused: "gr_reused g k = (if k \<in> ?K then map_option al_ip (first_of R k) else None)" for k
    unfolding g_def by (rule pass_reuses [OF R(2) keys good])
  have known: "k \<in> ?K \<Longrightarrow> gr_reused g k \<noteq> None" for k
  proof -
    assume k: "k \<in> ?K"
    then have "k \<in> al_pod ` set R" using all by auto
    then have "first_of R k \<noteq> None" by (simp only: first_of_None not_not)
    with k show ?thesis by (simp add: reused)
  qed
  note total = grouped_pods [of T pool n R pods, folded g_def]
  note disjoint = groups_disjoint [OF keys, of T pool R, folded g_def]
  have none: "members (gr_new g) = []"
  proof (rule ccontr)
    assume "members (gr_new g) \<noteq> []"
    then obtain p where p: "p \<in> set (members (gr_new g))" by (meson last_in_set)
    have "info_key p \<in> ?K" using mset_eq_setD [OF info_keys [OF total]] p by auto
    then have "gr_reused g (info_key p) \<noteq> None" by (rule known)
    then have "info_key p \<in> info_key ` set (members (gr_pods g))" using g unfolding grouped_def by blast
    then show False using disjoint p by auto
  qed
  then have "lookup (gr_new g) ns = []" for ns
    using in_group_lookup [of _ "gr_new g" ns] in_group_members by (metis empty_iff equals0I list.set(1) set_empty)
  then have todo: "pods_to_assign (ro 0) g = []" by (simp add: pods_to_assign_def)
  have own: "gr_reused g (al_pod a) = (if al_pod a \<in> ?K then Some (al_ip a) else None)" if "a \<in> set R" for a
    using first_of_distinct [OF R(1), of "al_pod a" a] that by (simp add: reused)
  have "length (gr_old g) = length (filter (\<lambda>a. gr_reused g (al_pod a) = None) R)"
    using g by (simp add: grouped_def first_allocations_distinct [OF R(1)] filter_map comp_def)
  also have "filter (\<lambda>a. gr_reused g (al_pod a) = None) R = filter (\<lambda>a. al_pod a \<notin> ?K) R"
    by (rule filter_cong) (simp_all add: own)
  finally have old: "length (gr_old g) \<le> 128" using few by simp
  have unused: "al_ip a \<notin> gr_reused_ips g" if a: "a \<in> set R" "gr_reused g (al_pod a) = None" for a
  proof
    assume "al_ip a \<in> gr_reused_ips g"
    then obtain k where "gr_reused g k = Some (al_ip a)" using g by (auto simp: grouped_def ran_def)
    then obtain b where "k \<in> ?K" "first_of R k = Some b" "al_ip b = al_ip a" by (auto simp: reused split: if_splits)
    moreover from this have "b = a" using a(1) R(2) first_ofD [of R k b] by (auto simp: distinct_map dest: inj_onD)
    ultimately show False using a(2) first_ofD [of R k b] own [OF a(1)] by simp
  qed
  have kept: "kp_kept (keep_allocations T g R) = R"
    unfolding keep_allocations_def
    by (subst keep_everything) (use R(1) own unused old in auto)
  define r where "r = \<lparr>dr_allocations = sort_key al_pod R,
      dr_pods = sort_key pod_order (concat (map (lookup (gr_pods g)) (ro 1 (map fst (gr_pods g))))),
      dr_namespaces = ro 2 (map fst (gr_pods g)), dr_known = gr_known g\<rparr>"
  have "allocate_domain T ro pool n R pods = Inr r"
    by (simp add: allocate_domain_def Let_def g_def [symmetric] todo kept r_def)
  moreover have "dr_allocations r = R" using R(3) by (simp add: r_def sort_key_id_if_sorted)
  moreover have pods: "mset (dr_pods r) = mset (members (gr_pods g))"
    using lookup_ordered [of "gr_pods g" "ro 1 (map fst (gr_pods g))"] g ro by (simp add: r_def permutes_def grouped_def)
  moreover have "map_option al_ip (first_of R (info_key q)) = Some (pi_ip q)" if "q \<in> set (dr_pods r)" for q
  proof -
    have "gr_reused g (info_key q) = Some (pi_ip q)" using mset_eq_setD [OF pods] that g unfolding grouped_def by blast
    then show ?thesis by (simp add: reused split: if_splits)
  qed
  ultimately show ?thesis using total none by (intro that [of r]) (simp_all add: r_def)
qed

text \<open>
  C22. A pass settles the Domain. When the scheduled Pods have distinct names, a second pass over the
  same Pods, from the allocations that the first pass recorded and in any order of the maps, succeeds
  and changes neither the recorded allocations nor the listed Pods and their addresses (so nothing is
  written again); the first pass may have started from any distinct allocations.
\<close>

theorem domain_pass_settles:
  assumes "netip_ok T" and "NewIPPool T cidr = Inr pool" and "permutes ro" and "permutes ro'"
    and "allocate_domain T ro pool n recorded pods = Inr r"
    and "distinct (map al_ip recorded)" and "distinct (map key_of (filter (scheduled n) pods))"
  shows "\<exists>r'. allocate_domain T ro' pool n (dr_allocations r) pods = Inr r' \<and>
    dr_allocations r' = dr_allocations r \<and> dr_pods r' = dr_pods r"
proof -
  note good = good_pool_new [OF assms(2)]
  note S = pass_settled [OF assms(1) good assms(3,5,7)]
  note A = pass_addresses [OF assms(1) good assms(3,5)]
  then have ips: "distinct (map al_ip (dr_allocations r))" and listed: "mset (map nameless (dr_pods r)) =
      mset (map (\<lambda>p. pod_info_of p []) (filter (scheduled n) pods))"
    and recorded: "\<And>p. p \<in> set (dr_pods r) \<Longrightarrow> \<exists>a \<in> set (dr_allocations r). al_pod a = info_key p \<and> al_ip a = pi_ip p"
    using assms(6) by blast+
  have all: "key_of p \<in> al_pod ` set (dr_allocations r)" if "p \<in> set pods" "scheduled n p" for p
  proof -
    have "key_of p \<in> info_key ` set (dr_pods r)" unfolding active_keys [OF listed] using that by simp
    then obtain q where q: "q \<in> set (dr_pods r)" "info_key q = key_of p" by (rule imageE) simp
    with recorded [OF q(1)] show ?thesis by force
  qed
  have few: "length (filter (\<lambda>a. al_pod a \<notin> key_of ` set (filter (scheduled n) pods)) (dr_allocations r)) \<le> 128"
    using pass_unused [OF assms(1) good assms(3,5)] unfolding active_keys [OF listed] .
  from assms(1) good assms(4,7) S(1) ips S(2) all few
  obtain r' where r': "allocate_domain T ro' pool n (dr_allocations r) pods = Inr r'" "dr_allocations r' = dr_allocations r"
    "sorted (map pod_order (dr_pods r'))"
    "mset (map nameless (dr_pods r')) = mset (map (\<lambda>p. pod_info_of p []) (filter (scheduled n) pods))"
    "\<forall>q \<in> set (dr_pods r'). map_option al_ip (first_of (dr_allocations r) (info_key q)) = Some (pi_ip q)"
    by (rule settled_pass)
  have "map_option al_ip (first_of (dr_allocations r) (info_key q)) = Some (pi_ip q)" if "q \<in> set (dr_pods r)" for q
    using recorded [OF that] first_of_distinct [OF S(1), of "info_key q"] by auto
  with r'(5) have known: "map_option al_ip (first_of (dr_allocations r) (info_key q)) = Some (pi_ip q)"
    if "q \<in> set (dr_pods r') \<union> set (dr_pods r)" for q using that by blast
  have "mset (dr_pods r') = mset (dr_pods r)"
  proof (rule mset_by_nameless [where h = "\<lambda>q. q\<lparr>pi_ip := the (map_option al_ip (first_of (dr_allocations r) (info_key q)))\<rparr>"])
    show "mset (map nameless (dr_pods r')) = mset (map nameless (dr_pods r))" by (simp only: r'(4) listed)
  qed (simp add: nameless_def known del: map_option_eq_Some)
  moreover have "distinct (map info_key (dr_pods r'))" using distinct_of_mset [OF info_keys [OF r'(4)]] assms(7) by simp
  ultimately have "dr_pods r' = dr_pods r"
    using sorted_by_distinct_keys [OF _ r'(3) S(3) pod_order_distinct] by blast
  with r'(1,2) show ?thesis by blast
qed

section \<open>A concrete Domain\<close>

text \<open>
  One recorded allocation of a running Pod and one of a Pod that is gone; a new Pod, a finished Pod and
  a Pod of another Domain. The maps are ranged over in reverse insertion order.
\<close>

definition demo_pod :: "string \<Rightarrow> string \<Rightarrow> string \<Rightarrow> pod" where
  "demo_pod domain_name name phase =
     \<lparr>pd_meta = \<lparr>om_name = ''u-'' @ name, om_namespace = ''team'', om_uid = [], om_resource_version = [],
        om_generation = 1, om_labels = None, om_annotations = None, om_finalizers = None, om_controller = None,
        om_deletion = None\<rparr>,
      pd_domain = domain_name, pd_pod_namespace = ''ns'', pd_pod_name = name, pd_phase = phase, pd_node = ''n1'',
      pd_ip = ''192.168.0.5''\<rparr>"

definition demo_pods :: "pod list" where
  "demo_pods =
     [demo_pod ''edge'' ''b'' ''Running'', demo_pod ''edge'' ''a'' ''Running'', demo_pod ''edge'' ''c'' ''Succeeded'',
      demo_pod ''other'' ''d'' ''Running'']"

definition demo_allocation :: "string \<Rightarrow> string \<Rightarrow> ip_allocation" where
  "demo_allocation ip pod_name = \<lparr>al_ip = ip, al_job = [], al_task = [], al_pod = ''team/ns/'' @ pod_name\<rparr>"

definition demo_recorded :: "ip_allocation list" where
  "demo_recorded = [demo_allocation ''10.0.0.1'' ''gone'', demo_allocation ''10.0.0.3'' ''a'']"

abbreviation reversed :: "nat \<Rightarrow> string list \<Rightarrow> string list" where
  "reversed \<equiv> \<lambda>_ xs. rev xs"

definition demo_pass :: domain_pass where
  "demo_pass =
     \<lparr>dr_allocations = [demo_allocation ''10.0.0.3'' ''a'', demo_allocation ''10.0.0.2'' ''b'', demo_allocation ''10.0.0.1'' ''gone''],
      dr_pods = [pod_info_of (demo_pod ''edge'' ''a'' ''Running'') ''10.0.0.3'', pod_info_of (demo_pod ''edge'' ''b'' ''Running'') ''10.0.0.2''],
      dr_namespaces = [''team''], dr_known = {''team''}\<rparr>"

lemma demo_pass:
  "allocate_domain demo_netip reversed (demo_pool ''10.0.0.0/29'') ''edge'' demo_recorded demo_pods = Inr demo_pass"
  by code_simp

lemma permutes_reversed: "permutes reversed"
  by (simp add: permutes_def)

lemma demo_distinct:
  "distinct (map al_ip demo_recorded)" "distinct (map key_of (filter (scheduled ''edge'') demo_pods))"
  "demo_pod ''edge'' ''a'' ''Running'' \<in> set demo_pods" "scheduled ''edge'' (demo_pod ''edge'' ''a'' ''Running'')"
  "first_of demo_recorded (key_of (demo_pod ''edge'' ''a'' ''Running'')) = Some (demo_allocation ''10.0.0.3'' ''a'')"
proof -
  show "demo_pod ''edge'' ''a'' ''Running'' \<in> set demo_pods" by (simp add: demo_pods_def)
qed code_simp+

theorem domain_addresses_distinct_witness:
  "allocate_domain demo_netip reversed (demo_pool ''10.0.0.0/29'') ''edge'' demo_recorded demo_pods = Inr demo_pass \<and>
   distinct (map pi_ip (dr_pods demo_pass)) \<and> distinct (map al_ip (dr_allocations demo_pass))"
  using domain_addresses_distinct [OF demo_netip_ok demo_pools_new(1) permutes_reversed demo_pass] demo_pass demo_distinct(1)
  by blast

theorem domain_unused_bounded_witness:
  "length (filter (\<lambda>a. al_pod a \<notin> info_key ` set (dr_pods demo_pass)) (dr_allocations demo_pass)) \<le> 128"
  by (rule domain_unused_bounded [OF demo_netip_ok demo_pools_new(1) permutes_reversed demo_pass])

theorem pod_keeps_address_witness:
  "\<exists>q \<in> set (dr_pods demo_pass). info_key q = key_of (demo_pod ''edge'' ''a'' ''Running'') \<and>
     pi_ip q = al_ip (demo_allocation ''10.0.0.3'' ''a'')"
  by (rule pod_keeps_address [OF demo_netip_ok demo_pools_new(1) permutes_reversed demo_pass demo_distinct])

theorem domain_pass_settles_witness:
  "\<exists>r'. allocate_domain demo_netip (\<lambda>_ xs. xs) (demo_pool ''10.0.0.0/29'') ''edge'' (dr_allocations demo_pass) demo_pods = Inr r' \<and>
     dr_allocations r' = dr_allocations demo_pass \<and> dr_pods r' = dr_pods demo_pass"
proof (rule domain_pass_settles [OF demo_netip_ok demo_pools_new(1) permutes_reversed _ demo_pass demo_distinct(1,2)])
  show "permutes (\<lambda>_ xs. xs)" by (simp add: permutes_def)
qed

end
