(* ===== verification/Domain_Reconcile.thy ===== *)
theory Domain_Reconcile
  imports Domain_Safety
begin

text \<open>
  The reconcile loop of a Domain as a whole: what it may write to the management API, and that it does
  not panic (in particular that the scan for a free address always returns).
\<close>

section \<open>The client\<close>

text \<open>
  What the loop may write: the status of the Domain itself, with pairwise distinct addresses; a peer of
  the Domain whose Pods have pairwise distinct addresses; and the deletion of a peer of the Domain.
\<close>

definition status_allowed :: "string \<Rightarrow> domain \<Rightarrow> bool" where
  "status_allowed n d \<longleftrightarrow> om_name (d_meta d) = n \<and> distinct (map al_ip (ds_allocations (d_status d)))"

definition peer_allowed :: "string \<Rightarrow> domain_peer \<Rightarrow> bool" where
  "peer_allowed n p \<longleftrightarrow> dp_name p = n \<and> dp_pods p \<noteq> None \<and> distinct (map pi_ip (the (dp_pods p)))"

definition domain_env_ok :: "'w domain_env \<Rightarrow> string \<Rightarrow> ('w \<Rightarrow> bool) \<Rightarrow> bool" where
  "domain_env_ok env n I \<longleftrightarrow>
     keeps I (de_get env n) (status_allowed n) no_panic \<and>
     keeps I (de_list_pods env n) (\<lambda>_. True) no_panic \<and>
     (\<forall>d. status_allowed n d \<longrightarrow> keeps I (de_update_status env d) (\<lambda>_. True) no_panic) \<and>
     (\<forall>ns. keeps I (de_get_peer env n ns) (\<lambda>p. dp_name p = n) no_panic) \<and>
     (\<forall>p. peer_allowed n p \<longrightarrow> keeps I (de_create_peer env p) (\<lambda>_. True) no_panic) \<and>
     (\<forall>p. peer_allowed n p \<longrightarrow> keeps I (de_update_peer env p) (\<lambda>_. True) no_panic) \<and>
     keeps I (de_list_peers env) (\<lambda>_. True) no_panic \<and>
     (\<forall>p. dp_name p = n \<longrightarrow> keeps I (de_delete_peer env p) (\<lambda>_. True) no_panic) \<and>
     keeps I (de_new_client env) (\<lambda>_. True) no_panic \<and>
     (\<forall>c role client domain_id. keeps I (de_post_sign env c role client domain_id)
        (\<lambda>(_, body). \<forall>e. body = Inl e \<longrightarrow> no_panic e) no_panic) \<and>
     (\<forall>cs c w. I w \<longrightarrow> I (snd (de_set_condition env cs c w)))"

lemma domain_env_okD:
  assumes "domain_env_ok env n I"
  shows "keeps I (de_get env n) (status_allowed n) no_panic"
    and "keeps I (de_list_pods env n) (\<lambda>_. True) no_panic"
    and "status_allowed n d \<Longrightarrow> keeps I (de_update_status env d) (\<lambda>_. True) no_panic"
    and "keeps I (de_get_peer env n ns) (\<lambda>p. dp_name p = n) no_panic"
    and "peer_allowed n p \<Longrightarrow> keeps I (de_create_peer env p) (\<lambda>_. True) no_panic"
    and "peer_allowed n p \<Longrightarrow> keeps I (de_update_peer env p) (\<lambda>_. True) no_panic"
    and "keeps I (de_list_peers env) (\<lambda>_. True) no_panic"
    and "dp_name p = n \<Longrightarrow> keeps I (de_delete_peer env p) (\<lambda>_. True) no_panic"
    and "keeps I (de_new_client env) (\<lambda>_. True) no_panic"
    and "keeps I (de_post_sign env c role client domain_id) (\<lambda>(_, body). \<forall>e. body = Inl e \<longrightarrow> no_panic e) no_panic"
    and "I w \<Longrightarrow> I (snd (de_set_condition env cs cn w))"
  using assms unfolding domain_env_ok_def by blast+

section \<open>Certificates and peers\<close>

lemma keeps_prod_arg:
  "(\<And>a b. x = (a, b) \<Longrightarrow> keeps I (m a b s) Q E) \<Longrightarrow> keeps I ((case x of (a, b) \<Rightarrow> m a b) s) Q E"
  by (simp split: prod.split)

lemma keeps_Sign:
  assumes "domain_env_ok env n I"
  shows "keeps I (Sign env sg d a) (\<lambda>_. True) no_panic"
proof -
  note D = domain_env_okD [OF assms]
  have client: "keeps I (initClient env sg) (\<lambda>_. True) no_panic"
    unfolding initClient_def by (intro keeps_if keeps_ok keeps_seq_any [OF D(9)]) simp_all
  show ?thesis
    unfolding Sign_def
    by (intro keeps_seq_any [OF client] keeps_option keeps_fail keeps_seq [OF keeps_wrap_np [OF D(10)]] keeps_prod keeps_if
        keeps_seq_any [OF keeps_wrap_np [OF keeps_give]] keeps_ok) auto
qed

lemma keeps_peer:
  assumes env: "domain_env_ok env n I" and "distinct (map pi_ip pods)"
  shows "keeps I (createOrUpdateDomainPeer env n ns pods len sg) (\<lambda>_. True) no_panic"
proof -
  note D = domain_env_okD [OF env] and S = keeps_Sign [OF env]
  have create: "keeps I (de_create_peer env \<lparr>dp_name = n, dp_namespace = ns, dp_prefix_len = len, dp_pods = Some pods,
      dp_cert = c, dp_key = k\<rparr>) (\<lambda>_. True) no_panic" for c k
    using assms(2) by (intro D(5)) (simp add: peer_allowed_def)
  have update: "keeps I (de_update_peer env p) (\<lambda>_. True) no_panic" if "dp_name p = n" "dp_pods p = Some pods" for p
    using assms(2) that by (intro D(6)) (simp add: peer_allowed_def)
  have get: "keeps I (attempt (de_get_peer env n ns))
      (\<lambda>r. (\<forall>e. r = Inl e \<longrightarrow> no_panic e) \<and> (\<forall>p. r = Inr p \<longrightarrow> dp_name p = n)) no_panic"
    by (rule keeps_attempt [OF D(4)]) simp_all
  show ?thesis
    unfolding createOrUpdateDomainPeer_def Let_def
    by (intro keeps_seq [OF get] keeps_sum keeps_if keeps_fail keeps_seq_any [OF S] keeps_prod keeps_prod_arg
        keeps_seq_any [OF create] keeps_seq_any [OF keeps_reading] keeps_seq_any [OF update] keeps_ok) auto
qed

lemma keeps_delete_peers:
  assumes "domain_env_ok env n I"
  shows "keeps I (deleteDomainPeers env n) (\<lambda>_. True) no_panic" "keeps I (cleanupStaleDomainPeers env n known) (\<lambda>_. True) no_panic"
proof -
  note D = domain_env_okD [OF assms]
  have delete: "keeps I (ignore_not_found (de_delete_peer env p)) (\<lambda>_. True) no_panic" if "dp_name p = n" for p
    using that by (intro keeps_ignore_not_found D(8)) simp_all
  show "keeps I (deleteDomainPeers env n) (\<lambda>_. True) no_panic"
    unfolding deleteDomainPeers_def
    by (intro keeps_seq_any [OF D(7)] keeps_fold keeps_if keeps_ok delete) simp_all
  show "keeps I (cleanupStaleDomainPeers env n known) (\<lambda>_. True) no_panic"
    unfolding cleanupStaleDomainPeers_def
    by (intro keeps_seq_any [OF D(7)] keeps_fold keeps_if keeps_ok delete) simp_all
qed

section \<open>Allocation errors\<close>

lemma assign_no_panic:
  assumes T: "netip_ok T"
  shows "good_pool T (as_pool s) \<Longrightarrow> assign_all T s ps = Inl e \<Longrightarrow> no_panic e"
proof (induction ps arbitrary: s)
  case (Cons x ps)
  obtain ns p where x: "x = (ns, p)" by (cases x)
  from T Cons.prems(1) show ?case
  proof (cases rule: Allocate_fresh)
    case full
    then show ?thesis using Cons.prems(2) by (auto simp: x assign_pod_def exhausted_def)
  next
    case (fresh a)
    let ?s = "\<lparr>as_pods = append_to ns (p\<lparr>pi_ip := a\<rparr>) (as_pods s),
        as_allocations = as_allocations s @ [\<lparr>al_ip = a, al_job = [], al_task = [], al_pod = pod_key ns (pi_namespace p) (pi_name p)\<rparr>],
        as_pool = as_pool s\<lparr>pl_allocated := insert a (pl_allocated (as_pool s))\<rparr>\<rparr>"
    from fresh have "assign_all T ?s ps = Inl e" using Cons.prems(2) by (simp add: x assign_pod_def)
    then show ?thesis by (rule Cons.IH [rotated]) (simp add: good_pool_update Cons.prems(1))
  qed
qed simp

lemma keep_good_pool:
  assumes "good_pool T (gr_pool g)"
  shows "good_pool T (kp_pool (keep_allocations T g recorded))"
  unfolding keep_allocations_def
proof (induction recorded rule: rev_induct)
  case (snoc a recorded)
  then show ?case by (simp add: keep_allocation_def Let_def split: option.split)
qed (use assms in simp)

lemma allocate_no_panic:
  assumes "netip_ok T" and "good_pool T pool" and "allocate_domain T ro pool n recorded pods = Inl e"
  shows "no_panic e"
proof -
  let ?g = "group_pods T pool n recorded pods" and ?k = "keep_allocations T (group_pods T pool n recorded pods) recorded"
  have "good_pool T (gr_pool ?g)"
    using grouped_all [OF assms(2), of recorded n pods] by (simp add: grouped_def)
  then have pool: "good_pool T (kp_pool ?k)" by (rule keep_good_pool)
  have "assign_all T \<lparr>as_pods = gr_pods ?g, as_allocations = kp_kept ?k, as_pool = kp_pool ?k\<rparr> (pods_to_assign (ro 0) ?g) = Inl e"
    using assms(3) by (simp add: allocate_domain_def Let_def split: sum.splits)
  then show ?thesis by (rule assign_no_panic [OF assms(1), rotated]) (simp add: pool)
qed

section \<open>Reconcile\<close>

lemma keeps_conclude:
  assumes "domain_env_ok env n I"
  shows "keeps I (conclude env d c)
    (\<lambda>(_, d'). d_meta d' = d_meta d \<and> ds_allocations (d_status d') = ds_allocations (d_status d)) no_panic"
proof (rule keepsI)
  fix w
  assume "I w"
  then show "wp (conclude env d c)
      (\<lambda>a w. I w \<and> (case a of (_, d') \<Rightarrow> d_meta d' = d_meta d \<and> ds_allocations (d_status d') = ds_allocations (d_status d)))
      (\<lambda>e w. I w \<and> no_panic e) w"
    using domain_env_okD(11) [OF assms, of w "ds_conditions (d_status d)" c]
    by (cases "de_set_condition env (ds_conditions (d_status d)) c w") (auto simp: wp_def conclude_def)
qed

lemma keeps_domain_Reconcile:
  assumes env: "domain_env_ok env n I" and T: "netip_ok T" and ro: "permutes ro"
  shows "keeps I (domain_Reconcile env T ro n) (\<lambda>_. True) no_panic"
proof -
  note D = domain_env_okD [OF env]
  have get: "keeps I (attempt (de_get env n))
      (\<lambda>r. (\<forall>e. r = Inl e \<longrightarrow> no_panic e) \<and> (\<forall>d. r = Inr d \<longrightarrow> status_allowed n d)) no_panic"
    by (rule keeps_attempt [OF D(1)]) simp_all
  have invalid: "keeps I (markDomainInvalid env d message) (\<lambda>_. True) no_panic" if "status_allowed n d" for d message
    unfolding markDomainInvalid_def using that
    by (intro keeps_seq [OF keeps_conclude [OF env]] keeps_prod keeps_if keeps_ok D(3)) (auto simp: status_allowed_def)
  have valid: "keeps I (reconcile_domain env T ro d pool) (\<lambda>_. True) no_panic"
    if d: "status_allowed n d" and pool: "NewIPPool T cidr = Inr pool" for d pool cidr
  proof -
    have name: "om_name (d_meta d) = n" and ips: "distinct (map al_ip (ds_allocations (d_status d)))"
      using d by (simp_all add: status_allowed_def)
    have alloc: "keeps I (give (allocate_domain T ro pool n (ds_allocations (d_status d)) pods))
        (\<lambda>r. distinct (map pi_ip (dr_pods r)) \<and> distinct (map al_ip (dr_allocations r))) no_panic" for pods
    proof (rule keeps_give)
      fix r
      assume "allocate_domain T ro pool n (ds_allocations (d_status d)) pods = Inr r"
      from pass_addresses [OF T good_pool_new [OF pool] ro this] ips
      show "distinct (map pi_ip (dr_pods r)) \<and> distinct (map al_ip (dr_allocations r))" by blast
    qed (rule allocate_no_panic [OF T good_pool_new [OF pool]])
    have peers: "keeps I (publish_peers env n r len) (\<lambda>_. True) no_panic" if "distinct (map pi_ip (dr_pods r))" for r len
      unfolding publish_peers_def
      by (intro keeps_seq_any keeps_fold keeps_peer [OF env that] keeps_delete_peers [OF env]) simp_all
    show ?thesis
      unfolding reconcile_domain_def name Let_def
      by (intro keeps_seq_any [OF D(2)] keeps_seq [OF alloc] keeps_seq [OF keeps_conclude [OF env]] keeps_prod
          keeps_seq_any [OF keeps_if] D(3) keeps_ok) (auto simp: status_allowed_def name intro!: peers)
  qed
  show ?thesis
    unfolding domain_Reconcile_def
    by (intro keeps_seq [OF get] keeps_sum keeps_if keeps_delete_peers [OF env] keeps_fail invalid valid) auto
qed

text \<open>
  C19. The Domain controller writes only sound states. Every property of the world that the reads keep,
  and that a status of this Domain with pairwise distinct addresses, a peer of this Domain whose Pods
  have pairwise distinct addresses and the deletion of a peer of this Domain keep, still holds after
  \<open>Reconcile\<close>, whatever it returns and in whatever order maps are ranged over; and no error it returns
  is a panic or stands for an allocation that never returns.
\<close>

theorem domain_reconcile_safe:
  assumes "domain_env_ok env n I" and "netip_ok T" and "permutes ro" and "I w"
  shows "I (snd (domain_Reconcile env T ro n w)) \<and>
    (case fst (domain_Reconcile env T ro n w) of Inl e \<Rightarrow> no_panic e | Inr _ \<Rightarrow> True)"
  by (rule keeps_run [OF keeps_domain_Reconcile [OF assms(1-3)] assms(4)])

section \<open>A concrete management API\<close>

record domain_world =
  dw_domain :: domain
  dw_pods :: "pod list"
  dw_peers :: "domain_peer list"
  dw_clients :: nat

definition demo_domain :: domain where
  "demo_domain =
     \<lparr>d_meta = (pd_meta (demo_pod [] [] []))\<lparr>om_name := ''edge'', om_namespace := []\<rparr>, d_cidr = ''10.0.0.0/29'',
      d_status = \<lparr>ds_observed_generation = 0, ds_conditions = [], ds_allocations = demo_recorded\<rparr>\<rparr>"

definition same_peer :: "domain_peer \<Rightarrow> domain_peer \<Rightarrow> bool" where
  "same_peer p q \<longleftrightarrow> dp_name p = dp_name q \<and> dp_namespace p = dp_namespace q"

definition peer_name :: "string \<Rightarrow> string \<Rightarrow> domain_peer" where
  "peer_name n ns = \<lparr>dp_name = n, dp_namespace = ns, dp_prefix_len = 0, dp_pods = None, dp_cert = [], dp_key = []\<rparr>"

definition world_env :: "domain_world domain_env" where
  "world_env =
     \<lparr>de_get = (\<lambda>n w. (if om_name (d_meta (dw_domain w)) = n then Inr (dw_domain w) else Inl (ErrKube NotFound), w)),
      de_list_pods = (\<lambda>n w. (Inr (filter (\<lambda>p. pd_domain p = n) (dw_pods w)), w)),
      de_update_status = (\<lambda>d w. (Inr (), w\<lparr>dw_domain := d\<rparr>)),
      de_get_peer = (\<lambda>n ns w. (case find (same_peer (peer_name n ns)) (dw_peers w) of
         None \<Rightarrow> Inl (ErrKube NotFound) | Some p \<Rightarrow> Inr p, w)),
      de_create_peer = (\<lambda>p w. (Inr (), w\<lparr>dw_peers := p # dw_peers w\<rparr>)),
      de_update_peer = (\<lambda>p w. (Inr (), w\<lparr>dw_peers := map (\<lambda>q. if same_peer p q then p else q) (dw_peers w)\<rparr>)),
      de_list_peers = (\<lambda>w. (Inr (dw_peers w), w)),
      de_delete_peer = (\<lambda>p w. (Inr (), w\<lparr>dw_peers := filter (\<lambda>q. \<not> same_peer p q) (dw_peers w)\<rparr>)),
      de_new_client = (\<lambda>w. (Inr (Some 1), w\<lparr>dw_clients := Suc (dw_clients w)\<rparr>)),
      de_post_sign = (\<lambda>c role client domain_id w. (Inr (200, Inr (''cert '' @ client, ''key '' @ client)), w)),
      de_cert_valid = (\<lambda>cert key w. cert \<noteq> []),
      de_set_condition = (\<lambda>cs c w. if c \<in> set cs then ((False, cs), w) else ((True, [c]), w))\<rparr>"

text \<open>The stored state is sound: the addresses of the Domain and of every peer of it are distinct.\<close>

definition sound_world :: "string \<Rightarrow> domain_world \<Rightarrow> bool" where
  "sound_world n w \<longleftrightarrow> status_allowed (om_name (d_meta (dw_domain w))) (dw_domain w) \<and>
     (\<forall>p \<in> set (dw_peers w). dp_name p = n \<longrightarrow> peer_allowed n p)"

lemma world_env_ok: "domain_env_ok world_env n (sound_world n)"
  unfolding domain_env_ok_def world_env_def keeps_def wp_def
  by (auto simp: sound_world_def status_allowed_def same_peer_def peer_name_def find_Some_iff nth_mem split: option.splits if_splits)

definition demo_world :: domain_world where
  "demo_world = \<lparr>dw_domain = demo_domain, dw_pods = demo_pods,
     dw_peers = [(peer_name ''edge'' ''old'')\<lparr>dp_pods := Some []\<rparr>, peer_name ''other'' ''team''], dw_clients = 0\<rparr>"

lemma sound_demo_world: "sound_world ''edge'' demo_world"
  by code_simp

theorem domain_reconcile_safe_witness:
  "sound_world ''edge'' (snd (domain_Reconcile world_env demo_netip reversed ''edge'' demo_world)) \<and>
   map (\<lambda>p. (dp_namespace p, dp_cert p)) (dw_peers (snd (domain_Reconcile world_env demo_netip reversed ''edge'' demo_world))) =
     [(''team'', ''cert team''), (''team'', [])]"
proof
  show "sound_world ''edge'' (snd (domain_Reconcile world_env demo_netip reversed ''edge'' demo_world))"
    using domain_reconcile_safe [OF world_env_ok demo_netip_ok permutes_reversed sound_demo_world] by blast
  show "map (\<lambda>p. (dp_namespace p, dp_cert p)) (dw_peers (snd (domain_Reconcile world_env demo_netip reversed ''edge'' demo_world))) =
      [(''team'', ''cert team''), (''team'', [])]"
    by code_simp
qed

end
