(* ===== verification/Keyed_Locks.thy ===== *)
theory Keyed_Locks
  imports Prelude
begin

text \<open>
  The lock that serializes the runs of one Task (\<open>keyedLocks\<close> of \<open>agent/execution/host/host.go\<close>): a
  table of mutexes with reference counts, under a mutex of its own. Callers run concurrently. The code
  between \<open>l.mu.Lock\<close> and \<open>l.mu.Unlock\<close> neither blocks nor reads what changes outside of \<open>l.mu\<close>, so it
  is one step; taking and giving back \<open>entry.mu\<close> are steps of their own.
\<close>

section \<open>State\<close>

record keyed_lock =
  kl_locked :: bool
  kl_refs :: int

text \<open>Entries are shared by pointer: the table holds addresses, and so does a caller in between.\<close>

datatype locker =
    Idle
  | Waiting string nat
  | Holding string nat
  | Leaving string nat

record keyed_locks =
  ks_entries :: "string \<rightharpoonup> nat"
  ks_heap :: "nat \<Rightarrow> keyed_lock"
  ks_next :: nat
  ks_callers :: "nat \<Rightarrow> locker"

text \<open>The first half of \<open>lock\<close>, under \<open>l.mu\<close>: find or make the entry and count the reference.\<close>

definition find_entry :: "keyed_locks \<Rightarrow> string \<Rightarrow> nat \<times> keyed_locks" where
  "find_entry s key =
     (case ks_entries s key of
        Some a \<Rightarrow> (a, s)
      | None \<Rightarrow>
          (ks_next s,
           s\<lparr>ks_entries := (ks_entries s)(key \<mapsto> ks_next s),
             ks_heap := (ks_heap s)(ks_next s := \<lparr>kl_locked = False, kl_refs = 0\<rparr>), ks_next := Suc (ks_next s)\<rparr>))"

definition lock_reference :: "nat \<Rightarrow> string \<Rightarrow> keyed_locks \<Rightarrow> keyed_locks" where
  "lock_reference t key s =
     (let (a, s) = find_entry s key;
          e = ks_heap s a
      in s\<lparr>ks_heap := (ks_heap s)(a := e\<lparr>kl_refs := kl_refs e + 1\<rparr>), ks_callers := (ks_callers s)(t := Waiting key a)\<rparr>)"

text \<open>The rest of \<open>lock\<close>, and the two halves of the function it returns.\<close>

definition lock_entry :: "nat \<Rightarrow> string \<Rightarrow> nat \<Rightarrow> keyed_locks \<Rightarrow> keyed_locks" where
  "lock_entry t key a s =
     s\<lparr>ks_heap := (ks_heap s)(a := (ks_heap s a)\<lparr>kl_locked := True\<rparr>), ks_callers := (ks_callers s)(t := Holding key a)\<rparr>"

definition unlock_entry :: "nat \<Rightarrow> string \<Rightarrow> nat \<Rightarrow> keyed_locks \<Rightarrow> keyed_locks" where
  "unlock_entry t key a s =
     s\<lparr>ks_heap := (ks_heap s)(a := (ks_heap s a)\<lparr>kl_locked := False\<rparr>), ks_callers := (ks_callers s)(t := Leaving key a)\<rparr>"

definition drop_reference :: "nat \<Rightarrow> string \<Rightarrow> nat \<Rightarrow> keyed_locks \<Rightarrow> keyed_locks" where
  "drop_reference t key a s =
     (let e = (ks_heap s a)\<lparr>kl_refs := kl_refs (ks_heap s a) - 1\<rparr>;
          s = s\<lparr>ks_heap := (ks_heap s)(a := e), ks_callers := (ks_callers s)(t := Idle)\<rparr>
      in if kl_refs e = 0 then s\<lparr>ks_entries := (ks_entries s)(key := None)\<rparr> else s)"

inductive lock_step :: "keyed_locks \<Rightarrow> keyed_locks \<Rightarrow> bool" where
  reference: "ks_callers s t = Idle \<Longrightarrow> lock_step s (lock_reference t key s)"
| acquire: "ks_callers s t = Waiting key a \<Longrightarrow> \<not> kl_locked (ks_heap s a) \<Longrightarrow> lock_step s (lock_entry t key a s)"
| release: "ks_callers s t = Holding key a \<Longrightarrow> lock_step s (unlock_entry t key a s)"
| leave: "ks_callers s t = Leaving key a \<Longrightarrow> lock_step s (drop_reference t key a s)"

definition no_locks :: keyed_locks where
  "no_locks = \<lparr>ks_entries = Map.empty, ks_heap = (\<lambda>_. \<lparr>kl_locked = False, kl_refs = 0\<rparr>), ks_next = 0, ks_callers = (\<lambda>_. Idle)\<rparr>"

abbreviation locks_reachable :: "keyed_locks \<Rightarrow> bool" where
  "locks_reachable \<equiv> lock_step\<^sup>*\<^sup>* no_locks"

section \<open>Invariant\<close>

text \<open>The reference that a caller counts, from \<open>lock\<close> until the end of the returned function.\<close>

fun reference_of :: "locker \<Rightarrow> (string \<times> nat) option" where
  "reference_of Idle = None"
| "reference_of (Waiting key a) = Some (key, a)"
| "reference_of (Holding key a) = Some (key, a)"
| "reference_of (Leaving key a) = Some (key, a)"

definition users :: "keyed_locks \<Rightarrow> string \<Rightarrow> nat \<Rightarrow> nat set" where
  "users s key a = {t. reference_of (ks_callers s t) = Some (key, a)}"

definition locks_inv :: "keyed_locks \<Rightarrow> bool" where
  "locks_inv s \<longleftrightarrow>
     finite {t. ks_callers s t \<noteq> Idle} \<and>
     (\<forall>t key a. reference_of (ks_callers s t) = Some (key, a) \<longrightarrow> ks_entries s key = Some a) \<and>
     (\<forall>key a. ks_entries s key = Some a \<longrightarrow> a < ks_next s \<and> users s key a \<noteq> {} \<and>
        kl_refs (ks_heap s a) = int (card (users s key a))) \<and>
     (\<forall>key key' a. ks_entries s key = Some a \<and> ks_entries s key' = Some a \<longrightarrow> key = key') \<and>
     (\<forall>t t' key a. ks_callers s t = Holding key a \<and> ks_callers s t' = Holding key a \<longrightarrow> t = t') \<and>
     (\<forall>key a. ks_entries s key = Some a \<and> kl_locked (ks_heap s a) \<longrightarrow> (\<exists>t. ks_callers s t = Holding key a)) \<and>
     (\<forall>t key a. ks_callers s t = Holding key a \<longrightarrow> kl_locked (ks_heap s a))"

lemma locks_invD:
  assumes "locks_inv s"
  shows "finite {t. ks_callers s t \<noteq> Idle}"
    and "reference_of (ks_callers s t) = Some (key, a) \<Longrightarrow> ks_entries s key = Some a"
    and "ks_entries s key = Some a \<Longrightarrow> a < ks_next s \<and> users s key a \<noteq> {} \<and> kl_refs (ks_heap s a) = int (card (users s key a))"
    and "ks_entries s key = Some a \<Longrightarrow> ks_entries s key' = Some a \<Longrightarrow> key = key'"
    and "ks_callers s t = Holding key a \<Longrightarrow> ks_callers s t' = Holding key a \<Longrightarrow> t = t'"
    and "ks_entries s key = Some a \<Longrightarrow> kl_locked (ks_heap s a) \<Longrightarrow> \<exists>t. ks_callers s t = Holding key a"
    and "ks_callers s t = Holding key a \<Longrightarrow> kl_locked (ks_heap s a)"
  using assms unfolding locks_inv_def by blast+

lemma locks_invI:
  assumes "finite {t. ks_callers s t \<noteq> Idle}"
    and "\<And>t key a. reference_of (ks_callers s t) = Some (key, a) \<Longrightarrow> ks_entries s key = Some a"
    and "\<And>key a. ks_entries s key = Some a \<Longrightarrow> a < ks_next s \<and> users s key a \<noteq> {} \<and> kl_refs (ks_heap s a) = int (card (users s key a))"
    and "\<And>key key' a. ks_entries s key = Some a \<Longrightarrow> ks_entries s key' = Some a \<Longrightarrow> key = key'"
    and "\<And>t t' key a. ks_callers s t = Holding key a \<Longrightarrow> ks_callers s t' = Holding key a \<Longrightarrow> t = t'"
    and "\<And>key a. ks_entries s key = Some a \<Longrightarrow> kl_locked (ks_heap s a) \<Longrightarrow> \<exists>t. ks_callers s t = Holding key a"
    and "\<And>t key a. ks_callers s t = Holding key a \<Longrightarrow> kl_locked (ks_heap s a)"
  shows "locks_inv s"
  unfolding locks_inv_def using assms by blast

lemma users_finite [simp]: "locks_inv s \<Longrightarrow> finite (users s key a)"
  by (rule finite_subset [OF _ locks_invD(1)]) (auto simp: users_def)

lemma no_locks_inv: "locks_inv no_locks"
  by (rule locks_invI) (simp_all add: no_locks_def)

text \<open>Steps that move a caller within the same reference keep the users of every entry.\<close>

lemma users_move:
  "reference_of (ks_callers s t) = reference_of c \<Longrightarrow> users (s\<lparr>ks_heap := h, ks_callers := (ks_callers s)(t := c)\<rparr>) key a = users s key a"
  by (auto simp: users_def)

lemma lock_entry_inv:
  assumes inv: "locks_inv s" and t: "ks_callers s t = Waiting key a" and free: "\<not> kl_locked (ks_heap s a)"
  shows "locks_inv (lock_entry t key a s)"
proof -
  note I = locks_invD [OF inv]
  have entry: "ks_entries s key = Some a" by (rule I(2) [of t]) (simp add: t)
  have nobody: "ks_callers s t' \<noteq> Holding k a" for t' k using I(7) free by blast
  have users: "users (lock_entry t key a s) k b = users s k b" for k b
    unfolding lock_entry_def by (rule users_move) (simp add: t)
  show ?thesis
  proof (rule locks_invI)
    show "finite {t'. ks_callers (lock_entry t key a s) t' \<noteq> Idle}"
      by (rule finite_subset [OF _ finite.insertI [OF I(1), of t]]) (auto simp: lock_entry_def)
    show "b < ks_next (lock_entry t key a s) \<and> users (lock_entry t key a s) k b \<noteq> {} \<and>
        kl_refs (ks_heap (lock_entry t key a s) b) = int (card (users (lock_entry t key a s) k b))"
      if "ks_entries (lock_entry t key a s) k = Some b" for k b
      unfolding users using I(3) [of k b] that by (auto simp: lock_entry_def)
    show "\<exists>t'. ks_callers (lock_entry t key a s) t' = Holding k b"
      if "ks_entries (lock_entry t key a s) k = Some b" "kl_locked (ks_heap (lock_entry t key a s) b)" for k b
    proof (cases "b = a")
      case True
      with that I(4) [OF _ entry] have "k = key" by (simp add: lock_entry_def)
      with True show ?thesis by (intro exI [of _ t]) (simp add: lock_entry_def)
    next
      case False
      with that I(6) obtain t' where "ks_callers s t' = Holding k b" by (auto simp: lock_entry_def)
      with t show ?thesis by (intro exI [of _ t']) (auto simp: lock_entry_def)
    qed
  qed (use entry nobody in \<open>auto simp: lock_entry_def t split: if_splits dest: I(2,4,5,6,7) intro: I(2)\<close>)
qed

lemma unlock_entry_inv:
  assumes inv: "locks_inv s" and t: "ks_callers s t = Holding key a"
  shows "locks_inv (unlock_entry t key a s)"
proof -
  note I = locks_invD [OF inv]
  have entry: "ks_entries s key = Some a" by (rule I(2) [of t]) (simp add: t)
  have others: "t' = t" if "ks_callers s t' = Holding k a" for t' k
  proof -
    have "ks_entries s k = Some a" by (rule I(2) [of t']) (simp add: that)
    then have "k = key" using entry by (rule I(4))
    then show ?thesis using I(5) that t by blast
  qed
  have users: "users (unlock_entry t key a s) k b = users s k b" for k b
    unfolding unlock_entry_def by (rule users_move) (simp add: t)
  show ?thesis
  proof (rule locks_invI)
    show "finite {t'. ks_callers (unlock_entry t key a s) t' \<noteq> Idle}"
      by (rule finite_subset [OF _ finite.insertI [OF I(1), of t]]) (auto simp: unlock_entry_def)
    show "b < ks_next (unlock_entry t key a s) \<and> users (unlock_entry t key a s) k b \<noteq> {} \<and>
        kl_refs (ks_heap (unlock_entry t key a s) b) = int (card (users (unlock_entry t key a s) k b))"
      if "ks_entries (unlock_entry t key a s) k = Some b" for k b
      unfolding users using I(3) [of k b] that by (auto simp: unlock_entry_def)
    show "kl_locked (ks_heap (unlock_entry t key a s) b)" if "ks_callers (unlock_entry t key a s) t' = Holding k b" for t' k b
      using that others [of t' k] I(7) [of t' k b] by (auto simp: unlock_entry_def split: if_splits)
    show "\<exists>t'. ks_callers (unlock_entry t key a s) t' = Holding k b"
      if "ks_entries (unlock_entry t key a s) k = Some b" "kl_locked (ks_heap (unlock_entry t key a s) b)" for k b
    proof -
      have "b \<noteq> a" "ks_entries s k = Some b" "kl_locked (ks_heap s b)"
        using that by (auto simp: unlock_entry_def split: if_splits)
      with I(6) obtain t' where "ks_callers s t' = Holding k b" by blast
      with \<open>b \<noteq> a\<close> t show ?thesis by (intro exI [of _ t']) (auto simp: unlock_entry_def)
    qed
  qed (use entry in \<open>auto simp: unlock_entry_def t split: if_splits dest: I(4,5) intro: I(2)\<close>)
qed

text \<open>The two steps under \<open>l.mu\<close> change the users of one entry.\<close>

lemma find_entry:
  assumes inv: "locks_inv s"
  obtains a s' where "find_entry s key = (a, s')" "ks_callers s' = ks_callers s" "ks_entries s' = (ks_entries s)(key \<mapsto> a)"
    "a < ks_next s'" "ks_next s \<le> ks_next s'" "\<And>b. b < ks_next s \<Longrightarrow> ks_heap s' b = ks_heap s b"
    "kl_refs (ks_heap s' a) = int (card (users s key a))" "kl_locked (ks_heap s' a) \<Longrightarrow> ks_entries s key = Some a \<and> kl_locked (ks_heap s a)"
    "ks_entries s key = Some a \<or> a = ks_next s \<and> ks_entries s key = None"
proof (cases "ks_entries s key")
  case None
  then have "users s key (ks_next s) = {}" using locks_invD(2) [OF inv] by (fastforce simp: users_def)
  with None show ?thesis
    by (intro that [of "ks_next s" "snd (find_entry s key)"]) (auto simp: find_entry_def)
next
  case (Some a)
  with locks_invD(3) [OF inv Some] show ?thesis by (intro that [of a s]) (auto simp: find_entry_def)
qed

lemma lock_reference_inv:
  assumes inv: "locks_inv s" and t: "ks_callers s t = Idle"
  shows "locks_inv (lock_reference t key s)"
proof -
  note I = locks_invD [OF inv]
  obtain a s' where found: "find_entry s key = (a, s')" "ks_callers s' = ks_callers s" "ks_entries s' = (ks_entries s)(key \<mapsto> a)"
    "a < ks_next s'" "ks_next s \<le> ks_next s'" "\<And>b. b < ks_next s \<Longrightarrow> ks_heap s' b = ks_heap s b"
    "kl_refs (ks_heap s' a) = int (card (users s key a))" "kl_locked (ks_heap s' a) \<Longrightarrow> ks_entries s key = Some a \<and> kl_locked (ks_heap s a)"
    "ks_entries s key = Some a \<or> a = ks_next s \<and> ks_entries s key = None"
    using find_entry [OF inv] by blast
  let ?s = "lock_reference t key s"
  have s: "ks_callers ?s = (ks_callers s)(t := Waiting key a)" "ks_entries ?s = (ks_entries s)(key \<mapsto> a)" "ks_next ?s = ks_next s'"
    "kl_refs (ks_heap ?s a) = int (card (users s key a)) + 1" "kl_locked (ks_heap ?s b) = kl_locked (ks_heap s' b)"
    "b \<noteq> a \<Longrightarrow> b < ks_next s \<Longrightarrow> ks_heap ?s b = ks_heap s b" for b
    using found by (simp_all add: lock_reference_def)
  have other: "b \<noteq> a" if "ks_entries s k = Some b" "k \<noteq> key" for k b
    using that found(9) I(3) [of k b] I(4) [of k b key] by auto
  have users: "users ?s k b = (if k = key \<and> b = a then insert t (users s k b) else users s k b)" for k b
    using t by (auto simp: users_def s(1))
  have new: "t \<notin> users s k b" for k b using t by (simp add: users_def)
  have holds: "ks_callers s t' = Holding k b \<Longrightarrow> ks_entries s k = Some b" for t' k b
    by (rule I(2) [of t']) simp
  show ?thesis
  proof (rule locks_invI)
    show "finite {t'. ks_callers ?s t' \<noteq> Idle}"
      by (rule finite_subset [OF _ finite.insertI [OF I(1), of t]]) (auto simp: s)
    show "ks_entries ?s k = Some b" if "reference_of (ks_callers ?s t') = Some (k, b)" for t' k b
      using that found(9) I(2) [of t' k b] by (auto simp: s split: if_splits)
    show "b < ks_next ?s \<and> users ?s k b \<noteq> {} \<and> kl_refs (ks_heap ?s b) = int (card (users ?s k b))"
      if "ks_entries ?s k = Some b" for k b
    proof (cases "k = key")
      case True
      with that have "b = a" by (simp add: s)
      with True show ?thesis using found(4) by (simp add: s users new inv)
    next
      case False
      with that have old: "ks_entries s k = Some b" by (simp add: s)
      with False have "b \<noteq> a" by (intro other)
      with old False show ?thesis using I(3) [OF old] found(5) by (simp add: s users)
    qed
    show "k = k'" if "ks_entries ?s k = Some b" "ks_entries ?s k' = Some b" for k k' b
      using that other [of k b] other [of k' b] I(4) [of k b k'] by (auto simp: s split: if_splits)
    show "t1 = t2" if "ks_callers ?s t1 = Holding k b" "ks_callers ?s t2 = Holding k b" for t1 t2 k b
      using that I(5) [of t1 k b t2] by (auto simp: s split: if_splits)
    show "\<exists>t'. ks_callers ?s t' = Holding k b" if "ks_entries ?s k = Some b" "kl_locked (ks_heap ?s b)" for k b
    proof -
      have "ks_entries s k = Some b \<and> kl_locked (ks_heap s b)"
      proof (cases "k = key")
        case True
        with that have "b = a" by (simp add: s)
        with that True found(8) show ?thesis by (simp add: s)
      next
        case False
        with that have old: "ks_entries s k = Some b" by (simp add: s)
        with False have "b \<noteq> a" by (intro other)
        with that old I(3) [OF old] show ?thesis by (simp add: s(6))
      qed
      with I(6) obtain t' where "ks_callers s t' = Holding k b" by blast
      with t show ?thesis by (intro exI [of _ t']) (auto simp: s)
    qed
    show "kl_locked (ks_heap ?s b)" if "ks_callers ?s t' = Holding k b" for t' k b
    proof -
      have old: "ks_callers s t' = Holding k b" using that by (auto simp: s split: if_splits)
      then have "b < ks_next s" using I(3) [OF holds] by blast
      then show ?thesis using I(7) [OF old] found(6) by (simp add: s(5))
    qed
  qed
qed

lemma drop_reference_inv:
  assumes inv: "locks_inv s" and t: "ks_callers s t = Leaving key a"
  shows "locks_inv (drop_reference t key a s)"
proof -
  note I = locks_invD [OF inv]
  let ?s = "drop_reference t key a s"
  have entry: "ks_entries s key = Some a" by (rule I(2) [of t]) (simp add: t)
  have s: "ks_callers ?s = (ks_callers s)(t := Idle)" "ks_next ?s = ks_next s"
    "ks_heap ?s = (ks_heap s)(a := (ks_heap s a)\<lparr>kl_refs := kl_refs (ks_heap s a) - 1\<rparr>)"
    "ks_entries ?s = (if kl_refs (ks_heap s a) - 1 = 0 then (ks_entries s)(key := None) else ks_entries s)"
    by (simp_all add: drop_reference_def Let_def)
  have users: "users ?s k b = users s k b - {t}" for k b using t by (auto simp: users_def s)
  have mine: "t \<in> users s k b \<longleftrightarrow> k = key \<and> b = a" for k b using t by (auto simp: users_def)
  have count: "kl_refs (ks_heap s a) = int (card (users s key a))" using I(3) [OF entry] by blast
  have last: "kl_refs (ks_heap s a) - 1 = 0 \<longleftrightarrow> users s key a = {t}"
    using mine [of key a] users_finite [OF inv, of key a] unfolding count
    by (auto simp: card_1_singleton_iff dest: card_1_singletonE)
  have old: "ks_entries s k = Some b" if "ks_entries ?s k = Some b" for k b
    using that by (auto simp: s split: if_splits)
  show ?thesis
  proof (rule locks_invI)
    show "finite {t'. ks_callers ?s t' \<noteq> Idle}"
      by (rule finite_subset [OF _ I(1)]) (auto simp: s)
    show "ks_entries ?s k = Some b" if "reference_of (ks_callers ?s t') = Some (k, b)" for t' k b
    proof -
      have t': "t' \<noteq> t" "reference_of (ks_callers s t') = Some (k, b)" using that by (auto simp: s split: if_splits)
      then have member: "t' \<in> users s k b" and e: "ks_entries s k = Some b" using I(2) by (simp_all add: users_def)
      show ?thesis
      proof (cases "k = key")
        case True
        then have "b = a" using e entry by simp
        with True member t'(1) have "users s key a \<noteq> {t}" by blast
        then have "kl_refs (ks_heap s a) - 1 \<noteq> 0" unfolding last .
        with e show ?thesis unfolding s(4) by (simp only: if_False)
      qed (use e in \<open>simp add: s(4)\<close>)
    qed
    show "b < ks_next ?s \<and> users ?s k b \<noteq> {} \<and> kl_refs (ks_heap ?s b) = int (card (users ?s k b))"
      if "ks_entries ?s k = Some b" for k b
    proof (cases "k = key")
      case True
      have "kl_refs (ks_heap s a) - 1 \<noteq> 0" using that unfolding s(4) True by (simp split: if_splits)
      then have "users s key a \<noteq> {t}" unfolding last .
      have "b = a" using old [OF that] entry True by simp
      have mem: "t \<in> users s key a" by (simp add: mine)
      then have "int (card (users s key a - {t})) = int (card (users s key a)) - 1"
        using card_Diff_singleton [OF mem] card_gt_0_iff [of "users s key a"] inv by auto
      moreover have "users s key a - {t} \<noteq> {}" using mem \<open>users s key a \<noteq> {t}\<close> by blast
      moreover have "a < ks_next s" using I(3) [OF entry] by blast
      ultimately show ?thesis using True \<open>b = a\<close> by (simp add: s users count)
    next
      case False
      with I(4) [OF old [OF that]] entry have "b \<noteq> a" by blast
      with False mine [of k b] I(3) [OF old [OF that]] show ?thesis by (simp add: s users)
    qed
    show "k = k'" if "ks_entries ?s k = Some b" "ks_entries ?s k' = Some b" for k k' b
      using I(4) [OF old [OF that(1)] old [OF that(2)]] .
    show "t1 = t2" if "ks_callers ?s t1 = Holding k b" "ks_callers ?s t2 = Holding k b" for t1 t2 k b
      using that I(5) [of t1 k b t2] by (auto simp: s split: if_splits)
    show "\<exists>t'. ks_callers ?s t' = Holding k b" if "ks_entries ?s k = Some b" "kl_locked (ks_heap ?s b)" for k b
    proof -
      have "kl_locked (ks_heap s b)" using that(2) by (auto simp: s split: if_splits)
      with I(6) [OF old [OF that(1)]] obtain t' where "ks_callers s t' = Holding k b" by blast
      with t show ?thesis by (intro exI [of _ t']) (auto simp: s)
    qed
    show "kl_locked (ks_heap ?s b)" if "ks_callers ?s t' = Holding k b" for t' k b
      using that I(7) [of t' k b] by (auto simp: s split: if_splits)
  qed
qed

lemma lock_step_inv: "lock_step s s' \<Longrightarrow> locks_inv s \<Longrightarrow> locks_inv s'"
  by (induction rule: lock_step.induct)
     (blast intro: lock_reference_inv lock_entry_inv unlock_entry_inv drop_reference_inv)+

lemma reachable_inv: "locks_reachable s \<Longrightarrow> locks_inv s"
  by (induction rule: rtranclp_induct) (auto intro: no_locks_inv lock_step_inv)

section \<open>Properties\<close>

text \<open>
  C15. The runs of one Task exclude each other. In every state that the callers of \<open>lock\<close> can reach, by
  any interleaving: at most one caller is between taking and giving back the lock of a key, although
  entries come and go; the table has an entry for a key exactly while some caller counts a reference to
  it, so it does not grow; and a caller that waits for a key that nobody holds can take it.
\<close>

theorem keyed_lock_exclusive:
  assumes "locks_reachable s"
  shows "(\<forall>t t' key a a'. ks_callers s t = Holding key a \<and> ks_callers s t' = Holding key a' \<longrightarrow> t = t') \<and>
    (\<forall>key. ks_entries s key = None \<longleftrightarrow> (\<forall>t a. reference_of (ks_callers s t) \<noteq> Some (key, a))) \<and>
    (\<forall>t key a. ks_callers s t = Waiting key a \<and> (\<forall>t' b. ks_callers s t' \<noteq> Holding key b) \<longrightarrow>
       lock_step s (lock_entry t key a s))"
proof -
  note inv = reachable_inv [OF assms] and I = locks_invD [OF reachable_inv [OF assms]]
  have "t = t'" if "ks_callers s t = Holding key a" "ks_callers s t' = Holding key a'" for t t' key a a'
  proof -
    have "a = a'" using I(2) [of t key a] I(2) [of t' key a'] that by simp
    with that I(5) show ?thesis by blast
  qed
  moreover have "ks_entries s key = None \<longleftrightarrow> (\<forall>t a. reference_of (ks_callers s t) \<noteq> Some (key, a))" for key
    using I(2) [of _ key] I(3) [of key] by (cases "ks_entries s key") (auto simp: users_def)
  moreover have "lock_step s (lock_entry t key a s)"
    if "ks_callers s t = Waiting key a" "\<And>t' b. ks_callers s t' \<noteq> Holding key b" for t key a
    using that I(2) [of t key a] I(6) [of key a] by (intro lock_step.acquire) auto
  ultimately show ?thesis by blast
qed

text \<open>Three callers: the second waits for the key that the first holds, the third holds another key.\<close>

definition demo_locks :: keyed_locks where
  "demo_locks =
     lock_entry 3 ''ns/b'' 1 (lock_reference 3 ''ns/b'' (lock_reference 2 ''ns/a''
       (lock_entry 1 ''ns/a'' 0 (lock_reference 1 ''ns/a'' no_locks))))"

lemmas lock_defs = lock_reference_def find_entry_def lock_entry_def no_locks_def

lemma reach_reference: "locks_reachable s \<Longrightarrow> ks_callers s t = Idle \<Longrightarrow> locks_reachable (lock_reference t key s)"
  by (blast intro: rtranclp.rtrancl_into_rtrancl reference)

lemma reach_acquire:
  "locks_reachable s \<Longrightarrow> ks_callers s t = Waiting key a \<Longrightarrow> \<not> kl_locked (ks_heap s a) \<Longrightarrow> locks_reachable (lock_entry t key a s)"
  by (blast intro: rtranclp.rtrancl_into_rtrancl acquire)

lemma demo_locks_reachable: "locks_reachable demo_locks"
  unfolding demo_locks_def
  by (intro reach_reference reach_acquire rtranclp.rtrancl_refl) (simp_all add: lock_defs)

theorem keyed_lock_exclusive_witness:
  "{t. \<exists>a. ks_callers demo_locks t = Holding ''ns/a'' a} = {1} \<and> ks_callers demo_locks 2 = Waiting ''ns/a'' 0 \<and>
   ks_callers demo_locks 3 = Holding ''ns/b'' 1 \<and> ks_entries demo_locks ''ns/c'' = None"
proof -
  have s: "ks_callers demo_locks 1 = Holding ''ns/a'' 0" "ks_callers demo_locks 2 = Waiting ''ns/a'' 0"
    "ks_callers demo_locks 3 = Holding ''ns/b'' 1" "ks_entries demo_locks ''ns/c'' = None"
    by (simp_all add: demo_locks_def lock_defs)
  with keyed_lock_exclusive [OF demo_locks_reachable] show ?thesis by blast
qed

end
