(* ===== verification/Cluster_Controller.thy ===== *)
theory Cluster_Controller
  imports Job_Tasks
begin

text \<open>
  The Cluster controller (\<open>controllermanager/cluster/cluster_controller.go\<close>): availability from the
  agent's heartbeat Lease and the registered Nodes, the drain of a Cluster with its markers on Tasks,
  its deadline and its backoff, and the clean-up of a deleted Cluster. The management API, the clock
  and the condition helpers of apimachinery are parameters. Times are instants in nanoseconds, and a
  \<open>time.Duration\<close> is a 64-bit count of nanoseconds: \<open>Sub\<close> saturates and arithmetic wraps.
\<close>

section \<open>Times\<close>

abbreviation second :: int where "second \<equiv> 1000000000"
abbreviation minute :: int where "minute \<equiv> 60000000000"

definition int64 :: "int \<Rightarrow> int" where
  "int64 x = signed_take_bit 63 x"

definition time_Sub :: "time \<Rightarrow> time \<Rightarrow> int" where
  "time_Sub a b = max (- (2 ^ 63)) (min (2 ^ 63 - 1) (a - b))"

section \<open>Resources\<close>

text \<open>
  A Cluster with its whole status, a Task with all owner references, and the Lease of
  \<open>coordination.k8s.io\<close>.
\<close>

record cluster_object = cluster +
  co_heartbeat :: "time option"
  co_total_nodes :: int32
  co_online_nodes :: int32
  co_conditions :: "condition list"

record listed_task = task +
  lt_owners :: "owner_ref list"

record lease =
  ls_deletion :: "time option"
  ls_renew :: "time option"
  ls_duration :: "int32 option"

abbreviation ClusterOffline :: string where "ClusterOffline \<equiv> ''Offline''"
abbreviation ClusterCordoned :: string where "ClusterCordoned \<equiv> ''Cordoned''"
abbreviation ClusterDraining :: string where "ClusterDraining \<equiv> ''Draining''"
abbreviation ClusterDelisted :: string where "ClusterDelisted \<equiv> ''Delisted''"
abbreviation ClusterDrainSuspendedAnnotation :: string where
  "ClusterDrainSuspendedAnnotation \<equiv> ''rlark.io/drain-suspended''"
abbreviation heartbeatLeaseName :: string where "heartbeatLeaseName \<equiv> ''heartbeat''"
abbreviation ClusterCleanupFinalizer :: string where "ClusterCleanupFinalizer \<equiv> ''clusters.rlinf.io/cleanup''"
abbreviation drainInitialBackoff :: int where "drainInitialBackoff \<equiv> second"
abbreviation drainMaxBackoff :: int where "drainMaxBackoff \<equiv> minute"
abbreviation drainTimeout :: int where "drainTimeout \<equiv> 30 * minute"

text \<open>\<open>apimeta.FindStatusCondition\<close> and \<open>apimeta.SetStatusCondition\<close> with a transition time.\<close>

record cond_lib =
  cl_find :: "condition list \<Rightarrow> string \<Rightarrow> condition option"
  cl_set :: "condition list \<Rightarrow> condition \<Rightarrow> condition list"

record 'w cluster_env =
  ce_get :: "string \<Rightarrow> ('w, cluster_object) prog"
  ce_update :: "cluster_object \<Rightarrow> ('w, unit) prog"
  ce_patch_status :: "cluster_object \<Rightarrow> cluster_object \<Rightarrow> ('w, cluster_object) prog" \<comment> \<open>before, after; the answer\<close>
  ce_list_clusters :: "('w, cluster_object list) prog"
  ce_list_tasks :: "string \<Rightarrow> ('w, listed_task list) prog"
  ce_patch_task :: "listed_task \<Rightarrow> listed_task \<Rightarrow> ('w, unit) prog"
  ce_delete_task :: "listed_task \<Rightarrow> ('w, unit) prog"
  ce_list_nodes :: "string \<Rightarrow> ('w, node list) prog"
  ce_delete_node :: "node \<Rightarrow> ('w, unit) prog"
  ce_get_lease :: "string \<Rightarrow> string \<Rightarrow> ('w, lease) prog"
  ce_delete_lease :: "lease \<Rightarrow> ('w, unit) prog"
  ce_now :: "'w \<Rightarrow> time \<times> 'w"
  ce_conditions :: cond_lib

definition clock :: "'w cluster_env \<Rightarrow> ('w, time) prog" where
  "clock env = (\<lambda>w. let (t, w) = ce_now env w in (Inr t, w))"

definition object_id :: "object_meta \<Rightarrow> string" where
  "object_id m = om_namespace m @ ''/'' @ om_name m"

definition no_namespace :: go_error where
  "no_namespace = ErrText ''cluster agent namespace is empty''"

definition cluster_condition :: "string \<Rightarrow> string \<Rightarrow> string \<Rightarrow> string \<Rightarrow> int \<Rightarrow> time \<Rightarrow> condition" where
  "cluster_condition typ status reason message generation now =
     \<lparr>cn_type = typ, cn_status = status, cn_reason = reason, cn_message = message,
      cn_observed_generation = generation, cn_transition = now\<rparr>"

definition put_condition :: "cond_lib \<Rightarrow> condition \<Rightarrow> cluster_object \<Rightarrow> cluster_object" where
  "put_condition L c x = x\<lparr>co_conditions := cl_set L (co_conditions x) c\<rparr>"

section \<open>Availability\<close>

definition lastHeartbeat :: "'w cluster_env \<Rightarrow> string \<Rightarrow> ('w, time option \<times> int) prog" where
  "lastHeartbeat env ns =
     seq (attempt (ce_get_lease env ns heartbeatLeaseName)) (\<lambda>r. case r of
       Inl e \<Rightarrow> (if is_not_found e then ok (None, 0) else fail (ErrWrap ''get agent heartbeat lease'' e))
     | Inr l \<Rightarrow>
         (case ls_renew l of
            None \<Rightarrow> ok (None, 0)
          | Some renewed \<Rightarrow>
              (case ls_duration l of
                 None \<Rightarrow> fail (ErrText ''agent heartbeat Lease has no duration'')
               | Some d \<Rightarrow> ok (Some renewed, int64 (sint d * second)))))"

definition count_nodes :: "node list \<Rightarrow> int32 \<times> int32" where
  "count_nodes nodes =
     foldl (\<lambda>(all, online) n. (all + 1, if n_phase n = NodeOnline then online + 1 else online)) (0, 0) nodes"

record observation_of_cluster =
  oc_phase :: string
  oc_heartbeat :: "time option"
  oc_lease_duration :: int
  oc_total_nodes :: int32
  oc_online_nodes :: int32

definition cluster_phase :: "cluster_object \<Rightarrow> time \<Rightarrow> time option \<Rightarrow> int \<Rightarrow> int32 \<Rightarrow> int32 \<Rightarrow> string" where
  "cluster_phase x now heartbeat duration n_total n_online =
     (if c_delisted x then ClusterDelisted
      else if c_draining x then ClusterDraining
      else if c_cordoned x then ClusterCordoned
      else case heartbeat of
        None \<Rightarrow> ClusterOffline
      | Some h \<Rightarrow>
          (if h + duration < now then ClusterOffline
           else if n_online \<noteq> n_total then ClusterDowngraded
           else ClusterOnline))"

definition observe :: "'w cluster_env \<Rightarrow> cluster_object \<Rightarrow> time \<Rightarrow> ('w, observation_of_cluster) prog" where
  "observe env x now =
     seq (wrap ''list Nodes in agent namespace'' (ce_list_nodes env (c_agent_namespace x))) (\<lambda>nodes.
     let (all, online) = count_nodes nodes in
     seq (lastHeartbeat env (c_agent_namespace x)) (\<lambda>(heartbeat, duration).
     ok \<lparr>oc_phase = cluster_phase x now heartbeat duration all online, oc_heartbeat = heartbeat,
         oc_lease_duration = duration, oc_total_nodes = all, oc_online_nodes = online\<rparr>))"

definition clusterReadyCondition :: "string \<Rightarrow> string \<times> string" where
  "clusterReadyCondition phase =
     (if phase = ClusterOnline then (''True'', ''ClusterOnline'')
      else if phase = ClusterDelisted then (''False'', ''ClusterDelisted'')
      else if phase = ClusterCordoned then (''False'', ''ClusterCordoned'')
      else if phase = ClusterDraining then (''False'', ''ClusterDraining'')
      else if phase = ClusterDowngraded then (''False'', ''RegisteredNodeOffline'')
      else (''False'', ''AgentHeartbeatMissingOrExpired''))"

definition nextRequeueAfter :: "time \<Rightarrow> time option \<Rightarrow> int \<Rightarrow> int" where
  "nextRequeueAfter now heartbeat duration =
     (case heartbeat of
        None \<Rightarrow> minute
      | Some h \<Rightarrow>
          (if duration \<le> 0 then minute
           else let remaining = time_Sub (h + duration) now in if remaining \<le> 0 then minute else remaining))"

section \<open>Drain\<close>

definition drain_terminal :: "'a task_scheme \<Rightarrow> bool" where
  "drain_terminal t \<longleftrightarrow> tk_phase (t_status t) = PhaseSucceeded \<or> tk_phase (t_status t) = PhaseFailed"

definition taskHasJobOwner :: "listed_task \<Rightarrow> bool" where
  "taskHasJobOwner t \<longleftrightarrow> list_ex (\<lambda>o'. or_api_version o' = GroupVersion \<and> or_kind o' = ''Job'') (lt_owners t)"

definition put_annotation :: "string \<Rightarrow> string \<Rightarrow> 'a task_scheme \<Rightarrow> 'a task_scheme" where
  "put_annotation k v t = t\<lparr>t_meta := (t_meta t)\<lparr>om_annotations := Some ((entries (om_annotations (t_meta t)))(k \<mapsto> v))\<rparr>\<rparr>"

definition delete_annotation :: "string \<Rightarrow> 'a task_scheme \<Rightarrow> 'a task_scheme" where
  "delete_annotation k t = t\<lparr>t_meta := (t_meta t)\<lparr>om_annotations := map_option (\<lambda>m. m(k := None)) (om_annotations (t_meta t))\<rparr>\<rparr>"

definition set_suspended :: "bool \<Rightarrow> 'a task_scheme \<Rightarrow> 'a task_scheme" where
  "set_suspended b t = t\<lparr>t_spec := (t_spec t)\<lparr>sp_suspended := b\<rparr>\<rparr>"

abbreviation marked :: "string \<Rightarrow> 'a task_scheme \<Rightarrow> bool" where
  "marked k t \<equiv> annotation (t_meta t) k = ''true''"

text \<open>The changes that one iteration of \<open>drainTasks\<close> and of \<open>clearDrainTaskMarkers\<close> make to a Task.\<close>

definition mark_for_drain :: "listed_task \<Rightarrow> listed_task" where
  "mark_for_drain t =
     (let t = put_annotation ClusterStoppedAnnotation ''true'' t in
      if \<not> taskHasJobOwner t \<and> \<not> sp_suspended (t_spec t)
      then set_suspended True (put_annotation ClusterDrainSuspendedAnnotation ''true'' t) else t)"

definition clear_drain_marks :: "listed_task \<Rightarrow> listed_task" where
  "clear_drain_marks t =
     (let drain_suspended = marked ClusterDrainSuspendedAnnotation t;
          t = delete_annotation ClusterStoppedAnnotation t
      in if drain_suspended then set_suspended False (delete_annotation ClusterDrainSuspendedAnnotation t) else t)"

definition clear_task :: "'w cluster_env \<Rightarrow> listed_task \<Rightarrow> ('w, unit) prog" where
  "clear_task env t =
     (if \<not> time_is_zero (om_deletion (t_meta t)) \<or>
         (\<not> marked ClusterStoppedAnnotation t \<and> \<not> marked ClusterDrainSuspendedAnnotation t) then ok ()
      else wrap (''clear cluster drain marker from Task '' @ object_id (t_meta t)) (ce_patch_task env t (clear_drain_marks t)))"

definition clearDrainTaskMarkers :: "'w cluster_env \<Rightarrow> cluster_object \<Rightarrow> ('w, unit) prog" where
  "clearDrainTaskMarkers env x =
     (if c_agent_namespace x = [] then fail no_namespace
      else seq (wrap ''list Tasks in agent namespace'' (ce_list_tasks env (c_agent_namespace x)))
             (\<lambda>tasks. fold_prog (\<lambda>_. clear_task env) () tasks))"

text \<open>A Task that the drain waits for: live, and not yet reported stopped for its generation.\<close>

definition drain_task :: "'w cluster_env \<Rightarrow> bool \<times> string list \<Rightarrow> listed_task \<Rightarrow> ('w, bool \<times> string list) prog" where
  "drain_task env = (\<lambda>(complete, pending) t.
     if \<not> time_is_zero (om_deletion (t_meta t)) \<or> drain_terminal t then ok (complete, pending)
     else if marked ClusterStoppedAnnotation t then
       (if tk_observed_generation (t_status t) \<ge> om_generation (t_meta t) \<and> tk_phase (t_status t) = PhaseStopped
        then ok (complete, pending) else ok (False, pending @ [object_id (t_meta t)]))
     else seq (wrap (''mark Task '' @ object_id (t_meta t) @ '' for cluster drain'') (ce_patch_task env t (mark_for_drain t)))
            (\<lambda>_. ok (False, pending @ [object_id (t_meta t)])))"

definition drainTasks :: "'w cluster_env \<Rightarrow> cluster_object \<Rightarrow> ('w, bool \<times> string list) prog" where
  "drainTasks env x =
     (if c_agent_namespace x = [] then fail no_namespace
      else seq (wrap ''list Tasks in agent namespace'' (ce_list_tasks env (c_agent_namespace x)))
             (\<lambda>tasks. fold_prog (drain_task env) (True, []) tasks))"

definition drain_reasons :: "string set" where
  "drain_reasons = {''DrainInProgress'', ''DrainTimedOut''}"

definition drain_start :: "cond_lib \<Rightarrow> cluster_object \<Rightarrow> time \<Rightarrow> time" where
  "drain_start L x now =
     (case cl_find L (co_conditions x) ConditionTypeProgressing of
        Some c \<Rightarrow>
          (if cn_status c = ''True'' \<and> cn_observed_generation c = om_generation (c_meta x) \<and> cn_reason c \<in> drain_reasons
           then cn_transition c else now)
      | None \<Rightarrow> now)"

text \<open>The second component is what the code returns: the start of the drain.\<close>

definition setDrainCondition :: "cond_lib \<Rightarrow> cluster_object \<Rightarrow> time \<Rightarrow> string list \<Rightarrow> cluster_object \<times> time" where
  "setDrainCondition L x now pending =
     (let started = drain_start L x now;
          (reason, message) =
            (if time_Sub now started \<ge> drainTimeout
             then (''DrainTimedOut'',
                   ''Drain exceeded the 30m0s deadline; waiting for Task(s): ['' @ go_join '' '' pending @ ''].'')
             else (''DrainInProgress'',
                   ''Waiting for '' @ itoa (int (length pending)) @ '' Task(s) to report Stopped for their current generation.''))
      in (put_condition L (cluster_condition ConditionTypeProgressing ''True'' reason message (om_generation (c_meta x)) now) x,
          started))"

definition clearDrainCondition :: "cond_lib \<Rightarrow> cluster_object \<Rightarrow> time \<Rightarrow> cluster_object" where
  "clearDrainCondition L x now =
     (case cl_find L (co_conditions x) ConditionTypeProgressing of
        None \<Rightarrow> x
      | Some c \<Rightarrow>
          (if cn_status c \<noteq> ''True'' \<or> cn_reason c \<notin> drain_reasons then x
           else put_condition L (cluster_condition ConditionTypeProgressing ''False'' ''DrainComplete''
                  ''All Tasks reported Stopped for their current generation.'' (cn_observed_generation c) now) x))"

text \<open>The loop doubles the delay; it ends because the delay reaches \<open>drainMaxBackoff\<close>.\<close>

function backoff :: "int \<Rightarrow> int \<Rightarrow> int" where
  "backoff elapsed delay =
     (if 0 < delay \<and> elapsed \<ge> delay \<and> delay < drainMaxBackoff then backoff elapsed (2 * delay) else delay)"
  by pat_completeness auto

termination
  by (relation "measure (\<lambda>(_, delay). nat (drainMaxBackoff - delay))") auto

declare backoff.simps [simp del]

definition nextDrainRequeueAfter :: "time \<Rightarrow> time option \<Rightarrow> int" where
  "nextDrainRequeueAfter now started =
     (case started of
        None \<Rightarrow> drainInitialBackoff
      | Some s \<Rightarrow>
          (let elapsed = time_Sub now s in
           if elapsed \<ge> drainTimeout then drainMaxBackoff
           else
             (let delay = backoff elapsed drainInitialBackoff;
                  remaining = int64 (drainTimeout - elapsed)
              in if remaining < delay then remaining else delay)))"

section \<open>Deletion\<close>

definition delete_listed :: "string \<Rightarrow> ('a \<Rightarrow> object_meta) \<Rightarrow> ('a \<Rightarrow> ('w, unit) prog) \<Rightarrow> bool \<Rightarrow> 'a \<Rightarrow> ('w, bool) prog" where
  "delete_listed kind meta delete pending x =
     (if time_is_zero (om_deletion (meta x))
      then seq (wrap (''delete '' @ kind @ '' '' @ object_id (meta x)) (ignore_not_found (delete x))) (\<lambda>_. ok True)
      else ok True)"

definition delete_heartbeat :: "'w cluster_env \<Rightarrow> string \<Rightarrow> bool \<Rightarrow> ('w, bool) prog" where
  "delete_heartbeat env ns pending =
     seq (attempt (ce_get_lease env ns heartbeatLeaseName)) (\<lambda>r. case r of
       Inl e \<Rightarrow> (if is_not_found e then ok pending else fail (ErrWrap ''get agent heartbeat Lease'' e))
     | Inr l \<Rightarrow>
         (if time_is_zero (ls_deletion l)
          then seq (wrap ''delete agent heartbeat Lease'' (ignore_not_found (ce_delete_lease env l))) (\<lambda>_. ok True)
          else ok True))"

definition deleteClusterResources :: "'w cluster_env \<Rightarrow> cluster_object \<Rightarrow> ('w, bool) prog" where
  "deleteClusterResources env x =
     (let ns = c_agent_namespace x in
      if ns = [] then fail no_namespace
      else
        seq (wrap ''list Tasks in agent namespace'' (ce_list_tasks env ns)) (\<lambda>tasks.
        seq (fold_prog (delete_listed ''Task'' t_meta (ce_delete_task env)) False tasks) (\<lambda>pending.
        seq (wrap ''list Nodes in agent namespace'' (ce_list_nodes env ns)) (\<lambda>nodes.
        seq (fold_prog (delete_listed ''Node'' n_meta (ce_delete_node env)) pending nodes) (\<lambda>pending.
        delete_heartbeat env ns pending)))))"

definition cluster_deletion :: "'w cluster_env \<Rightarrow> cluster_object \<Rightarrow> ('w, int) prog" where
  "cluster_deletion env x =
     (if \<not> contains_finalizer (c_meta x) ClusterCleanupFinalizer then ok 0
      else seq (deleteClusterResources env x) (\<lambda>pending.
        if pending then ok second
        else seq (wrap ''remove Cluster cleanup finalizer''
                    (ce_update env (x\<lparr>c_meta := remove_finalizer (c_meta x) ClusterCleanupFinalizer\<rparr>)))
               (\<lambda>_. ok 0)))"

section \<open>Reconcile\<close>

definition agentNamespaceConflict :: "'w cluster_env \<Rightarrow> cluster_object \<Rightarrow> ('w, bool) prog" where
  "agentNamespaceConflict env x =
     seq (wrap ''list Clusters for agent namespace conflict'' (ce_list_clusters env)) (\<lambda>clusters.
     ok (list_ex (\<lambda>y. om_name (c_meta y) \<noteq> om_name (c_meta x) \<and> time_is_zero (om_deletion (c_meta y)) \<and>
                   c_agent_namespace y = c_agent_namespace x) clusters))"

definition same_status :: "cluster_object \<Rightarrow> cluster_object \<Rightarrow> bool" where
  "same_status x y \<longleftrightarrow> c_phase x = c_phase y \<and> co_heartbeat x = co_heartbeat y \<and> co_total_nodes x = co_total_nodes y \<and>
     co_online_nodes x = co_online_nodes y \<and> co_conditions x = co_conditions y"

definition patch_if :: "'w cluster_env \<Rightarrow> string \<Rightarrow> bool \<Rightarrow> cluster_object \<Rightarrow> cluster_object \<Rightarrow> ('w, cluster_object) prog" where
  "patch_if env msg changed before x = (if changed then wrap msg (ce_patch_status env before x) else ok x)"

definition reconcileAgentNamespaceConflict :: "'w cluster_env \<Rightarrow> cluster_object \<Rightarrow> time \<Rightarrow> ('w, int) prog" where
  "reconcileAgentNamespaceConflict env before now =
     (let L = ce_conditions env;
          x = before\<lparr>c_phase := ClusterOffline\<rparr>;
          x = put_condition L (cluster_condition ConditionTypeValidated ''False'' ''AgentNamespaceConflict''
                ''Another active Cluster claims this agent namespace.'' (om_generation (c_meta x)) now) x;
          x = put_condition L (cluster_condition ConditionTypeReady ''False'' ''AgentNamespaceConflict''
                ''Cluster availability cannot be determined while its agent namespace is claimed by another Cluster.'' 0 now) x
      in seq (patch_if env ''patch Cluster namespace conflict status'' (\<not> same_status x before) before x) (\<lambda>_. ok minute))"

text \<open>The drain part of \<open>Reconcile\<close>: the Cluster afterwards and \<open>drainRequeueAfter\<close>.\<close>

definition reconcile_drain :: "'w cluster_env \<Rightarrow> cluster_object \<Rightarrow> time \<Rightarrow> ('w, cluster_object \<times> int option) prog" where
  "reconcile_drain env x now =
     seq (drainTasks env x) (\<lambda>(complete, pending).
     if complete then
       (let y = clearDrainCondition (ce_conditions env) x now in
        seq (patch_if env ''patch completed cluster drain status'' (co_conditions y \<noteq> co_conditions x) x y) (\<lambda>y. ok (y, None)))
     else
       (let (y, started) = setDrainCondition (ce_conditions env) x now pending in
        seq (patch_if env ''patch cluster drain status'' (co_conditions y \<noteq> co_conditions x) x y)
          (\<lambda>y. ok (y, Some (nextDrainRequeueAfter now (Some started))))))"

definition reconcile_observed :: "'w cluster_env \<Rightarrow> cluster_object \<Rightarrow> time \<Rightarrow> int option \<Rightarrow> ('w, int) prog" where
  "reconcile_observed env before now drain_requeue =
     (if c_agent_namespace before = [] then fail no_namespace
      else seq (observe env before now) (\<lambda>ob.
        let x = before\<lparr>c_phase := oc_phase ob, co_heartbeat := oc_heartbeat ob, co_total_nodes := oc_total_nodes ob,
              co_online_nodes := oc_online_nodes ob\<rparr>;
            (status, reason) = clusterReadyCondition (oc_phase ob);
            x = put_condition (ce_conditions env) (cluster_condition ConditionTypeReady status reason
              ''Cluster availability is derived from its agent heartbeat Lease and registered Nodes.'' 0 now) x
        in seq (patch_if env ''patch cluster status'' (\<not> same_status x before) before x) (\<lambda>_.
           ok (case drain_requeue of Some d \<Rightarrow> d | None \<Rightarrow> nextRequeueAfter now (oc_heartbeat ob) (oc_lease_duration ob)))))"

definition reconcile_live :: "'w cluster_env \<Rightarrow> cluster_object \<Rightarrow> time \<Rightarrow> ('w, int) prog" where
  "reconcile_live env before now =
     (let x = put_condition (ce_conditions env) (cluster_condition ConditionTypeValidated ''True'' ''SpecValidated'' []
                (om_generation (c_meta before)) now) before
      in seq (patch_if env ''patch Cluster validation status'' (co_conditions x \<noteq> co_conditions before) before x) (\<lambda>x.
         seq (if c_draining x then ok () else clearDrainTaskMarkers env x) (\<lambda>_.
         seq (if c_draining x \<and> \<not> c_delisted x then reconcile_drain env x now else ok (x, None)) (\<lambda>(x, requeue).
         reconcile_observed env x now requeue))))"

definition cluster_Reconcile :: "'w cluster_env \<Rightarrow> string \<Rightarrow> ('w, int) prog" where
  "cluster_Reconcile env name =
     seq (attempt (ce_get env name)) (\<lambda>r. case r of
       Inl e \<Rightarrow> (if is_not_found e then ok 0 else fail e)
     | Inr x \<Rightarrow>
         (if \<not> time_is_zero (om_deletion (c_meta x)) then cluster_deletion env x
          else if \<not> contains_finalizer (c_meta x) ClusterCleanupFinalizer then
            seq (wrap ''add Cluster cleanup finalizer''
                   (ce_update env (x\<lparr>c_meta := add_finalizer (c_meta x) ClusterCleanupFinalizer\<rparr>)))
              (\<lambda>_. ok 0)
          else
            seq (clock env) (\<lambda>now.
            seq (agentNamespaceConflict env x) (\<lambda>conflict.
            if conflict then reconcileAgentNamespaceConflict env x now else reconcile_live env x now))))"

text \<open>The watches: the Clusters that a changed Node, Task or Lease enqueues; a failed list enqueues none.\<close>

definition clusterForNode :: "cluster_object list option \<Rightarrow> string \<Rightarrow> string list" where
  "clusterForNode clusters ns =
     map (\<lambda>x. om_name (c_meta x))
       (filter (\<lambda>x. c_agent_namespace x = ns \<and> time_is_zero (om_deletion (c_meta x))) (elems clusters))"

definition clusterForTask :: "cluster_object list option \<Rightarrow> string \<Rightarrow> string list" where
  "clusterForTask clusters ns =
     (case find (\<lambda>x. c_agent_namespace x = ns \<and> c_draining x) (elems clusters) of
        Some x \<Rightarrow> [om_name (c_meta x)] | None \<Rightarrow> [])"

definition clustersForHeartbeatLease :: "cluster_object list option \<Rightarrow> string \<Rightarrow> string \<Rightarrow> string list" where
  "clustersForHeartbeatLease clusters name ns =
     (if name \<noteq> heartbeatLeaseName then []
      else map (\<lambda>x. om_name (c_meta x))
        (filter (\<lambda>x. c_agent_namespace x = ns \<and> time_is_zero (om_deletion (c_meta x))) (elems clusters)))"

end
