(* ===== verification/Cluster_Safety.thy ===== *)
theory Cluster_Safety
  imports Cluster_Controller
begin

text \<open>
  Properties of the Cluster controller: what the drain waits for and writes, that clearing its markers
  undoes it, how it reaches Job Tasks, its backoff and deadline, and that the clean-up finalizer waits
  for the resources of the agent.
\<close>

section \<open>Conditions\<close>

text \<open>The documented behaviour of the condition helpers, for a given transition time.\<close>

definition cond_documented :: "cond_lib \<Rightarrow> bool" where
  "cond_documented L \<longleftrightarrow>
     (\<forall>cs c. cl_find L (cl_set L cs c) (cn_type c) =
        Some (case cl_find L cs (cn_type c) of
                None \<Rightarrow> c
              | Some old \<Rightarrow> if cn_status old = cn_status c then c\<lparr>cn_transition := cn_transition old\<rparr> else c)) \<and>
     (\<forall>cs c ty. ty \<noteq> cn_type c \<longrightarrow> cl_find L (cl_set L cs c) ty = cl_find L cs ty)"

lemma cond_setD:
  "cond_documented L \<Longrightarrow> cl_find L (cl_set L cs c) (cn_type c) =
     Some (case cl_find L cs (cn_type c) of
             None \<Rightarrow> c
           | Some old \<Rightarrow> if cn_status old = cn_status c then c\<lparr>cn_transition := cn_transition old\<rparr> else c)"
  unfolding cond_documented_def by blast

text \<open>Lists of conditions that behave so.\<close>

fun list_set :: "condition list \<Rightarrow> condition \<Rightarrow> condition list" where
  "list_set [] c = [c]"
| "list_set (old # cs) c =
     (if cn_type old = cn_type c then (if cn_status old = cn_status c then c\<lparr>cn_transition := cn_transition old\<rparr> else c) # cs
      else old # list_set cs c)"

definition list_conditions :: cond_lib where
  "list_conditions = \<lparr>cl_find = (\<lambda>cs ty. find (\<lambda>c. cn_type c = ty) cs), cl_set = list_set\<rparr>"

lemma list_conditions_documented: "cond_documented list_conditions"
proof -
  have "find (\<lambda>d. cn_type d = cn_type c) (list_set cs c) =
      Some (case find (\<lambda>d. cn_type d = cn_type c) cs of None \<Rightarrow> c
        | Some old \<Rightarrow> if cn_status old = cn_status c then c\<lparr>cn_transition := cn_transition old\<rparr> else c)" for cs c
    by (induction cs c rule: list_set.induct) auto
  moreover have "find (\<lambda>d. cn_type d = ty) (list_set cs c) = find (\<lambda>d. cn_type d = ty) cs" if "ty \<noteq> cn_type c" for cs c ty
    using that by (induction cs c rule: list_set.induct) auto
  ultimately show ?thesis by (simp add: cond_documented_def list_conditions_def)
qed

text \<open>
  Setting a condition that is already there, up to the transition time, changes nothing: the
  helper updates the fields, moves the transition time only with the status and keeps the rest
  of the list as it is.
\<close>

definition cond_settles :: "cond_lib \<Rightarrow> bool" where
  "cond_settles L \<longleftrightarrow> (\<forall>cs c old. cl_find L cs (cn_type c) = Some old \<and>
     old = c\<lparr>cn_transition := cn_transition old\<rparr> \<longrightarrow> cl_set L cs c = cs)"

lemma list_conditions_settle: "cond_settles list_conditions"
proof -
  have set: "find (\<lambda>d. cn_type d = cn_type c) cs = Some old \<Longrightarrow> c\<lparr>cn_transition := cn_transition old\<rparr> = old \<Longrightarrow>
      cn_status old = cn_status c \<Longrightarrow> list_set cs c = cs" for cs c old
    by (induction cs c rule: list_set.induct) (auto split: if_splits)
  have status: "cn_status old = cn_status c" if "old = c\<lparr>cn_transition := cn_transition old\<rparr>" for old c :: condition
  proof -
    have "cn_status old = cn_status (c\<lparr>cn_transition := cn_transition old\<rparr>)" by (rule arg_cong [OF that])
    also have "\<dots> = cn_status c" by simp
    finally show ?thesis .
  qed
  show ?thesis
    unfolding cond_settles_def list_conditions_def cond_lib.select_convs
  proof (intro allI impI, elim conjE)
    fix cs :: "condition list" and c old :: condition
    assume "find (\<lambda>d. cn_type d = cn_type c) cs = Some old" and e: "old = c\<lparr>cn_transition := cn_transition old\<rparr>"
    then show "list_set cs c = cs" by (intro set [OF _ e [symmetric] status [OF e]])
  qed
qed

section \<open>Backoff\<close>

lemma backoff_second:
  "backoff e second =
     (if e < second then second else if e < 2 * second then 2 * second else if e < 4 * second then 4 * second
      else if e < 8 * second then 8 * second else if e < 16 * second then 16 * second
      else if e < 32 * second then 32 * second else 64 * second)"
  by (subst backoff.simps, subst backoff.simps, subst backoff.simps, subst backoff.simps, subst backoff.simps,
      subst backoff.simps, subst backoff.simps) (simp add: not_le)

text \<open>
  C37. The wait between two looks at a drain. Until the deadline it is the least power of two seconds
  above the elapsed time, at most 64 seconds (although \<open>drainMaxBackoff\<close> is one minute) and cut so
  that it ends by the deadline; from the deadline on it is one minute. It is always positive.
\<close>

theorem drain_backoff:
  assumes "started - now \<le> 2 ^ 62" and "e = now - started" and "d = nextDrainRequeueAfter now (Some started)"
  shows "0 < d \<and> d \<le> 64 * second \<and>
    (if e < drainTimeout
     then now + d \<le> started + drainTimeout \<and>
       (\<exists>k \<le> 6. d = min (drainTimeout - e) (2 ^ k * second) \<and> (k = 0 \<or> 2 ^ (k - 1) * second \<le> e) \<and> (k = 6 \<or> e < 2 ^ k * second))
     else d = drainMaxBackoff)"
proof (cases "e < drainTimeout")
  case False
  then have "time_Sub now started \<ge> drainTimeout" using assms(2) by (simp add: time_Sub_def)
  then have "d = drainMaxBackoff" by (simp add: assms(3) nextDrainRequeueAfter_def)
  with False show ?thesis by simp
next
  case True
  have e: "- (2 ^ 62) \<le> e" "e \<le> 2 ^ 62" using assms(1,2) True by simp_all
  then have sub: "time_Sub now started = e" using assms(2) by (simp add: time_Sub_def)
  have "int64 (drainTimeout - e) = drainTimeout - e"
    unfolding int64_def using e by (intro signed_take_bit_int_eq_self) simp_all
  then have d: "d = min (drainTimeout - e) (backoff e second)"
    using True by (simp add: assms(3) nextDrainRequeueAfter_def sub Let_def min_def)
  have "\<exists>k \<le> 6. backoff e second = 2 ^ k * second \<and> (k = 0 \<or> 2 ^ (k - 1) * second \<le> e) \<and> (k = 6 \<or> e < 2 ^ k * second)"
  proof -
    have ladder: "\<exists>k \<le> 6. backoff e second = 2 ^ k * second \<and> (k = 0 \<or> 2 ^ (k - 1) * second \<le> e) \<and> (k = 6 \<or> e < 2 ^ k * second)"
      if "k \<le> 6" "backoff e second = 2 ^ k * second" "k = 0 \<or> 2 ^ (k - 1) * second \<le> e" "k = 6 \<or> e < 2 ^ k * second" for k :: nat
      using that by blast
    consider "e < second" | "second \<le> e" "e < 2 * second" | "2 * second \<le> e" "e < 4 * second" | "4 * second \<le> e" "e < 8 * second"
      | "8 * second \<le> e" "e < 16 * second" | "16 * second \<le> e" "e < 32 * second" | "32 * second \<le> e" by linarith
    then show ?thesis
      by cases (rule ladder [of 0] ladder [of 1] ladder [of 2] ladder [of 3] ladder [of 4] ladder [of 5] ladder [of 6];
          simp add: backoff_second)+
  qed
  then obtain k where k: "k \<le> 6" "backoff e second = 2 ^ k * second" "k = 0 \<or> 2 ^ (k - 1) * second \<le> e" "k = 6 \<or> e < 2 ^ k * second"
    by blast
  have "(2 :: int) ^ k \<le> 2 ^ 6" using k(1) by (intro power_increasing) simp_all
  then have "backoff e second \<le> 64 * second" "0 < backoff e second" unfolding k(2) by simp_all
  with True d have "0 < d \<and> d \<le> 64 * second \<and> now + d \<le> started + drainTimeout" using assms(2) by auto
  with True k d show ?thesis by auto
qed

theorem drain_backoff_witness:
  "nextDrainRequeueAfter (40 * second) (Some 0) = 64 * second \<and> 64 * second > drainMaxBackoff \<and>
   nextDrainRequeueAfter (30 * minute - 7) (Some 0) = 7"
  using drain_backoff [of 0 "40 * second", OF _ refl refl] drain_backoff [of 0 "30 * minute - 7", OF _ refl refl]
  by (simp add: nextDrainRequeueAfter_def time_Sub_def backoff_second int64_def signed_take_bit_int_eq_self Let_def)

section \<open>Markers\<close>

lemma marks_simps [simp]:
  "t_meta (set_suspended b t) = t_meta t" "t_status (set_suspended b t) = t_status t"
  "sp_suspended (t_spec (set_suspended b t)) = b" "t_spec (put_annotation k v t) = t_spec t"
  "t_spec (delete_annotation k t) = t_spec t" "t_status (put_annotation k v t) = t_status t"
  "t_status (delete_annotation k t) = t_status t"
  by (simp_all add: set_suspended_def put_annotation_def delete_annotation_def)

lemma marks_owner [simp]:
  "lt_owners (set_suspended b t) = lt_owners t" "lt_owners (put_annotation k v t) = lt_owners t"
  "lt_owners (delete_annotation k t) = lt_owners t"
  by (simp_all add: set_suspended_def put_annotation_def delete_annotation_def)

lemma marked_put [simp]: "annotation (t_meta (put_annotation k v t)) k' = (if k' = k then v else annotation (t_meta t) k')"
  by (cases "om_annotations (t_meta t)") (simp_all add: put_annotation_def)

lemma marked_delete [simp]: "annotation (t_meta (delete_annotation k t)) k' = (if k' = k then [] else annotation (t_meta t) k')"
  by (cases "om_annotations (t_meta t)") (simp_all add: delete_annotation_def map_str_def)

lemma marks_has_owner [simp]: "taskHasJobOwner (put_annotation k v t) = taskHasJobOwner t"
  by (simp add: taskHasJobOwner_def)

lemma marks_entries [simp]:
  "entries (om_annotations (t_meta (put_annotation k v t))) = (entries (om_annotations (t_meta t)))(k \<mapsto> v)"
  "entries (om_annotations (t_meta (delete_annotation k t))) = (entries (om_annotations (t_meta t)))(k := None)"
  by (cases "om_annotations (t_meta t)"; simp add: put_annotation_def delete_annotation_def)+

text \<open>A Task without its annotations.\<close>

definition bare :: "listed_task \<Rightarrow> listed_task" where
  "bare t = t\<lparr>t_meta := (t_meta t)\<lparr>om_annotations := None\<rparr>\<rparr>"

lemma bare_simps [simp]:
  "bare (put_annotation k v t) = bare t" "bare (delete_annotation k t) = bare t"
  "bare (set_suspended b t) = set_suspended b (bare t)" "set_suspended b (set_suspended c t) = set_suspended b t"
  by (simp_all add: bare_def put_annotation_def delete_annotation_def set_suspended_def)

lemma bare_suspended: "sp_suspended (t_spec t) = b \<Longrightarrow> set_suspended b (bare t) = bare t"
  by (auto simp: bare_def set_suspended_def)

definition same_annotations :: "listed_task \<Rightarrow> listed_task \<Rightarrow> bool" where
  "same_annotations t u \<longleftrightarrow> entries (om_annotations (t_meta t)) = entries (om_annotations (t_meta u)) \<and> bare t = bare u"

lemma clear_mark_annotations:
  assumes "entries (om_annotations (t_meta t)) ClusterStoppedAnnotation = None"
    and "entries (om_annotations (t_meta t)) ClusterDrainSuspendedAnnotation = None"
  shows "same_annotations (clear_drain_marks (mark_for_drain t)) t"
proof -
  have absent: "\<not> marked ClusterDrainSuspendedAnnotation t"
    using assms(2) by (cases "om_annotations (t_meta t)") (simp_all add: map_str_def)
  let ?m = "entries (om_annotations (t_meta t))"
  have gone: "?m(ClusterStoppedAnnotation := None) = ?m" "?m(ClusterDrainSuspendedAnnotation := None) = ?m"
    using assms by auto
  show ?thesis
  proof (cases "\<not> taskHasJobOwner t \<and> \<not> sp_suspended (t_spec t)")
    case True
    then show ?thesis
      using gone
      by (simp add: same_annotations_def mark_for_drain_def clear_drain_marks_def Let_def bare_suspended fun_upd_twist)
  next
    case False
    then show ?thesis
      using absent gone(1)
      by (auto simp: same_annotations_def mark_for_drain_def clear_drain_marks_def Let_def)
  qed
qed

text \<open>
  C18. A drain can be undone: for a Task that carries no marker of a drain, marking it and clearing the
  marks gives the Task back, its annotations (a nil map is then an empty one) and everything else; in
  particular a suspension by the user stays and a standalone Task is resumed. In between the Task is
  marked, and suspended unless a Job owns it.
\<close>

theorem drain_roundtrip:
  assumes "entries (om_annotations (t_meta t)) ClusterStoppedAnnotation = None"
    and "entries (om_annotations (t_meta t)) ClusterDrainSuspendedAnnotation = None"
  shows "same_annotations (clear_drain_marks (mark_for_drain t)) t \<and>
    marked ClusterStoppedAnnotation (mark_for_drain t) \<and>
    (taskHasJobOwner t \<or> sp_suspended (t_spec (mark_for_drain t)))"
  using clear_mark_annotations [OF assms] by (simp add: mark_for_drain_def Let_def)

text \<open>A standalone Task and one that the user had suspended, as a listing returns them.\<close>

definition standalone_task :: "string \<Rightarrow> bool \<Rightarrow> listed_task" where
  "standalone_task name suspended =
     \<lparr>t_meta = (t_meta demo_task)\<lparr>om_name := name, om_namespace := ''edge'', om_annotations := Some [''keep'' \<mapsto> ''x'']\<rparr>,
      t_spec = (t_spec demo_task)\<lparr>sp_suspended := suspended\<rparr>, t_status = t_status demo_task, lt_owners = []\<rparr>"

lemma standalone_task [simp]:
  "om_annotations (t_meta (standalone_task name b)) = Some [''keep'' \<mapsto> ''x'']"
  "sp_suspended (t_spec (standalone_task name b)) = b" "lt_owners (standalone_task name b) = []"
  "om_name (t_meta (standalone_task name b)) = name" "om_namespace (t_meta (standalone_task name b)) = ''edge''"
  "t_status (standalone_task name b) = t_status demo_task"
  "om_deletion (t_meta (standalone_task name b)) = om_deletion (t_meta demo_task)"
  "om_generation (t_meta (standalone_task name b)) = om_generation (t_meta demo_task)"
  by (simp_all add: standalone_task_def)

theorem drain_roundtrip_witness:
  "same_annotations (clear_drain_marks (mark_for_drain (standalone_task ''a'' False))) (standalone_task ''a'' False) \<and>
   same_annotations (clear_drain_marks (mark_for_drain (standalone_task ''b'' True))) (standalone_task ''b'' True) \<and>
   sp_suspended (t_spec (mark_for_drain (standalone_task ''a'' False)))"
  using drain_roundtrip [of "standalone_task ''a'' False"] drain_roundtrip [of "standalone_task ''b'' True"]
  by (simp add: taskHasJobOwner_def)

section \<open>What a drain waits for\<close>

definition drain_done :: "listed_task \<Rightarrow> bool" where
  "drain_done t \<longleftrightarrow> \<not> time_is_zero (om_deletion (t_meta t)) \<or> drain_terminal t \<or>
     marked ClusterStoppedAnnotation t \<and> tk_observed_generation (t_status t) \<ge> om_generation (t_meta t) \<and>
       tk_phase (t_status t) = PhaseStopped"

definition drain_unmarked :: "listed_task \<Rightarrow> bool" where
  "drain_unmarked t \<longleftrightarrow> \<not> drain_done t \<and> \<not> marked ClusterStoppedAnnotation t"

definition mark_task :: "'w cluster_env \<Rightarrow> listed_task \<Rightarrow> ('w, unit) prog" where
  "mark_task env t = wrap (''mark Task '' @ object_id (t_meta t) @ '' for cluster drain'') (ce_patch_task env t (mark_for_drain t))"

lemma drain_task_step:
  "drain_task env (complete, pending) t =
     (if drain_done t then ok (complete, pending)
      else if drain_unmarked t then seq (mark_task env t) (\<lambda>_. ok (False, pending @ [object_id (t_meta t)]))
      else ok (False, pending @ [object_id (t_meta t)]))"
  by (auto simp: drain_task_def drain_done_def drain_unmarked_def mark_task_def)

lemma drain_loop:
  assumes "fold_prog (drain_task env) (b, names) ts w = (Inr (complete, pending), w')"
  shows "pending = names @ map (\<lambda>t. object_id (t_meta t)) (filter (\<lambda>t. \<not> drain_done t) ts) \<and>
    (complete \<longleftrightarrow> b \<and> list_all drain_done ts) \<and>
    fold_prog (\<lambda>_. mark_task env) () (filter drain_unmarked ts) w = (Inr (), w')"
  using assms
proof (induction ts arbitrary: b names w)
  case (Cons t ts)
  show ?case
  proof (cases "drain_unmarked t")
    case True
    then have "\<not> drain_done t" by (simp add: drain_unmarked_def)
    with True Cons.prems obtain w1 where "mark_task env t w = (Inr (), w1)"
      and "fold_prog (drain_task env) (False, names @ [object_id (t_meta t)]) ts w1 = (Inr (complete, pending), w')"
      by (auto simp: drain_task_step seq_def ok_def split: prod.splits sum.splits)
    with Cons.IH True \<open>\<not> drain_done t\<close> show ?thesis by (fastforce simp: seq_def)
  next
    case False
    with Cons.prems have "fold_prog (drain_task env)
        (if drain_done t then (b, names) else (False, names @ [object_id (t_meta t)])) ts w = (Inr (complete, pending), w')"
      by (auto simp: drain_task_step seq_def ok_def split: if_splits)
    with Cons.IH False show ?thesis by (fastforce split: if_splits)
  qed
qed (simp add: ok_def)

text \<open>
  C16. A drain waits for exactly the right Tasks: over the listed Tasks of the agent's namespace, it
  marks, in order, the live, unfinished and unmarked ones and patches nothing else; it reports the
  Tasks that are not done as pending; and it is complete exactly when every listed Task is being
  deleted, finished, or marked and reported Stopped for its current generation.
\<close>

theorem drain_waits_exactly:
  assumes "c_agent_namespace x \<noteq> []" and "ce_list_tasks env (c_agent_namespace x) w = (Inr ts, w1)"
    and "drainTasks env x w = (Inr (complete, pending), w')"
  shows "fold_prog (\<lambda>_. mark_task env) () (filter drain_unmarked ts) w1 = (Inr (), w') \<and>
    pending = map (\<lambda>t. object_id (t_meta t)) (filter (\<lambda>t. \<not> drain_done t) ts) \<and>
    (complete \<longleftrightarrow> list_all drain_done ts)"
proof -
  have "fold_prog (drain_task env) (True, []) ts w1 = (Inr (complete, pending), w')"
    using assms by (simp add: drainTasks_def seq_def wrap_def on_err_def)
  from drain_loop [OF this] show ?thesis by simp
qed

section \<open>A concrete management API\<close>

record cluster_world =
  cw_cluster :: cluster_object
  cw_tasks :: "listed_task list"
  cw_nodes :: "node list"
  cw_lease :: "lease option"
  cw_now :: time

definition same_task :: "listed_task \<Rightarrow> listed_task \<Rightarrow> bool" where
  "same_task t u \<longleftrightarrow> object_id (t_meta t) = object_id (t_meta u)"

definition sim_cluster_env :: "cluster_world cluster_env" where
  "sim_cluster_env =
     \<lparr>ce_get = (\<lambda>_ w. (Inr (cw_cluster w), w)),
      ce_update = (\<lambda>x w. (Inr (), w\<lparr>cw_cluster := x\<rparr>)),
      ce_patch_status = (\<lambda>_ x w. (Inr x, w\<lparr>cw_cluster := x\<rparr>)),
      ce_list_clusters = (\<lambda>w. (Inr [cw_cluster w], w)),
      ce_list_tasks = (\<lambda>ns w. (Inr (filter (\<lambda>t. om_namespace (t_meta t) = ns) (cw_tasks w)), w)),
      ce_patch_task = (\<lambda>_ t w. (Inr (), w\<lparr>cw_tasks := map (\<lambda>u. if same_task t u then t else u) (cw_tasks w)\<rparr>)),
      ce_delete_task = (\<lambda>t w. (Inr (), w\<lparr>cw_tasks := filter (\<lambda>u. \<not> same_task t u) (cw_tasks w)\<rparr>)),
      ce_list_nodes = (\<lambda>ns w. (Inr (filter (\<lambda>n. om_namespace (n_meta n) = ns) (cw_nodes w)), w)),
      ce_delete_node = (\<lambda>_. ok ()),
      ce_get_lease = (\<lambda>_ _ w. (case cw_lease w of None \<Rightarrow> Inl (ErrKube NotFound) | Some l \<Rightarrow> Inr l, w)),
      ce_delete_lease = (\<lambda>_ w. (Inr (), w\<lparr>cw_lease := None\<rparr>)),
      ce_now = (\<lambda>w. (cw_now w, w)),
      ce_conditions = list_conditions\<rparr>"

definition demo_cluster :: cluster_object where
  "demo_cluster =
     \<lparr>c_meta = (t_meta demo_task)\<lparr>om_name := ''edge-a'', om_namespace := [], om_generation := 4,
        om_finalizers := Some [ClusterCleanupFinalizer]\<rparr>,
      c_agent_namespace = ''edge'', c_cordoned = False, c_draining = True, c_delisted = False, c_phase = ClusterOnline,
      co_heartbeat = None, co_total_nodes = 0, co_online_nodes = 0, co_conditions = []\<rparr>"

definition demo_cluster_world :: cluster_world where
  "demo_cluster_world =
     \<lparr>cw_cluster = demo_cluster, cw_tasks = [standalone_task ''a'' False, standalone_task ''b'' True],
      cw_nodes = [\<lparr>n_meta = (t_meta demo_task)\<lparr>om_name := ''n1'', om_namespace := ''edge''\<rparr>, n_unschedulable = False, n_phase = NodeOnline\<rparr>],
      cw_lease = Some \<lparr>ls_deletion = None, ls_renew = Some (99 * second), ls_duration = Some 30\<rparr>, cw_now = 100 * second\<rparr>"

lemma sim_list_tasks: "ce_list_tasks sim_cluster_env ns w = (Inr (filter (\<lambda>t. om_namespace (t_meta t) = ns) (cw_tasks w)), w)"
  by (simp add: sim_cluster_env_def)

theorem drain_waits_exactly_witness:
  "\<exists>w'. drainTasks sim_cluster_env demo_cluster demo_cluster_world = (Inr (False, [''edge/a'', ''edge/b'']), w') \<and>
     fold_prog (\<lambda>_. mark_task sim_cluster_env) () (filter drain_unmarked (cw_tasks demo_cluster_world)) demo_cluster_world = (Inr (), w') \<and>
     map (\<lambda>t. sp_suspended (t_spec t)) (cw_tasks w') = [True, True]"
proof -
  let ?run = "drainTasks sim_cluster_env demo_cluster demo_cluster_world"
  have r: "fst ?run = Inr (False, [''edge/a'', ''edge/b''])" "map (\<lambda>t. sp_suspended (t_spec t)) (cw_tasks (snd ?run)) = [True, True]"
    by code_simp+
  then have run: "?run = (Inr (False, [''edge/a'', ''edge/b'']), snd ?run)" by (simp add: prod_eq_iff)
  have ns: "c_agent_namespace demo_cluster = ''edge''" by (simp add: demo_cluster_def)
  then have "c_agent_namespace demo_cluster \<noteq> []"
    and "filter (\<lambda>t. om_namespace (t_meta t) = c_agent_namespace demo_cluster) (cw_tasks demo_cluster_world) = cw_tasks demo_cluster_world"
    by (simp_all add: demo_cluster_world_def)
  with drain_waits_exactly [OF _ sim_list_tasks run] r(2) run show ?thesis by (intro exI [of _ "snd ?run"]) simp
qed

section \<open>Deadlines\<close>

definition progressing :: "cond_lib \<Rightarrow> cluster_object \<Rightarrow> condition option" where
  "progressing L x = cl_find L (co_conditions x) ConditionTypeProgressing"

lemma progressing_put:
  "cond_documented L \<Longrightarrow> cn_type c \<noteq> ConditionTypeProgressing \<Longrightarrow> progressing L (put_condition L c x) = progressing L x"
  by (simp add: progressing_def put_condition_def cond_documented_def)

lemma progressing_set:
  assumes L: "cond_documented L" and c: "progressing L x = Some c" "cn_status c = ''True''"
  shows "\<exists>d. progressing L (fst (setDrainCondition L x now pending)) = Some d \<and> cn_status d = ''True'' \<and>
    cn_observed_generation d = om_generation (c_meta x) \<and> cn_transition d = cn_transition c \<and>
    cn_reason d = (if time_Sub now (drain_start L x now) \<ge> drainTimeout then ''DrainTimedOut'' else ''DrainInProgress'')"
proof -
  have find: "cl_find L (cl_set L (co_conditions x) e) ConditionTypeProgressing = Some (if ''True'' = cn_status e then e\<lparr>cn_transition := cn_transition c\<rparr> else e)"
    if "cn_type e = ConditionTypeProgressing" for e
    using L c that unfolding cond_documented_def progressing_def by (metis (no_types, lifting) option.case(2))
  show ?thesis
    by (simp add: progressing_def setDrainCondition_def Let_def put_condition_def find cluster_condition_def)
qed

text \<open>
  While a Cluster is not draining, \<open>Reconcile\<close> does not touch the condition of its last drain: an
  invariant that status patches with the same \<open>Progressing\<close> condition keep is kept by the run.
\<close>

lemma keeps_patch_if:
  "keeps I (ce_patch_status env a b) P (\<lambda>_. True) \<Longrightarrow> P b \<Longrightarrow> keeps I (patch_if env msg changed a b) P (\<lambda>_. True)"
  unfolding patch_if_def by (auto intro!: keeps_if keeps_ok keeps_wrap [where F = "\<lambda>_. True"])

lemma undrained_keeps_condition:
  fixes env :: "'w cluster_env"
  defines "L \<equiv> ce_conditions env"
  assumes L: "cond_documented L" and idle: "\<not> c_draining x"
    and patch: "\<And>a b. \<not> c_draining b \<Longrightarrow> progressing L a = progressing L x \<Longrightarrow> progressing L b = progressing L x \<Longrightarrow>
      keeps I (ce_patch_status env a b) (\<lambda>y. \<not> c_draining y \<and> progressing L y = progressing L x) (\<lambda>_. True)"
    and reads: "\<And>ns. keeps I (ce_list_tasks env ns) (\<lambda>_. True) (\<lambda>_. True)"
      "\<And>ns. keeps I (ce_list_nodes env ns) (\<lambda>_. True) (\<lambda>_. True)" "\<And>ns n. keeps I (ce_get_lease env ns n) (\<lambda>_. True) (\<lambda>_. True)"
    and tasks: "\<And>t u. keeps I (ce_patch_task env t u) (\<lambda>_. True) (\<lambda>_. True)"
  shows "keeps I (reconcile_live env x now) (\<lambda>_. True) (\<lambda>_. True)"
proof -
  let ?T = "\<lambda>_ :: go_error. True"
  have wrapped: "keeps I m P ?T \<Longrightarrow> keeps I (wrap msg m) P ?T" for m :: "('w, 'b) prog" and P msg
    by (rule keeps_wrap [where F = ?T]) simp_all
  have heartbeat: "keeps I (lastHeartbeat env ns) (\<lambda>_. True) ?T" for ns
    unfolding lastHeartbeat_def
    by (intro keeps_seq_any keeps_attempt [OF reads(3)] keeps_sum keeps_if keeps_option keeps_ok keeps_fail) simp_all
  have clear: "keeps I (clearDrainTaskMarkers env y) (\<lambda>_. True) ?T" for y
    unfolding clearDrainTaskMarkers_def clear_task_def
    by (intro keeps_if keeps_fail keeps_seq_any wrapped reads keeps_fold keeps_ok tasks) simp_all
  have observed: "keeps I (reconcile_observed env y now r) (\<lambda>_. True) ?T"
    if "\<not> c_draining y" "progressing L y = progressing L x" for y r
  proof -
    have obs: "keeps I (observe env y now) (\<lambda>_. True) ?T"
      unfolding observe_def Let_def split_def by (intro keeps_seq_any [OF wrapped [OF reads(2)]] keeps_seq_any [OF heartbeat] keeps_ok) simp
    have put: "progressing L (put_condition L (cluster_condition ConditionTypeReady st rs msg 0 now)
        (y\<lparr>c_phase := p, co_heartbeat := h, co_total_nodes := n, co_online_nodes := m\<rparr>)) = progressing L x" for st rs msg p h n m
      using that(2) by (subst progressing_put [OF L]) (simp_all add: cluster_condition_def progressing_def)
    show ?thesis
      unfolding reconcile_observed_def Let_def split_def L_def [symmetric]
      by (intro keeps_if keeps_fail keeps_seq_any [OF obs] keeps_seq_any keeps_weaken [OF keeps_patch_if [OF patch]] keeps_ok)
         (use that put in \<open>simp_all add: put_condition_def\<close>)
  qed
  have first: "keeps I (patch_if env msg ch x (put_condition L (cluster_condition ConditionTypeValidated ''True'' rs m g now) x))
      (\<lambda>y. \<not> c_draining y \<and> progressing L y = progressing L x) ?T" for msg ch rs m g
    using idle by (intro keeps_patch_if patch) (simp_all add: progressing_put [OF L] cluster_condition_def put_condition_def
        progressing_put [OF L, unfolded put_condition_def])
  show ?thesis
    unfolding reconcile_live_def Let_def L_def [symmetric]
    by (rule keeps_seq [OF first]) (auto intro!: keeps_seq_any [OF clear] keeps_seq [where P = "\<lambda>r. r = (_, None)"] keeps_ok observed)
qed

text \<open>
  C38. A cancelled drain leaves its clock running. If the \<open>Progressing\<close> condition of a Cluster is still
  the one of a drain in progress (cancelling a drain leaves it so), then the next drain, whenever it
  starts and whatever the generation, keeps the old transition time, and its second look reports it as
  timed out as soon as the old deadline has passed, although the new drain may just have begun.
\<close>

theorem cancelled_drain_times_out:
  assumes "cond_documented L" and "progressing L x = Some c" and "cn_status c = ''True''"
    and "y = fst (setDrainCondition L x now pending)" and "time_Sub now' (cn_transition c) \<ge> drainTimeout"
  shows "\<exists>d. progressing L (fst (setDrainCondition L y now' pending')) = Some d \<and> cn_reason d = ''DrainTimedOut''"
proof -
  obtain d where d: "progressing L y = Some d" "cn_status d = ''True''" "cn_observed_generation d = om_generation (c_meta x)"
    "cn_transition d = cn_transition c" "cn_reason d \<in> drain_reasons"
    using progressing_set [OF assms(1-3), of now pending] unfolding assms(4) drain_reasons_def by (auto split: if_splits)
  have "c_meta y = c_meta x" by (simp add: assms(4) setDrainCondition_def Let_def put_condition_def split_def)
  with d have "drain_start L y now' = cn_transition c" by (simp add: drain_start_def progressing_def)
  then show ?thesis using progressing_set [OF assms(1) d(1,2), of now' pending'] assms(5) by auto
qed

definition cancelled_cluster :: cluster_object where
  "cancelled_cluster = demo_cluster\<lparr>co_conditions := [cluster_condition ConditionTypeProgressing ''True'' ''DrainInProgress'' [] 2 0]\<rparr>"

theorem cancelled_drain_times_out_witness:
  "\<exists>d. progressing list_conditions (fst (setDrainCondition list_conditions
        (fst (setDrainCondition list_conditions cancelled_cluster (60 * minute) [''edge/a''])) (60 * minute + second) [''edge/a''])) = Some d \<and>
     cn_reason d = ''DrainTimedOut''"
proof -
  have "progressing list_conditions cancelled_cluster = Some (cluster_condition ConditionTypeProgressing ''True'' ''DrainInProgress'' [] 2 0)"
    by code_simp
  then show ?thesis
    by (rule cancelled_drain_times_out [OF list_conditions_documented _ _ refl]) (simp_all add: cluster_condition_def time_Sub_def)
qed

section \<open>Deletion\<close>

lemma keeps_delete_listed:
  assumes "\<And>x. keeps I (delete x) (\<lambda>_. True) (\<lambda>_. True)"
  shows "keeps I (fold_prog (delete_listed kind meta delete) b xs) (\<lambda>pending. pending \<longleftrightarrow> b \<or> xs \<noteq> []) (\<lambda>_. True)"
proof (induction xs arbitrary: b)
  case (Cons x xs)
  have "keeps I (delete_listed kind meta delete b x) (\<lambda>r. r) (\<lambda>_. True)"
    unfolding delete_listed_def
    by (intro keeps_if keeps_seq_any keeps_wrap [where F = "\<lambda>_. True"] keeps_ignore_not_found assms keeps_ok) simp_all
  with Cons.IH [of True] show ?case by (auto intro!: keeps_seq)
qed (simp add: keeps_ok)

text \<open>
  C17. The clean-up finalizer of a deleted Cluster is held while resources of its agent remain: as long
  as the listing of Tasks or of Nodes in its namespace is not empty, or its heartbeat Lease is found,
  the run does not write the Cluster at all (nothing is assumed of \<open>Update\<close>, and an invariant that the
  reads and the deletions keep still holds), and a run that succeeds asks to be repeated.
\<close>

theorem cluster_deletion_waits:
  assumes "keeps I (ce_list_tasks env (c_agent_namespace x)) (\<lambda>ts. some_tasks \<longrightarrow> ts \<noteq> []) (\<lambda>_. True)"
    and "keeps I (ce_list_nodes env (c_agent_namespace x)) (\<lambda>ns. some_nodes \<longrightarrow> ns \<noteq> []) (\<lambda>_. True)"
    and "keeps I (ce_get_lease env (c_agent_namespace x) heartbeatLeaseName) (\<lambda>_. True) (\<lambda>e. some_lease \<longrightarrow> \<not> is_not_found e)"
    and "\<And>t. keeps I (ce_delete_task env t) (\<lambda>_. True) (\<lambda>_. True)" and "\<And>n. keeps I (ce_delete_node env n) (\<lambda>_. True) (\<lambda>_. True)"
    and "\<And>l. keeps I (ce_delete_lease env l) (\<lambda>_. True) (\<lambda>_. True)"
    and "some_tasks \<or> some_nodes \<or> some_lease" and "contains_finalizer (c_meta x) ClusterCleanupFinalizer" and "I w"
  shows "I (snd (cluster_deletion env x w)) \<and>
    (case fst (cluster_deletion env x w) of Inl _ \<Rightarrow> True | Inr after \<Rightarrow> after = second)"
proof -
  let ?T = "\<lambda>_ :: go_error. True"
  have wrapped: "keeps I m P ?T \<Longrightarrow> keeps I (wrap msg m) P ?T" for m :: "('a, 'b) prog" and P msg
    by (rule keeps_wrap [where F = ?T]) simp_all
  have lease: "keeps I (delete_heartbeat env (c_agent_namespace x) pending) (\<lambda>r. pending \<or> some_lease \<longrightarrow> r) ?T" for pending
  proof -
    have "keeps I (attempt (ce_get_lease env (c_agent_namespace x) heartbeatLeaseName)) (\<lambda>r. \<forall>e. r = Inl e \<longrightarrow> some_lease \<longrightarrow> \<not> is_not_found e) ?T"
      by (rule keeps_attempt [OF assms(3)]) simp_all
    then show ?thesis
      unfolding delete_heartbeat_def
      by (rule keeps_seq)
         (intro keeps_sum keeps_if keeps_ok keeps_fail keeps_seq_any keeps_wrap [where F = ?T] keeps_ignore_not_found assms(6); simp)
  qed
  have resources: "keeps I (deleteClusterResources env x) (\<lambda>pending. pending) ?T"
    unfolding deleteClusterResources_def Let_def
    by (intro keeps_if keeps_fail, simp,
        rule keeps_seq [OF keeps_wrap [where F = ?T, OF assms(1)]], simp_all,
        rule keeps_seq [OF keeps_delete_listed [OF assms(4)]],
        rule keeps_seq [OF keeps_wrap [where F = ?T, OF assms(2)]], simp_all,
        rule keeps_seq [OF keeps_delete_listed [OF assms(5)]],
        rule keeps_weaken [OF lease]) (use assms(7) in auto)
  have "keeps I (cluster_deletion env x) (\<lambda>after. after = second) ?T"
    unfolding cluster_deletion_def
    by (intro keeps_if) (use assms(8) in \<open>auto intro!: keeps_seq [OF resources] keeps_ok\<close>)
  from keeps_run [OF this assms(9)] show ?thesis .
qed

text \<open>Tasks are gone and the Lease too, but the Node stays.\<close>

theorem cluster_deletion_waits_witness:
  "cw_cluster (snd (cluster_deletion sim_cluster_env demo_cluster demo_cluster_world)) = demo_cluster \<and>
   (case fst (cluster_deletion sim_cluster_env demo_cluster demo_cluster_world) of Inl _ \<Rightarrow> True | Inr after \<Rightarrow> after = second)"
proof -
  let ?I = "\<lambda>w. cw_cluster w = demo_cluster \<and> cw_nodes w = cw_nodes demo_cluster_world"
  have nodes: "filter (\<lambda>n. om_namespace (n_meta n) = ''edge'') (cw_nodes demo_cluster_world) \<noteq> []"
    by (simp add: demo_cluster_world_def)
  have "?I (snd (cluster_deletion sim_cluster_env demo_cluster demo_cluster_world)) \<and>
    (case fst (cluster_deletion sim_cluster_env demo_cluster demo_cluster_world) of Inl _ \<Rightarrow> True | Inr after \<Rightarrow> after = second)"
    by (rule cluster_deletion_waits [where some_tasks = False and some_nodes = True and some_lease = False])
       (use nodes in \<open>auto simp: keeps_def wp_def sim_cluster_env_def ok_def demo_cluster_def demo_cluster_world_def contains_finalizer_def
          split: option.split\<close>)
  then show ?thesis by blast
qed

section \<open>Drain and Jobs\<close>

lemma buildTask_suspended: "sp_suspended (t_spec (buildTask j t name ns)) = jb_suspended (j_spec j)"
  by (simp add: buildTask_def Let_def)

text \<open>
  C36. The Job controller honours the marker of a drain: reconciling an unfinished Task that the Job
  explicitly owns, that is not being deleted and whose restart annotation is the Job's either keeps the
  Task as it is or writes it once, and then it is suspended exactly when the drain has marked it or the
  Job is suspended. So marking a Task suspends it, and clearing the mark resumes it.
\<close>

theorem drained_job_task_suspended:
  assumes "ClassifyChild (t_meta task) (job_parent j) (jt_name t) = Inr (True, False)"
    and "time_is_zero (om_deletion (t_meta task))" and "\<not> taskTerminal task"
    and "annotation (t_meta task) RestartedAtAnnotation = annotation (j_meta j) RestartedAtAnnotation"
  shows "\<exists>u. (sp_suspended (t_spec u) \<longleftrightarrow> marked ClusterStoppedAnnotation task \<or> jb_suspended (j_spec j)) \<and>
    (update_existing_task env j t ns name task w = (Inr task, w) \<and> u = task \<or>
     update_existing_task env j t ns name task w = wrap (''update Task '' @ ns @ ''/'' @ name) (je_update_task env u) w)"
proof (cases "taskEqual task j t")
  case True
  then have "t_spec task = (if marked ClusterStoppedAnnotation task
      then (t_spec (buildTask j t (om_name (t_meta task)) (om_namespace (t_meta task))))\<lparr>sp_suspended := True\<rparr>
      else t_spec (buildTask j t (om_name (t_meta task)) (om_namespace (t_meta task))))"
    by (simp add: taskEqual_def Let_def)
  then have "sp_suspended (t_spec task) \<longleftrightarrow> marked ClusterStoppedAnnotation task \<or> jb_suspended (j_spec j)"
    by (simp add: buildTask_suspended split: if_splits)
  moreover have "update_existing_task env j t ns name task w = (Inr task, w)"
    using True assms by (simp add: update_existing_task_def ensureTaskOwnership_def seq_def ok_def Let_def)
  ultimately show ?thesis by blast
next
  case False
  let ?d = "buildTask j t name ns"
  let ?u = "task\<lparr>t_spec := (if marked ClusterStoppedAnnotation task then (t_spec ?d)\<lparr>sp_suspended := True\<rparr> else t_spec ?d),
      t_meta := (t_meta task)\<lparr>om_annotations := MergeAnnotations (om_annotations (t_meta task)) (entries (om_annotations (t_meta ?d)))\<rparr>\<rparr>"
  have "update_existing_task env j t ns name task w = wrap (''update Task '' @ ns @ ''/'' @ name) (je_update_task env ?u) w"
    using False assms by (simp add: update_existing_task_def ensureTaskOwnership_def seq_def ok_def Let_def)
  then show ?thesis by (intro exI [of _ ?u]) (simp add: buildTask_suspended)
qed

definition drained_job_task :: task where
  "drained_job_task = put_annotation ClusterStoppedAnnotation ''true''
     (demo_task\<lparr>t_meta := (t_meta demo_task)\<lparr>om_controller := Some (job_ref demo_job)\<rparr>\<rparr>)"

lemma drained_job_task:
  "ClassifyChild (t_meta drained_job_task) (job_parent demo_job) ''worker'' = Inr (True, False)"
  "time_is_zero (om_deletion (t_meta drained_job_task))" "\<not> taskTerminal drained_job_task"
  "annotation (t_meta drained_job_task) RestartedAtAnnotation = annotation (j_meta demo_job) RestartedAtAnnotation"
  "marked ClusterStoppedAnnotation drained_job_task" "jt_name (demo_template ''worker'' False 3) = ''worker''"
  by code_simp+

theorem drained_job_task_suspended_witness:
  "\<forall>env (w :: unit). \<exists>u. sp_suspended (t_spec u) \<and>
    (update_existing_task env demo_job (demo_template ''worker'' False 3) ''default'' ''train-worker'' drained_job_task w = (Inr drained_job_task, w) \<and>
       u = drained_job_task \<or>
     update_existing_task env demo_job (demo_template ''worker'' False 3) ''default'' ''train-worker'' drained_job_task w =
       wrap (''update Task '' @ ''default'' @ ''/'' @ ''train-worker'') (je_update_task env u) w)"
proof (intro allI)
  fix env :: "unit job_env" and w :: unit
  have "ClassifyChild (t_meta drained_job_task) (job_parent demo_job) (jt_name (demo_template ''worker'' False 3)) = Inr (True, False)"
    by (simp only: drained_job_task)
  from drained_job_task_suspended [OF this drained_job_task(2-4), of env "''default''" "''train-worker''" w]
  show "\<exists>u. sp_suspended (t_spec u) \<and>
    (update_existing_task env demo_job (demo_template ''worker'' False 3) ''default'' ''train-worker'' drained_job_task w = (Inr drained_job_task, w) \<and>
       u = drained_job_task \<or>
     update_existing_task env demo_job (demo_template ''worker'' False 3) ''default'' ''train-worker'' drained_job_task w =
       wrap (''update Task '' @ ''default'' @ ''/'' @ ''train-worker'') (je_update_task env u) w)"
    using drained_job_task(5) by blast
qed

end
