(* ===== verification/Node_Controller.thy ===== *)
theory Node_Controller
  imports Cluster_Safety
begin

text \<open>
  The Node controller (\<open>controllermanager/node/node_controller.go\<close>): connectivity of a Node from the
  heartbeat Lease of its agent.
\<close>

section \<open>Model\<close>




definition nodeHeartbeatLeaseName :: "string \<Rightarrow> string" where
  "nodeHeartbeatLeaseName name = ''node-heartbeat-'' @ name"









text \<open>The watch of Leases: \<open>strings.CutPrefix\<close>, then a request for the Node of that name.\<close>

definition node_of_lease :: "string \<Rightarrow> string \<Rightarrow> (string \<times> string) list" where
  "node_of_lease ns lease_name =
     (let p = ''node-heartbeat-'' in
      if take (length p) lease_name = p \<and> drop (length p) lease_name \<noteq> [] then [(ns, drop (length p) lease_name)] else [])"

section \<open>Properties\<close>

lemma node_of_lease_name: "name \<noteq> [] \<Longrightarrow> node_of_lease ns (nodeHeartbeatLeaseName name) = [(ns, name)]"
  by (simp add: node_of_lease_def nodeHeartbeatLeaseName_def)








end
