(* ===== verification/Task_Controller.thy ===== *)
theory Task_Controller
  imports Node_Controller Complex_Main "HOL-Library.Multiset" "HOL-Library.Product_Lexorder"
begin

text \<open>
  The Task controller (\<open>controllermanager/task/task_controller.go\<close>): while a Task is Pending it copies
  image pull progress and events from the Nodes the Task was seen on into the status of the Task. The
  order in which Go ranges over a map is an argument \<open>ro\<close>, one order per loop, and since the input of
  \<open>sort.Slice\<close> comes in such an order, its unspecified order of equal elements is covered by it.
\<close>

section \<open>Model\<close>

record pull_progress =
  pp_image :: string
  pp_downloaded :: int
  pp_total :: int
  pp_speed :: rat \<comment> \<open>a finite \<open>float64\<close>\<close>
  pp_status :: string
  pp_message :: string

record node_event =
  nv_type :: string
  nv_reason :: string
  nv_message :: string
  nv_last_time :: time
  nv_count :: int32
  nv_source :: string
  nv_object_kind :: string
  nv_object_name :: string

record reporting_node =
  rn_pull_progress :: "pull_progress list"
  rn_events :: "node_event list"

text \<open>The images of the pod template of a Task, and its status with the fields of this controller.\<close>

record template_images =
  ti_init :: "string list"
  ti_containers :: "string list"
  ti_ephemeral :: "string list"

record polled_task =
  po_namespace :: string
  po_images :: "template_images option"
  po_phase :: string
  po_observed_nodes :: "string list"
  po_pull_progress :: "pull_progress list"
  po_events :: "node_event list"

abbreviation pullProgressRequeueInterval :: int where "pullProgressRequeueInterval \<equiv> 3 * second"
abbreviation maxAggregatedEvents :: nat where "maxAggregatedEvents \<equiv> 100"
abbreviation maxAggregatedPullProgress :: nat where "maxAggregatedPullProgress \<equiv> 100"

text \<open>\<open>utils.ExtractTaskImages\<close>: sorted, so the order of its map does not matter.\<close>

definition ExtractTaskImages :: "polled_task \<Rightarrow> string list" where
  "ExtractTaskImages t =
     (case po_images t of
        None \<Rightarrow> []
      | Some i \<Rightarrow> sort (remdups (filter (\<lambda>s. s \<noteq> []) (ti_init i @ ti_containers i @ ti_ephemeral i))))"

definition observed_nodes :: "polled_task \<Rightarrow> string list" where
  "observed_nodes t = remdups (filter (\<lambda>n. n \<noteq> []) (po_observed_nodes t))"

type_synonym 'w get_node = "string \<Rightarrow> string \<Rightarrow> ('w, reporting_node) prog"

text \<open>One step over a Node: a Node that cannot be read is skipped.\<close>

definition with_node :: "'w get_node \<Rightarrow> string \<Rightarrow> ('b \<Rightarrow> reporting_node \<Rightarrow> 'b) \<Rightarrow> 'b \<Rightarrow> string \<Rightarrow> ('w, 'b) prog" where
  "with_node get ns f b name = seq (attempt (get ns name)) (\<lambda>r. ok (case r of Inl _ \<Rightarrow> b | Inr n \<Rightarrow> f b n))"

definition aggregatePullProgress :: "'w get_node \<Rightarrow> polled_task \<Rightarrow> ('w, pull_progress list) prog" where
  "aggregatePullProgress get t =
     (if po_observed_nodes t = [] then ok []
      else
        (let images = ExtractTaskImages t in
         if images = [] then ok []
         else
           seq (fold_prog (with_node get (po_namespace t) (\<lambda>acc n. acc @ filter (\<lambda>p. pp_image p \<in> set images) (rn_pull_progress n)))
                  [] (sort (observed_nodes t)))
             (\<lambda>all. ok (take maxAggregatedPullProgress (sort_key pp_image all)))))"

definition event_key :: "node_event \<Rightarrow> string \<times> string \<times> string" where
  "event_key e = (nv_object_kind e, nv_object_name e, nv_reason e)"

text \<open>The merge map, as the list of its entries in insertion order: the later event wins.\<close>

fun merge_event :: "node_event list \<Rightarrow> node_event \<Rightarrow> node_event list" where
  "merge_event [] e = [e]"
| "merge_event (old # m) e =
     (if event_key old = event_key e
      then (if nv_last_time e \<noteq> 0 \<and> (nv_last_time old = 0 \<or> nv_last_time e > nv_last_time old) then e else old) # m
      else old # merge_event m e)"

definition newest_first :: "node_event \<Rightarrow> int \<times> string" where
  "newest_first e = (- nv_last_time e, nv_reason e)"

text \<open>The comparison of \<open>sort.Slice\<close>, and a sort by it.\<close>

definition event_less :: "node_event \<Rightarrow> node_event \<Rightarrow> bool" where
  "event_less x y \<longleftrightarrow>
     (if nv_last_time x = nv_last_time y then nv_reason x < nv_reason y else nv_last_time x > nv_last_time y)"

fun insert_event :: "node_event \<Rightarrow> node_event list \<Rightarrow> node_event list" where
  "insert_event x [] = [x]"
| "insert_event x (y # ys) = (if event_less y x then y # insert_event x ys else x # y # ys)"

definition sort_events :: "node_event list \<Rightarrow> node_event list" where
  "sort_events xs = foldr insert_event xs []"

definition aggregateNodeEvents ::
    "'w get_node \<Rightarrow> (string list \<Rightarrow> string list) \<Rightarrow> (node_event list \<Rightarrow> node_event list) \<Rightarrow> polled_task \<Rightarrow> ('w, node_event list) prog" where
  "aggregateNodeEvents get node_order event_order t =
     (if po_observed_nodes t = [] then ok []
      else
        seq (fold_prog (with_node get (po_namespace t) (\<lambda>m n. foldl merge_event m (rn_events n))) [] (node_order (observed_nodes t)))
          (\<lambda>merged. ok (take maxAggregatedEvents (sort_events (event_order merged)))))"

definition pullProgressEqual :: "pull_progress list \<Rightarrow> pull_progress list \<Rightarrow> bool" where
  "pullProgressEqual a b \<longleftrightarrow> length a = length b \<and> list_all2 (=) a b"

definition nodeEventsEqual :: "node_event list \<Rightarrow> node_event list \<Rightarrow> bool" where
  "nodeEventsEqual a b \<longleftrightarrow> length a = length b \<and>
     list_all2 (\<lambda>x y. nv_last_time x = nv_last_time y \<and> nv_type x = nv_type y \<and> nv_reason x = nv_reason y \<and>
       nv_message x = nv_message y \<and> nv_source x = nv_source y \<and> nv_object_kind x = nv_object_kind y \<and>
       nv_object_name x = nv_object_name y \<and> nv_count x = nv_count y) a b"

record 'w task_poll_env =
  tp_get :: "string \<Rightarrow> string \<Rightarrow> ('w, polled_task) prog"
  tp_get_node :: "'w get_node"
  tp_patch_status :: "polled_task \<Rightarrow> polled_task \<Rightarrow> ('w, unit) prog" \<comment> \<open>before, after\<close>

definition poll_result :: "polled_task \<Rightarrow> int" where
  "poll_result t = (if po_phase t = PhasePending then pullProgressRequeueInterval else 0)"

definition poll_task ::
    "'w task_poll_env \<Rightarrow> (string list \<Rightarrow> string list) \<Rightarrow> (node_event list \<Rightarrow> node_event list) \<Rightarrow> polled_task \<Rightarrow> ('w, int) prog" where
  "poll_task env node_order event_order t =
     seq (if po_phase t = PhasePending then aggregatePullProgress (tp_get_node env) t else ok []) (\<lambda>progress.
     seq (if po_phase t = PhasePending then aggregateNodeEvents (tp_get_node env) node_order event_order t else ok []) (\<lambda>events.
     if pullProgressEqual (po_pull_progress t) progress \<and> nodeEventsEqual (po_events t) events then ok (poll_result t)
     else seq (tp_patch_status env t (t\<lparr>po_pull_progress := progress, po_events := events\<rparr>)) (\<lambda>_. ok (poll_result t))))"

definition task_Reconcile ::
    "'w task_poll_env \<Rightarrow> (string list \<Rightarrow> string list) \<Rightarrow> (node_event list \<Rightarrow> node_event list) \<Rightarrow> string \<Rightarrow> string \<Rightarrow> ('w, int) prog" where
  "task_Reconcile env node_order event_order ns name =
     seq (attempt (tp_get env ns name)) (\<lambda>r. case r of
       Inl e \<Rightarrow> (if is_not_found e then ok 0 else fail e)
     | Inr t \<Rightarrow> poll_task env node_order event_order t)"

section \<open>Merging\<close>

lemma merge_event_keys: "map event_key (merge_event m e) = (if event_key e \<in> event_key ` set m then map event_key m else map event_key m @ [event_key e])"
  by (induction m e rule: merge_event.induct) auto

text \<open>The time at which an event is newer, with the zero time before every other.\<close>

definition newer :: "node_event \<Rightarrow> node_event \<Rightarrow> bool" where
  "newer e old \<longleftrightarrow> nv_last_time e \<noteq> 0 \<and> (nv_last_time old = 0 \<or> nv_last_time e > nv_last_time old)"

text \<open>What holds of the merge of a list of events: one entry per key, of that list, and none newer.\<close>

definition merged_of :: "node_event list \<Rightarrow> node_event list \<Rightarrow> bool" where
  "merged_of es m \<longleftrightarrow> distinct (map event_key m) \<and> set m \<subseteq> set es \<and> event_key ` set m = event_key ` set es \<and>
     (\<forall>x \<in> set m. \<forall>e \<in> set es. event_key e = event_key x \<longrightarrow> \<not> newer e x)"

lemma merge_event_set:
  "distinct (map event_key m) \<Longrightarrow> x \<in> set (merge_event m e) \<Longrightarrow>
     x \<in> set m \<and> (event_key e = event_key x \<longrightarrow> \<not> newer e x) \<or>
     x = e \<and> (\<forall>old \<in> set m. event_key old = event_key e \<longrightarrow> newer e old)"
  by (induction m e rule: merge_event.induct) (auto simp: newer_def image_iff split: if_splits)

lemma merged_of_step: "merged_of es m \<Longrightarrow> merged_of (es @ [e]) (merge_event m e)"
proof -
  assume M: "merged_of es m"
  have cases: "x \<in> set m \<and> (event_key e = event_key x \<longrightarrow> \<not> newer e x) \<or>
      x = e \<and> (\<forall>old \<in> set m. event_key old = event_key e \<longrightarrow> newer e old)" if "x \<in> set (merge_event m e)" for x
    using merge_event_set [OF _ that] M by (simp add: merged_of_def)
  have keys: "event_key ` set (merge_event m e) = insert (event_key e) (event_key ` set m)"
  proof -
    have "set (map event_key (merge_event m e)) = insert (event_key e) (event_key ` set m)"
      by (simp only: merge_event_keys) auto
    then show ?thesis by simp
  qed
  have "\<not> newer f x" if x: "x \<in> set (merge_event m e)" and f: "f \<in> set (es @ [e])" "event_key f = event_key x" for x f
    using cases [OF x]
  proof
    assume "x \<in> set m \<and> (event_key e = event_key x \<longrightarrow> \<not> newer e x)"
    with f M show ?thesis by (auto simp: merged_of_def)
  next
    assume xe: "x = e \<and> (\<forall>old \<in> set m. event_key old = event_key e \<longrightarrow> newer e old)"
    show ?thesis
    proof (cases "f = e")
      case False
      with f have "f \<in> set es" by simp
      moreover have "event_key f \<in> event_key ` set m" using M \<open>f \<in> set es\<close> by (auto simp: merged_of_def)
      then obtain old where "old \<in> set m" "event_key old = event_key f" by (metis imageE)
      ultimately have "newer e old" "\<not> newer f old" using xe f(2) M by (simp_all add: merged_of_def)
      then show ?thesis using xe by (auto simp: newer_def)
    qed (use xe in \<open>simp add: newer_def\<close>)
  qed
  then show ?thesis
    using M keys cases merge_event_keys [of m e] by (fastforce simp: merged_of_def)
qed

lemma merged_of_all: "merged_of es m \<Longrightarrow> merged_of (es @ fs) (foldl merge_event m fs)"
proof (induction fs rule: rev_induct)
  case (snoc f fs)
  with merged_of_step [of "es @ fs" "foldl merge_event m fs" f] show ?case by simp
qed simp

text \<open>Nodes that are read from a fixed state.\<close>

definition node_reader :: "(string \<rightharpoonup> reporting_node) \<Rightarrow> 'w get_node" where
  "node_reader N ns name w = (case N name of None \<Rightarrow> Inl (ErrKube NotFound) | Some n \<Rightarrow> Inr n, w)"

definition events_on :: "(string \<rightharpoonup> reporting_node) \<Rightarrow> string list \<Rightarrow> node_event list" where
  "events_on N names = concat (map (\<lambda>name. case N name of None \<Rightarrow> [] | Some n \<Rightarrow> rn_events n) names)"

lemma collect_events:
  "fold_prog (with_node (node_reader N) ns (\<lambda>m n. foldl merge_event m (rn_events n))) m names w =
     (Inr (foldl merge_event m (events_on N names)), w)"
proof (induction names arbitrary: m)
  case (Cons name names)
  then show ?case
    by (simp add: seq_def with_node_def attempt_def ok_def node_reader_def events_on_def split: option.split)
qed (simp add: events_on_def ok_def)

section \<open>Sorting\<close>

lemma event_less_key: "event_less x y \<longleftrightarrow> newest_first x < newest_first y"
  by (auto simp: event_less_def newest_first_def)

lemma sort_events: "sort_events xs = sort_key newest_first xs"
proof -
  have "insert_event x ys = insort_key newest_first x ys" for x ys
    by (induction ys) (auto simp: event_less_key)
  then have "insert_event = insort_key newest_first" by (simp add: fun_eq_iff)
  then show ?thesis by (simp only: sort_events_def sort_key_def)
qed

section \<open>Properties\<close>

text \<open>
  C40. The events of a Pending Task: from the events of the Nodes it was seen on, in whatever order the
  maps are ranged over, the aggregation returns without an error at most 100 events, newest first and
  none of two about the same object and reason; each was reported by one of those Nodes, and none of
  them reports a newer one about the same object and reason; and when there are at most 100 such
  subjects, every one is covered.
\<close>

theorem node_events_latest:
  fixes node_order :: "string list \<Rightarrow> string list" and event_order :: "node_event list \<Rightarrow> node_event list"
  assumes "\<And>xs. mset (node_order xs) = mset xs" and "\<And>es. mset (event_order es) = mset es"
  shows "\<exists>evs. aggregateNodeEvents (node_reader N) node_order event_order t w = (Inr evs, w) \<and>
    length evs \<le> maxAggregatedEvents \<and> distinct (map event_key evs) \<and> sorted (map newest_first evs) \<and>
    set evs \<subseteq> set (events_on N (observed_nodes t)) \<and>
    (\<forall>x \<in> set evs. \<forall>e \<in> set (events_on N (observed_nodes t)). event_key e = event_key x \<longrightarrow> \<not> newer e x) \<and>
    (card (event_key ` set (events_on N (observed_nodes t))) \<le> maxAggregatedEvents \<longrightarrow>
       event_key ` set evs = event_key ` set (events_on N (observed_nodes t)))"
proof (cases "po_observed_nodes t = []")
  case True
  then show ?thesis by (simp add: aggregateNodeEvents_def ok_def observed_nodes_def events_on_def)
next
  case False
  let ?es = "events_on N (node_order (observed_nodes t))"
  let ?m = "foldl merge_event [] ?es"
  have nodes: "set (node_order xs) = set xs" for xs using assms(1) [of xs] by (rule mset_eq_setD)
  then have es: "set ?es = set (events_on N (observed_nodes t))" by (simp add: events_on_def)
  have M: "merged_of ?es ?m" using merged_of_all [of "[]" "[]" ?es] by (simp add: merged_of_def)
  have sorted: "mset (sort_key newest_first (event_order ?m)) = mset ?m" by (simp add: assms(2))
  let ?all = "sort_key newest_first (event_order ?m)"
  have set: "set ?all = set ?m" using sorted by (rule mset_eq_setD)
  have keys: "mset (map event_key ?all) = mset (map event_key ?m)" using sorted by (simp only: mset_map)
  have distinct: "distinct (map event_key ?all)" using mset_eq_imp_distinct_iff [OF keys] M by (simp add: merged_of_def)
  have len: "length ?all = card (event_key ` set ?es)"
    using distinct_card [OF distinct] M set by (simp add: merged_of_def)
  have run: "aggregateNodeEvents (node_reader N) node_order event_order t w = (Inr (take maxAggregatedEvents ?all), w)"
    using False by (simp add: aggregateNodeEvents_def seq_def collect_events ok_def sort_events)
  have part: "distinct (map event_key (take n ?all))" "sorted (map newest_first (take n ?all))" for n
    using distinct by (simp_all only: take_map [symmetric] distinct_take sorted_wrt_take sorted_sort_key)
  have sub: "set (take n ?all) \<subseteq> set ?m" for n using set_take_subset [of n ?all] set by simp
  have full: "event_key ` set (take maxAggregatedEvents ?all) = event_key ` set ?es"
    if "card (event_key ` set ?es) \<le> maxAggregatedEvents"
  proof -
    have "take maxAggregatedEvents ?all = ?all" using that unfolding len [symmetric] by (rule take_all)
    then show ?thesis using M by (simp only: set merged_of_def)
  qed
  have from_nodes: "set ?m \<subseteq> set ?es" and newest: "\<And>x e. x \<in> set ?m \<Longrightarrow> e \<in> set ?es \<Longrightarrow> event_key e = event_key x \<Longrightarrow> \<not> newer e x"
    using M unfolding merged_of_def by blast+
  show ?thesis
    unfolding es [symmetric]
  proof (intro exI [of _ "take maxAggregatedEvents ?all"] conjI ballI impI)
    show "set (take maxAggregatedEvents ?all) \<subseteq> set ?es" using sub from_nodes by blast
    show "\<not> newer e x" if "x \<in> set (take maxAggregatedEvents ?all)" "e \<in> set ?es" "event_key e = event_key x" for x e
      using newest [OF subsetD [OF sub that(1)] that(2,3)] .
  qed (simp_all only: run part full length_take min.cobounded2)
qed

definition demo_event :: "string \<Rightarrow> string \<Rightarrow> time \<Rightarrow> node_event" where
  "demo_event reason object time =
     \<lparr>nv_type = ''Warning'', nv_reason = reason, nv_message = [], nv_last_time = time, nv_count = 1,
      nv_source = ''kubelet'', nv_object_kind = ''Pod'', nv_object_name = object\<rparr>"

definition demo_poll :: polled_task where
  "demo_poll = \<lparr>po_namespace = ''edge'', po_images = None, po_phase = PhasePending, po_observed_nodes = [''n1'', ''n2'', ''n1''],
     po_pull_progress = [], po_events = []\<rparr>"

definition demo_nodes :: "string \<rightharpoonup> reporting_node" where
  "demo_nodes =
     [''n1'' \<mapsto> \<lparr>rn_pull_progress = [], rn_events = [demo_event ''BackOff'' ''a'' 7, demo_event ''Pulling'' ''a'' 9]\<rparr>,
      ''n2'' \<mapsto> \<lparr>rn_pull_progress = [], rn_events = [demo_event ''BackOff'' ''a'' 8, demo_event ''BackOff'' ''b'' 8]\<rparr>]"

theorem node_events_latest_witness:
  "\<exists>evs. aggregateNodeEvents (node_reader demo_nodes) rev rev demo_poll () = (Inr evs, ()) \<and>
    distinct (map event_key evs) \<and>
    evs = [demo_event ''Pulling'' ''a'' 9, demo_event ''BackOff'' ''b'' 8, demo_event ''BackOff'' ''a'' 8]"
proof -
  have "fst (aggregateNodeEvents (node_reader demo_nodes) rev rev demo_poll ()) =
      Inr [demo_event ''Pulling'' ''a'' 9, demo_event ''BackOff'' ''b'' 8, demo_event ''BackOff'' ''a'' 8]"
    by code_simp
  moreover have "\<exists>evs. aggregateNodeEvents (node_reader demo_nodes) rev rev demo_poll () = (Inr evs, ()) \<and> distinct (map event_key evs)"
    using node_events_latest [of rev rev demo_nodes demo_poll "()"] by auto
  ultimately show ?thesis by auto
qed

text \<open>A management API that counts status patches.\<close>

definition counting_env :: "(string \<rightharpoonup> reporting_node) \<Rightarrow> nat task_poll_env" where
  "counting_env N =
     \<lparr>tp_get = (\<lambda>_ _. fail (ErrKube NotFound)), tp_get_node = node_reader N, tp_patch_status = (\<lambda>_ _ n. (Inr (), Suc n))\<rparr>"

definition tied_nodes :: "string \<rightharpoonup> reporting_node" where
  "tied_nodes = [''n1'' \<mapsto> \<lparr>rn_pull_progress = [], rn_events = [demo_event ''BackOff'' ''a'' 8, demo_event ''BackOff'' ''b'' 8]\<rparr>]"

definition settled_poll :: polled_task where
  "settled_poll = demo_poll\<lparr>po_events := [demo_event ''BackOff'' ''a'' 8, demo_event ''BackOff'' ''b'' 8]\<rparr>"

text \<open>
  The order of the maps shows in the status: two events with the same time and reason about different
  objects come out in the order in which the merge map was ranged over, and \<open>nodeEventsEqual\<close> tells the
  two outcomes apart. So, with the Nodes unchanged, a run that draws the order in which the status was
  written patches nothing, and a run that draws the other order patches the status again.
\<close>

theorem node_events_order_dependent:
  "poll_task (counting_env tied_nodes) id id settled_poll 0 = (Inr pullProgressRequeueInterval, 0) \<and>
   poll_task (counting_env tied_nodes) id rev settled_poll 0 = (Inr pullProgressRequeueInterval, 1)"
  by code_simp

end
