(* ===== verification/Spec2Isabelle.thy ===== *)
theory Spec2Isabelle
  imports Toposort Job_Controller Workflow_Controller Host_Safety Trigger Domain_Reconcile Keyed_Locks Task_Controller
begin

text \<open>
  A verification development of the control plane of RLark: the controller manager and the
  execution core of the agent, under \<open>apps/rlark/pkg\<close> of the repository (paths below are relative
  to it; the resource types are those of \<open>api/rlark.io/v1alpha1\<close>).

  \<^bold>\<open>The program.\<close> A Workflow is a graph of Jobs, a Job is a list of Tasks, and a Task is a workload
  that the agent of one Cluster runs. The management API server holds all of them. The controller
  manager (\<open>controllermanager\<close>) reconciles each resource: the Workflow controller creates Jobs
  when their dependencies have succeeded, the Job controller creates, updates, prunes and stops
  Tasks, both through one generic reconciler and one state machine library; the Cluster, Node
  and Task controllers derive availability, drain Clusters and aggregate pull progress and events;
  the Domain controller gives the Pods of a Domain their addresses and the peers their
  certificates. In the agent, the Task host (\<open>agent/execution/host\<close>) claims a Task, merges status
  intents, runs the lifecycle hooks and gives the Task to the coordinator
  (\<open>agent/execution/coordination\<close>), which selects a Runtime, evaluates a plan, compares it with what
  the Runtime has and performs the difference. Hints about changed objects go through the trigger
  accumulator; the evidence of a hint decides whether a targeted observation is enough.

  \<^bold>\<open>How code is modelled.\<close> A Go function that may return an error or change the outside is a program of
  type \<open>('s, 'a) prog\<close> (theory \<open>Prelude\<close>): it maps a state to an error or a value and to the
  new state, so what was written before an error is kept. Errors are the values of \<open>go_error\<close> with
  the chain of \<open>%w\<close>; a run-time panic (nil pointer, index, write to a nil map) is an error too and
  several properties exclude it. \<open>seq\<close>, \<open>attempt\<close>, \<open>wrap\<close>, \<open>on_err\<close>, \<open>fold_prog\<close> are sequencing,
  the test of \<open>err\<close>, \<open>fmt.Errorf\<close> and a \<open>for range\<close> with early return. \<open>wp\<close> and \<open>keeps\<close> are the
  weakest precondition of a program and the statement that it keeps an invariant of the world. A
  struct is a record, a nil slice or map is told from an empty one (\<open>go_slice\<close>, \<open>go_map\<close>), fixed
  width integers are words or carry their wrap-around, and times are nanoseconds as integers.

  \<^bold>\<open>What is a parameter.\<close> Each controller has a record of the collaborators that are not code of the
  repository: the Kubernetes client, \<open>SetControllerReference\<close>, the condition helpers, the state
  machine library and the clock, over an abstract world of any type. Further parameters are the order
  of a range over a map, the text form of addresses, JSON bytes, digests, the check of stored
  certificates and the Runtime and workload plug-ins. What a property relies on is a hypothesis by
  name: for example \<open>task_client_for\<close>, \<open>job_env_owned\<close>, \<open>wf_env_owned\<close>, \<open>fsm_documented\<close>,
  \<open>cond_documented\<close>, \<open>cond_settles\<close>. Each is shown to be satisfiable by a small server (\<open>Api_Sim\<close>,
  \<open>st_env\<close>, \<open>read_only_nodes\<close> and others), on which the witnesses run the model.

  \<^bold>\<open>Theories of the controller manager.\<close>
  \<^item> \<open>Api_Types\<close>: object metadata, Task, Job and Workflow resources, finalizers, annotations.
  \<^item> \<open>Ownership\<close> (\<open>utils/children.go\<close>, \<open>tenant\<close>): who owns a child, adoption and pruning, tenants.
  \<^item> \<open>Params\<close> (\<open>agent/controllers/task/api\<close>): parameter contracts and their strict decoding.
  \<^item> \<open>Phases\<close>, \<open>Status_Index\<close> (\<open>utils/phase.go\<close>, \<open>status.go\<close>): summaries of child phases and the
    list of status entries with its index of pointers.
  \<^item> \<open>Fsm\<close>, \<open>Steps\<close>, \<open>Reconcile\<close> (\<open>controller/base.go\<close>): the state machine library as an interface, the
    rules for a machine that runs over the object in memory and the world, and the generic
    reconciler with its contract as the locale \<open>reconciler\<close>.
  \<^item> \<open>Job_Build\<close>, \<open>Job_Tasks\<close>, \<open>Job_Machine\<close>, \<open>Job_Controller\<close> (\<open>job/build.go\<close>, \<open>sync.go\<close>,
    \<open>statemachine.go\<close>, \<open>job_controller.go\<close>): the Task a template stands for and its check; the
    operations on Tasks; events, observation and dispatch; the request loop with the finalizer.
  \<^item> \<open>Dag\<close>, \<open>Workflow_Jobs\<close>, \<open>Workflow_Machine\<close>, \<open>Workflow_Steps\<close>, \<open>Workflow_Controller\<close>
    (\<open>workflow\<close>): the same for Workflows, with the in-degree counters of the dependency graph.
  \<^item> \<open>Cluster_Controller\<close>, \<open>Cluster_Safety\<close>, \<open>Node_Controller\<close>, \<open>Task_Controller\<close> (\<open>cluster\<close>,
    \<open>node\<close>, \<open>task\<close>): availability from Leases, drain and its undoing, backoff and deadline,
    deletion, connectivity of Nodes, pull progress and events.
  \<^item> \<open>IP_Pool\<close>, \<open>Domain_Controller\<close>, \<open>Domain_Safety\<close>, \<open>Domain_Reconcile\<close> (\<open>domain\<close>): the address
    pool on machine words, allocation, peers and the request loop.

  \<^bold>\<open>Theories of the agent.\<close>
  \<^item> \<open>Exec_Types\<close> (\<open>plan\<close>, \<open>runtime\<close>, \<open>workload\<close>, \<open>process\<close>, \<open>fault\<close>): the data model.
  \<^item> \<open>Kahn\<close>, \<open>Toposort\<close>, \<open>Object_Graph\<close> (\<open>utils/topo.go\<close>, \<open>runtime/plan.go\<close>): the work-list loop, and
    the validation and order of the objects of a plan.
  \<^item> \<open>Environment\<close> (\<open>environment\<close>, \<open>binding\<close>): targets, consumers, handlers and their order.
  \<^item> \<open>Evidence\<close>, \<open>Trigger\<close> (\<open>evidence\<close>, \<open>trigger\<close>): revisions, the decision, the accumulator.
  \<^item> \<open>Exec_Diff\<close>, \<open>Coordinator\<close>, \<open>Coordinator_Safety\<close> (\<open>coordination\<close>): the difference of a plan and a
    snapshot, evaluation, reconciliation and clean-up.
  \<^item> \<open>Host\<close>, \<open>Host_Reconcile\<close>, \<open>Host_Claims\<close>, \<open>Host_Safety\<close>, \<open>Keyed_Locks\<close> (\<open>host\<close>): claims and
    their JSON patches, status intents, the run of one Task, and the lock per Task.

  \<^bold>\<open>What the lemmas show.\<close>
  \<^item> Safety of effects: every write is one the component may make. For Jobs and Workflows the licence
    of an update or a deletion is the identity of an object that a read showed as the parent's own, so
    it cannot be obtained by stamping a foreign object before it is sent; for the host it is the
    claim; for the coordinator the evaluated operations; for Domains distinct addresses.
  \<^item> Order and waiting: dependencies of Jobs, of objects and of handlers; clean-up finalizers that are
    held while children remain; claims released only after clean-up; mutual exclusion by key.
  \<^item> Exact functional behaviour: classification, dispatch, drain, backoff, allocation, decisions,
    merging, conditions and status writes, on the error branches too, and absence of panics.
  \<^item> Convergence and round trips: a second run over unchanged input writes nothing or computes the
    same; claiming and releasing, draining and cancelling give the object back.

  \<^bold>\<open>Termination.\<close> Loops over finite data are structural recursions or functions with a measure. The scan
  for a free address and the work lists are partial functions whose result \<open>None\<close> would be a loop
  that does not return; that they return is proved for the pool, for the topological sort, for the order of
  the objects of a plan and for the order of handlers. There is no fuel. The drain backoff doubles until
  its limit by a measure on the distance to it.

  \<^bold>\<open>What is not modelled.\<close> The gateway, the server and its tunnels (\<open>server\<close>, \<open>remotedialer\<close>, \<open>network\<close>,
  \<open>jumper\<close>, \<open>terminalrelay\<close>): network input and output. \<open>rlarkadm\<close>, \<open>rlarkctl\<close>, \<open>rlarktools\<close>:
  command-line programs around installation and processes; of these only the topological sort is
  shared. \<open>db\<close>, \<open>persistence\<close>, archive and replication: SQL and copies of objects. The Kubernetes
  Runtime provider and workload adapters of the agent, image pulling, containers and node events:
  they appear as parameters of the coordinator and the host. The gRPC transports, observability,
  logging and metrics. Generated code (clients, deep copies, protocol buffers). Of the modelled
  controllers the registration of watches is left out, except for the functions and predicates it
  passes on. Caches are modelled as reads of any value that the hypotheses allow, \<open>sort.Slice\<close> as a
  stable sort, and times without the rounding to seconds of the stored form.
\<close>

end
